(* ===== verification/Prelude.thy ===== *)
theory Prelude
  imports Main "HOL-Library.Word" "HOL-Library.State_Monad"
begin

text \<open>
  Shared vocabulary of the development: the machine types of the Go sources, the shape of
  fallible results, a small calculus for code that threads a state, and the generic facts
  on bytes, words and lists that several components use.

  \<^item> \<open>byte\<close> and \<open>u64\<close> are Go's \<open>byte\<close> and \<open>uint64\<close>; arithmetic on them wraps.
  \<^item> Go's \<open>int\<close>, \<open>int64\<close> and \<open>time.Duration\<close> values are \<open>int\<close>; where a wrap-around at 64 bits
    is observable, \<open>wrap64\<close> is written out.
  \<^item> an instant (\<open>time.Time\<close>, \<open>timestamptz\<close>) is an \<open>int\<close> number of nanoseconds.
  \<^item> a Go function returning \<open>(T, error)\<close> returns \<open>err + T\<close>, with \<open>Inl\<close> for the error.
  \<^item> stateful code is a \<open>State_Monad\<close> computation.
\<close>

unbundle bit_operations_syntax

section \<open>Machine types\<close>

type_synonym byte = "8 word"
type_synonym bytes = "byte list"
type_synonym u64 = "64 word"
type_synonym time = int
type_synonym duration = int

text \<open>The conversion to \<open>int64\<close>, and signed 64-bit wrap-around.\<close>

definition wrap64 :: "int \<Rightarrow> int" where
  "wrap64 i = (i + 2 ^ 63) mod 2 ^ 64 - 2 ^ 63"

definition int64_of_u64 :: "u64 \<Rightarrow> int" where
  "int64_of_u64 w = sint w"

definition u64_of_int :: "int \<Rightarrow> u64" where
  "u64_of_int i = word_of_int i"

text \<open>\<open>time.Second\<close>, \<open>time.Minute\<close>, \<open>time.Hour\<close> in nanoseconds.\<close>

definition Second :: duration where "Second = 1000000000"
definition Minute :: duration where "Minute = 60 * Second"
definition Hour :: duration where "Hour = 60 * Minute"

text \<open>\<open>time.Time.Sub\<close> saturates at the range of a \<open>time.Duration\<close>.\<close>

definition time_Sub :: "time \<Rightarrow> time \<Rightarrow> duration" where
  "time_Sub a b = max (- (2 ^ 63)) (min (2 ^ 63 - 1) (a - b))"

section \<open>Fallible results\<close>

text \<open>\<open>if err != nil { return err }\<close>: go on with the value, or return the error.\<close>

definition and_then :: "'e + 'a \<Rightarrow> ('a \<Rightarrow> 'e + 'b) \<Rightarrow> 'e + 'b" where
  "and_then r f = (case r of Inl e \<Rightarrow> Inl e | Inr x \<Rightarrow> f x)"

lemma and_then_simps [simp]: "and_then (Inl e) f = Inl e" "and_then (Inr x) f = f x"
  by (simp_all add: and_then_def)

lemma and_then_Inr: "and_then r f = Inr y \<longleftrightarrow> (\<exists>x. r = Inr x \<and> f x = Inr y)"
  by (cases r) auto

section \<open>Computations over a state\<close>

abbreviation ret :: "'a \<Rightarrow> ('s, 'a) state" where
  "ret \<equiv> State_Monad.return"

abbreviation result :: "('s, 'a) state \<Rightarrow> 's \<Rightarrow> 'a" where
  "result m s \<equiv> fst (run_state m s)"

abbreviation after :: "('s, 'a) state \<Rightarrow> 's \<Rightarrow> 's" where
  "after m s \<equiv> snd (run_state m s)"

text \<open>
  \<open>moves R m\<close>: every run of \<open>m\<close> takes the state along \<open>R\<close>, whatever it returns. With a
  reflexive and transitive \<open>R\<close> this is proved by walking over the syntax of \<open>m\<close>; an
  invariant \<open>I\<close> is the case \<open>R = kept I\<close>.
\<close>

definition moves :: "('s \<Rightarrow> 's \<Rightarrow> bool) \<Rightarrow> ('s, 'a) state \<Rightarrow> bool" where
  "moves R m \<longleftrightarrow> (\<forall>s. R s (after m s))"

definition kept :: "('s \<Rightarrow> bool) \<Rightarrow> 's \<Rightarrow> 's \<Rightarrow> bool" where
  "kept I s t \<longleftrightarrow> (I s \<longrightarrow> I t)"

text \<open>A loop \<open>for _, x := range xs { ... }\<close> whose body may return early with a value.\<close>

fun for_each :: "('a \<Rightarrow> ('s, 'e option) state) \<Rightarrow> 'a list \<Rightarrow> ('s, 'e option) state" where
  "for_each f [] = ret None"
| "for_each f (x # xs) = do {
     r \<leftarrow> f x;
     (case r of Some e \<Rightarrow> ret (Some e) | None \<Rightarrow> for_each f xs)
   }"

named_theorems moves_rules \<open>syntax-directed rules for moves\<close>

lemma movesI: "(\<And>s. R s (after m s)) \<Longrightarrow> moves R m"
  by (simp add: moves_def)

lemma movesD: "moves R m \<Longrightarrow> R s (after m s)"
  by (simp add: moves_def)

lemma moves_ret [moves_rules]: "reflp R \<Longrightarrow> moves R (ret x)"
  by (simp add: moves_def reflpD)

lemma moves_bind [moves_rules]:
  assumes "transp R" "moves R m" "\<And>x. moves R (f x)"
  shows "moves R (State_Monad.bind m f)"
proof (rule movesI)
  fix s
  obtain x t where m: "run_state m s = (x, t)" by fastforce
  have "R s t" using movesD[OF assms(2), of s] m by simp
  moreover have "R t (after (f x) t)" using assms(3) by (rule movesD)
  ultimately show "R s (after (State_Monad.bind m f) s)"
    using m transpD[OF assms(1)] by simp
qed

lemma moves_if [moves_rules]: "moves R m \<Longrightarrow> moves R n \<Longrightarrow> moves R (if b then m else n)"
  by simp

lemma moves_case_sum [moves_rules]:
  "(\<And>e. moves R (f e)) \<Longrightarrow> (\<And>x. moves R (g x)) \<Longrightarrow> moves R (case r of Inl e \<Rightarrow> f e | Inr x \<Rightarrow> g x)"
  by (cases r) auto

lemma moves_case_option [moves_rules]:
  "moves R f \<Longrightarrow> (\<And>x. moves R (g x)) \<Longrightarrow> moves R (case r of None \<Rightarrow> f | Some x \<Rightarrow> g x)"
  by (cases r) auto

lemma moves_case_prod [moves_rules]:
  "(\<And>x y. moves R (f x y)) \<Longrightarrow> moves R (case r of (x, y) \<Rightarrow> f x y)"
  by (cases r) auto

lemma moves_let [moves_rules]: "(\<And>x. moves R (f x)) \<Longrightarrow> moves R (let x = a in f x)"
  by (simp add: Let_def)

lemma moves_for_each [moves_rules]:
  assumes "reflp R" "transp R" "\<And>x. moves R (f x)"
  shows "moves R (for_each f xs)"
proof (induction xs)
  case Nil
  show ?case using assms(1) by (simp add: moves_ret)
next
  case (Cons x xs)
  show ?case
    unfolding for_each.simps
    by (intro moves_bind moves_case_option moves_ret assms Cons.IH)
qed

lemma moves_mono: "moves R m \<Longrightarrow> (\<And>s t. R s t \<Longrightarrow> S s t) \<Longrightarrow> moves S m"
  by (simp add: moves_def)

lemma reflp_kept [moves_rules]: "reflp (kept I)"
  by (simp add: reflp_def kept_def)

lemma transp_kept [moves_rules]: "transp (kept I)"
  by (simp add: transp_def kept_def)

lemma keptI: "(\<And>s. I s \<Longrightarrow> I (after m s)) \<Longrightarrow> moves (kept I) m"
  by (simp add: moves_def kept_def)

lemma keptD: "moves (kept I) m \<Longrightarrow> I s \<Longrightarrow> I (after m s)"
  by (simp add: moves_def kept_def)

section \<open>Bytes and words\<close>

lemma exp_minus_one_mask: "2 ^ n - 1 = (mask n :: 'a::len word)"
  by (simp add: mask_eq_exp_minus_1)

lemma byte_mask_8 [simp]: "(mask 8 :: byte) = -1"
  by (simp add: mask_eq_exp_minus_1)

lemma le_mask_take_bit:
  fixes v :: "'a::len word"
  assumes "v \<le> mask n"
  shows "take_bit n v = v"
proof -
  have "unat (mask n :: 'a word) = take_bit n (unat (-1 :: 'a word))"
    by (metis take_bit_minus_one_eq_mask unsigned_take_bit_eq)
  then have "unat v < 2 ^ n"
    using assms by (metis le_less_trans take_bit_nat_less_exp word_le_nat_alt)
  then show ?thesis
    by (simp add: word_unat_eq_iff unsigned_take_bit_eq take_bit_nat_eq_self)
qed

lemma unat_mult_of_nat_no_wrap:
  fixes w :: "'a::len word"
  assumes "unat w * n < 2 ^ LENGTH('a)"
  shows "unat (w * of_nat n) = unat w * n"
proof (cases "w = 0")
  case False
  then have "n < 2 ^ LENGTH('a)"
    using assms by (metis One_nat_def Suc_leI le_less_trans mult_le_mono1 nat_mult_1 unat_gt_0)
  then show ?thesis
    using assms by (simp add: unat_word_ariths unat_of_nat take_bit_nat_eq_self mod_less)
qed simp

lemma of_nat_index:
  fixes w :: "'a::len word"
  assumes "i < unat w"
  shows "unat (of_nat i :: 'a word) = i" "(of_nat i :: 'a word) < w"
proof -
  have "i < 2 ^ LENGTH('a)" using assms unsigned_less[of w] by (rule less_trans)
  then show "unat (of_nat i :: 'a word) = i" by (simp add: unat_of_nat)
  then show "(of_nat i :: 'a word) < w" using assms by (simp add: word_less_nat_alt)
qed

section \<open>Lists\<close>

lemma nth_list_update_if:
  "i < length xs \<Longrightarrow> xs[i := x] ! j = (if i = j then x else xs ! j)"
  by (simp add: nth_list_update)

lemma find_SomeD: "find P xs = Some x \<Longrightarrow> x \<in> set xs \<and> P x"
  by (auto simp: find_Some_iff in_set_conv_nth)

lemma distinct_map_upd:
  assumes "\<And>x. k (f x) = k x"
  shows "distinct (map (k \<circ> (\<lambda>x. if P x then f x else x)) xs) = distinct (map k xs)"
proof -
  have "map (k \<circ> (\<lambda>x. if P x then f x else x)) xs = map k xs" using assms by simp
  then show ?thesis by metis
qed

end
