(* ===== verification/Status_Array.thy ===== *)
theory Status_Array
  imports Prelude
begin

text \<open>
  The contract a status array offers its clients, whatever holds the bytes: reading back the
  last value written at an index, and no write disturbing another index. The in-memory
  \<open>Bitmap\<close> and the Redis value maintained by the Lua script both implement it; what follows
  for sequences of writes is proved here once.
\<close>

fun run_writes :: "('b \<Rightarrow> nat \<Rightarrow> byte \<Rightarrow> 'b) \<Rightarrow> 'b \<Rightarrow> (nat \<times> byte) list \<Rightarrow> 'b" where
  "run_writes wr b [] = b"
| "run_writes wr b ((i, v) # ws) = run_writes wr (wr b i v) ws"

text \<open>The value a sequence of writes leaves at an index that held \<open>d\<close> before it.\<close>

fun last_write :: "(nat \<times> byte) list \<Rightarrow> nat \<Rightarrow> byte \<Rightarrow> byte" where
  "last_write [] i d = d"
| "last_write ((j, v) # ws) i d = last_write ws i (if j = i then v else d)"

lemma last_write_unwritten: "i \<notin> fst ` set ws \<Longrightarrow> last_write ws i d = d"
  by (induction ws arbitrary: d) auto

lemma last_write_append: "last_write (us @ ws) i d = last_write ws i (last_write us i d)"
  by (induction us arbitrary: d) auto

locale status_array =
  fixes inv :: "'b \<Rightarrow> bool"
    and cap :: "'b \<Rightarrow> nat"
    and fits :: "'b \<Rightarrow> byte \<Rightarrow> bool"
    and rd :: "'b \<Rightarrow> nat \<Rightarrow> byte"
    and wr :: "'b \<Rightarrow> nat \<Rightarrow> byte \<Rightarrow> 'b"
  assumes inv_wr: "inv b \<Longrightarrow> i < cap b \<Longrightarrow> fits b v \<Longrightarrow> inv (wr b i v)"
    and cap_wr: "inv b \<Longrightarrow> i < cap b \<Longrightarrow> fits b v \<Longrightarrow> cap (wr b i v) = cap b"
    and fits_wr: "inv b \<Longrightarrow> i < cap b \<Longrightarrow> fits b v \<Longrightarrow> fits (wr b i v) u = fits b u"
    and rd_wr_same: "inv b \<Longrightarrow> i < cap b \<Longrightarrow> fits b v \<Longrightarrow> rd (wr b i v) i = v"
    and rd_wr_other: "inv b \<Longrightarrow> i < cap b \<Longrightarrow> fits b v \<Longrightarrow> j < cap b \<Longrightarrow> j \<noteq> i
      \<Longrightarrow> rd (wr b i v) j = rd b j"
begin

lemmas wr_laws = inv_wr cap_wr fits_wr rd_wr_same rd_wr_other

lemma run_writes_inv:
  assumes "inv b" "\<forall>(i, v) \<in> set ws. i < cap b \<and> fits b v"
  shows "inv (run_writes wr b ws)"
  using assms by (induction ws arbitrary: b) (auto simp: wr_laws)

lemma run_writes_last_wins:
  assumes "inv b" "\<forall>(i, v) \<in> set ws. i < cap b \<and> fits b v" "j < cap b"
  shows "rd (run_writes wr b ws) j = last_write ws j (rd b j)"
  using assms
proof (induction ws arbitrary: b)
  case (Cons w ws)
  obtain i v where w: "w = (i, v)" by fastforce
  with Cons.prems have iv: "i < cap b" "fits b v" by auto
  have "\<forall>(i', v') \<in> set ws. i' < cap (wr b i v) \<and> fits (wr b i v) v'"
    using Cons.prems iv by (auto simp: wr_laws)
  then have "rd (run_writes wr (wr b i v) ws) j = last_write ws j (rd (wr b i v) j)"
    using Cons.prems(1,3) iv by (intro Cons.IH) (auto simp: wr_laws)
  also have "rd (wr b i v) j = (if i = j then v else rd b j)"
    using Cons.prems(1,3) iv by (auto simp: wr_laws)
  finally show ?case by (simp add: w)
qed simp

text \<open>Writes at different indices commute, as far as any reader can tell.\<close>

lemma wr_commute:
  assumes "inv b" "i < cap b" "j < cap b" "fits b u" "fits b v" "i \<noteq> j" "k < cap b"
  shows "rd (wr (wr b i u) j v) k = rd (wr (wr b j v) i u) k"
  using assms by (cases "k = i"; cases "k = j") (simp_all add: wr_laws)

end

end
