(* ===== verification/Bitmap.thy ===== *)
theory Bitmap
  imports Status_Array
begin

text \<open>
  The packed status bitmap of \<open>src/internal/statuslist/bitmap.go\<close>: entries of 1, 2, 4 or 8
  bits, packed from the least significant bit of byte 0 upwards. Every index expression is
  computed in 64-bit wrapping arithmetic, as in the source; a slice access outside the slice
  is the error \<open>IndexPanic\<close>, which \<open>wf_bitmap\<close> rules out.
\<close>

section \<open>Definitions\<close>

abbreviation (input) StatusValid :: byte where "StatusValid \<equiv> 0x00"
abbreviation (input) StatusInvalid :: byte where "StatusInvalid \<equiv> 0x01"
abbreviation (input) StatusSuspended :: byte where "StatusSuspended \<equiv> 0x02"

datatype bitmap_error =
    InvalidBitWidth int
  | SizeZero
  | WrongLength nat u64
  | IndexOutOfRange u64 u64
  | StatusDoesNotFit byte int
  | IndexPanic

definition ValidBitWidth :: "int \<Rightarrow> bool" where
  "ValidBitWidth bits \<longleftrightarrow> bits = 1 \<or> bits = 2 \<or> bits = 4 \<or> bits = 8"

record Bitmap =
  bm_bits :: int
  bm_size :: u64
  bm_data :: bytes

text \<open>The byte count \<open>(size*uint64(bits) + 7) / 8\<close>, computed at every place that needs it.\<close>

definition byte_len :: "u64 \<Rightarrow> int \<Rightarrow> u64" where
  "byte_len sz bits = (sz * u64_of_int bits + 7) div 8"

definition NewBitmap :: "u64 \<Rightarrow> int \<Rightarrow> bitmap_error + Bitmap" where
  "NewBitmap sz bits =
     (if \<not> ValidBitWidth bits then Inl (InvalidBitWidth bits)
      else if sz = 0 then Inl SizeZero
      else let nBytes = byte_len sz bits
           in Inr \<lparr>bm_bits = bits, bm_size = sz, bm_data = replicate (unat nBytes) 0\<rparr>)"

definition WrapBitmap :: "bytes \<Rightarrow> u64 \<Rightarrow> int \<Rightarrow> bitmap_error + Bitmap" where
  "WrapBitmap data sz bits =
     (if \<not> ValidBitWidth bits then Inl (InvalidBitWidth bits)
      else let want = byte_len sz bits
           in if of_nat (length data) \<noteq> want then Inl (WrongLength (length data) want)
              else Inr \<lparr>bm_bits = bits, bm_size = sz, bm_data = data\<rparr>)"

definition Bytes :: "Bitmap \<Rightarrow> bytes" where "Bytes b = bm_data b"
definition Bits :: "Bitmap \<Rightarrow> int" where "Bits b = bm_bits b"
definition Size :: "Bitmap \<Rightarrow> u64" where "Size b = bm_size b"

definition ByteOffset :: "u64 \<Rightarrow> int \<Rightarrow> u64 \<times> u64" where
  "ByteOffset idx bits = (idx * u64_of_int bits div 8, (idx * u64_of_int bits) mod 8)"

definition Set :: "Bitmap \<Rightarrow> u64 \<Rightarrow> byte \<Rightarrow> bitmap_error + Bitmap" where
  "Set b idx status =
     (if bm_size b \<le> idx then Inl (IndexOutOfRange idx (bm_size b))
      else let msk = push_bit (nat (bm_bits b)) 1 - 1 in
        if msk < status then Inl (StatusDoesNotFit status (bm_bits b))
        else let (byteIndex, bitOffset) = ByteOffset idx (bm_bits b) in
          if length (bm_data b) \<le> unat byteIndex then Inl IndexPanic
          else Inr (b\<lparr>bm_data := (bm_data b)[unat byteIndex :=
                 (bm_data b ! unat byteIndex AND NOT (push_bit (unat bitOffset) msk))
                 OR push_bit (unat bitOffset) status]\<rparr>))"

definition Get :: "Bitmap \<Rightarrow> u64 \<Rightarrow> bitmap_error + byte" where
  "Get b idx =
     (if bm_size b \<le> idx then Inl (IndexOutOfRange idx (bm_size b))
      else let msk = push_bit (nat (bm_bits b)) 1 - 1;
               (byteIndex, bitOffset) = ByteOffset idx (bm_bits b)
        in if length (bm_data b) \<le> unat byteIndex then Inl IndexPanic
           else Inr (drop_bit (unat bitOffset) (bm_data b ! unat byteIndex) AND msk))"

text \<open>
  The invariant of a \<open>Bitmap\<close>: a legal width, a bit count that does not wrap, and exactly
  the bytes that hold it.
\<close>

definition wf_bitmap :: "Bitmap \<Rightarrow> bool" where
  "wf_bitmap b \<longleftrightarrow> ValidBitWidth (bm_bits b)
     \<and> unat (bm_size b) * nat (bm_bits b) + 7 < 2 ^ 64
     \<and> length (bm_data b) = (unat (bm_size b) * nat (bm_bits b) + 7) div 8"

text \<open>
  The layout of draft-ietf-oauth-status-list section 4.1, bit by bit: bit \<open>p\<close> of the list is
  bit \<open>p mod 8\<close> (from the least significant one) of byte \<open>p div 8\<close>, and bit \<open>k\<close> of entry \<open>i\<close>
  is bit \<open>i * bits + k\<close> of the list.
\<close>

definition stream_bit :: "bytes \<Rightarrow> nat \<Rightarrow> bool" where
  "stream_bit d p = bit (d ! (p div 8)) (p mod 8)"

section \<open>Bytes as sequences of fields\<close>

definition put_field :: "nat \<Rightarrow> nat \<Rightarrow> byte \<Rightarrow> byte \<Rightarrow> byte" where
  "put_field off n v b = (b AND NOT (push_bit off (mask n))) OR push_bit off v"

definition get_field :: "nat \<Rightarrow> nat \<Rightarrow> byte \<Rightarrow> byte" where
  "get_field off n b = drop_bit off b AND mask n"

lemma bit_get_field [simp]: "bit (get_field off n b) k \<longleftrightarrow> k < n \<and> bit b (off + k)"
  by (auto simp: get_field_def bit_and_iff bit_drop_bit_eq bit_mask_iff dest: bit_imp_le_length)

lemma bit_put_field:
  assumes "off + n \<le> 8" "v \<le> mask n"
  shows "bit (put_field off n v b) k \<longleftrightarrow> (if off \<le> k \<and> k < off + n then bit v (k - off) else bit b k)"
proof -
  have v: "k' < n" if "bit v k'" for k'
  proof (rule ccontr)
    assume "\<not> k' < n"
    moreover have "take_bit n v = v"
      using assms(2) by (rule le_mask_take_bit)
    ultimately show False
      using that by (metis bit_take_bit_iff)
  qed
  show ?thesis
    using assms(1) v[of "k - off"]
    by (auto simp: put_field_def bit_or_iff bit_and_iff bit_not_iff bit_push_bit_iff bit_mask_iff
        dest: bit_imp_le_length)
qed


lemma get_put_field_same:
  assumes "off + n \<le> 8" "v \<le> mask n"
  shows "get_field off n (put_field off n v b) = v"
proof (rule bit_eqI)
  fix k
  show "bit (get_field off n (put_field off n v b)) k = bit v k"
    using assms le_mask_take_bit[OF assms(2)]
    by (auto simp: bit_put_field dest: bit_imp_le_length) (metis bit_take_bit_iff)
qed

lemma get_put_field_other:
  assumes "off + n \<le> 8" "v \<le> mask n" "off + n \<le> off' \<or> off' + n' \<le> off"
  shows "get_field off' n' (put_field off n v b) = get_field off' n' b"
  by (rule bit_eqI) (use assms in \<open>auto simp: bit_put_field\<close>)

lemma get_field_le_mask: "get_field off n b \<le> mask n"
  by (simp add: get_field_def word_and_le1)

lemma get_field_zero [simp]: "get_field off n 0 = 0"
  by (simp add: get_field_def)

section \<open>Where an entry lives\<close>

text \<open>For a legal width a field is aligned inside one byte, so no carry is ever needed.\<close>

lemma ValidBitWidth_cases:
  assumes "ValidBitWidth bits"
  obtains "bits = 1" | "bits = 2" | "bits = 4" | "bits = 8"
  using assms by (auto simp: ValidBitWidth_def)

lemma ValidBitWidth_nat:
  "ValidBitWidth bits \<Longrightarrow> 0 < nat bits \<and> nat bits \<le> 8 \<and> nat bits dvd 8 \<and> int (nat bits) = bits"
  by (auto simp: ValidBitWidth_def)

lemma u64_of_int_width: "ValidBitWidth bits \<Longrightarrow> u64_of_int bits = of_nat (nat bits)"
  by (auto simp: u64_of_int_def ValidBitWidth_def)

lemma field_in_byte:
  assumes "ValidBitWidth bits"
  shows "(i * nat bits) mod 8 + nat bits \<le> 8"
  using assms by (auto simp: ValidBitWidth_def; presburger)

lemma ByteOffset_nat:
  assumes "ValidBitWidth bits" "unat idx * nat bits < 2 ^ 64"
  shows "unat (fst (ByteOffset idx bits)) = unat idx * nat bits div 8"
    "unat (snd (ByteOffset idx bits)) = unat idx * nat bits mod 8"
proof -
  have "unat (idx * u64_of_int bits) = unat idx * nat bits"
    using assms by (simp add: u64_of_int_width unat_mult_of_nat_no_wrap)
  then show "unat (fst (ByteOffset idx bits)) = unat idx * nat bits div 8"
    "unat (snd (ByteOffset idx bits)) = unat idx * nat bits mod 8"
    by (simp_all add: ByteOffset_def unat_div unat_mod)
qed

lemma byte_len_nat:
  assumes "ValidBitWidth bits" "unat sz * nat bits + 7 < 2 ^ 64"
  shows "unat (byte_len sz bits) = (unat sz * nat bits + 7) div 8"
proof -
  have m: "unat (sz * u64_of_int bits) = unat sz * nat bits"
    using assms by (simp add: u64_of_int_width unat_mult_of_nat_no_wrap)
  have "unat (sz * u64_of_int bits + 7) = unat sz * nat bits + 7"
    using assms(2) m by (simp add: unat_word_ariths)
  then show ?thesis by (simp add: byte_len_def unat_div)
qed

lemma entry_byte_in_range:
  assumes "ValidBitWidth bits" "i < n"
  shows "i * nat bits div 8 < (n * nat bits + 7) div 8"
proof -
  have "Suc i * nat bits \<le> n * nat bits" using assms(2) by (intro mult_le_mono1) simp
  then show ?thesis using assms(1) by (auto simp: ValidBitWidth_def)
qed

section \<open>Entries of a packed byte array\<close>

text \<open>Entry \<open>i\<close> of the array \<open>d\<close> at width \<open>n\<close>, over natural numbers.\<close>

definition entry :: "nat \<Rightarrow> bytes \<Rightarrow> nat \<Rightarrow> byte" where
  "entry n d i = get_field (i * n mod 8) n (d ! (i * n div 8))"

definition put_entry :: "nat \<Rightarrow> bytes \<Rightarrow> nat \<Rightarrow> byte \<Rightarrow> bytes" where
  "put_entry n d i v = d[i * n div 8 := put_field (i * n mod 8) n v (d ! (i * n div 8))]"

lemma length_put_entry [simp]: "length (put_entry n d i v) = length d"
  by (simp add: put_entry_def)

lemma entry_put_same:
  assumes "ValidBitWidth bits" "i * nat bits div 8 < length d" "v \<le> mask (nat bits)"
  shows "entry (nat bits) (put_entry (nat bits) d i v) i = v"
  using assms field_in_byte[OF assms(1), of i]
  by (simp add: entry_def put_entry_def get_put_field_same)

lemma fields_disjoint:
  assumes "ValidBitWidth bits" "i \<noteq> j" "i * nat bits div 8 = j * nat bits div 8"
  shows "i * nat bits mod 8 + nat bits \<le> j * nat bits mod 8
       \<or> j * nat bits mod 8 + nat bits \<le> i * nat bits mod 8"
proof -
  define x y where "x = i * nat bits mod 8" and "y = j * nat bits mod 8"
  have "nat bits dvd 8" "0 < nat bits" using ValidBitWidth_nat[OF assms(1)] by auto
  then have dvd: "nat bits dvd x" "nat bits dvd y" by (auto simp: x_def y_def dvd_mod)
  have "i * nat bits \<noteq> j * nat bits" using assms(2) \<open>0 < nat bits\<close> by simp
  then have "x \<noteq> y" unfolding x_def y_def using assms(3) by (metis div_mult_mod_eq)
  then consider "x < y" | "y < x" by linarith
  then have "x + nat bits \<le> y \<or> y + nat bits \<le> x"
  proof cases
    case 1
    then have "nat bits \<le> y - x" using dvd by (intro dvd_imp_le dvd_diff_nat) auto
    then show ?thesis using 1 by linarith
  next
    case 2
    then have "nat bits \<le> x - y" using dvd by (intro dvd_imp_le dvd_diff_nat) auto
    then show ?thesis using 2 by linarith
  qed
  then show ?thesis by (simp add: x_def y_def)
qed

lemma entry_put_other:
  assumes "ValidBitWidth bits" "i * nat bits div 8 < length d" "v \<le> mask (nat bits)" "j \<noteq> i"
  shows "entry (nat bits) (put_entry (nat bits) d i v) j = entry (nat bits) d j"
proof (cases "i * nat bits div 8 = j * nat bits div 8")
  case True
  then show ?thesis
    using assms fields_disjoint[OF assms(1) _ True] field_in_byte[OF assms(1), of i]
    by (simp add: entry_def put_entry_def get_put_field_other)
next
  case False
  then show ?thesis by (simp add: entry_def put_entry_def)
qed

lemma entry_replicate_zero [simp]:
  "i * n div 8 < k \<Longrightarrow> entry n (replicate k 0) i = 0"
  by (simp add: entry_def)

lemma add_within_byte:
  fixes p k :: nat
  assumes "p mod 8 + k < 8"
  shows "(p + k) div 8 = p div 8 \<and> (p + k) mod 8 = p mod 8 + k"
proof -
  have m: "(p + k) mod 8 = p mod 8 + k" using assms by (metis mod_add_left_eq mod_less)
  then show ?thesis using div_mult_mod_eq[of p 8] div_mult_mod_eq[of "p + k" 8] by linarith
qed

lemma bit_entry:
  assumes "ValidBitWidth bits" "k < nat bits"
  shows "bit (entry (nat bits) d i) k = stream_bit d (i * nat bits + k)"
proof -
  have "i * nat bits mod 8 + k < 8"
    using field_in_byte[OF assms(1), of i] assms(2) by simp
  then have "(i * nat bits + k) div 8 = i * nat bits div 8 \<and>
      (i * nat bits + k) mod 8 = i * nat bits mod 8 + k"
    by (rule add_within_byte)
  then show ?thesis
    using assms(2) by (simp add: entry_def stream_bit_def)
qed

section \<open>The operations on well-formed bitmaps\<close>

text \<open>\<open>Get\<close> and \<open>Set\<close> reduce to \<open>entry\<close> and \<open>put_entry\<close>; every later fact goes through these.\<close>

abbreviation width :: "Bitmap \<Rightarrow> nat" where "width b \<equiv> nat (bm_bits b)"

lemma wf_index_no_wrap:
  assumes "wf_bitmap b" "idx < bm_size b"
  shows "unat idx * width b < 2 ^ 64" "unat idx * width b div 8 < length (bm_data b)"
proof -
  have lt: "unat idx < unat (bm_size b)" using assms(2) by (simp add: word_less_nat_alt)
  then have "unat idx * width b \<le> unat (bm_size b) * width b" by (intro mult_le_mono1) simp
  also have "\<dots> < 2 ^ 64" using assms(1) by (simp add: wf_bitmap_def)
  finally show "unat idx * width b < 2 ^ 64" .
  show "unat idx * width b div 8 < length (bm_data b)"
    using assms(1) entry_byte_in_range[OF _ lt] by (simp add: wf_bitmap_def)
qed

lemma Get_wf:
  assumes "wf_bitmap b" "idx < bm_size b"
  shows "Get b idx = Inr (entry (width b) (bm_data b) (unat idx))"
proof -
  have v: "ValidBitWidth (bm_bits b)" using assms(1) by (simp add: wf_bitmap_def)
  note off = ByteOffset_nat[OF v wf_index_no_wrap(1)[OF assms]]
  show ?thesis
    using assms(2) off wf_index_no_wrap(2)[OF assms]
    by (cases "ByteOffset idx (bm_bits b)")
      (simp add: Get_def entry_def get_field_def exp_minus_one_mask not_le)
qed

lemma Set_wf:
  assumes "wf_bitmap b" "idx < bm_size b" "status \<le> mask (width b)"
  shows "Set b idx status = Inr (b\<lparr>bm_data := put_entry (width b) (bm_data b) (unat idx) status\<rparr>)"
proof -
  have v: "ValidBitWidth (bm_bits b)" using assms(1) by (simp add: wf_bitmap_def)
  note off = ByteOffset_nat[OF v wf_index_no_wrap(1)[OF assms(1,2)]]
  show ?thesis
    using assms(2,3) off wf_index_no_wrap(2)[OF assms(1,2)]
    by (cases "ByteOffset idx (bm_bits b)")
      (simp add: Set_def Let_def put_entry_def put_field_def exp_minus_one_mask not_le not_less)
qed

lemma Set_preserves_wf:
  assumes "wf_bitmap b" "Set b idx status = Inr b'"
  shows "wf_bitmap b' \<and> bm_size b' = bm_size b \<and> bm_bits b' = bm_bits b"
  using assms by (auto simp: Set_def wf_bitmap_def Let_def split: if_splits prod.splits)

text \<open>The data-structure contract, on the entries of a well-formed \<open>Bitmap\<close>.\<close>

definition bm_read :: "Bitmap \<Rightarrow> nat \<Rightarrow> byte" where
  "bm_read b i = (case Get b (of_nat i) of Inl _ \<Rightarrow> 0 | Inr s \<Rightarrow> s)"

definition bm_write :: "Bitmap \<Rightarrow> nat \<Rightarrow> byte \<Rightarrow> Bitmap" where
  "bm_write b i s = (case Set b (of_nat i) s of Inl _ \<Rightarrow> b | Inr b' \<Rightarrow> b')"

lemma bm_read_wf: "wf_bitmap b \<Longrightarrow> i < unat (bm_size b) \<Longrightarrow> bm_read b i = entry (width b) (bm_data b) i"
  using of_nat_index[of i "bm_size b"] by (simp add: bm_read_def Get_wf)

lemma bm_write_wf:
  "wf_bitmap b \<Longrightarrow> i < unat (bm_size b) \<Longrightarrow> v \<le> mask (width b)
   \<Longrightarrow> bm_write b i v = b\<lparr>bm_data := put_entry (width b) (bm_data b) i v\<rparr>"
  using of_nat_index[of i "bm_size b"] by (simp add: bm_write_def Set_wf)

interpretation bma: status_array wf_bitmap "\<lambda>b. unat (bm_size b)" "\<lambda>b v. v \<le> mask (width b)" bm_read bm_write
proof (unfold_locales, goal_cases)
  case (1 b i v)
  then show ?case by (simp add: bm_write_wf) (simp add: wf_bitmap_def)
next
  case (2 b i v)
  then show ?case by (simp add: bm_write_wf)
next
  case (3 b i v u)
  then show ?case by (simp add: bm_write_wf)
next
  case (4 b i v)
  then have "wf_bitmap (b\<lparr>bm_data := put_entry (width b) (bm_data b) i v\<rparr>)"
    by (simp add: wf_bitmap_def)
  moreover have "i * width b div 8 < length (bm_data b)"
    using 4 entry_byte_in_range by (simp add: wf_bitmap_def)
  ultimately show ?case using 4 by (simp add: bm_write_wf bm_read_wf entry_put_same wf_bitmap_def)
next
  case (5 b i v j)
  then have "wf_bitmap (b\<lparr>bm_data := put_entry (width b) (bm_data b) i v\<rparr>)"
    by (simp add: wf_bitmap_def)
  moreover have "i * width b div 8 < length (bm_data b)"
    using 5 entry_byte_in_range by (simp add: wf_bitmap_def)
  ultimately show ?case using 5 by (simp add: bm_write_wf bm_read_wf entry_put_other wf_bitmap_def)
qed

section \<open>Properties\<close>

lemma Get_after_Set_same:
  assumes "wf_bitmap b" "Set b idx s = Inr b'"
  shows "Get b' idx = Inr s"
proof -
  have idx: "idx < bm_size b" and fit: "s \<le> mask (width b)"
    using assms(2) by (auto simp: Set_def Let_def exp_minus_one_mask split: if_splits)
  then have b': "b' = b\<lparr>bm_data := put_entry (width b) (bm_data b) (unat idx) s\<rparr>"
    using assms Set_wf by simp
  have "wf_bitmap b'" using Set_preserves_wf assms by blast
  then show ?thesis
    using b' idx fit assms(1) wf_index_no_wrap(2)[OF assms(1) idx]
    by (simp add: Get_wf entry_put_same wf_bitmap_def)
qed

lemma Get_after_Set_other:
  assumes "wf_bitmap b" "Set b idx s = Inr b'" "j \<noteq> idx"
  shows "Get b' j = Get b j"
proof (cases "j < bm_size b")
  case True
  have idx: "idx < bm_size b" and fit: "s \<le> mask (width b)"
    using assms(2) by (auto simp: Set_def Let_def exp_minus_one_mask split: if_splits)
  then have b': "b' = b\<lparr>bm_data := put_entry (width b) (bm_data b) (unat idx) s\<rparr>"
    using assms Set_wf by simp
  have "wf_bitmap b'" using Set_preserves_wf assms by blast
  then show ?thesis
    using b' idx fit assms(1,3) True wf_index_no_wrap(2)[OF assms(1) idx]
    by (simp add: Get_wf entry_put_other wf_bitmap_def word_unat_eq_iff)
next
  case False
  then show ?thesis using Set_preserves_wf[OF assms(1,2)] by (simp add: Get_def not_less)
qed



text \<open>
  C13. Layout conformance: on a well-formed bitmap \<open>Get\<close> returns, bit for bit, the field that
  section 4.1 of the draft assigns to the index (packed from the least significant bit of byte 0).
\<close>

theorem get_conforms_to_layout:
  assumes "wf_bitmap b" and "idx < bm_size b"
  shows "\<exists>s. Get b idx = Inr s \<and>
     (\<forall>k. bit s k \<longleftrightarrow> k < width b \<and> stream_bit (bm_data b) (unat idx * width b + k))"
proof (intro exI conjI allI)
  show "Get b idx = Inr (entry (width b) (bm_data b) (unat idx))" using assms by (rule Get_wf)
  fix k
  have "ValidBitWidth (bm_bits b)" using assms(1) by (simp add: wf_bitmap_def)
  then show "bit (entry (width b) (bm_data b) (unat idx)) k
      \<longleftrightarrow> k < width b \<and> stream_bit (bm_data b) (unat idx * width b + k)"
    using bit_entry by (cases "k < width b") (auto simp: entry_def)
qed

text \<open>The draft's first worked example: sixteen one-bit entries packed as \<open>0xB9 0xA3\<close>.\<close>

theorem get_conforms_to_layout_witness:
  "\<exists>s. Get \<lparr>bm_bits = 1, bm_size = 16, bm_data = [0xB9, 0xA3]\<rparr> 13 = Inr s \<and>
     (\<forall>k. bit s k \<longleftrightarrow> k < 1 \<and> stream_bit [0xB9, 0xA3] (13 + k))"
  using get_conforms_to_layout[of "\<lparr>bm_bits = 1, bm_size = 16, bm_data = [0xB9, 0xA3]\<rparr>" 13]
  by (simp add: wf_bitmap_def ValidBitWidth_def)

text \<open>
  The errors of the bitmap, exhaustively: on a well-formed bitmap \<open>Get\<close> fails exactly when
  the index is out of range, \<open>Set\<close> exactly when the index is out of range or the status does not
  fit the width, and neither ever reaches the slice access that would panic.
\<close>

theorem bitmap_errors_exact:
  assumes "wf_bitmap b"
  shows "Get b idx = (if idx < bm_size b then Inr (entry (width b) (bm_data b) (unat idx))
                      else Inl (IndexOutOfRange idx (bm_size b)))
    \<and> Set b idx s = (if \<not> idx < bm_size b then Inl (IndexOutOfRange idx (bm_size b))
                        else if \<not> s \<le> mask (width b) then Inl (StatusDoesNotFit s (bm_bits b))
                        else Inr (b\<lparr>bm_data := put_entry (width b) (bm_data b) (unat idx) s\<rparr>))"
proof
  show "Get b idx = (if idx < bm_size b then Inr (entry (width b) (bm_data b) (unat idx))
                      else Inl (IndexOutOfRange idx (bm_size b)))"
    using assms by (cases "idx < bm_size b") (simp_all add: Get_wf, simp add: Get_def not_less)
  show "Set b idx s = (if \<not> idx < bm_size b then Inl (IndexOutOfRange idx (bm_size b))
                        else if \<not> s \<le> mask (width b) then Inl (StatusDoesNotFit s (bm_bits b))
                        else Inr (b\<lparr>bm_data := put_entry (width b) (bm_data b) (unat idx) s\<rparr>))"
    using assms
    by (cases "idx < bm_size b"; cases "s \<le> mask (width b)")
      (simp_all add: Set_wf, simp_all add: Set_def Let_def exp_minus_one_mask not_le)
qed

theorem bitmap_errors_exact_witness:
  "Get \<lparr>bm_bits = 1, bm_size = 3, bm_data = [0]\<rparr> 3 = Inl (IndexOutOfRange 3 3)
   \<and> Set \<lparr>bm_bits = 1, bm_size = 3, bm_data = [0]\<rparr> 2 2 = Inl (StatusDoesNotFit 2 1)"
proof -
  have wf: "wf_bitmap \<lparr>bm_bits = 1, bm_size = 3, bm_data = [0]\<rparr>"
    by (simp add: wf_bitmap_def ValidBitWidth_def)
  have "\<not> (2 :: byte) \<le> 1" by (simp add: word_le_nat_alt)
  then show ?thesis
    using bitmap_errors_exact[OF wf, of 3 2] bitmap_errors_exact[OF wf, of 2 2]
    by (simp add: mask_eq_exp_minus_1)
qed

text \<open>What the constructors establish.\<close>

lemma NewBitmap_wf:
  assumes "NewBitmap sz bits = Inr b" "unat sz * nat bits + 7 < 2 ^ 64"
  shows "wf_bitmap b \<and> (\<forall>idx < sz. Get b idx = Inr StatusValid)"
proof -
  have v: "ValidBitWidth bits"
    and b: "b = \<lparr>bm_bits = bits, bm_size = sz, bm_data = replicate (unat (byte_len sz bits)) 0\<rparr>"
    using assms(1) by (auto simp: NewBitmap_def Let_def split: if_splits)
  then have wf: "wf_bitmap b" using assms(2) byte_len_nat by (simp add: wf_bitmap_def)
  have "Get b idx = Inr StatusValid" if "idx < sz" for idx
    using Get_wf[OF wf] wf_index_no_wrap(2)[OF wf] that b by simp
  then show ?thesis using wf by blast
qed

lemma WrapBitmap_wf:
  assumes "WrapBitmap d sz bits = Inr b" "unat sz * nat bits + 7 < 2 ^ 64" "length d < 2 ^ 64"
  shows "wf_bitmap b \<and> bm_data b = d \<and> bm_size b = sz \<and> bm_bits b = bits"
proof -
  have v: "ValidBitWidth bits" and l: "of_nat (length d) = byte_len sz bits"
    and b: "b = \<lparr>bm_bits = bits, bm_size = sz, bm_data = d\<rparr>"
    using assms(1) by (auto simp: WrapBitmap_def Let_def split: if_splits)
  have "unat (of_nat (length d) :: u64) = length d" using assms(3) by (simp add: unat_of_nat)
  then have "length d = unat (byte_len sz bits)" using l by simp
  then show ?thesis using v b assms(2) byte_len_nat by (simp add: wf_bitmap_def)
qed

lemma WrapBitmap_exact:
  assumes "ValidBitWidth bits" "unat sz * nat bits + 7 < 2 ^ 64" "length d = unat (byte_len sz bits)"
  shows "WrapBitmap d sz bits = Inr \<lparr>bm_bits = bits, bm_size = sz, bm_data = d\<rparr>"
  using assms by (simp add: WrapBitmap_def)

text \<open>
  The byte count wraps for sizes of \<open>2^61\<close> eight-bit entries and more: such a size is accepted
  with no backing bytes at all, and the first access panics.
\<close>

lemma WrapBitmap_size_overflow:
  "WrapBitmap [] (2 ^ 61) 8 = Inr \<lparr>bm_bits = 8, bm_size = 2 ^ 61, bm_data = []\<rparr>
   \<and> Get \<lparr>bm_bits = 8, bm_size = 2 ^ 61, bm_data = []\<rparr> 0 = Inl IndexPanic"
  by (simp add: WrapBitmap_def ValidBitWidth_def byte_len_def u64_of_int_def Get_def ByteOffset_def)

end
