(* ===== verification/Base64.thy ===== *)
theory Base64
  imports Prelude
begin

text \<open>
  What the sources use of Go's \<open>encoding/base64\<close>: \<open>RawURLEncoding\<close> (URL alphabet, no padding) and
  \<open>StdEncoding\<close> (standard alphabet, padded). As in Go, decoding skips carriage returns and
  newlines and ignores the unused low bits of the last character.
\<close>

section \<open>Groups of six bits\<close>

fun sextets :: "nat list \<Rightarrow> nat list" where
  "sextets [] = []"
| "sextets [a] = [a div 4, a mod 4 * 16]"
| "sextets [a, b] = [a div 4, a mod 4 * 16 + b div 16, b mod 16 * 4]"
| "sextets (a # b # c # r) =
     [a div 4, a mod 4 * 16 + b div 16, b mod 16 * 4 + c div 64, c mod 64] @ sextets r"

fun unsextets :: "nat list \<Rightarrow> nat list option" where
  "unsextets [] = Some []"
| "unsextets [p] = None"
| "unsextets [p, q] = Some [p * 4 + q div 16]"
| "unsextets [p, q, r] = Some [p * 4 + q div 16, q mod 16 * 16 + r div 4]"
| "unsextets (p # q # r # s # t) =
     map_option (\<lambda>bs. (p * 4 + q div 16) # (q mod 16 * 16 + r div 4) # (r mod 4 * 64 + s) # bs) (unsextets t)"

lemma join_split_byte:
  fixes a b c :: nat
  assumes "a < 256" "b < 256" "c < 256"
  shows "a div 4 * 4 + (a mod 4 * 16 + b div 16) div 16 = a"
    "(a mod 4 * 16 + b div 16) mod 16 * 16 + (b mod 16 * 4 + c div 64) div 4 = b"
    "(b mod 16 * 4 + c div 64) mod 4 * 64 + c mod 64 = c"
proof -
  have b: "b div 16 < 16" and c: "c div 64 < 4" using assms by auto
  have "(a mod 4 * 16 + b div 16) div 16 = a mod 4" using b by simp
  then show "a div 4 * 4 + (a mod 4 * 16 + b div 16) div 16 = a" by simp
  have "(a mod 4 * 16 + b div 16) mod 16 = b div 16" using b by simp
  moreover have "(b mod 16 * 4 + c div 64) div 4 = b mod 16" using c by simp
  ultimately show "(a mod 4 * 16 + b div 16) mod 16 * 16 + (b mod 16 * 4 + c div 64) div 4 = b" by simp
  have "(b mod 16 * 4 + c div 64) mod 4 = c div 64" using c by simp
  then show "(b mod 16 * 4 + c div 64) mod 4 * 64 + c mod 64 = c" by simp
qed

lemma unsextets_sextets: "\<forall>x\<in>set bs. x < 256 \<Longrightarrow> unsextets (sextets bs) = Some bs"
proof (induction bs rule: sextets.induct)
  case (2 a)
  then show ?case using join_split_byte(1)[of a 0] by simp
next
  case (3 a b)
  then show ?case using join_split_byte(1,2)[of a b 0] by simp
next
  case (4 a b c r)
  then show ?case using join_split_byte[of a b c] by simp
qed simp

lemma sextets_bound: "\<forall>x\<in>set bs. x < 256 \<Longrightarrow> \<forall>q\<in>set (sextets bs). q < 64"
proof (induction bs rule: sextets.induct)
  case (3 a b)
  then have "b div 16 < 16" "a mod 4 \<le> 3" by auto
  then show ?case using 3 by auto
next
  case (4 a b c r)
  then have "b div 16 < 16" "a mod 4 \<le> 3" "c div 64 < 4" "b mod 16 \<le> 15" by auto
  then show ?case using 4 by auto
qed auto

section \<open>Alphabets\<close>

definition b64_std :: string where
  "b64_std = ''ABCDEFGHIJKLMNOPQRSTUVWXYZabcdefghijklmnopqrstuvwxyz0123456789+/''"

definition b64_url :: string where
  "b64_url = ''ABCDEFGHIJKLMNOPQRSTUVWXYZabcdefghijklmnopqrstuvwxyz0123456789-_''"

fun index_of :: "'a \<Rightarrow> 'a list \<Rightarrow> nat option" where
  "index_of x [] = None"
| "index_of x (y # ys) = (if x = y then Some 0 else map_option Suc (index_of x ys))"

fun digits_of :: "string \<Rightarrow> string \<Rightarrow> nat list option" where
  "digits_of alphabet [] = Some []"
| "digits_of alphabet (c # cs) =
     (case index_of c alphabet of
        None \<Rightarrow> None
      | Some d \<Rightarrow> map_option ((#) d) (digits_of alphabet cs))"

lemma index_of_nth: "distinct xs \<Longrightarrow> i < length xs \<Longrightarrow> index_of (xs ! i) xs = Some i"
proof (induction xs arbitrary: i)
  case (Cons x xs)
  then show ?case by (cases i) auto
qed simp

lemma digits_of_map:
  assumes "distinct alphabet" "\<forall>q\<in>set qs. q < length alphabet"
  shows "digits_of alphabet (map ((!) alphabet) qs) = Some qs"
  using assms(2) by (induction qs) (auto simp: index_of_nth[OF assms(1)])

section \<open>Encodings\<close>

definition not_newline :: "char \<Rightarrow> bool" where
  "not_newline c \<longleftrightarrow> c \<noteq> CHR 0x0A \<and> c \<noteq> CHR 0x0D"

definition RawURL_Encode :: "bytes \<Rightarrow> string" where
  "RawURL_Encode bs = map ((!) b64_url) (sextets (map unat bs))"

definition b64_decode :: "string \<Rightarrow> string \<Rightarrow> bytes option" where
  "b64_decode alphabet s =
     (case digits_of alphabet s of
        None \<Rightarrow> None
      | Some ds \<Rightarrow> map_option (map of_nat) (unsextets ds))"

definition RawURL_Decode :: "string \<Rightarrow> bytes option" where
  "RawURL_Decode s = b64_decode b64_url (filter not_newline s)"

definition pad_char :: char where "pad_char = CHR 0x3D"

definition Std_Encode :: "bytes \<Rightarrow> string" where
  "Std_Encode bs = (let cs = map ((!) b64_std) (sextets (map unat bs))
     in cs @ replicate ((4 - length cs mod 4) mod 4) pad_char)"

text \<open>The padded form: a multiple of four characters, the last group padded with one or two \<open>=\<close>.\<close>

definition Std_Decode :: "string \<Rightarrow> bytes option" where
  "Std_Decode s =
     (let cs = filter not_newline s;
          body = takeWhile (\<lambda>c. c \<noteq> pad_char) cs;
          pad = length cs - length body
      in if length cs mod 4 \<noteq> 0 \<or> 2 < pad \<or> drop (length body) cs \<noteq> replicate pad pad_char then None
         else b64_decode b64_std body)"

lemma alphabets:
  "distinct b64_url" "length b64_url = 64" "distinct b64_std" "length b64_std = 64"
  "\<forall>c\<in>set b64_url. not_newline c" "\<forall>c\<in>set b64_std. not_newline c \<and> c \<noteq> pad_char"
  by (simp_all add: b64_url_def b64_std_def not_newline_def pad_char_def)

lemma map_of_nat_unat: "map of_nat (map unat bs) = (bs :: bytes)"
  by (induction bs) simp_all

lemma bytes_bound: "\<forall>x\<in>set (map unat (bs :: bytes)). x < 256"
proof
  fix x assume "x \<in> set (map unat bs)"
  then obtain b :: byte where "x = unat b" by auto
  moreover have "unat b < 2 ^ LENGTH(8)" by (rule unsigned_less)
  ultimately show "x < 256" by simp
qed

lemma b64_decode_encode:
  assumes "distinct alphabet" "length alphabet = 64"
  shows "b64_decode alphabet (map ((!) alphabet) (sextets (map unat bs))) = Some (bs :: bytes)"
proof -
  note bs = bytes_bound[of bs]
  show ?thesis
    using digits_of_map[OF assms(1)] sextets_bound[OF bs] assms(2) unsextets_sextets[OF bs] map_of_nat_unat
    by (simp add: b64_decode_def)
qed

lemma RawURL_roundtrip: "RawURL_Decode (RawURL_Encode bs) = Some bs"
proof -
  have "\<forall>c\<in>set (RawURL_Encode bs). not_newline c"
    using sextets_bound[OF bytes_bound[of bs]] alphabets by (auto simp: RawURL_Encode_def)
  then have "filter not_newline (RawURL_Encode bs) = RawURL_Encode bs" by (simp add: filter_id_conv)
  then show ?thesis
    using b64_decode_encode[OF alphabets(1,2)] by (simp add: RawURL_Decode_def RawURL_Encode_def)
qed

end
