(* ===== verification/Go_Strings.thy ===== *)
theory Go_Strings
  imports Prelude "HOL-Library.Sublist"
begin

text \<open>
  What the sources use of Go's \<open>strings\<close>, \<open>strconv\<close> and \<open>encoding/hex\<close> packages, on strings as
  lists of characters (bytes): \<open>Index\<close>, \<open>Contains\<close>, \<open>Split\<close> and \<open>LastIndex\<close> for a one-character
  separator, \<open>Trim\<close>, \<open>TrimSpace\<close> (the ASCII white space characters), \<open>CutPrefix\<close>, hexadecimal
  encoding, and decimal printing and parsing.
\<close>

section \<open>Searching and splitting\<close>

fun str_index :: "string \<Rightarrow> char \<Rightarrow> int" where
  "str_index [] c = -1"
| "str_index (x # xs) c =
     (if x = c then 0 else let i = str_index xs c in if i < 0 then -1 else i + 1)"

definition str_contains :: "string \<Rightarrow> char \<Rightarrow> bool" where
  "str_contains s c \<longleftrightarrow> 0 \<le> str_index s c"

fun str_split :: "char \<Rightarrow> string \<Rightarrow> string list" where
  "str_split c [] = [[]]"
| "str_split c (x # xs) =
     (if x = c then [] # str_split c xs
      else case str_split c xs of [] \<Rightarrow> [[x]] | y # ys \<Rightarrow> (x # y) # ys)"

fun str_join :: "char \<Rightarrow> string list \<Rightarrow> string" where
  "str_join c [] = []"
| "str_join c [x] = x"
| "str_join c (x # xs) = x @ c # str_join c xs"

definition str_trim :: "(char \<Rightarrow> bool) \<Rightarrow> string \<Rightarrow> string" where
  "str_trim P s = rev (dropWhile P (rev (dropWhile P s)))"

definition is_space :: "char \<Rightarrow> bool" where
  "is_space c \<longleftrightarrow> c = CHR '' '' \<or> c = CHR 0x09 \<or> c = CHR 0x0A \<or> c = CHR 0x0B \<or> c = CHR 0x0C \<or> c = CHR 0x0D"

definition TrimSpace :: "string \<Rightarrow> string" where
  "TrimSpace s = str_trim is_space s"

definition CutPrefix :: "string \<Rightarrow> string \<Rightarrow> string \<times> bool" where
  "CutPrefix s p = (if prefix p s then (drop (length p) s, True) else (s, False))"

lemma str_index_ge_m1: "-1 \<le> str_index s c"
  by (induction s) (auto simp: Let_def)

lemma str_index_neg_iff: "str_index s c < 0 \<longleftrightarrow> c \<notin> set s"
  by (induction s) (auto simp: Let_def)

lemma str_contains_iff: "str_contains s c \<longleftrightarrow> c \<in> set s"
  using str_index_neg_iff[of s c] by (auto simp: str_contains_def)

lemma str_index_append: "c \<notin> set s \<Longrightarrow> str_index (s @ c # t) c = int (length s)"
  by (induction s) (auto simp: Let_def)

lemma str_index_less: "str_index s c < int (length s)"
  by (induction s) (auto simp: Let_def)

lemma str_split_nonempty: "str_split c s \<noteq> []"
  by (induction s) (auto split: list.split)

lemma str_join_cons: "xs \<noteq> [] \<Longrightarrow> str_join c (x # xs) = x @ c # str_join c xs"
  by (cases xs) auto

lemma str_join_split [simp]: "str_join c (str_split c s) = s"
proof (induction s)
  case (Cons x xs)
  obtain y ys where yys: "str_split c xs = y # ys" using str_split_nonempty by (cases "str_split c xs") auto
  show ?case
    using Cons.IH by (cases ys) (auto simp: yys str_join_cons)
qed simp

lemma str_split_no_sep: "c \<notin> set s \<Longrightarrow> str_split c s = [s]"
  by (induction s) auto

lemma str_split_append: "c \<notin> set s \<Longrightarrow> str_split c (s @ c # t) = s # str_split c t"
  by (induction s) auto

lemma str_split_segment: "s' \<in> set (str_split c s) \<Longrightarrow> c \<notin> set s'"
proof (induction s arbitrary: s')
  case (Cons x xs)
  then show ?case by (cases "x = c") (auto split: list.splits)
qed simp

lemma str_trim_id: "s \<noteq> [] \<Longrightarrow> \<not> P (hd s) \<Longrightarrow> \<not> P (last s) \<Longrightarrow> str_trim P s = s"
proof -
  assume a: "s \<noteq> []" "\<not> P (hd s)" "\<not> P (last s)"
  then have "dropWhile P s = s" by (cases s) auto
  moreover have "dropWhile P (rev s) = rev s" using a by (cases s rule: rev_cases) auto
  ultimately show ?thesis by (simp add: str_trim_def)
qed

section \<open>Hexadecimal\<close>

definition hex_digit :: "nat \<Rightarrow> char" where
  "hex_digit n = (''0123456789abcdef'' ! n)"

definition hex_byte :: "byte \<Rightarrow> string" where
  "hex_byte b = [hex_digit (unat b div 16), hex_digit (unat b mod 16)]"

definition hex_encode :: "bytes \<Rightarrow> string" where
  "hex_encode bs = concat (map hex_byte bs)"

lemma length_hex_encode [simp]: "length (hex_encode bs) = 2 * length bs"
  by (induction bs) (auto simp: hex_encode_def hex_byte_def)

lemma hex_digit_inj: "m < 16 \<Longrightarrow> n < 16 \<Longrightarrow> hex_digit m = hex_digit n \<Longrightarrow> m = n"
proof -
  assume "m < 16" "n < 16" "hex_digit m = hex_digit n"
  moreover have "distinct ''0123456789abcdef''" by simp
  ultimately show "m = n" by (simp add: hex_digit_def nth_eq_iff_index_eq)
qed

lemma hex_encode_chars: "set (hex_encode bs) \<subseteq> set ''0123456789abcdef''"
proof -
  define H where "H = set ''0123456789abcdef''"
  have d: "hex_digit n \<in> H" if "n < 16" for n
    unfolding hex_digit_def H_def using that by (intro nth_mem) simp
  have "unat b < 2 ^ LENGTH(8)" for b :: byte by (rule unsigned_less)
  then have "unat b div 16 < 16" for b :: byte by (simp add: div_less_iff_less_mult)
  then have "set (hex_byte b) \<subseteq> H" for b
    using d[of "unat b div 16"] d[of "unat b mod 16"] by (simp add: hex_byte_def)
  then show ?thesis unfolding H_def[symmetric] by (auto simp: hex_encode_def)
qed

lemma hex_encode_no_dot: "CHR ''.'' \<notin> set (hex_encode bs)"
  using hex_encode_chars[of bs] by auto

section \<open>Decimal numbers\<close>

definition digit_char :: "nat \<Rightarrow> char" where
  "digit_char d = char_of (48 + d)"

fun show_nat :: "nat \<Rightarrow> string" where
  "show_nat n = (if n < 10 then [digit_char n] else show_nat (n div 10) @ [digit_char (n mod 10)])"

declare show_nat.simps [simp del]

text \<open>\<open>strconv.FormatInt(i, 10)\<close>.\<close>

definition FormatInt :: "int \<Rightarrow> string" where
  "FormatInt i = (if i < 0 then CHR ''-'' # show_nat (nat (- i)) else show_nat (nat i))"

definition is_digit :: "char \<Rightarrow> bool" where
  "is_digit c \<longleftrightarrow> 48 \<le> (of_char c :: nat) \<and> (of_char c :: nat) \<le> 57"

fun read_digits :: "nat \<Rightarrow> string \<Rightarrow> nat option" where
  "read_digits acc [] = Some acc"
| "read_digits acc (c # cs) =
     (if is_digit c then read_digits (10 * acc + (of_char c - 48)) cs else None)"

text \<open>
  \<open>strconv.ParseUint(s, 10, 64)\<close>: \<open>None\<close> for an empty string, a character that is not a digit,
  and a value of \<open>2^64\<close> or more.
\<close>

definition ParseUint :: "string \<Rightarrow> u64 option" where
  "ParseUint s = (if s = [] then None else
     case read_digits 0 s of None \<Rightarrow> None | Some n \<Rightarrow> if n < 2 ^ 64 then Some (of_nat n) else None)"

lemma of_char_digit_char: "d < 10 \<Longrightarrow> (of_char (digit_char d) :: nat) = 48 + d"
  by (simp add: digit_char_def)

lemma read_digits_append:
  "read_digits acc (s @ t) = (case read_digits acc s of None \<Rightarrow> None | Some n \<Rightarrow> read_digits n t)"
  by (induction s arbitrary: acc) auto

lemma read_show_nat: "read_digits 0 (show_nat n) = Some n"
proof (induction n rule: show_nat.induct)
  case (1 n)
  show ?case
  proof (cases "n < 10")
    case True
    then show ?thesis by (simp add: show_nat.simps[of n] is_digit_def of_char_digit_char)
  next
    case False
    have "n mod 10 < 10" by simp
    with False 1 show ?thesis
      by (simp add: show_nat.simps[of n] read_digits_append is_digit_def of_char_digit_char)
  qed
qed

lemma show_nat_nonempty: "show_nat n \<noteq> []"
  by (subst show_nat.simps) simp

lemma ParseUint_show: "ParseUint (show_nat (unat w)) = Some w"
proof -
  have "unat w < 2 ^ LENGTH(64)" by (rule unsigned_less)
  then show ?thesis by (simp add: ParseUint_def read_show_nat show_nat_nonempty)
qed

lemma show_nat_inj: "show_nat m = show_nat n \<Longrightarrow> m = n"
  by (metis option.inject read_show_nat)

lemma show_nat_digits: "c \<in> set (show_nat n) \<Longrightarrow> is_digit c"
proof (induction n rule: show_nat.induct)
  case (1 n)
  have d: "is_digit (digit_char k)" if "k < 10" for k
    using that by (simp add: is_digit_def of_char_digit_char)
  show ?case
  proof (cases "n < 10")
    case True
    with 1 d show ?thesis by (simp add: show_nat.simps[of n])
  next
    case False
    with 1 d[of "n mod 10"] show ?thesis by (auto simp: show_nat.simps[of n])
  qed
qed

lemma FormatInt_inj: "FormatInt i = FormatInt j \<Longrightarrow> i = j"
proof -
  assume eq: "FormatInt i = FormatInt j"
  have minus: "show_nat n \<noteq> CHR ''-'' # s" for n s
    using show_nat_digits[of "CHR ''-''" n] by (auto simp: is_digit_def)
  show "i = j"
    using eq minus minus[symmetric] show_nat_inj
    by (auto simp: FormatInt_def split: if_splits dest!: show_nat_inj)
qed

section \<open>Signed decimal integers\<close>

text \<open>
  \<open>strconv.ParseInt(s, 10, 64)\<close>, which is also \<open>strconv.Atoi\<close> on a 64-bit platform: an optional sign,
  at least one digit, and a value in the range of \<open>int64\<close>.
\<close>

definition ParseInt :: "string \<Rightarrow> int option" where
  "ParseInt s =
     (let (neg, ds) = (case s of [] \<Rightarrow> (False, [])
                       | c # cs \<Rightarrow> if c = CHR ''-'' then (True, cs) else if c = CHR ''+'' then (False, cs) else (False, s))
      in if ds = [] then None
         else case read_digits 0 ds of
                None \<Rightarrow> None
              | Some n \<Rightarrow> if neg then (if n \<le> 2 ^ 63 then Some (- int n) else None)
                         else (if n < 2 ^ 63 then Some (int n) else None))"

lemma show_nat_head:
  assumes "show_nat n = c # cs"
  shows "c \<noteq> CHR ''-'' \<and> c \<noteq> CHR ''+''"
proof -
  have "read_digits 0 (c # cs) = Some n" using read_show_nat[of n] assms by simp
  then have "is_digit c" by (auto split: if_splits)
  then show ?thesis by (auto simp: is_digit_def)
qed

lemma ParseInt_FormatInt:
  assumes "- (2 ^ 63) \<le> i" "i < 2 ^ 63"
  shows "ParseInt (FormatInt i) = Some i"
proof (cases "i < 0")
  case True
  then show ?thesis
    using assms(1) by (simp add: ParseInt_def FormatInt_def read_show_nat show_nat_nonempty)
next
  case False
  obtain c cs where cs: "show_nat (nat i) = c # cs" by (meson list.exhaust show_nat_nonempty)
  then have "read_digits 0 (c # cs) = Some (nat i)" using read_show_nat by metis
  then show ?thesis
    using False assms(2) cs show_nat_head[OF cs] by (auto simp: ParseInt_def FormatInt_def)
qed

end
