(* ===== verification/Tokens.thy ===== *)
theory Tokens
  imports Bitmap Base64 Go_Strings
begin

text \<open>
  Status List Tokens, \<open>src/internal/statuslist/token.go\<close>, \<open>cwt.go\<close> and \<open>signer.go\<close>: the claims, the
  headers, the two wire formats and the conversion of signatures.

  \<open>token_lib\<close> collects the code the sources call and do not contain: the zlib codec, SHA-256, the
  signing key (in memory or PKCS#11), ECDSA verification, the DER parser of a signature, the
  CBOR codec at the types it is used with, and the compact serialisation of the JWT library.
  What is relied on of them appears as hypotheses of the round-trip theorems.
\<close>

section \<open>Data\<close>

datatype token_error =
    CompressFailed | BadCompression | BadBase64 | NotECDSA | WrongCurve nat | SignFailed | BadDER | SignaturePanic
  | BadX5C nat | MarshalFailed | BadCOSE | WrongTag nat | WrongArity nat | WrongSigLength nat | BadSignature
  | BadJWT | UnexpectedMethod string

record StatusListClaim =
  slc_Bits :: int
  slc_Lst :: string
  slc_AggregationURI :: string

text \<open>The registered claims used are \<open>sub\<close> and \<open>iat\<close>, in seconds.\<close>

record Claims =
  cl_Subject :: string
  cl_IssuedAt :: int
  cl_TTL :: int
  cl_StatusList :: StatusListClaim

type_synonym jwk = "(string \<times> string) list"

record TokenParams =
  tp_ListURL :: string
  tp_IssuedAt :: time
  tp_TTL :: int
  tp_Bitmap :: Bitmap
  tp_KeyID :: string
  tp_JWK :: "jwk option"
  tp_X5C :: "string list"

record cwtStatusListClaim =
  cws_Bits :: int
  cws_Lst :: bytes
  cws_AggregationURI :: string

record cwtClaims =
  cwc_Sub :: string
  cwc_Iat :: int
  cwc_TTL :: int
  cwc_StatusList :: cwtStatusListClaim

record CWTClaimsResult =
  cwr_Subject :: string
  cwr_IssuedAt :: time
  cwr_TTL :: int
  cwr_Bits :: int
  cwr_Lst :: bytes
  cwr_AggregationURI :: string

text \<open>The JOSE header of a token; the entries of \<open>jwk\<close> are strings.\<close>

record jws_header =
  jh_alg :: string
  jh_typ :: string
  jh_kid :: "string option"
  jh_jwk :: "jwk option"
  jh_x5c :: "string list option"

datatype cose_value = CoseInt int | CoseText string | CoseBytes bytes | CoseChain "bytes list"

datatype cbor_value =
    CborClaims cwtClaims
  | CborHeader "(int \<times> cose_value) list"
  | CborSigStructure string bytes bytes bytes
  | CborTag nat bytes "(int \<times> cose_value) list" bytes bytes

datatype pubkey = EcdsaKey nat nat | OtherKey

type_synonym signer = nat

record token_lib =
  zlib :: "bytes \<Rightarrow> bytes option"
  unzlib :: "bytes \<Rightarrow> bytes option"
  sha256 :: "bytes \<Rightarrow> bytes"
  Public :: "signer \<Rightarrow> pubkey"
  Signer_Sign :: "signer \<Rightarrow> bytes \<Rightarrow> bytes option"
  ecdsa_Verify :: "pubkey \<Rightarrow> bytes \<Rightarrow> nat \<Rightarrow> nat \<Rightarrow> bool"
  asn1_RS :: "bytes \<Rightarrow> (nat \<times> nat) option"
  cbor_Marshal :: "cbor_value \<Rightarrow> bytes option"
  cbor_RawTag :: "bytes \<Rightarrow> (nat \<times> bytes) option"
  cbor_RawArray :: "bytes \<Rightarrow> bytes list option"
  cbor_Bytes :: "bytes \<Rightarrow> bytes option"
  cbor_Claims :: "bytes \<Rightarrow> cwtClaims option"
  jwt_SigningString :: "jws_header \<Rightarrow> Claims \<Rightarrow> string option"
  jwt_Verify :: "string \<Rightarrow> string \<Rightarrow> bytes \<Rightarrow> pubkey \<Rightarrow> bool"
  jwt_Parse :: "string \<Rightarrow> (jws_header \<times> Claims \<times> string \<times> bytes) option"
  jose_MarshalJSON :: "pubkey \<Rightarrow> bytes option"
  json_Object :: "bytes \<Rightarrow> jwk option"

section \<open>Compression and encoding of the list\<close>

definition compressLst :: "token_lib \<Rightarrow> bytes \<Rightarrow> token_error + bytes" where
  "compressLst lib raw = (case zlib lib raw of None \<Rightarrow> Inl CompressFailed | Some c \<Rightarrow> Inr c)"

definition decompressLst :: "token_lib \<Rightarrow> bytes \<Rightarrow> token_error + bytes" where
  "decompressLst lib c = (case unzlib lib c of None \<Rightarrow> Inl BadCompression | Some raw \<Rightarrow> Inr raw)"

definition EncodeLst :: "token_lib \<Rightarrow> bytes \<Rightarrow> token_error + string" where
  "EncodeLst lib raw =
     (case compressLst lib raw of Inl e \<Rightarrow> Inl e | Inr compressed \<Rightarrow> Inr (RawURL_Encode compressed))"

definition DecodeLst :: "token_lib \<Rightarrow> string \<Rightarrow> token_error + bytes" where
  "DecodeLst lib lst =
     (case RawURL_Decode lst of None \<Rightarrow> Inl BadBase64 | Some compressed \<Rightarrow> decompressLst lib compressed)"

section \<open>Signatures\<close>

text \<open>\<open>big.Int.FillBytes\<close> into \<open>n\<close> bytes, big-endian; it panics when the number needs more.\<close>

fun fill_bytes :: "nat \<Rightarrow> nat \<Rightarrow> bytes" where
  "fill_bytes 0 x = []"
| "fill_bytes (Suc n) x = fill_bytes n (x div 256) @ [of_nat (x mod 256)]"

definition set_bytes :: "bytes \<Rightarrow> nat" where
  "set_bytes bs = foldl (\<lambda>acc b. acc * 256 + unat b) 0 bs"

definition asn1ToRawECDSA :: "token_lib \<Rightarrow> bytes \<Rightarrow> nat \<Rightarrow> token_error + bytes" where
  "asn1ToRawECDSA lib der byteLen =
     (case asn1_RS lib der of
        None \<Rightarrow> Inl BadDER
      | Some (r, s) \<Rightarrow>
          if r < 256 ^ byteLen \<and> s < 256 ^ byteLen then Inr (fill_bytes byteLen r @ fill_bytes byteLen s)
          else Inl SignaturePanic)"

definition string_bytes :: "string \<Rightarrow> bytes" where
  "string_bytes s = map (\<lambda>c. of_nat (of_char c)) s"

definition es256_Sign :: "token_lib \<Rightarrow> string \<Rightarrow> signer \<Rightarrow> token_error + bytes" where
  "es256_Sign lib signingString key =
     (case Public lib key of
        OtherKey \<Rightarrow> Inl NotECDSA
      | EcdsaKey bitsize _ \<Rightarrow>
          if bitsize \<noteq> 256 then Inl (WrongCurve bitsize)
          else (let hash = sha256 lib (string_bytes signingString)
                in case Signer_Sign lib key hash of
                     None \<Rightarrow> Inl SignFailed
                   | Some der \<Rightarrow> asn1ToRawECDSA lib der 32))"

text \<open>Verification is the stock ES256 method of the JWT library.\<close>

definition es256_Verify :: "token_lib \<Rightarrow> string \<Rightarrow> bytes \<Rightarrow> pubkey \<Rightarrow> bool" where
  "es256_Verify lib signingString sig key = jwt_Verify lib ''ES256'' signingString sig key"

section \<open>The JWT form\<close>

text \<open>Setting a key of a Go map; the order of the entries is not significant.\<close>

definition JWKFromPublicKey :: "token_lib \<Rightarrow> pubkey \<Rightarrow> token_error + jwk" where
  "JWKFromPublicKey lib pub =
     (case jose_MarshalJSON lib pub of
        None \<Rightarrow> Inl MarshalFailed
      | Some raw \<Rightarrow> (case json_Object lib raw of None \<Rightarrow> Inl MarshalFailed | Some m \<Rightarrow> Inr m))"

definition jwk_set :: "jwk \<Rightarrow> string \<Rightarrow> string \<Rightarrow> jwk" where
  "jwk_set m k v = (k, v) # filter (\<lambda>e. fst e \<noteq> k) m"

definition token_header :: "TokenParams \<Rightarrow> jws_header" where
  "token_header p = \<lparr>jh_alg = ''ES256'', jh_typ = ''statuslist+jwt'',
     jh_kid = (if tp_KeyID p \<noteq> [] then Some (tp_KeyID p) else None),
     jh_jwk = (case tp_JWK p of
                 None \<Rightarrow> None
               | Some m \<Rightarrow> Some (if tp_KeyID p \<noteq> [] then jwk_set m ''kid'' (tp_KeyID p) else m)),
     jh_x5c = (if tp_X5C p \<noteq> [] then Some (tp_X5C p) else None)\<rparr>"

definition BuildToken :: "token_lib \<Rightarrow> signer \<Rightarrow> TokenParams \<Rightarrow> token_error + string" where
  "BuildToken lib key p =
     (case EncodeLst lib (Bytes (tp_Bitmap p)) of
        Inl e \<Rightarrow> Inl e
      | Inr lst \<Rightarrow>
          let claims = \<lparr>cl_Subject = tp_ListURL p, cl_IssuedAt = tp_IssuedAt p div Second, cl_TTL = tp_TTL p,
                cl_StatusList = \<lparr>slc_Bits = Bits (tp_Bitmap p), slc_Lst = lst, slc_AggregationURI = []\<rparr>\<rparr>
          in case jwt_SigningString lib (token_header p) claims of
               None \<Rightarrow> Inl MarshalFailed
             | Some ss \<Rightarrow>
                 (case es256_Sign lib ss key of
                    Inl e \<Rightarrow> Inl e
                  | Inr sig \<Rightarrow> Inr (ss @ ''.'' @ RawURL_Encode sig)))"

definition ParseToken :: "token_lib \<Rightarrow> string \<Rightarrow> pubkey \<Rightarrow> token_error + Claims" where
  "ParseToken lib token key =
     (case jwt_Parse lib token of
        None \<Rightarrow> Inl BadJWT
      | Some (h, claims, ss, sig) \<Rightarrow>
          if jh_alg h \<notin> {''ES256'', ''ES384'', ''ES512''} then Inl (UnexpectedMethod (jh_alg h))
          else if \<not> jwt_Verify lib (jh_alg h) ss sig key then Inl BadSignature
          else Inr claims)"

section \<open>The CWT form\<close>

fun decodeX5C_from :: "nat \<Rightarrow> string list \<Rightarrow> token_error + bytes list" where
  "decodeX5C_from i [] = Inr []"
| "decodeX5C_from i (cert # rest) =
     (case Std_Decode cert of
        None \<Rightarrow> Inl (BadX5C i)
      | Some der \<Rightarrow> (case decodeX5C_from (Suc i) rest of Inl e \<Rightarrow> Inl e | Inr ders \<Rightarrow> Inr (der # ders)))"

definition decodeX5CToDER :: "string list \<Rightarrow> token_error + bytes list" where
  "decodeX5CToDER x5c = decodeX5C_from 0 x5c"

definition signCOSESign1 :: "token_lib \<Rightarrow> signer \<Rightarrow> bytes \<Rightarrow> bytes \<Rightarrow> token_error + bytes" where
  "signCOSESign1 lib key protected payload =
     (case cbor_Marshal lib (CborSigStructure ''Signature1'' protected [] payload) of
        None \<Rightarrow> Inl MarshalFailed
      | Some toBeSigned \<Rightarrow>
          (case Signer_Sign lib key (sha256 lib toBeSigned) of
             None \<Rightarrow> Inl SignFailed
           | Some der \<Rightarrow> asn1ToRawECDSA lib der 32))"

definition verifyCOSESign1 :: "token_lib \<Rightarrow> pubkey \<Rightarrow> bytes \<Rightarrow> bytes \<Rightarrow> bytes \<Rightarrow> token_error option" where
  "verifyCOSESign1 lib key protected payload sig =
     (if length sig \<noteq> 64 then Some (WrongSigLength (length sig))
      else case cbor_Marshal lib (CborSigStructure ''Signature1'' protected [] payload) of
             None \<Rightarrow> Some MarshalFailed
           | Some toBeSigned \<Rightarrow>
               if ecdsa_Verify lib key (sha256 lib toBeSigned) (set_bytes (take 32 sig)) (set_bytes (drop 32 sig))
               then None else Some BadSignature)"

definition cose_protected :: "TokenParams \<Rightarrow> token_error + (int \<times> cose_value) list" where
  "cose_protected p =
     (let base = [(1, CoseInt (-7)), (16, CoseText ''application/statuslist+cwt'')]
                 @ (if tp_KeyID p \<noteq> [] then [(4, CoseBytes (string_bytes (tp_KeyID p)))] else [])
      in if tp_X5C p = [] then Inr base
         else case decodeX5CToDER (tp_X5C p) of
                Inl e \<Rightarrow> Inl e
              | Inr [der] \<Rightarrow> Inr (base @ [(33, CoseBytes der)])
              | Inr chain \<Rightarrow> Inr (base @ [(33, CoseChain chain)]))"

definition BuildCWTToken :: "token_lib \<Rightarrow> signer \<Rightarrow> TokenParams \<Rightarrow> token_error + bytes" where
  "BuildCWTToken lib key p =
     (case Public lib key of
        OtherKey \<Rightarrow> Inl NotECDSA
      | EcdsaKey bitsize _ \<Rightarrow>
          if bitsize \<noteq> 256 then Inl (WrongCurve bitsize)
          else case compressLst lib (Bytes (tp_Bitmap p)) of
            Inl e \<Rightarrow> Inl e
          | Inr compressed \<Rightarrow>
              let claims = \<lparr>cwc_Sub = tp_ListURL p, cwc_Iat = tp_IssuedAt p div Second, cwc_TTL = tp_TTL p,
                    cwc_StatusList = \<lparr>cws_Bits = Bits (tp_Bitmap p), cws_Lst = compressed, cws_AggregationURI = []\<rparr>\<rparr>
              in case cbor_Marshal lib (CborClaims claims) of
                   None \<Rightarrow> Inl MarshalFailed
                 | Some payload \<Rightarrow>
                     (case cose_protected p of
                        Inl e \<Rightarrow> Inl e
                      | Inr hdr \<Rightarrow>
                          (case cbor_Marshal lib (CborHeader hdr) of
                             None \<Rightarrow> Inl MarshalFailed
                           | Some protected \<Rightarrow>
                               (case signCOSESign1 lib key protected payload of
                                  Inl e \<Rightarrow> Inl e
                                | Inr sig \<Rightarrow>
                                    (case cbor_Marshal lib (CborTag 18 protected [] payload sig) of
                                       None \<Rightarrow> Inl MarshalFailed
                                     | Some out \<Rightarrow> Inr out)))))"

definition ParseCWTToken :: "token_lib \<Rightarrow> bytes \<Rightarrow> pubkey \<Rightarrow> token_error + CWTClaimsResult" where
  "ParseCWTToken lib token key =
     (case cbor_RawTag lib token of
        None \<Rightarrow> Inl BadCOSE
      | Some (number, content) \<Rightarrow>
          if number \<noteq> 18 then Inl (WrongTag number)
          else case cbor_RawArray lib content of
            None \<Rightarrow> Inl BadCOSE
          | Some parts \<Rightarrow>
              if length parts \<noteq> 4 then Inl (WrongArity (length parts))
              else case (cbor_Bytes lib (parts ! 0), cbor_Bytes lib (parts ! 2), cbor_Bytes lib (parts ! 3)) of
                (Some protected, Some payload, Some sig) \<Rightarrow>
                  (case verifyCOSESign1 lib key protected payload sig of
                     Some e \<Rightarrow> Inl e
                   | None \<Rightarrow>
                       (case cbor_Claims lib payload of
                          None \<Rightarrow> Inl BadCOSE
                        | Some claims \<Rightarrow>
                            (case decompressLst lib (cws_Lst (cwc_StatusList claims)) of
                               Inl e \<Rightarrow> Inl e
                             | Inr raw \<Rightarrow> Inr \<lparr>cwr_Subject = cwc_Sub claims, cwr_IssuedAt = cwc_Iat claims * Second,
                                 cwr_TTL = cwc_TTL claims, cwr_Bits = cws_Bits (cwc_StatusList claims), cwr_Lst = raw,
                                 cwr_AggregationURI = cws_AggregationURI (cwc_StatusList claims)\<rparr>)))
              | _ \<Rightarrow> Inl BadCOSE)"

section \<open>Fixed-width integers\<close>

lemma length_fill_bytes [simp]: "length (fill_bytes n x) = n"
  by (induction n arbitrary: x) auto

lemma set_fill_bytes: "x < 256 ^ n \<Longrightarrow> set_bytes (fill_bytes n x) = x"
proof (induction n arbitrary: x)
  case (Suc n)
  then have "x div 256 < 256 ^ n" by (simp add: less_mult_imp_div_less mult.commute)
  then have "set_bytes (fill_bytes n (x div 256)) = x div 256" by (rule Suc.IH)
  moreover have "unat (of_nat (x mod 256) :: byte) = x mod 256"
    by (simp add: unat_of_nat)
  ultimately show ?case by (simp add: set_bytes_def)
qed (simp add: set_bytes_def)

section \<open>What is relied on\<close>

definition ascii :: "string \<Rightarrow> bool" where
  "ascii s \<longleftrightarrow> (\<forall>c\<in>set s. of_char c < (128 :: nat))"

text \<open>RFC 1950: decompression inverts compression.\<close>

definition zlib_law :: "token_lib \<Rightarrow> bool" where
  "zlib_law lib \<longleftrightarrow> (\<forall>x c. zlib lib x = Some c \<longrightarrow> unzlib lib c = Some x)"

text \<open>A \<open>crypto.Signer\<close> over an ECDSA key returns a DER signature that its public key verifies.\<close>

definition ecdsa_law :: "token_lib \<Rightarrow> signer \<Rightarrow> bool" where
  "ecdsa_law lib key \<longleftrightarrow> (\<forall>h der r s. Signer_Sign lib key h = Some der \<and> asn1_RS lib der = Some (r, s)
     \<longrightarrow> ecdsa_Verify lib (Public lib key) h r s)"

text \<open>The CBOR codec decodes what it encoded, at the types used.\<close>

definition cbor_law :: "token_lib \<Rightarrow> bool" where
  "cbor_law lib \<longleftrightarrow>
     (\<forall>c b. ascii (cwc_Sub c) \<and> cbor_Marshal lib (CborClaims c) = Some b \<longrightarrow> cbor_Claims lib b = Some c)
   \<and> (\<forall>n prot pay sig b. cbor_Marshal lib (CborTag n prot [] pay sig) = Some b \<longrightarrow>
        (\<exists>content r0 r1 r2 r3. cbor_RawTag lib b = Some (n, content)
           \<and> cbor_RawArray lib content = Some [r0, r1, r2, r3]
           \<and> cbor_Bytes lib r0 = Some prot \<and> cbor_Bytes lib r2 = Some pay \<and> cbor_Bytes lib r3 = Some sig))"

text \<open>
  RFC 7515 and 7518: a compact JWS parses back into its parts, and ES256 verification splits 64 bytes
  into big-endian \<open>r\<close> and \<open>s\<close> over the SHA-256 of the signing string.
\<close>

definition jwt_law :: "token_lib \<Rightarrow> bool" where
  "jwt_law lib \<longleftrightarrow>
     (\<forall>h c ss sig. ascii (cl_Subject c) \<and> ascii (slc_Lst (cl_StatusList c)) \<and> jwt_SigningString lib h c = Some ss \<longrightarrow>
        (\<exists>h'. jwt_Parse lib (ss @ ''.'' @ RawURL_Encode sig) = Some (h', c, ss, sig) \<and> jh_alg h' = jh_alg h))
   \<and> (\<forall>ss sig key. jwt_Verify lib ''ES256'' ss sig key \<longleftrightarrow> length sig = 64
        \<and> ecdsa_Verify lib key (sha256 lib (string_bytes ss)) (set_bytes (take 32 sig)) (set_bytes (drop 32 sig)))"

section \<open>Round trips\<close>

lemma asn1ToRawECDSA_InrD:
  assumes "asn1ToRawECDSA lib der n = Inr sig"
  obtains r s where "asn1_RS lib der = Some (r, s)" "length sig = 2 * n"
    "set_bytes (take n sig) = r" "set_bytes (drop n sig) = s"
  using assms by (auto simp: asn1ToRawECDSA_def set_fill_bytes split: option.splits if_splits)

lemma signed_verifies:
  assumes "ecdsa_law lib key" "Signer_Sign lib key h = Some der" "asn1ToRawECDSA lib der 32 = Inr sig"
  shows "length sig = 64 \<and> ecdsa_Verify lib (Public lib key) h (set_bytes (take 32 sig)) (set_bytes (drop 32 sig))"
  using assms by (elim asn1ToRawECDSA_InrD) (auto simp: ecdsa_law_def)

lemma ascii_RawURL: "ascii (RawURL_Encode bs)"
proof -
  have "\<forall>c\<in>set b64_url. of_char c < (128 :: nat)" by (simp add: b64_url_def)
  then show ?thesis
    using sextets_bound[OF bytes_bound[of bs]] alphabets(2) by (auto simp: ascii_def RawURL_Encode_def)
qed

lemma DecodeLst_EncodeLst: "zlib_law lib \<Longrightarrow> EncodeLst lib raw = Inr lst \<Longrightarrow> DecodeLst lib lst = Inr raw"
  by (auto simp: EncodeLst_def DecodeLst_def compressLst_def decompressLst_def zlib_law_def RawURL_roundtrip
      split: option.splits)

lemma cwt_roundtrip:
  assumes "zlib_law lib" "ecdsa_law lib key" "cbor_law lib" "ascii (tp_ListURL p)"
    "BuildCWTToken lib key p = Inr token"
  shows "ParseCWTToken lib token (Public lib key) = Inr
    \<lparr>cwr_Subject = tp_ListURL p, cwr_IssuedAt = tp_IssuedAt p div Second * Second, cwr_TTL = tp_TTL p,
     cwr_Bits = Bits (tp_Bitmap p), cwr_Lst = Bytes (tp_Bitmap p), cwr_AggregationURI = []\<rparr>"
proof -
  let ?claims = "\<lambda>c. \<lparr>cwc_Sub = tp_ListURL p, cwc_Iat = tp_IssuedAt p div Second, cwc_TTL = tp_TTL p,
      cwc_StatusList = \<lparr>cws_Bits = Bits (tp_Bitmap p), cws_Lst = c, cws_AggregationURI = []\<rparr>\<rparr>"
  from assms(5) obtain c payload protected tbs der sig where
    c: "zlib lib (Bytes (tp_Bitmap p)) = Some c"
    and pay: "cbor_Marshal lib (CborClaims (?claims c)) = Some payload"
    and tbs: "cbor_Marshal lib (CborSigStructure ''Signature1'' protected [] payload) = Some tbs"
    and der: "Signer_Sign lib key (sha256 lib tbs) = Some der" "asn1ToRawECDSA lib der 32 = Inr sig"
    and tok: "cbor_Marshal lib (CborTag 18 protected [] payload sig) = Some token"
    by (auto simp: BuildCWTToken_def compressLst_def signCOSESign1_def Let_def
        split: pubkey.splits if_splits option.splits sum.splits)
  have z: "unzlib lib c = Some (Bytes (tp_Bitmap p))" using assms(1) c by (simp add: zlib_law_def)
  have cl: "cbor_Claims lib payload = Some (?claims c)" using assms(3,4) pay by (simp add: cbor_law_def)
  obtain content r0 r1 r2 r3 where parts: "cbor_RawTag lib token = Some (18, content)"
      "cbor_RawArray lib content = Some [r0, r1, r2, r3]" "cbor_Bytes lib r0 = Some protected"
      "cbor_Bytes lib r2 = Some payload" "cbor_Bytes lib r3 = Some sig"
    using assms(3) tok unfolding cbor_law_def by blast
  have "verifyCOSESign1 lib (Public lib key) protected payload sig = None"
    using signed_verifies[OF assms(2) der] tbs by (simp add: verifyCOSESign1_def)
  then show ?thesis using parts cl z by (simp add: ParseCWTToken_def decompressLst_def numeral_3_eq_3)
qed

text \<open>
  C16. A verifier of the CWT form recovers the published bitmap: whatever \<open>BuildCWTToken\<close> signs,
  \<open>ParseCWTToken\<close> accepts under the signer's public key and returns the list URL, the issue time to
  the second, the ttl, the width and exactly the bytes of the bitmap.
\<close>

theorem cwt_token_roundtrip:
  assumes "zlib_law lib" "ecdsa_law lib key" "cbor_law lib" "ascii (tp_ListURL p)"
    "BuildCWTToken lib key p = Inr token"
  shows "ParseCWTToken lib token (Public lib key) = Inr
    \<lparr>cwr_Subject = tp_ListURL p, cwr_IssuedAt = tp_IssuedAt p div Second * Second, cwr_TTL = tp_TTL p,
     cwr_Bits = Bits (tp_Bitmap p), cwr_Lst = Bytes (tp_Bitmap p), cwr_AggregationURI = []\<rparr>"
  using assms by (rule cwt_roundtrip)

lemma jwt_roundtrip:
  assumes "zlib_law lib" "ecdsa_law lib key" "jwt_law lib" "ascii (tp_ListURL p)"
    "BuildToken lib key p = Inr token"
  shows "(\<exists>claims. ParseToken lib token (Public lib key) = Inr claims
      \<and> cl_Subject claims = tp_ListURL p \<and> cl_IssuedAt claims = tp_IssuedAt p div Second \<and> cl_TTL claims = tp_TTL p
      \<and> slc_Bits (cl_StatusList claims) = Bits (tp_Bitmap p)
      \<and> DecodeLst lib (slc_Lst (cl_StatusList claims)) = Inr (Bytes (tp_Bitmap p)))
    \<and> (tp_KeyID p \<noteq> [] \<longrightarrow> jh_kid (token_header p) = Some (tp_KeyID p)
        \<and> (\<forall>m. jh_jwk (token_header p) = Some m \<longrightarrow> map_of m ''kid'' = Some (tp_KeyID p)))"
proof -
  let ?c = "\<lambda>lst. \<lparr>cl_Subject = tp_ListURL p, cl_IssuedAt = tp_IssuedAt p div Second, cl_TTL = tp_TTL p,
         cl_StatusList = \<lparr>slc_Bits = Bits (tp_Bitmap p), slc_Lst = lst, slc_AggregationURI = []\<rparr>\<rparr>"
  from assms(5) obtain lst ss der sig where lst: "EncodeLst lib (Bytes (tp_Bitmap p)) = Inr lst"
    and ss: "jwt_SigningString lib (token_header p) (?c lst) = Some ss"
    and sig: "Signer_Sign lib key (sha256 lib (string_bytes ss)) = Some der" "asn1ToRawECDSA lib der 32 = Inr sig"
    and tok: "token = ss @ ''.'' @ RawURL_Encode sig"
    by (auto simp: BuildToken_def es256_Sign_def Let_def split: sum.splits pubkey.splits if_splits option.splits)
  define c where "c = ?c lst"
  have "ascii lst" using lst ascii_RawURL by (auto simp: EncodeLst_def split: sum.splits)
  then have "ascii (cl_Subject c) \<and> ascii (slc_Lst (cl_StatusList c)) \<and> jwt_SigningString lib (token_header p) c = Some ss"
    using assms(4) ss by (simp add: c_def)
  then have "\<exists>h'. jwt_Parse lib (ss @ ''.'' @ RawURL_Encode sig) = Some (h', c, ss, sig)
      \<and> jh_alg h' = jh_alg (token_header p)"
    using assms(3) unfolding jwt_law_def by blast
  then obtain h' where "jwt_Parse lib token = Some (h', c, ss, sig)" "jh_alg h' = ''ES256''"
    unfolding tok by (auto simp: token_header_def)
  moreover have "jwt_Verify lib ''ES256'' ss sig (Public lib key)"
    using signed_verifies[OF assms(2) sig] assms(3) by (simp add: jwt_law_def)
  ultimately have "ParseToken lib token (Public lib key) = Inr c" by (simp add: ParseToken_def)
  moreover have "DecodeLst lib lst = Inr (Bytes (tp_Bitmap p))" using DecodeLst_EncodeLst[OF assms(1) lst] .
  moreover have "tp_KeyID p \<noteq> [] \<longrightarrow> jh_kid (token_header p) = Some (tp_KeyID p)
        \<and> (\<forall>m. jh_jwk (token_header p) = Some m \<longrightarrow> map_of m ''kid'' = Some (tp_KeyID p))"
    by (auto simp: token_header_def jwk_set_def split: option.splits)
  ultimately show ?thesis by (auto simp: c_def)
qed

text \<open>
  C15. A verifier of the JWT form recovers the published bitmap: whatever \<open>BuildToken\<close> signs, \<open>ParseToken\<close>
  accepts under the signer's public key, with the list URL as subject and an \<open>lst\<close> claim that
  \<open>DecodeLst\<close> turns back into exactly the bytes of the bitmap; and when a key identifier is
  configured, the header carries it and an embedded JWK repeats it.
\<close>

theorem jwt_token_roundtrip:
  assumes "zlib_law lib" "ecdsa_law lib key" "jwt_law lib" "ascii (tp_ListURL p)"
    "BuildToken lib key p = Inr token"
  shows "(\<exists>claims. ParseToken lib token (Public lib key) = Inr claims
      \<and> cl_Subject claims = tp_ListURL p \<and> cl_IssuedAt claims = tp_IssuedAt p div Second \<and> cl_TTL claims = tp_TTL p
      \<and> slc_Bits (cl_StatusList claims) = Bits (tp_Bitmap p)
      \<and> DecodeLst lib (slc_Lst (cl_StatusList claims)) = Inr (Bytes (tp_Bitmap p)))
    \<and> (tp_KeyID p \<noteq> [] \<longrightarrow> jh_kid (token_header p) = Some (tp_KeyID p)
        \<and> (\<forall>m. jh_jwk (token_header p) = Some m \<longrightarrow> map_of m ''kid'' = Some (tp_KeyID p)))"
  using assms by (rule jwt_roundtrip)

section \<open>An instance of the libraries\<close>

text \<open>
  A library with stored compression and codecs that accept the claims of one token, enough to
  run both round trips.
\<close>

definition demo_bitmap :: Bitmap where
  "demo_bitmap = \<lparr>bm_bits = 2, bm_size = 6, bm_data = [0x24, 0x01]\<rparr>"

definition demo_params :: TokenParams where
  "demo_params = \<lparr>tp_ListURL = ''https://s/lists/a.1'', tp_IssuedAt = 7 * Second + 5, tp_TTL = 60,
     tp_Bitmap = demo_bitmap, tp_KeyID = ''k1'', tp_JWK = Some [(''kty'', ''EC'')], tp_X5C = []\<rparr>"

definition demo_claims :: Claims where
  "demo_claims = \<lparr>cl_Subject = ''https://s/lists/a.1'', cl_IssuedAt = 7, cl_TTL = 60,
     cl_StatusList = \<lparr>slc_Bits = 2, slc_Lst = RawURL_Encode [0x24, 0x01], slc_AggregationURI = []\<rparr>\<rparr>"

definition demo_cwt_claims :: cwtClaims where
  "demo_cwt_claims = \<lparr>cwc_Sub = ''https://s/lists/a.1'', cwc_Iat = 7, cwc_TTL = 60,
     cwc_StatusList = \<lparr>cws_Bits = 2, cws_Lst = [0x24, 0x01], cws_AggregationURI = []\<rparr>\<rparr>"

definition demo_marshal :: "cbor_value \<Rightarrow> bytes option" where
  "demo_marshal v =
     (case v of
        CborClaims c \<Rightarrow> if c = demo_cwt_claims then Some [1] else None
      | CborHeader h \<Rightarrow> Some [2]
      | CborSigStructure _ _ _ _ \<Rightarrow> Some [3]
      | CborTag n prot un pay sig \<Rightarrow> if n = 18 \<and> prot = [2] \<and> un = [] \<and> pay = [1] then Some sig else None)"

definition demo_lib :: token_lib where
  "demo_lib = \<lparr>zlib = Some, unzlib = Some, sha256 = id, Public = EcdsaKey 256, Signer_Sign = (\<lambda>k h. Some h),
     ecdsa_Verify = (\<lambda>k h r s. r = 5 \<and> s = length h), asn1_RS = (\<lambda>h. Some (5, length h)),
     cbor_Marshal = demo_marshal, cbor_RawTag = (\<lambda>b. Some (18, b)),
     cbor_RawArray = (\<lambda>b. Some [[2], [], [1], b]), cbor_Bytes = Some,
     cbor_Claims = (\<lambda>b. Some demo_cwt_claims),
     jwt_SigningString = (\<lambda>h c. if h = token_header demo_params \<and> c = demo_claims then Some ''h.c'' else None),
     jwt_Verify = (\<lambda>alg ss sig key. length sig = 64 \<and> set_bytes (take 32 sig) = 5
       \<and> set_bytes (drop 32 sig) = length ss),
     jwt_Parse = (\<lambda>t. map_option (\<lambda>sig. (token_header demo_params, demo_claims, ''h.c'', sig)) (RawURL_Decode (drop 4 t))),
     jose_MarshalJSON = (\<lambda>_. Some [1]), json_Object = (\<lambda>_. Some [(''kty'', ''EC'')])\<rparr>"

lemma demo_lib_laws: "zlib_law demo_lib" "ecdsa_law demo_lib k" "cbor_law demo_lib" "jwt_law demo_lib"
  by (auto simp: zlib_law_def ecdsa_law_def cbor_law_def jwt_law_def demo_lib_def demo_marshal_def string_bytes_def
      RawURL_roundtrip split: if_splits)

lemma demo_builds:
  "BuildCWTToken demo_lib 0 demo_params = Inr (fill_bytes 32 5 @ fill_bytes 32 1)"
  "BuildToken demo_lib 0 demo_params = Inr (''h.c.'' @ RawURL_Encode (fill_bytes 32 5 @ fill_bytes 32 3))"
  by (simp_all add: BuildCWTToken_def BuildToken_def demo_lib_def demo_params_def compressLst_def EncodeLst_def
      Bytes_def Bits_def demo_bitmap_def demo_cwt_claims_def demo_claims_def demo_marshal_def cose_protected_def
      signCOSESign1_def asn1ToRawECDSA_def es256_Sign_def string_bytes_def Second_def numeral_3_eq_3
      del: fill_bytes.simps)

theorem cwt_token_roundtrip_witness:
  "\<exists>token r. BuildCWTToken demo_lib 0 demo_params = Inr token
     \<and> ParseCWTToken demo_lib token (Public demo_lib 0) = Inr r \<and> cwr_Lst r = [0x24, 0x01] \<and> cwr_IssuedAt r = 7 * Second"
proof -
  have "ascii (tp_ListURL demo_params)" by (simp add: ascii_def demo_params_def)
  from cwt_token_roundtrip[OF demo_lib_laws(1,2,3) this demo_builds(1)] show ?thesis
    using demo_builds(1) by (auto simp: demo_params_def Bytes_def demo_bitmap_def Second_def)
qed

theorem jwt_token_roundtrip_witness:
  "\<exists>token claims. BuildToken demo_lib 0 demo_params = Inr token
     \<and> ParseToken demo_lib token (Public demo_lib 0) = Inr claims
     \<and> DecodeLst demo_lib (slc_Lst (cl_StatusList claims)) = Inr [0x24, 0x01]
     \<and> map_of (the (jh_jwk (token_header demo_params))) ''kid'' = Some ''k1''"
proof -
  have "ascii (tp_ListURL demo_params)" by (simp add: ascii_def demo_params_def)
  from jwt_token_roundtrip[OF demo_lib_laws(1,2,4) this demo_builds(2)] obtain claims where
    "ParseToken demo_lib (''h.c.'' @ RawURL_Encode (fill_bytes 32 5 @ fill_bytes 32 3)) (Public demo_lib 0) = Inr claims"
    "DecodeLst demo_lib (slc_Lst (cl_StatusList claims)) = Inr (Bytes (tp_Bitmap demo_params))"
    by blast
  then show ?thesis
    using demo_builds(2) by (force simp: demo_params_def Bytes_def demo_bitmap_def token_header_def jwk_set_def)
qed

end
