(* ===== verification/Signing.thy ===== *)
theory Signing
  imports Config
begin

text \<open>
  The source of the signing key, \<open>src/internal/signing\<close>: the two builds of \<open>NewSigner\<close>, without and with
  PKCS#11 support, and the closers they return. The PKCS#11 library is an argument; the state of a
  computation is the list of its session pools that are open.
\<close>

section \<open>Definitions\<close>

record pool_config =
  pc_ModulePath :: string
  pc_TokenLabel :: string
  pc_SlotID :: nat
  pc_PIN :: string
  pc_PoolSize :: int

text \<open>\<open>pkcs11pool.New\<close> opens a pool or fails; \<open>NewSigner\<close> looks a key up by its label.\<close>

record 'pool pkcs11_lib =
  pkcs11pool_New :: "pool_config \<Rightarrow> string + 'pool"
  pkcs11pool_NewSigner :: "'pool \<Rightarrow> string \<Rightarrow> string + signer"

datatype 'pool closer = noopCloser | PoolCloser 'pool

datatype sign_error = NoPKCS11Support | OpenPool string | CreateSigner string string

definition open_pool :: "'pool \<Rightarrow> ('pool list, unit) state" where
  "open_pool pool = State (\<lambda>ps. ((), pool # ps))"

definition close_pool :: "'pool \<Rightarrow> ('pool list, unit) state" where
  "close_pool pool = State (\<lambda>ps. ((), remove1 pool ps))"

definition Close :: "'pool closer \<Rightarrow> ('pool list, unit) state" where
  "Close c = (case c of noopCloser \<Rightarrow> ret () | PoolCloser pool \<Rightarrow> close_pool pool)"

definition NewSigner_default :: "SigningSource \<Rightarrow> ('pool list, sign_error + signer \<times> 'pool closer) state" where
  "NewSigner_default src =
     (case src of
        KeySource key \<Rightarrow> ret (Inr (key, noopCloser))
      | PKCS11Source _ \<Rightarrow> ret (Inl NoPKCS11Support))"

definition NewSigner_pkcs11 ::
  "'pool pkcs11_lib \<Rightarrow> SigningSource \<Rightarrow> ('pool list, sign_error + signer \<times> 'pool closer) state" where
  "NewSigner_pkcs11 lib src =
     (case src of
        KeySource key \<Rightarrow> ret (Inr (key, noopCloser))
      | PKCS11Source c \<Rightarrow>
          (case pkcs11pool_New lib \<lparr>pc_ModulePath = pk_ModulePath c, pc_TokenLabel = pk_TokenLabel c, pc_SlotID = pk_SlotID c,
                  pc_PIN = pk_PIN c, pc_PoolSize = pk_PoolSize c\<rparr> of
             Inl e \<Rightarrow> ret (Inl (OpenPool e))
           | Inr pool \<Rightarrow> do {
               open_pool pool;
               (case pkcs11pool_NewSigner lib pool (pk_KeyLabel c) of
                  Inl e \<Rightarrow> do { close_pool pool; ret (Inl (CreateSigner (pk_KeyLabel c) e)) }
                | Inr signer \<Rightarrow> ret (Inr (signer, PoolCloser pool)))
             }))"

text \<open>Which of the two a binary contains is decided by the build tag: \<open>None\<close> without it.\<close>

definition NewSigner ::
  "'pool pkcs11_lib option \<Rightarrow> SigningSource \<Rightarrow> ('pool list, sign_error + signer \<times> 'pool closer) state" where
  "NewSigner build src = (case build of None \<Rightarrow> NewSigner_default src | Some lib \<Rightarrow> NewSigner_pkcs11 lib src)"

section \<open>No session pool is leaked\<close>

lemmas signing_defs = NewSigner_def NewSigner_default_def NewSigner_pkcs11_def open_pool_def close_pool_def Close_def

lemma NewSigner_pools:
  assumes "run_state (NewSigner build src) ps = (r, qs)"
  obtains e where "r = Inl e" "qs = ps"
  | signer c where "r = Inr (signer, c)" "run_state (Close c) qs = ((), ps)"
  using assms that by (cases build; cases src) (auto simp: signing_defs split: sum.splits)

lemma NewSigner_key: "run_state (NewSigner build (KeySource key)) ps = (Inr (key, noopCloser), ps)"
  by (cases build) (simp_all add: signing_defs)

lemma NewSigner_without_pkcs11: "run_state (NewSigner None (PKCS11Source c)) ps = (Inl NoPKCS11Support, ps)"
  by (simp add: signing_defs)

end
