(* ===== verification/Cycle_Walk.thy ===== *)
theory Cycle_Walk
  imports Prelude
begin

text \<open>
  Cycle walking: a permutation of a finite domain is turned into one of a subset by iterating
  it until the value falls into the subset. The contract is that \<open>p\<close> permutes the domain;
  that the walk is injective and always comes back is proved from it once and for all.
\<close>

text \<open>At most \<open>k\<close> applications of \<open>p\<close>, stopping at the first value that satisfies \<open>ok\<close>.\<close>

fun walk :: "('a \<Rightarrow> 'a) \<Rightarrow> ('a \<Rightarrow> bool) \<Rightarrow> nat \<Rightarrow> 'a \<Rightarrow> 'a option" where
  "walk p ok 0 c = None"
| "walk p ok (Suc k) c = (if ok (p c) then Some (p c) else walk p ok k (p c))"

lemma walk_SomeD:
  "walk p ok k c = Some i \<Longrightarrow>
   \<exists>m. 0 < m \<and> m \<le> k \<and> (p ^^ m) c = i \<and> ok i \<and> (\<forall>m'. 0 < m' \<and> m' < m \<longrightarrow> \<not> ok ((p ^^ m') c))"
proof (induction k arbitrary: c)
  case (Suc k)
  show ?case
  proof (cases "ok (p c)")
    case True
    with Suc.prems show ?thesis by (intro exI[of _ 1]) auto
  next
    case False
    then have "walk p ok k (p c) = Some i" using Suc.prems by simp
    from Suc.IH[OF this] obtain m where m: "0 < m" "m \<le> k" "(p ^^ m) (p c) = i" "ok i"
      and before: "\<And>m'. 0 < m' \<Longrightarrow> m' < m \<Longrightarrow> \<not> ok ((p ^^ m') (p c))" by blast
    have "\<not> ok ((p ^^ m') c)" if pos: "0 < m'" and lt: "m' < Suc m" for m'
    proof -
      obtain l where l: "m' = Suc l" using pos by (cases m') auto
      show ?thesis
        using before[of l] False lt by (cases "l = 0") (simp_all add: l funpow_Suc_right del: funpow.simps)
    qed
    with m show ?thesis
      by (intro exI[of _ "Suc m"]) (simp add: funpow_Suc_right del: funpow.simps)
  qed
qed simp

lemma walk_NoneD: "walk p ok k c = None \<Longrightarrow> 0 < m \<Longrightarrow> m \<le> k \<Longrightarrow> \<not> ok ((p ^^ m) c)"
proof (induction k arbitrary: c m)
  case (Suc k)
  then have "\<not> ok (p c)" "walk p ok k (p c) = None" by (auto split: if_splits)
  then have IH: "0 < l \<Longrightarrow> l \<le> k \<Longrightarrow> \<not> ok ((p ^^ l) (p c))" for l by (intro Suc.IH)
  obtain l where l: "m = Suc l" using Suc.prems(2) by (cases m) auto
  show ?case
    using IH[of l] \<open>\<not> ok (p c)\<close> Suc.prems(3) l by (cases "l = 0") (auto simp: funpow_swap1)
qed simp

locale cycle_walk =
  fixes p :: "'a \<Rightarrow> 'a"
    and D :: "'a set"
  assumes finite_D: "finite D"
    and p_into: "x \<in> D \<Longrightarrow> p x \<in> D"
    and p_inj: "x \<in> D \<Longrightarrow> y \<in> D \<Longrightarrow> p x = p y \<Longrightarrow> x = y"
begin

lemma funpow_into: "x \<in> D \<Longrightarrow> (p ^^ m) x \<in> D"
  by (induction m) (auto simp: p_into)

lemma funpow_inj: "x \<in> D \<Longrightarrow> y \<in> D \<Longrightarrow> (p ^^ m) x = (p ^^ m) y \<Longrightarrow> x = y"
proof (induction m)
  case (Suc m)
  then show ?case using p_inj[of "(p ^^ m) x" "(p ^^ m) y"] by (simp add: funpow_into)
qed simp

text \<open>If the later of two orbits meets the earlier one, it passed through its start.\<close>

lemma orbit_meets:
  assumes "x \<in> D" "y \<in> D" "k \<le> m" "(p ^^ k) x = (p ^^ m) y"
  shows "x = (p ^^ (m - k)) y"
proof -
  have "(p ^^ m) y = (p ^^ k) ((p ^^ (m - k)) y)"
    using assms(3) by (metis funpow_add le_add_diff_inverse o_apply)
  then show ?thesis using assms funpow_inj funpow_into by metis
qed

lemma walk_first:
  assumes "c \<in> D" "c' \<in> D" "ok c" "k \<le> m" "0 < k"
    and "(p ^^ k) c = (p ^^ m) c'"
    and "\<And>m'. 0 < m' \<Longrightarrow> m' < m \<Longrightarrow> \<not> ok ((p ^^ m') c')"
  shows "c = c'"
proof -
  have c: "c = (p ^^ (m - k)) c'" using assms by (intro orbit_meets) auto
  have "m - k = 0"
  proof (rule ccontr)
    assume "m - k \<noteq> 0"
    then have "\<not> ok ((p ^^ (m - k)) c')" using assms(5) by (intro assms(7)) auto
    then show False using c assms(3) by simp
  qed
  then show ?thesis using c by simp
qed

lemma walk_inj:
  assumes "c \<in> D" "c' \<in> D" "ok c" "ok c'"
    and "walk p ok k c = Some i" "walk p ok k' c' = Some i"
  shows "c = c'"
proof -
  obtain m where m: "0 < m" "(p ^^ m) c = i" "\<And>l. 0 < l \<Longrightarrow> l < m \<Longrightarrow> \<not> ok ((p ^^ l) c)"
    using walk_SomeD[OF assms(5)] by blast
  obtain m' where m': "0 < m'" "(p ^^ m') c' = i" "\<And>l. 0 < l \<Longrightarrow> l < m' \<Longrightarrow> \<not> ok ((p ^^ l) c')"
    using walk_SomeD[OF assms(6)] by blast
  show ?thesis
  proof (cases "m \<le> m'")
    case True
    with assms m m' show ?thesis by (intro walk_first[of c c' ok m m']) auto
  next
    case False
    with assms m m' have "c' = c" by (intro walk_first[of c' c ok m' m]) auto
    then show ?thesis by simp
  qed
qed

text \<open>
  A walk that has not stopped after \<open>k\<close> steps visited \<open>k\<close> different elements of the domain
  outside the target, so the walk stops within one step more than there are such elements.
\<close>

lemma walk_visits_distinct:
  assumes "c \<in> D" "ok c" "\<And>l. 0 < l \<Longrightarrow> l \<le> k \<Longrightarrow> \<not> ok ((p ^^ l) c)"
  shows "inj_on (\<lambda>l. (p ^^ l) c) {1..k}"
proof (rule linorder_inj_onI)
  fix x y assume xy: "x < y" "x \<in> {1..k}" "y \<in> {1..k}"
  show "(p ^^ x) c \<noteq> (p ^^ y) c"
  proof
    assume "(p ^^ x) c = (p ^^ y) c"
    then have "c = (p ^^ (y - x)) c" using xy assms(1) by (intro orbit_meets) auto
    moreover have "\<not> ok ((p ^^ (y - x)) c)" using xy by (intro assms(3)) auto
    ultimately show False using assms(2) by simp
  qed
qed auto

lemma walk_converges:
  assumes "c \<in> D" "ok c" "card {x \<in> D. \<not> ok x} < k"
  shows "\<exists>i. walk p ok k c = Some i"
proof (rule ccontr)
  assume "\<not> (\<exists>i. walk p ok k c = Some i)"
  then have "walk p ok k c = None" by auto
  then have nok: "\<not> ok ((p ^^ l) c)" if "0 < l" "l \<le> k" for l using that by (rule walk_NoneD)
  have "card {1..k} = card ((\<lambda>l. (p ^^ l) c) ` {1..k})"
    using walk_visits_distinct[OF assms(1,2) nok] by (simp add: card_image)
  also have "\<dots> \<le> card {x \<in> D. \<not> ok x}"
    using nok funpow_into[OF assms(1)] finite_D by (intro card_mono) auto
  finally show False using assms(3) by simp
qed

end

end
