(* ===== verification/Allocator.thy ===== *)
theory Allocator
  imports Cycle_Walk
begin

text \<open>
  The keyed index allocator of \<open>src/internal/allocator/allocator.go\<close>: a four-round balanced
  Feistel network over \<open>2*half\<close> bits, cycle-walked into \<open>[0, n)\<close>. HMAC-SHA256 is the parameter
  \<open>hmac\<close> (key, message, to the 32-byte sum): everything below holds for every such function.
\<close>

section \<open>Definitions\<close>

abbreviation (input) KeySize :: nat where "KeySize \<equiv> 32"
abbreviation (input) rounds :: nat where "rounds \<equiv> 4"
abbreviation (input) maxCycleWalks :: nat where "maxCycleWalks \<equiv> 1000"

datatype alloc_error = BadKeyLength | ZeroCapacity | CursorOutOfRange | NoConvergence

record Allocator =
  al_key :: bytes
  al_n :: u64
  al_half :: nat

text \<open>\<open>bits.Len64\<close>: the number of bits needed to write \<open>x\<close>.\<close>

fun bit_len :: "nat \<Rightarrow> nat" where
  "bit_len x = (if x = 0 then 0 else Suc (bit_len (x div 2)))"

declare bit_len.simps [simp del]

definition Len64 :: "u64 \<Rightarrow> nat" where
  "Len64 x = bit_len (unat x)"

definition New :: "bytes \<Rightarrow> u64 \<Rightarrow> alloc_error + Allocator" where
  "New key n =
     (if length key \<noteq> KeySize then Inl BadKeyLength
      else if n = 0 then Inl ZeroCapacity
      else let total = Len64 (n - 1);
               total = (if total = 0 then 1 else total);
               total = (if total mod 2 \<noteq> 0 then total + 1 else total);
               half = total div 2;
               half = (if half = 0 then 1 else half)
           in Inr \<lparr>al_key = key, al_n = n, al_half = half\<rparr>)"

definition NewKey :: "(nat \<Rightarrow> ('s, 'e + bytes) state) \<Rightarrow> ('s, 'e + bytes) state" where
  "NewKey random = do {
     r \<leftarrow> random KeySize;
     (case r of Inl e \<Rightarrow> ret (Inl e) | Inr key \<Rightarrow> ret (Inr key))
   }"

text \<open>\<open>binary.BigEndian.PutUint64\<close> and \<open>binary.BigEndian.Uint64\<close>.\<close>

definition be_bytes :: "u64 \<Rightarrow> bytes" where
  "be_bytes w = map (\<lambda>i. ucast (drop_bit (8 * (7 - i)) w)) [0..<8]"

definition be_uint64 :: "bytes \<Rightarrow> u64" where
  "be_uint64 bs = foldl (\<lambda>acc b. push_bit 8 acc OR ucast b) 0 bs"

definition al_round :: "(bytes \<Rightarrow> bytes \<Rightarrow> bytes) \<Rightarrow> Allocator \<Rightarrow> byte \<Rightarrow> u64 \<Rightarrow> u64" where
  "al_round hmac a rnd r =
     (let buf = rnd # be_bytes r;
          sum = hmac (al_key a) buf
      in be_uint64 (take 8 sum))"

text \<open>The loop \<open>for round := range rounds\<close>: \<open>k\<close> rounds are left, \<open>rnd\<close> is the next one.\<close>

fun feistel :: "(bytes \<Rightarrow> bytes \<Rightarrow> bytes) \<Rightarrow> Allocator \<Rightarrow> u64 \<Rightarrow> nat \<Rightarrow> byte \<Rightarrow> u64 \<times> u64 \<Rightarrow> u64 \<times> u64" where
  "feistel hmac a msk 0 rnd (l, r) = (l, r)"
| "feistel hmac a msk (Suc k) rnd (l, r) =
     (let f = al_round hmac a rnd r AND msk
      in feistel hmac a msk k (rnd + 1) (r, l XOR f))"

definition permute :: "(bytes \<Rightarrow> bytes \<Rightarrow> bytes) \<Rightarrow> Allocator \<Rightarrow> u64 \<Rightarrow> u64" where
  "permute hmac a x =
     (let msk = push_bit (al_half a) 1 - 1;
          l = drop_bit (al_half a) x AND msk;
          r = x AND msk;
          (l, r) = feistel hmac a msk rounds 0 (l, r)
      in push_bit (al_half a) l OR r)"

definition Index :: "(bytes \<Rightarrow> bytes \<Rightarrow> bytes) \<Rightarrow> Allocator \<Rightarrow> u64 \<Rightarrow> alloc_error + u64" where
  "Index hmac a cursor =
     (if al_n a \<le> cursor then Inl CursorOutOfRange
      else case walk (permute hmac a) (\<lambda>c. c < al_n a) maxCycleWalks cursor of
             Some c \<Rightarrow> Inr c
           | None \<Rightarrow> Inl NoConvergence)"

text \<open>
  What \<open>New\<close> establishes: both halves fit a 64-bit word and the padded domain covers \<open>[0, n)\<close>.
\<close>

definition wf_alloc :: "Allocator \<Rightarrow> bool" where
  "wf_alloc a \<longleftrightarrow> 0 < al_n a \<and> 1 \<le> al_half a \<and> al_half a \<le> 32 \<and> unat (al_n a) \<le> 2 ^ (2 * al_half a)"

text \<open>The domain the network permutes: the words of \<open>2*half\<close> bits.\<close>

definition domain :: "Allocator \<Rightarrow> u64 set" where
  "domain a = (if al_half a \<le> 32 then {x. unat x < 2 ^ (2 * al_half a)} else {})"

text \<open>The network run backwards, from the last round to the first.\<close>

fun unfeistel :: "(bytes \<Rightarrow> bytes \<Rightarrow> bytes) \<Rightarrow> Allocator \<Rightarrow> u64 \<Rightarrow> nat \<Rightarrow> byte \<Rightarrow> u64 \<times> u64 \<Rightarrow> u64 \<times> u64" where
  "unfeistel hmac a msk 0 rnd lr = lr"
| "unfeistel hmac a msk (Suc k) rnd lr =
     (let (l, r) = unfeistel hmac a msk k (rnd + 1) lr
      in (r XOR (al_round hmac a rnd l AND msk), l))"

section \<open>The network is a permutation\<close>

lemma unfeistel_feistel: "unfeistel hmac a msk k rnd (feistel hmac a msk k rnd lr) = lr"
  by (induction k arbitrary: rnd lr) (auto simp: Let_def xor.assoc split: prod.splits)

lemma feistel_halves:
  "take_bit h l = l \<Longrightarrow> take_bit h r = r \<Longrightarrow> feistel hmac a (mask h) k rnd (l, r) = (l', r')
   \<Longrightarrow> take_bit h l' = l' \<and> take_bit h r' = r'"
proof (induction k arbitrary: rnd l r)
  case (Suc k)
  let ?r' = "l XOR (al_round hmac a rnd r AND mask h)"
  have "take_bit h ?r' = ?r'"
    using Suc.prems(1) by (simp add: take_bit_xor flip: take_bit_eq_mask)
  moreover have "feistel hmac a (mask h) k (rnd + 1) (r, ?r') = (l', r')"
    using Suc.prems(3) by (simp add: Let_def)
  ultimately show ?case using Suc.prems(2) Suc.IH by blast
qed simp

text \<open>Splitting a \<open>2*h\<close>-bit word into halves and joining them again.\<close>

lemma split_join:
  fixes l r :: u64
  assumes "h \<le> 32" "take_bit h l = l" "take_bit h r = r"
  shows "take_bit h (drop_bit h (push_bit h l OR r)) = l" "take_bit h (push_bit h l OR r) = r"
proof -
  have l: "bit l k \<Longrightarrow> k < h" and r: "bit r k \<Longrightarrow> k < h" for k
    using assms(2,3) by (metis bit_take_bit_iff)+
  show "take_bit h (drop_bit h (push_bit h l OR r)) = l"
  proof (rule bit_eqI)
    fix k
    show "bit (take_bit h (drop_bit h (push_bit h l OR r))) k = bit l k"
      using l[of k] r[of "h + k"] assms(1)
      by (auto simp: bit_take_bit_iff bit_drop_bit_eq bit_or_iff bit_push_bit_iff)
  qed
  show "take_bit h (push_bit h l OR r) = r"
    by (rule bit_eqI) (use l r in \<open>auto simp: bit_take_bit_iff bit_or_iff bit_push_bit_iff\<close>)
qed

lemma join_split:
  fixes x :: u64
  assumes "take_bit (2 * h) x = x"
  shows "push_bit h (take_bit h (drop_bit h x)) OR take_bit h x = x"
proof (rule bit_eqI)
  fix k
  assume "possible_bit TYPE(u64) k"
  then have k: "k < 64" by simp
  have "bit x k \<Longrightarrow> k < 2 * h" using assms by (metis bit_take_bit_iff)
  then show "bit (push_bit h (take_bit h (drop_bit h x)) OR take_bit h x) k = bit x k"
    using k by (auto simp: bit_take_bit_iff bit_drop_bit_eq bit_or_iff bit_push_bit_iff)
qed

lemma unat_less_exp_iff: "unat (x :: 'a::len word) < 2 ^ m \<longleftrightarrow> take_bit m x = x"
  by (simp add: word_unat_eq_iff unsigned_take_bit_eq take_bit_nat_eq_self_iff)

lemma permute_eq:
  "permute hmac a x =
     (case feistel hmac a (mask (al_half a)) 4 0 (take_bit (al_half a) (drop_bit (al_half a) x), take_bit (al_half a) x)
      of (l, r) \<Rightarrow> push_bit (al_half a) l OR r)"
  by (simp add: permute_def Let_def exp_minus_one_mask take_bit_eq_mask)

definition unpermute :: "(bytes \<Rightarrow> bytes \<Rightarrow> bytes) \<Rightarrow> Allocator \<Rightarrow> u64 \<Rightarrow> u64" where
  "unpermute hmac a y =
     (let h = al_half a;
          (l, r) = unfeistel hmac a (mask h) 4 0 (take_bit h (drop_bit h y), take_bit h y)
      in push_bit h l OR r)"

lemma permute_domain:
  assumes "x \<in> domain a"
  shows "permute hmac a x \<in> domain a" "unpermute hmac a (permute hmac a x) = x"
proof -
  define h where "h = al_half a"
  have h: "h \<le> 32" and x: "take_bit (2 * h) x = x"
    using assms by (auto simp: domain_def h_def unat_less_exp_iff split: if_splits)
  obtain l r where lr: "feistel hmac a (mask h) 4 0 (take_bit h (drop_bit h x), take_bit h x) = (l, r)"
    by fastforce
  have halves: "take_bit h l = l" "take_bit h r = r"
    using feistel_halves[OF _ _ lr] by auto
  have p: "permute hmac a x = push_bit h l OR r" using lr by (simp add: permute_eq h_def)
  have "take_bit (2 * h) (push_bit h l OR r) = push_bit h l OR r"
  proof (rule bit_eqI)
    fix k
    have "bit l j \<Longrightarrow> j < h" "bit r j \<Longrightarrow> j < h" for j using halves by (metis bit_take_bit_iff)+
    from this(1)[of "k - h"] this(2)[of k]
    show "bit (take_bit (2 * h) (push_bit h l OR r)) k = bit (push_bit h l OR r) k"
      by (auto simp: bit_take_bit_iff bit_or_iff bit_push_bit_iff)
  qed
  then show "permute hmac a x \<in> domain a"
    using h by (simp add: p domain_def unat_less_exp_iff flip: h_def)
  have "unfeistel hmac a (mask h) 4 0 (l, r) = (take_bit h (drop_bit h x), take_bit h x)"
    using unfeistel_feistel[of hmac a "mask h" 4 0 "(take_bit h (drop_bit h x), take_bit h x)"]
    by (simp only: lr)
  then show "unpermute hmac a (permute hmac a x) = x"
    using join_split[OF x]
    unfolding unpermute_def p Let_def h_def[symmetric] split_join[OF h halves] by simp
qed

interpretation cw: cycle_walk "permute hmac a" "domain a" for hmac a
proof (unfold_locales, goal_cases)
  case 1
  show ?case by simp
next
  case (2 x)
  then show ?case by (rule permute_domain(1))
next
  case (3 x y)
  then show ?case by (metis permute_domain(2))
qed

section \<open>The size of the domain\<close>

lemma bit_len_0 [simp]: "bit_len 0 = 0"
  by (simp add: bit_len.simps)

lemma bit_len_pos: "0 < x \<Longrightarrow> bit_len x = Suc (bit_len (x div 2))"
  by (subst bit_len.simps) simp

lemma bit_len_bounds: "x < 2 ^ bit_len x \<and> (0 < x \<longrightarrow> 2 ^ (bit_len x - 1) \<le> x)"
proof (induction x rule: bit_len.induct)
  case (1 x)
  show ?case
  proof (cases "x = 0")
    case False
    then have IH: "x div 2 < 2 ^ bit_len (x div 2)"
      "0 < x div 2 \<Longrightarrow> 2 ^ (bit_len (x div 2) - 1) \<le> x div 2" using 1 by auto
    have "2 ^ bit_len (x div 2) \<le> x" if "0 < x div 2"
    proof -
      have "(2::nat) ^ bit_len (x div 2) = 2 * 2 ^ (bit_len (x div 2) - 1)"
        using that by (simp add: bit_len_pos)
      then show ?thesis using IH(2)[OF that] by linarith
    qed
    moreover have "x = 1" if "x div 2 = 0" using that False by simp
    ultimately show ?thesis using IH(1) False by (cases "x div 2 = 0") (auto simp: bit_len_pos)
  qed simp
qed

lemma bit_len_le: "x < 2 ^ k \<Longrightarrow> bit_len x \<le> k"
proof (cases "x = 0")
  case False
  assume "x < 2 ^ k"
  moreover have "2 ^ (bit_len x - 1) \<le> x" using bit_len_bounds[of x] False by simp
  ultimately have "(2::nat) ^ (bit_len x - 1) < 2 ^ k" by linarith
  then show ?thesis using False by (simp add: bit_len_pos)
qed simp

lemma New_domain:
  assumes "New key n = Inr a"
  shows "wf_alloc a \<and> al_n a = n \<and> al_key a = key \<and> 2 ^ (2 * al_half a) \<le> 4 * unat n"
proof -
  define m where "m = bit_len (unat n - 1)"
  have n: "n \<noteq> 0" and a: "al_n a = n" "al_key a = key"
    using assms by (auto simp: New_def Let_def split: if_splits)
  have pos: "0 < unat n" using n by (simp add: unat_gt_0)
  have "Len64 (n - 1) = m" using n by (simp add: Len64_def m_def unat_minus_one)
  then have "al_half a = (if m = 0 then 1 else if m mod 2 \<noteq> 0 then (m + 1) div 2 else m div 2)"
    using assms by (auto simp: New_def Let_def split: if_splits)
  then have h: "2 * al_half a = (if m = 0 then 2 else if odd m then m + 1 else m)"
    by (auto; presburger)
  have "unat n < 2 ^ LENGTH(64)" by (rule unsigned_less)
  then have "unat n - 1 < 2 ^ 64" by simp
  then have m64: "m \<le> 64" unfolding m_def by (rule bit_len_le)
  have lo: "unat n - 1 < 2 ^ m" and hi: "1 < unat n \<Longrightarrow> 2 ^ (m - 1) \<le> unat n - 1"
    using bit_len_bounds[of "unat n - 1"] by (auto simp: m_def)
  have "m \<le> 2 * al_half a" using h by auto
  then have "(2::nat) ^ m \<le> 2 ^ (2 * al_half a)" by (rule power_increasing) simp
  then have cover: "unat n \<le> 2 ^ (2 * al_half a)" using lo by linarith
  have le32: "1 \<le> al_half a" "al_half a \<le> 32" using h m64 by (auto split: if_splits elim!: oddE)
  have "2 ^ (2 * al_half a) \<le> 4 * unat n"
  proof (cases "1 < unat n")
    case True
    then have "0 < m" using lo by (cases m) auto
    then have "2 * al_half a \<le> 2 + (m - 1)" using h by auto
    then have "(2::nat) ^ (2 * al_half a) \<le> 2 ^ (2 + (m - 1))" by (rule power_increasing) simp
    then show ?thesis using hi[OF True] by (simp add: power_add)
  next
    case False
    then have "unat n = 1" using pos by linarith
    then show ?thesis using h by (simp add: m_def)
  qed
  then show ?thesis using n a cover le32 by (simp add: wf_alloc_def word_gt_0)
qed

lemma range_in_domain: "wf_alloc a \<Longrightarrow> c < al_n a \<Longrightarrow> c \<in> domain a"
  by (simp add: wf_alloc_def domain_def word_less_nat_alt)

lemma card_outside:
  assumes "wf_alloc a"
  shows "card {x \<in> domain a. \<not> x < al_n a} \<le> 2 ^ (2 * al_half a) - unat (al_n a)"
proof -
  have "unat ` {x \<in> domain a. \<not> x < al_n a} \<subseteq> {unat (al_n a)..<2 ^ (2 * al_half a)}"
    by (auto simp: domain_def word_less_nat_alt not_less split: if_splits)
  then have "card {x \<in> domain a. \<not> x < al_n a} \<le> card {unat (al_n a)..<2 ^ (2 * al_half a)}"
    by (intro card_inj_on_le[of unat]) (auto simp: inj_on_def word_unat_eq_iff)
  then show ?thesis by simp
qed

lemma Index_cases:
  assumes "wf_alloc a" "c < al_n a"
  shows "Index hmac a c = (case walk (permute hmac a) (\<lambda>c. c < al_n a) maxCycleWalks c of
           Some i \<Rightarrow> Inr i | None \<Rightarrow> Inl NoConvergence)"
proof -
  have "\<not> al_n a \<le> c" using assms(2) by simp
  then show ?thesis by (simp add: Index_def)
qed

lemma Index_InrD:
  assumes "Index hmac a c = Inr i"
  shows "c < al_n a \<and> walk (permute hmac a) (\<lambda>c. c < al_n a) maxCycleWalks c = Some i \<and> i < al_n a"
proof -
  have w: "c < al_n a" "walk (permute hmac a) (\<lambda>c. c < al_n a) maxCycleWalks c = Some i"
    using assms by (auto simp: Index_def not_le split: if_splits option.splits)
  moreover have "i < al_n a" using walk_SomeD[OF w(2)] by blast
  ultimately show ?thesis by blast
qed

lemma Index_injective:
  assumes "wf_alloc a" "Index hmac a c = Inr i" "Index hmac a c' = Inr i"
  shows "c = c'"
proof (rule cw.walk_inj)
  show "walk (permute hmac a) (\<lambda>c. c < al_n a) maxCycleWalks c = Some i"
    "walk (permute hmac a) (\<lambda>c. c < al_n a) maxCycleWalks c' = Some i"
    "c < al_n a" "c' < al_n a"
    using Index_InrD[OF assms(2)] Index_InrD[OF assms(3)] by simp_all
  then show "c \<in> domain a" "c' \<in> domain a" using range_in_domain[OF assms(1)] by simp_all
qed

lemma Index_converges:
  assumes "wf_alloc a" "2 ^ (2 * al_half a) < unat (al_n a) + maxCycleWalks" "c < al_n a"
  shows "\<exists>i. Index hmac a c = Inr i"
proof -
  have "card {x \<in> domain a. \<not> x < al_n a} < maxCycleWalks"
    using card_outside[OF assms(1)] assms(2) by linarith
  then have "\<exists>i. walk (permute hmac a) (\<lambda>c. c < al_n a) maxCycleWalks c = Some i"
    using assms(1,3) by (intro cw.walk_converges range_in_domain) auto
  then show ?thesis using Index_cases[OF assms(1,3)] by auto
qed

section \<open>Properties\<close>

text \<open>
  C4. Collision freedom: for every key, every capacity and every HMAC function, two cursors of one
  list never receive the same index, and every index handed out lies below the capacity.
\<close>

theorem index_collision_free:
  assumes "New key n = Inr a" and "Index hmac a c = Inr i" and "Index hmac a c' = Inr j"
  shows "i < n \<and> j < n \<and> (i = j \<longleftrightarrow> c = c')"
  using New_domain[OF assms(1)] Index_InrD[OF assms(2)] Index_InrD[OF assms(3)] assms(2,3)
    Index_injective by auto

theorem index_collision_free_witness:
  "\<exists>a i j. New (replicate 32 0) 3 = Inr a \<and> Index (\<lambda>k m. replicate 32 1) a 0 = Inr i
     \<and> Index (\<lambda>k m. replicate 32 1) a 2 = Inr j \<and> i < 3 \<and> j < 3 \<and> i \<noteq> j"
proof -
  define a where "a = \<lparr>al_key = replicate 32 0, al_n = 3, al_half = 1\<rparr>"
  have new: "New (replicate 32 0) 3 = Inr a"
    by (simp add: New_def Len64_def bit_len.simps a_def)
  have ok: "wf_alloc a" "al_n a = 3" "al_half a = 1" using New_domain[OF new] by (auto simp: a_def)
  obtain i where i: "Index (\<lambda>k m. replicate 32 1) a 0 = Inr i"
    using Index_converges[OF ok(1), of 0] ok by auto
  obtain j where j: "Index (\<lambda>k m. replicate 32 1) a 2 = Inr j"
    using Index_converges[OF ok(1), of 2] ok by auto
  show ?thesis using new i j index_collision_free[OF new i j] by auto
qed

text \<open>
  The Feistel network permutes its padded domain whatever HMAC returns, and \<open>unpermute\<close>
  (the rounds run backwards) inverts it.
\<close>

theorem permute_is_permutation:
  assumes "New key n = Inr a"
  shows "bij_betw (permute hmac a) (domain a) (domain a)
    \<and> (\<forall>x. unat x < 2 ^ (2 * al_half a) \<longrightarrow> unpermute hmac a (permute hmac a x) = x)"
proof
  have "inj_on (permute hmac a) (domain a)" by (auto simp: inj_on_def intro: cw.p_inj)
  moreover have "permute hmac a ` domain a = domain a"
    using cw.p_into cw.finite_D calculation by (intro endo_inj_surj) auto
  ultimately show "bij_betw (permute hmac a) (domain a) (domain a)" by (simp add: bij_betw_def)
  show "\<forall>x. unat x < 2 ^ (2 * al_half a) \<longrightarrow> unpermute hmac a (permute hmac a x) = x"
    using New_domain[OF assms] by (auto simp: wf_alloc_def domain_def intro: permute_domain(2))
qed

theorem permute_is_permutation_witness:
  "\<exists>a. New (replicate 32 7) 100000 = Inr a \<and> al_half a = 9
     \<and> unpermute (\<lambda>k m. m) a (permute (\<lambda>k m. m) a 99999) = 99999"
proof -
  define a where "a = \<lparr>al_key = replicate 32 7, al_n = 100000, al_half = 9\<rparr>"
  have "New (replicate 32 7) 100000 = Inr a"
    by (simp add: New_def Len64_def bit_len.simps a_def)
  from this permute_is_permutation[OF this, of "\<lambda>k m. m"] show ?thesis by (auto simp: a_def)
qed



text \<open>
  Bounds of the padded domain: \<open>New\<close> picks halves of 1 to 32 bits, the domain covers the
  capacity and is at most four times as large; the factor can exceed three, so more than two
  thirds of a walk's values may be out of range.
\<close>

theorem domain_within_factor_four:
  "(New key n = Inr a \<longrightarrow>
      1 \<le> al_half a \<and> al_half a \<le> 32
      \<and> unat n \<le> 2 ^ (2 * al_half a) \<and> 2 ^ (2 * al_half a) \<le> 4 * unat n)
   \<and> (\<exists>a. New (replicate 32 0) 5 = Inr a \<and> 3 * 5 < (2::nat) ^ (2 * al_half a))"
proof
  show "New key n = Inr a \<longrightarrow> 1 \<le> al_half a \<and> al_half a \<le> 32
      \<and> unat n \<le> 2 ^ (2 * al_half a) \<and> 2 ^ (2 * al_half a) \<le> 4 * unat n"
    using New_domain by (auto simp: wf_alloc_def)
  show "\<exists>a. New (replicate 32 0) 5 = Inr a \<and> 3 * 5 < (2::nat) ^ (2 * al_half a)"
    by (simp add: New_def Len64_def bit_len.simps)
qed

theorem domain_within_factor_four_witness:
  "\<exists>a. New (replicate 32 0) 100000 = Inr a \<and> 2 ^ (2 * al_half a) \<le> 4 * unat (100000 :: u64)"
proof -
  have "New (replicate 32 0) 100000 = Inr \<lparr>al_key = replicate 32 0, al_n = 100000, al_half = 9\<rparr>"
    by (simp add: New_def Len64_def bit_len.simps)
  then show ?thesis using domain_within_factor_four by blast
qed

end
