(* ===== verification/ListID.thy ===== *)
theory ListID
  imports Go_Strings
begin

text \<open>
  Shard-prefixed list identifiers, \<open>src/internal/listid/listid.go\<close>. The random source is the
  argument \<open>random\<close>, as \<open>crypto/rand.Read\<close> is in the source: given a length it returns that many
  bytes, or fails.
\<close>

section \<open>Definitions\<close>

abbreviation (input) separator :: char where "separator \<equiv> CHR ''.''"

datatype 'e listid_error = ShardContainsSeparator string | RandomFailed 'e

definition ListID_New ::
  "(nat \<Rightarrow> ('s, 'e + bytes) state) \<Rightarrow> string \<Rightarrow> ('s, 'e listid_error + string) state" where
  "ListID_New random shardID =
     (if str_contains shardID separator then ret (Inl (ShardContainsSeparator shardID))
      else do {
        r \<leftarrow> random 16;
        (case r of Inl e \<Rightarrow> ret (Inl (RandomFailed e))
         | Inr b \<Rightarrow> ret (Inr (shardID @ [separator] @ hex_encode b)))
      })"

definition ParseShard :: "string \<Rightarrow> string option" where
  "ParseShard listID =
     (let i = str_index listID separator
      in if i \<le> 0 \<or> i = int (length listID) - 1 then None else Some (take (nat i) listID))"

section \<open>Facts\<close>

lemma ParseShard_prefixed:
  assumes "separator \<notin> set shard" "shard \<noteq> []" "s \<noteq> []"
  shows "ParseShard (shard @ separator # s) = Some shard"
  using assms by (simp add: ParseShard_def str_index_append)

lemma ParseShard_SomeD:
  assumes "ParseShard l = Some shard"
  shows "shard \<noteq> [] \<and> separator \<notin> set shard \<and> (\<exists>s. s \<noteq> [] \<and> l = shard @ separator # s)"
proof -
  define i where "i = str_index l separator"
  have i: "0 < i" "i \<noteq> int (length l) - 1" "shard = take (nat i) l"
    using assms by (auto simp: ParseShard_def i_def Let_def split: if_splits)
  have "separator \<in> set l" using i(1) str_index_neg_iff[of l separator] by (auto simp: i_def)
  then obtain u s where us: "l = u @ separator # s" "separator \<notin> set u"
    by (metis split_list_first)
  then have len: "i = int (length u)" by (simp add: i_def str_index_append)
  then have "shard = u" using i(3) us(1) by simp
  moreover have "u \<noteq> []" using len i(1) by auto
  moreover have "s \<noteq> []" using len i(2) us(1) by auto
  ultimately show ?thesis using us by auto
qed

section \<open>Properties\<close>

text \<open>
  A list ID carries its shard: whatever the random bytes are, an identifier made for a
  non-empty shard name parses back to exactly that name; and \<open>ParseShard\<close> accepts nothing but
  a non-empty, separator-free prefix followed by the separator and a non-empty rest.
\<close>

theorem list_id_roundtrip:
  "(shard \<noteq> [] \<and> run_state (random 16) s = (Inr b, s') \<and> length b = 16 \<and> separator \<notin> set shard
     \<longrightarrow> (\<exists>l. run_state (ListID_New random shard) s = (Inr l, s') \<and> ParseShard l = Some shard))
   \<and> (separator \<in> set shard
     \<longrightarrow> run_state (ListID_New random shard) s = (Inl (ShardContainsSeparator shard), s))
   \<and> (ParseShard l = Some shard \<longleftrightarrow>
        shard \<noteq> [] \<and> separator \<notin> set shard \<and> (\<exists>r. r \<noteq> [] \<and> l = shard @ separator # r))"
proof (intro conjI impI)
  assume a: "shard \<noteq> [] \<and> run_state (random 16) s = (Inr b, s') \<and> length b = 16 \<and> separator \<notin> set shard"
  then have "hex_encode b \<noteq> []" by (metis length_0_conv length_hex_encode mult_is_0 zero_neq_numeral)
  then show "\<exists>l. run_state (ListID_New random shard) s = (Inr l, s') \<and> ParseShard l = Some shard"
    using a ParseShard_prefixed[of shard "hex_encode b"]
    by (simp add: ListID_New_def str_contains_iff)
next
  assume "separator \<in> set shard"
  then show "run_state (ListID_New random shard) s = (Inl (ShardContainsSeparator shard), s)"
    by (simp add: ListID_New_def str_contains_iff)
next
  show "ParseShard l = Some shard \<longleftrightarrow>
        shard \<noteq> [] \<and> separator \<notin> set shard \<and> (\<exists>r. r \<noteq> [] \<and> l = shard @ separator # r)"
    using ParseShard_SomeD ParseShard_prefixed by auto
qed

theorem list_id_roundtrip_witness:
  "\<exists>l. run_state (ListID_New (\<lambda>n. ret (Inr (replicate n 0xA1) :: unit + bytes)) ''iad'') () = (Inr l, ())
     \<and> ParseShard l = Some ''iad''"
  using conjunct1[OF list_id_roundtrip, of "''iad''" "\<lambda>n. ret (Inr (replicate n 0xA1) :: unit + bytes)" "()"
      "replicate 16 0xA1" "()"]
  by simp

end
