(* ===== verification/Tables.thy ===== *)
theory Tables
  imports Bitmap Allocator ListID
begin

text \<open>
  The relational tables of the service and the SQL statements it issues against them: the DDL
  and the statements of \<open>src/internal/store/postgres.go\<close> and \<open>src/internal/as/shard.go\<close>. A table
  is the list of its rows in insertion order; each statement is a pure function on the tables,
  with \<open>Inl\<close> for a statement the server rejects (a duplicate key).

  \<^item> \<open>bigint\<close> columns are \<open>int\<close>; Go's \<open>int64(x)\<close> and \<open>uint64(x)\<close> conversions at the boundary are
    written out.
  \<^item> \<open>timestamptz\<close> has microsecond resolution: \<open>pgtz\<close> is the truncation the driver applies.
  \<^item> \<open>now\<close> is the instant the statement runs at.
\<close>

section \<open>Errors\<close>

text \<open>The errors of the stores and of the code above them; \<open>errors.Is\<close> is equality here.\<close>

datatype err =
    ErrListFull
  | ErrNotOwner
  | ErrDb
  | ErrRedis
  | ErrRandom
  | ErrPanic
  | ErrAlloc alloc_error
  | ErrBitmap bitmap_error
  | ErrShardName string
  | ErrNoBitmapStore string
  | ErrToken

section \<open>Tables\<close>

datatype list_state = ACTIVE | FROZEN | ARCHIVED

record list_row =
  lr_id :: string
  lr_bits :: int
  lr_size :: int
  lr_cursor :: int
  lr_fpe_key :: bytes
  lr_max_exp :: "time option"
  lr_state :: list_state
  lr_created_at :: time
  lr_archived_at :: "time option"
  lr_purged :: bool
  lr_shard_id :: string
  lr_purged_at :: "time option"

record alloc_row =
  ar_list_id :: string
  ar_idx :: int
  ar_issuer_id :: string
  ar_exp :: time
  ar_created_at :: time

record usage_row =
  us_issuer_id :: string
  us_shard_id :: string
  us_index_count :: int
  us_updated_at :: time

record shard_row =
  is_issuer_id :: string
  is_shard_id :: string
  is_created_at :: time

record pg =
  lists :: "list_row list"
  allocations :: "alloc_row list"
  issuer_usage :: "usage_row list"
  issuer_shard :: "shard_row list"

definition empty_pg :: pg where
  "empty_pg = \<lparr>lists = [], allocations = [], issuer_usage = [], issuer_shard = []\<rparr>"

definition pgtz :: "time \<Rightarrow> time" where
  "pgtz t = t - t mod 1000"

section \<open>Statements on lists\<close>

definition sql_insert_list ::
  "string \<Rightarrow> int \<Rightarrow> int \<Rightarrow> bytes \<Rightarrow> string \<Rightarrow> time \<Rightarrow> pg \<Rightarrow> err + pg" where
  "sql_insert_list lid bits sz fpe_key shard now db =
     (if lid \<in> lr_id ` set (lists db) then Inl ErrDb
      else Inr (db\<lparr>lists := lists db @
        [\<lparr>lr_id = lid, lr_bits = bits, lr_size = sz, lr_cursor = 0, lr_fpe_key = fpe_key,
          lr_max_exp = None, lr_state = ACTIVE, lr_created_at = pgtz now, lr_archived_at = None,
          lr_purged = False, lr_shard_id = shard, lr_purged_at = None\<rparr>]\<rparr>))"

text \<open>\<open>SELECT ... FROM lists WHERE P ORDER BY created_at ASC\<close>\<close>

definition sql_select_lists :: "(list_row \<Rightarrow> bool) \<Rightarrow> pg \<Rightarrow> list_row list" where
  "sql_select_lists P db = sort_key lr_created_at (filter P (lists db))"

definition sql_select_list :: "string \<Rightarrow> pg \<Rightarrow> list_row option" where
  "sql_select_list lid db = find (\<lambda>r. lr_id r = lid) (lists db)"

text \<open>\<open>UPDATE lists SET f WHERE P\<close>\<close>

definition sql_update_lists :: "(list_row \<Rightarrow> bool) \<Rightarrow> (list_row \<Rightarrow> list_row) \<Rightarrow> pg \<Rightarrow> pg" where
  "sql_update_lists P f db = db\<lparr>lists := map (\<lambda>r. if P r then f r else r) (lists db)\<rparr>"

definition sql_freeze :: "string \<Rightarrow> pg \<Rightarrow> pg" where
  "sql_freeze lid = sql_update_lists (\<lambda>r. lr_id r = lid \<and> lr_state r = ACTIVE)
     (\<lambda>r. r\<lparr>lr_state := FROZEN\<rparr>)"

definition sql_archive :: "string \<Rightarrow> time \<Rightarrow> pg \<Rightarrow> pg" where
  "sql_archive lid now = sql_update_lists (\<lambda>r. lr_id r = lid \<and> lr_state r = FROZEN)
     (\<lambda>r. r\<lparr>lr_state := ARCHIVED, lr_archived_at := Some (pgtz now)\<rparr>)"

definition sql_mark_purged :: "string \<Rightarrow> time \<Rightarrow> pg \<Rightarrow> pg" where
  "sql_mark_purged lid now = sql_update_lists (\<lambda>r. lr_id r = lid)
     (\<lambda>r. r\<lparr>lr_purged := True, lr_purged_at := Some (pgtz now)\<rparr>)"

text \<open>
  The first statement of a reservation:
  \<open>UPDATE lists SET cursor = cursor + 1, state = CASE ... END WHERE id = $1 AND cursor < size
  AND state = 'ACTIVE' RETURNING cursor - 1, size\<close>. No matching row is \<open>pgx.ErrNoRows\<close>.
\<close>

definition reservable :: "string \<Rightarrow> list_row \<Rightarrow> bool" where
  "reservable lid r \<longleftrightarrow> lr_id r = lid \<and> lr_cursor r < lr_size r \<and> lr_state r = ACTIVE"

definition advance :: "list_row \<Rightarrow> list_row" where
  "advance r = r\<lparr>lr_cursor := lr_cursor r + 1,
     lr_state := (if lr_cursor r + 1 \<ge> lr_size r then FROZEN else lr_state r)\<rparr>"

definition sql_reserve_cursor :: "string \<Rightarrow> pg \<Rightarrow> ((int \<times> int) \<times> pg) option" where
  "sql_reserve_cursor lid db =
     (case find (reservable lid) (lists db) of
        None \<Rightarrow> None
      | Some r \<Rightarrow> Some ((lr_cursor r, lr_size r), sql_update_lists (reservable lid) advance db))"

text \<open>\<open>GREATEST\<close> ignores NULL arguments.\<close>

definition greatest :: "time option \<Rightarrow> time \<Rightarrow> time option" where
  "greatest a b = (case a of None \<Rightarrow> Some b | Some t \<Rightarrow> Some (max t b))"

definition sql_bump_max_exp :: "string \<Rightarrow> time \<Rightarrow> pg \<Rightarrow> pg" where
  "sql_bump_max_exp lid exp = sql_update_lists (\<lambda>r. lr_id r = lid)
     (\<lambda>r. r\<lparr>lr_max_exp := greatest (lr_max_exp r) (pgtz exp)\<rparr>)"

section \<open>Statements on allocations and usage\<close>

definition alloc_at :: "string \<Rightarrow> int \<Rightarrow> alloc_row \<Rightarrow> bool" where
  "alloc_at lid i a \<longleftrightarrow> ar_list_id a = lid \<and> ar_idx a = i"

definition sql_insert_allocation ::
  "string \<Rightarrow> int \<Rightarrow> string \<Rightarrow> time \<Rightarrow> time \<Rightarrow> pg \<Rightarrow> err + pg" where
  "sql_insert_allocation lid i issuer exp now db =
     (if find (alloc_at lid i) (allocations db) \<noteq> None \<or> sql_select_list lid db = None then Inl ErrDb
      else Inr (db\<lparr>allocations := allocations db @
        [\<lparr>ar_list_id = lid, ar_idx = i, ar_issuer_id = issuer, ar_exp = pgtz exp,
          ar_created_at = pgtz now\<rparr>]\<rparr>))"

definition sql_select_allocation :: "string \<Rightarrow> int \<Rightarrow> pg \<Rightarrow> alloc_row option" where
  "sql_select_allocation lid i db = find (alloc_at lid i) (allocations db)"

text \<open>\<open>INSERT ... ON CONFLICT (issuer_id, shard_id) DO UPDATE SET index_count = index_count + 1\<close>\<close>

definition usage_of :: "string \<Rightarrow> string \<Rightarrow> usage_row \<Rightarrow> bool" where
  "usage_of issuer shard u \<longleftrightarrow> us_issuer_id u = issuer \<and> us_shard_id u = shard"

definition sql_count_usage :: "string \<Rightarrow> string \<Rightarrow> time \<Rightarrow> pg \<Rightarrow> pg" where
  "sql_count_usage issuer shard now db =
     (if find (usage_of issuer shard) (issuer_usage db) = None
      then db\<lparr>issuer_usage := issuer_usage db @
        [\<lparr>us_issuer_id = issuer, us_shard_id = shard, us_index_count = 1, us_updated_at = pgtz now\<rparr>]\<rparr>
      else db\<lparr>issuer_usage := map (\<lambda>u. if usage_of issuer shard u
             then u\<lparr>us_index_count := us_index_count u + 1, us_updated_at := pgtz now\<rparr> else u)
           (issuer_usage db)\<rparr>)"

definition sql_delete_list :: "string \<Rightarrow> pg \<Rightarrow> pg" where
  "sql_delete_list lid db =
     db\<lparr>allocations := filter (\<lambda>a. ar_list_id a \<noteq> lid) (allocations db),
        lists := filter (\<lambda>r. lr_id r \<noteq> lid) (lists db)\<rparr>"

text \<open>
  The body of the reservation transaction, \<open>ReserveCursorAndRecord\<close> between \<open>Begin\<close> and
  \<open>Commit\<close>. The first \<open>UPDATE\<close> locks the list's row until the transaction ends, so the
  transaction is atomic; a body that returns \<open>Inl\<close> is rolled back by the deferred \<open>Rollback\<close>.
\<close>

definition reserve_tx ::
  "string \<Rightarrow> string \<Rightarrow> string \<Rightarrow> time \<Rightarrow> (u64 \<Rightarrow> alloc_error + u64) \<Rightarrow> time \<Rightarrow> pg \<Rightarrow> err + (u64 \<times> pg)" where
  "reserve_tx listID issuerID shardID exp deriveIndex now db =
     (case sql_reserve_cursor listID db of
        None \<Rightarrow> Inl ErrListFull
      | Some ((cursor, sz), db1) \<Rightarrow>
          (case deriveIndex (u64_of_int cursor) of
             Inl e \<Rightarrow> Inl (ErrAlloc e)
           | Inr idx \<Rightarrow>
               (case sql_insert_allocation listID (int64_of_u64 idx) issuerID exp now
                       (sql_bump_max_exp listID exp db1) of
                  Inl e \<Rightarrow> Inl e
                | Inr db2 \<Rightarrow> Inr (idx, sql_count_usage issuerID shardID now db2))))"

section \<open>Statements on shard assignments\<close>

definition sql_select_shard :: "string \<Rightarrow> pg \<Rightarrow> string option" where
  "sql_select_shard issuer db =
     map_option is_shard_id (find (\<lambda>r. is_issuer_id r = issuer) (issuer_shard db))"

definition shard_insert :: "string \<Rightarrow> string \<Rightarrow> time \<Rightarrow> pg \<Rightarrow> pg" where
  "shard_insert issuer shard now db = db\<lparr>issuer_shard := issuer_shard db @
     [\<lparr>is_issuer_id = issuer, is_shard_id = shard, is_created_at = pgtz now\<rparr>]\<rparr>"

text \<open>\<open>INSERT INTO issuer_shard ... ON CONFLICT (issuer_id) DO NOTHING\<close>\<close>

definition sql_assign_shard :: "string \<Rightarrow> string \<Rightarrow> time \<Rightarrow> pg \<Rightarrow> pg" where
  "sql_assign_shard issuer shard now db =
     (if sql_select_shard issuer db = None then shard_insert issuer shard now db else db)"

text \<open>\<open>INSERT INTO issuer_shard ... ON CONFLICT (issuer_id) DO UPDATE SET shard_id = EXCLUDED.shard_id\<close>\<close>

definition sql_reassign_shard :: "string \<Rightarrow> string \<Rightarrow> time \<Rightarrow> pg \<Rightarrow> pg" where
  "sql_reassign_shard issuer shard now db =
     (if sql_select_shard issuer db = None then shard_insert issuer shard now db
      else db\<lparr>issuer_shard := map (\<lambda>r. if is_issuer_id r = issuer then r\<lparr>is_shard_id := shard\<rparr> else r)
             (issuer_shard db)\<rparr>)"

section \<open>Invariant\<close>

text \<open>
  What the statements keep, whoever issues them. The lifecycle of one row:
  \<open>ACTIVE\<close> \<open>\<rightarrow>\<close> \<open>FROZEN\<close> \<open>\<rightarrow>\<close> \<open>ARCHIVED\<close>, with \<open>archived_at\<close> and \<open>purged_at\<close> set exactly when the
  row reaches the state they stamp; the cursor of a list counts its allocations.
\<close>

definition wf_row :: "list_row \<Rightarrow> bool" where
  "wf_row r \<longleftrightarrow> 0 \<le> lr_cursor r \<and> lr_cursor r \<le> max 0 (lr_size r)
     \<and> (lr_state r = ARCHIVED \<longleftrightarrow> lr_archived_at r \<noteq> None)
     \<and> (lr_purged r \<longleftrightarrow> lr_purged_at r \<noteq> None)
     \<and> (lr_purged r \<longrightarrow> lr_state r = ARCHIVED)"

definition allocs_in :: "string \<Rightarrow> alloc_row list \<Rightarrow> nat" where
  "allocs_in l as = length (filter (\<lambda>a. ar_list_id a = l) as)"

definition allocs_by :: "string \<Rightarrow> alloc_row list \<Rightarrow> nat" where
  "allocs_by issuer as = length (filter (\<lambda>a. ar_issuer_id a = issuer) as)"

definition usage_total :: "string \<Rightarrow> usage_row list \<Rightarrow> int" where
  "usage_total issuer us = (\<Sum>u\<leftarrow>us. if us_issuer_id u = issuer then us_index_count u else 0)"

definition wf_lists :: "list_row list \<Rightarrow> bool" where
  "wf_lists ls \<longleftrightarrow> distinct (map lr_id ls) \<and> (\<forall>r\<in>set ls. wf_row r)"

definition wf_allocs :: "list_row list \<Rightarrow> alloc_row list \<Rightarrow> bool" where
  "wf_allocs ls as \<longleftrightarrow> distinct (map (\<lambda>a. (ar_list_id a, ar_idx a)) as)
     \<and> (\<forall>a\<in>set as. ar_list_id a \<in> lr_id ` set ls)
     \<and> (\<forall>r\<in>set ls. lr_cursor r = int (allocs_in (lr_id r) as))"

definition wf_usage :: "usage_row list \<Rightarrow> bool" where
  "wf_usage us \<longleftrightarrow> distinct (map (\<lambda>u. (us_issuer_id u, us_shard_id u)) us)
     \<and> (\<forall>u\<in>set us. 1 \<le> us_index_count u)"

definition wf_pg :: "pg \<Rightarrow> bool" where
  "wf_pg db \<longleftrightarrow> wf_lists (lists db) \<and> wf_allocs (lists db) (allocations db)
     \<and> wf_usage (issuer_usage db) \<and> distinct (map is_issuer_id (issuer_shard db))"

definition usage_covers :: "pg \<Rightarrow> bool" where
  "usage_covers db \<longleftrightarrow>
     (\<forall>issuer. int (allocs_by issuer (allocations db)) \<le> usage_total issuer (issuer_usage db))"

definition usage_exact :: "pg \<Rightarrow> bool" where
  "usage_exact db \<longleftrightarrow>
     (\<forall>issuer. int (allocs_by issuer (allocations db)) = usage_total issuer (issuer_usage db))"

lemma wf_empty_pg [simp]: "wf_pg empty_pg"
  by (simp add: wf_pg_def wf_lists_def wf_allocs_def wf_usage_def empty_pg_def)

lemma usage_exact_empty [simp]: "usage_exact empty_pg"
  by (simp add: usage_exact_def empty_pg_def allocs_by_def usage_total_def)

section \<open>Row updates\<close>

lemma find_id_distinct:
  assumes "distinct (map lr_id ls)" "r \<in> set ls"
  shows "find (\<lambda>r'. lr_id r' = lr_id r) ls = Some r"
proof (cases "find (\<lambda>r'. lr_id r' = lr_id r) ls")
  case None
  then show ?thesis using assms(2) by (auto simp: find_None_iff)
next
  case (Some r')
  then have "r' \<in> set ls" "lr_id r' = lr_id r" by (auto simp: find_Some_iff in_set_conv_nth)
  then have "r' = r" using assms by (auto simp: distinct_map dest: inj_onD)
  then show ?thesis using Some by simp
qed

lemma select_list_mem:
  "sql_select_list l db = Some r \<Longrightarrow> r \<in> set (lists db) \<and> lr_id r = l"
  by (auto simp: sql_select_list_def find_Some_iff in_set_conv_nth)

lemma select_list_iff:
  assumes "wf_pg db"
  shows "sql_select_list l db = Some r \<longleftrightarrow> r \<in> set (lists db) \<and> lr_id r = l"
  using assms find_id_distinct[of "lists db" r] select_list_mem[of l db r]
  by (auto simp: wf_pg_def wf_lists_def sql_select_list_def)

lemma select_list_None_iff: "sql_select_list l db = None \<longleftrightarrow> l \<notin> lr_id ` set (lists db)"
  by (auto simp: sql_select_list_def find_None_iff)

text \<open>An update that keeps the identifiers and cursors, and the shape of every row.\<close>

lemma wf_pg_map_lists:
  assumes "wf_pg db" "\<And>r. r \<in> set (lists db) \<Longrightarrow> lr_id (f r) = lr_id r \<and> lr_cursor (f r) = lr_cursor r"
    "\<And>r. r \<in> set (lists db) \<Longrightarrow> wf_row r \<Longrightarrow> wf_row (f r)"
  shows "wf_pg (db\<lparr>lists := map f (lists db)\<rparr>)"
proof -
  have ids: "map (lr_id \<circ> f) (lists db) = map lr_id (lists db)" using assms(2) by simp
  have img: "lr_id ` f ` set (lists db) = lr_id ` set (lists db)"
    using assms(2) by (auto simp: image_iff)
  show ?thesis
    using assms ids img by (auto simp: wf_pg_def wf_lists_def wf_allocs_def simp del: map_eq_conv)
qed

lemma wf_sql_update_lists:
  assumes "wf_pg db" "\<And>r. P r \<Longrightarrow> lr_id (f r) = lr_id r \<and> lr_cursor (f r) = lr_cursor r"
    "\<And>r. r \<in> set (lists db) \<Longrightarrow> P r \<Longrightarrow> wf_row r \<Longrightarrow> wf_row (f r)"
  shows "wf_pg (sql_update_lists P f db)"
  unfolding sql_update_lists_def using assms by (intro wf_pg_map_lists) auto

lemma wf_sql_freeze: "wf_pg db \<Longrightarrow> wf_pg (sql_freeze l db)"
  unfolding sql_freeze_def by (rule wf_sql_update_lists) (auto simp: wf_row_def)

lemma wf_sql_archive: "wf_pg db \<Longrightarrow> wf_pg (sql_archive l now db)"
  unfolding sql_archive_def by (rule wf_sql_update_lists) (auto simp: wf_row_def)

lemma wf_sql_bump_max_exp: "wf_pg db \<Longrightarrow> wf_pg (sql_bump_max_exp l e db)"
  unfolding sql_bump_max_exp_def by (rule wf_sql_update_lists) (auto simp: wf_row_def)

text \<open>
  \<open>MarkPurged\<close> has no guard on the state: its callers must only name an archived list.
\<close>

definition all_archived :: "string \<Rightarrow> pg \<Rightarrow> bool" where
  "all_archived l db \<longleftrightarrow> (\<forall>r\<in>set (lists db). lr_id r = l \<longrightarrow> lr_state r = ARCHIVED)"

definition all_purged :: "string \<Rightarrow> pg \<Rightarrow> bool" where
  "all_purged l db \<longleftrightarrow> (\<forall>r\<in>set (lists db). lr_id r = l \<longrightarrow> lr_purged r)"

lemma wf_sql_mark_purged: "wf_pg db \<Longrightarrow> all_archived l db \<Longrightarrow> wf_pg (sql_mark_purged l now db)"
  unfolding sql_mark_purged_def
  by (rule wf_sql_update_lists) (auto simp: wf_row_def all_archived_def)

lemma wf_sql_insert_list:
  assumes "wf_pg db" "sql_insert_list l b n k s now db = Inr db'"
  shows "wf_pg db'"
proof -
  have new: "l \<notin> lr_id ` set (lists db)" using assms(2) by (auto simp: sql_insert_list_def split: if_splits)
  then have "allocs_in l (allocations db) = 0"
    using assms(1) by (auto simp: wf_pg_def wf_allocs_def allocs_in_def filter_empty_conv)
  then show ?thesis
    using assms new
    by (auto simp: sql_insert_list_def wf_pg_def wf_lists_def wf_allocs_def wf_row_def)
qed

lemma allocs_in_filter: "l \<noteq> l' \<Longrightarrow> allocs_in l (filter (\<lambda>a. ar_list_id a \<noteq> l') as) = allocs_in l as"
  by (induction as) (auto simp: allocs_in_def)

lemma wf_sql_delete_list: "wf_pg db \<Longrightarrow> wf_pg (sql_delete_list l db)"
  unfolding wf_pg_def wf_lists_def wf_allocs_def wf_usage_def sql_delete_list_def
  by (auto simp: distinct_map_filter allocs_in_filter)

lemma wf_sql_assign_shard: "wf_pg db \<Longrightarrow> wf_pg (sql_assign_shard i s now db)"
  by (auto simp: wf_pg_def sql_assign_shard_def shard_insert_def sql_select_shard_def find_None_iff)

lemma wf_sql_reassign_shard: "wf_pg db \<Longrightarrow> wf_pg (sql_reassign_shard i s now db)"
  by (auto simp: wf_pg_def sql_reassign_shard_def shard_insert_def sql_select_shard_def find_None_iff
      comp_def if_distrib cong: if_cong)

section \<open>The reservation transaction\<close>

definition reserved_row :: "time \<Rightarrow> list_row \<Rightarrow> list_row" where
  "reserved_row e r = (advance r)\<lparr>lr_max_exp := greatest (lr_max_exp r) (pgtz e)\<rparr>"

lemma reserved_row_simps [simp]:
  "lr_id (reserved_row e r) = lr_id r" "lr_size (reserved_row e r) = lr_size r"
  "lr_bits (reserved_row e r) = lr_bits r" "lr_fpe_key (reserved_row e r) = lr_fpe_key r"
  "lr_shard_id (reserved_row e r) = lr_shard_id r"
  "lr_cursor (reserved_row e r) = lr_cursor r + 1"
  "lr_archived_at (reserved_row e r) = lr_archived_at r"
  "lr_purged (reserved_row e r) = lr_purged r" "lr_purged_at (reserved_row e r) = lr_purged_at r"
  "lr_created_at (reserved_row e r) = lr_created_at r"
  "lr_max_exp (reserved_row e r) = greatest (lr_max_exp r) (pgtz e)"
  by (simp_all add: reserved_row_def advance_def)

lemma count_usage_simps [simp]:
  "lists (sql_count_usage i s now db) = lists db"
  "allocations (sql_count_usage i s now db) = allocations db"
  "issuer_shard (sql_count_usage i s now db) = issuer_shard db"
  by (simp_all add: sql_count_usage_def)

lemma same_list_row:
  assumes "wf_pg db" "r \<in> set (lists db)" "r' \<in> set (lists db)" "lr_id r' = lr_id r"
  shows "r' = r"
  using assms by (auto simp: wf_pg_def wf_lists_def distinct_map dest: inj_onD)

text \<open>What a committed reservation did; every other outcome leaves the tables alone.\<close>

lemma reserve_tx_InrD:
  assumes "wf_pg db" "reserve_tx l i s e d now db = Inr (idx, db')"
  obtains r where "r \<in> set (lists db)" "reservable l r" "d (u64_of_int (lr_cursor r)) = Inr idx"
    "sql_select_allocation l (int64_of_u64 idx) db = None"
    "lists db' = map (\<lambda>r. if lr_id r = l then reserved_row e r else r) (lists db)"
    "allocations db' = allocations db @ [\<lparr>ar_list_id = l, ar_idx = int64_of_u64 idx, ar_issuer_id = i,
       ar_exp = pgtz e, ar_created_at = pgtz now\<rparr>]"
    "issuer_usage db' = issuer_usage (sql_count_usage i s now db)"
    "issuer_shard db' = issuer_shard db"
proof -
  obtain r where f: "find (reservable l) (lists db) = Some r"
    using assms(2) by (auto simp: reserve_tx_def sql_reserve_cursor_def split: option.splits)
  then have r: "r \<in> set (lists db)" "reservable l r" by (auto dest: find_SomeD)
  have same: "r' = r" if "r' \<in> set (lists db)" "lr_id r' = l" for r'
    using same_list_row[OF assms(1) r(1) that(1)] that(2) r(2) by (simp add: reservable_def)
  have upd: "lists (sql_bump_max_exp l e (sql_update_lists (reservable l) advance db))
      = map (\<lambda>r. if lr_id r = l then reserved_row e r else r) (lists db)"
    using same r(2)
    by (auto simp: sql_bump_max_exp_def sql_update_lists_def reserved_row_def advance_def reservable_def)
  define db1 where "db1 = sql_bump_max_exp l e (sql_update_lists (reservable l) advance db)"
  have other: "allocations db1 = allocations db" "issuer_usage db1 = issuer_usage db"
    "issuer_shard db1 = issuer_shard db"
    by (simp_all add: db1_def sql_bump_max_exp_def sql_update_lists_def)
  from assms(2) f obtain db2 where d: "d (u64_of_int (lr_cursor r)) = Inr idx"
    and ins: "sql_insert_allocation l (int64_of_u64 idx) i e now db1 = Inr db2"
    and db': "db' = sql_count_usage i s now db2"
    by (auto simp: reserve_tx_def sql_reserve_cursor_def db1_def split: sum.splits)
  have "sql_select_allocation l (int64_of_u64 idx) db = None"
    using ins other by (auto simp: sql_insert_allocation_def sql_select_allocation_def split: if_splits)
  moreover have "issuer_usage db' = issuer_usage (sql_count_usage i s now db)"
    using ins other
    by (auto simp: db' sql_insert_allocation_def sql_count_usage_def split: if_splits)
  ultimately show thesis
    using ins other upd
    by (intro that[of r] r d)
       (auto simp: db' sql_insert_allocation_def db1_def[symmetric] split: if_splits)
qed

lemma usage_total_count:
  assumes "wf_usage (issuer_usage db)"
  shows "usage_total j (issuer_usage (sql_count_usage i s now db))
       = usage_total j (issuer_usage db) + (if j = i then 1 else 0)"
proof (cases "find (usage_of i s) (issuer_usage db)")
  case None
  then show ?thesis by (auto simp: sql_count_usage_def usage_total_def)
next
  case (Some u)
  have upd: "usage_total j (map (\<lambda>u. if usage_of i s u then u\<lparr>us_index_count := us_index_count u + 1,
      us_updated_at := pgtz now\<rparr> else u) us)
    = usage_total j us + (if j = i \<and> (\<exists>u\<in>set us. usage_of i s u) then 1 else 0)"
    if "distinct (map (\<lambda>u. (us_issuer_id u, us_shard_id u)) us)" for us
    using that
    by (induction us) (auto simp: usage_total_def usage_of_def image_iff split: if_splits)
  have "\<exists>u\<in>set (issuer_usage db). usage_of i s u"
    using find_SomeD[OF Some] by blast
  then show ?thesis
    using Some upd[of "issuer_usage db"] assms by (simp add: sql_count_usage_def wf_usage_def)
qed

lemma wf_usage_count: "wf_usage (issuer_usage db) \<Longrightarrow> wf_usage (issuer_usage (sql_count_usage i s now db))"
  unfolding wf_usage_def sql_count_usage_def
  by (auto simp: find_None_iff usage_of_def distinct_map_upd)

lemma wf_reserve_tx:
  assumes "wf_pg db" "reserve_tx l i s e d now db = Inr (idx, db')"
  shows "wf_pg db'"
proof -
  obtain r where r: "r \<in> set (lists db)" "reservable l r"
    and new: "sql_select_allocation l (int64_of_u64 idx) db = None"
    and ls: "lists db' = map (\<lambda>r. if lr_id r = l then reserved_row e r else r) (lists db)"
    and as: "allocations db' = allocations db @ [\<lparr>ar_list_id = l, ar_idx = int64_of_u64 idx,
       ar_issuer_id = i, ar_exp = pgtz e, ar_created_at = pgtz now\<rparr>]"
    and us: "issuer_usage db' = issuer_usage (sql_count_usage i s now db)"
    and sh: "issuer_shard db' = issuer_shard db"
    by (rule reserve_tx_InrD[OF assms])
  have same: "r' = r" if "r' \<in> set (lists db)" "lr_id r' = l" for r'
    using same_list_row[OF assms(1) r(1) that(1)] that(2) r(2) by (simp add: reservable_def)
  have row: "wf_row (reserved_row e r)"
    using assms(1) r
    by (auto simp: wf_pg_def wf_lists_def wf_row_def reservable_def reserved_row_def advance_def)
  have ids: "map (lr_id \<circ> (\<lambda>r. if lr_id r = l then reserved_row e r else r)) (lists db)
      = map lr_id (lists db)" by simp
  have "wf_lists (lists db')"
    using assms(1) row same ids
    by (auto simp: ls wf_pg_def wf_lists_def simp del: map_eq_conv)
  moreover have "wf_allocs (lists db') (allocations db')"
  proof -
    have "lr_id ` set (lists db') = lr_id ` set (lists db)"
      unfolding ls set_map image_image by (rule image_cong) simp_all
    moreover have "l \<in> lr_id ` set (lists db)" using r by (auto simp: reservable_def)
    moreover have "(l, int64_of_u64 idx) \<notin> (\<lambda>a. (ar_list_id a, ar_idx a)) ` set (allocations db)"
      using new by (auto simp: sql_select_allocation_def find_None_iff alloc_at_def)
    moreover have "lr_cursor r' = int (allocs_in (lr_id r') (allocations db'))"
      if "r' \<in> set (lists db')" for r'
    proof -
      from that obtain q where q: "q \<in> set (lists db)"
        "r' = (if lr_id q = l then reserved_row e q else q)" by (auto simp: ls)
      moreover have "lr_cursor q = int (allocs_in (lr_id q) (allocations db))"
        using assms(1) q(1) by (simp add: wf_pg_def wf_allocs_def)
      ultimately show ?thesis by (simp add: as allocs_in_def)
    qed
    moreover have "wf_allocs (lists db) (allocations db)" using assms(1) by (simp add: wf_pg_def)
    ultimately show ?thesis
      unfolding wf_allocs_def by (simp add: as)
  qed
  ultimately show ?thesis
    using assms(1) by (simp add: wf_pg_def us sh wf_usage_count)
qed

lemma usage_reserve_tx:
  assumes "wf_pg db" "reserve_tx l i s e d now db = Inr (idx, db')"
  shows "usage_total j (issuer_usage db') - int (allocs_by j (allocations db'))
       = usage_total j (issuer_usage db) - int (allocs_by j (allocations db))"
proof -
  have "wf_usage (issuer_usage db)" using assms(1) by (simp add: wf_pg_def)
  note [simp] = usage_total_count[OF this]
  show ?thesis by (rule reserve_tx_InrD[OF assms]) (auto simp: allocs_by_def)
qed

end
