(* ===== verification/Redis_Kv.thy ===== *)
theory Redis_Kv
  imports Tables
begin

text \<open>
  One shard's Redis and the commands \<open>src/internal/store/redis.go\<close> sends to it: \<open>SETNX\<close>, \<open>GET\<close>,
  \<open>INCR\<close>, \<open>DEL\<close> and the Lua script \<open>setByteScript\<close>. Every function here is one atomic command.

  A keyspace keeps the byte strings and the integer counters apart: the service reads and
  writes a \<open>bitmap:\<close> key only as bytes and a \<open>version:\<close> key only as a counter. The \<open>bit\<close> library of
  the embedded Lua works on 32-bit words.
\<close>

section \<open>Commands\<close>

record keyspace =
  ks_strings :: "string \<rightharpoonup> bytes"
  ks_counters :: "string \<rightharpoonup> int"

definition empty_keyspace :: keyspace where
  "empty_keyspace = \<lparr>ks_strings = Map.empty, ks_counters = Map.empty\<rparr>"

text \<open>Redis limits a string to 512 MB and a counter to a signed 64-bit integer.\<close>

abbreviation (input) max_string :: nat where "max_string \<equiv> 536870912"
abbreviation (input) max_counter :: int where "max_counter \<equiv> 9223372036854775807"

definition bitmapKey :: "string \<Rightarrow> string" where "bitmapKey listID = ''bitmap:'' @ listID"
definition versionKey :: "string \<Rightarrow> string" where "versionKey listID = ''version:'' @ listID"

definition kv_setnx :: "string \<Rightarrow> bytes \<Rightarrow> keyspace \<Rightarrow> err + (bool \<times> keyspace)" where
  "kv_setnx k d ks =
     (if max_string < length d then Inl ErrRedis
      else case ks_strings ks k of
             Some _ \<Rightarrow> Inr (False, ks)
           | None \<Rightarrow> Inr (True, ks\<lparr>ks_strings := (ks_strings ks)(k \<mapsto> d)\<rparr>))"

definition kv_incr :: "string \<Rightarrow> keyspace \<Rightarrow> err + (int \<times> keyspace)" where
  "kv_incr k ks =
     (let v = (case ks_counters ks k of None \<Rightarrow> 0 | Some n \<Rightarrow> n)
      in if v \<ge> max_counter then Inl ErrRedis
         else Inr (v + 1, ks\<lparr>ks_counters := (ks_counters ks)(k \<mapsto> v + 1)\<rparr>))"

definition kv_del :: "string list \<Rightarrow> keyspace \<Rightarrow> keyspace" where
  "kv_del keys ks = \<lparr>ks_strings = (ks_strings ks) |` (- set keys), ks_counters = (ks_counters ks) |` (- set keys)\<rparr>"

definition kv_getrange :: "string \<Rightarrow> nat \<Rightarrow> nat \<Rightarrow> keyspace \<Rightarrow> bytes" where
  "kv_getrange k a b ks =
     (case ks_strings ks k of None \<Rightarrow> [] | Some d \<Rightarrow> take (Suc b - a) (drop a d))"

text \<open>\<open>SETRANGE\<close> pads with zero bytes up to the offset.\<close>

definition kv_setrange :: "string \<Rightarrow> nat \<Rightarrow> byte \<Rightarrow> keyspace \<Rightarrow> keyspace" where
  "kv_setrange k off c ks =
     (let d = (case ks_strings ks k of None \<Rightarrow> [] | Some d \<Rightarrow> d);
          d' = d @ replicate (Suc off - length d) 0
      in ks\<lparr>ks_strings := (ks_strings ks)(k \<mapsto> d'[off := c])\<rparr>)"

section \<open>The Lua script\<close>

text \<open>\<open>bit.lshift\<close> uses the low five bits of the shift count.\<close>

definition lua_lshift :: "32 word \<Rightarrow> int \<Rightarrow> 32 word" where
  "lua_lshift x n = push_bit (nat (n mod 32)) x"

definition lua_new_byte :: "byte \<Rightarrow> int \<Rightarrow> int \<Rightarrow> byte \<Rightarrow> 32 word" where
  "lua_new_byte b bitOffset bits value =
     (let msk = lua_lshift 1 bits - 1;
          cleared = ucast b AND NOT (lua_lshift msk bitOffset)
      in cleared OR lua_lshift (ucast value AND msk) bitOffset)"

text \<open>
  \<open>string.char\<close> raises outside \<open>0..255\<close>, and an offset whose last byte lies past the string limit is
  rejected by the server; both abort the script before it writes.
\<close>

definition setByteScript ::
  "string \<Rightarrow> nat \<Rightarrow> int \<Rightarrow> int \<Rightarrow> byte \<Rightarrow> keyspace \<Rightarrow> err + (byte \<times> keyspace)" where
  "setByteScript k byteIdx bitOffset bits value ks =
     (let cur = kv_getrange k byteIdx byteIdx ks;
          b = (case cur of [c] \<Rightarrow> c | _ \<Rightarrow> 0);
          newByte = lua_new_byte b bitOffset bits value
      in if \<not> unat newByte < 256 \<or> \<not> byteIdx < max_string then Inl ErrRedis
         else Inr (ucast newByte, kv_setrange k byteIdx (ucast newByte) ks))"

section \<open>What the script computes\<close>

lemma bit_put_field_masked:
  assumes "off + n \<le> 8"
  shows "bit (put_field off n (v AND mask n) b) k
     \<longleftrightarrow> k < 8 \<and> (if off \<le> k \<and> k < off + n then bit v (k - off) else bit b k)"
  using assms
  by (auto simp: bit_put_field word_and_le1 bit_and_iff bit_mask_iff dest: bit_imp_le_length)

lemma bit_lua_new_byte:
  assumes "off + n \<le> 8"
  shows "bit (lua_new_byte b (int off) (int n) v) k
     \<longleftrightarrow> k < 8 \<and> (if off \<le> k \<and> k < off + n then bit v (k - off) else bit b k)"
proof -
  have "nat (int n mod 32) = n" "nat (int off mod 32) = off" using assms by auto
  then show ?thesis
    using assms
    by (auto simp: lua_new_byte_def lua_lshift_def Let_def exp_minus_one_mask bit_simps
        dest: bit_imp_le_length)
qed

lemma lua_new_byte_put_field:
  assumes "off + n \<le> 8"
  shows "unat (lua_new_byte b (int off) (int n) v) < 256"
    "ucast (lua_new_byte b (int off) (int n) v) = put_field off n (v AND mask n) b"
proof -
  let ?w = "lua_new_byte b (int off) (int n) v"
  have "take_bit 8 ?w = ?w"
    by (rule bit_eqI) (auto simp: bit_take_bit_iff bit_lua_new_byte[OF assms])
  then have "unat ?w = take_bit 8 (unat ?w)" by (metis unsigned_take_bit_eq)
  then show "unat ?w < 256" using take_bit_nat_less_exp[of 8 "unat ?w"] by simp
  show "ucast ?w = put_field off n (v AND mask n) b"
    by (rule bit_eqI)
       (auto simp: bit_unsigned_iff bit_lua_new_byte[OF assms] bit_put_field_masked[OF assms])
qed

text \<open>On a bitmap that holds the entry, the script is a masked write of that entry.\<close>

lemma setByteScript_entry:
  assumes "ValidBitWidth bits" "ks_strings ks k = Some d" "i * nat bits div 8 < length d" "length d \<le> max_string"
  shows "setByteScript k (i * nat bits div 8) (int (i * nat bits mod 8)) bits v ks
       = Inr (put_field (i * nat bits mod 8) (nat bits) (v AND mask (nat bits)) (d ! (i * nat bits div 8)),
              ks\<lparr>ks_strings := (ks_strings ks)(k \<mapsto> put_entry (nat bits) d i (v AND mask (nat bits)))\<rparr>)"
proof -
  let ?n = "nat bits" and ?q = "i * nat bits div 8" and ?off = "i * nat bits mod 8"
  have b: "bits = int ?n" using ValidBitWidth_nat[OF assms(1)] by simp
  have off: "?off + ?n \<le> 8" using assms(1) by (rule field_in_byte)
  have "kv_getrange k ?q ?q ks = [d ! ?q]"
    using assms(2,3) by (simp add: kv_getrange_def take_Suc_conv_app_nth hd_drop_conv_nth take_Suc)
  moreover have "kv_setrange k ?q c ks = ks\<lparr>ks_strings := (ks_strings ks)(k \<mapsto> d[?q := c])\<rparr>" for c
    using assms(2,3) by (simp add: kv_setrange_def)
  moreover have "lua_new_byte (d ! ?q) (int ?off) bits v = lua_new_byte (d ! ?q) (int ?off) (int ?n) v"
    using b by simp
  ultimately show ?thesis
    using lua_new_byte_put_field[OF off, of "d ! ?q" v] assms(3,4)
    by (simp only: setByteScript_def Let_def list.case put_entry_def) simp
qed

section \<open>The status array of a list\<close>

text \<open>
  The Redis value of list \<open>l\<close> as an array of \<open>n\<close> entries of \<open>bits\<close> bits. \<open>kv_write\<close> is what
  \<open>SetStatus\<close> sends: the byte address computed by \<open>ByteOffset\<close> and the script.
\<close>

definition kv_inv :: "string \<Rightarrow> nat \<Rightarrow> int \<Rightarrow> keyspace \<Rightarrow> bool" where
  "kv_inv l n bits ks \<longleftrightarrow> ValidBitWidth bits \<and> n * nat bits + 7 < 2 ^ 64
     \<and> (case ks_strings ks (bitmapKey l) of
          None \<Rightarrow> False
        | Some d \<Rightarrow> length d = (n * nat bits + 7) div 8 \<and> length d \<le> max_string)"

definition kv_read :: "string \<Rightarrow> int \<Rightarrow> keyspace \<Rightarrow> nat \<Rightarrow> byte" where
  "kv_read l bits ks i =
     (case ks_strings ks (bitmapKey l) of None \<Rightarrow> 0 | Some d \<Rightarrow> entry (nat bits) d i)"

definition kv_write :: "string \<Rightarrow> int \<Rightarrow> keyspace \<Rightarrow> nat \<Rightarrow> byte \<Rightarrow> keyspace" where
  "kv_write l bits ks i v =
     (let (byteIndex, bitOffset) = ByteOffset (of_nat i) bits
      in case setByteScript (bitmapKey l) (unat byteIndex) (uint bitOffset) bits v ks of
           Inl _ \<Rightarrow> ks
         | Inr (_, ks') \<Rightarrow> ks')"

lemma ByteOffset_entry:
  assumes "ValidBitWidth bits" "unat idx * nat bits < 2 ^ 64"
  shows "ByteOffset idx bits = (byteIndex, bitOffset) \<Longrightarrow>
    unat byteIndex = unat idx * nat bits div 8 \<and> uint bitOffset = int (unat idx * nat bits mod 8)"
  using ByteOffset_nat[OF assms] by (metis fst_conv snd_conv uint_nat)

lemma setByteScript_index:
  assumes "kv_inv l n bits ks" "unat idx < n" "ByteOffset idx bits = (byteIndex, bitOffset)"
    "ks_strings ks (bitmapKey l) = Some d"
  shows "setByteScript (bitmapKey l) (unat byteIndex) (uint bitOffset) bits v ks
       = Inr (put_field (unat idx * nat bits mod 8) (nat bits) (v AND mask (nat bits)) (d ! (unat idx * nat bits div 8)),
              ks\<lparr>ks_strings := (ks_strings ks)(bitmapKey l \<mapsto> put_entry (nat bits) d (unat idx) (v AND mask (nat bits)))\<rparr>)"
proof -
  have v: "ValidBitWidth bits" and len: "length d = (n * nat bits + 7) div 8" "length d \<le> max_string"
    and n: "n * nat bits + 7 < 2 ^ 64"
    using assms(1,4) by (auto simp: kv_inv_def)
  have "unat idx * nat bits \<le> n * nat bits" using assms(2) by (intro mult_le_mono1) simp
  then have "unat idx * nat bits < 2 ^ 64" using n by linarith
  then have bo: "unat byteIndex = unat idx * nat bits div 8" "uint bitOffset = int (unat idx * nat bits mod 8)"
    using ByteOffset_entry[OF v _ assms(3)] by auto
  show ?thesis
    unfolding bo
    by (rule setByteScript_entry[OF v assms(4)])
       (use entry_byte_in_range[OF v assms(2)] len in auto)
qed

lemma kv_write_entry:
  assumes "kv_inv l n bits ks" "i < n" "ks_strings ks (bitmapKey l) = Some d"
  shows "kv_write l bits ks i v = ks\<lparr>ks_strings := (ks_strings ks)
      (bitmapKey l \<mapsto> put_entry (nat bits) d i (v AND mask (nat bits)))\<rparr>"
proof -
  obtain q off where bo: "ByteOffset (of_nat i) bits = (q, off)" by fastforce
  have "n * 1 \<le> n * nat bits" using assms(1) ValidBitWidth_nat[of bits]
    by (intro mult_le_mono2) (auto simp: kv_inv_def)
  moreover have "n * nat bits + 7 < 2 ^ 64" using assms(1) by (simp add: kv_inv_def)
  ultimately have "i < 2 ^ 64" using assms(2) by linarith
  then have i: "unat (of_nat i :: u64) = i" by (simp add: unat_of_nat)
  show ?thesis
    using setByteScript_index[OF assms(1) _ bo assms(3)] assms(2)
    by (simp add: kv_write_def bo i)
qed

lemma and_mask_fits: "(v :: byte) \<le> mask n \<Longrightarrow> v AND mask n = v"
  by (simp add: le_mask_take_bit flip: take_bit_eq_mask)

interpretation rda: status_array "kv_inv l n bits" "\<lambda>_. n" "\<lambda>_ v. v \<le> mask (nat bits)" "kv_read l bits" "kv_write l bits"
  for l n bits
proof (unfold_locales, goal_cases)
  case (1 ks i v)
  then obtain d where "ks_strings ks (bitmapKey l) = Some d" by (auto simp: kv_inv_def split: option.splits)
  with 1 show ?case by (auto simp: kv_write_entry) (auto simp: kv_inv_def)
next
  case (4 ks i v)
  then obtain d where d: "ks_strings ks (bitmapKey l) = Some d" by (auto simp: kv_inv_def split: option.splits)
  with 4 show ?case
    by (auto simp: kv_write_entry kv_read_def and_mask_fits kv_inv_def intro!: entry_put_same entry_byte_in_range)
next
  case (5 ks i v j)
  then obtain d where d: "ks_strings ks (bitmapKey l) = Some d" by (auto simp: kv_inv_def split: option.splits)
  with 5 show ?case
    by (auto simp: kv_write_entry kv_read_def and_mask_fits kv_inv_def intro!: entry_put_other entry_byte_in_range)
qed simp_all

end
