(* ===== verification/World.thy ===== *)
theory World
  imports Redis_Kv
begin

text \<open>
  The shared state of a deployment and how one process of it acts on that state: one Postgres,
  one Redis per shard, a clock, and the other processes of the service.

  Between any two calls a request makes to a store, other requests, background jobs and other
  processes run. The world carries their schedule: a list of batches of atomic actions, one
  batch executed before each call and before each reading of the clock. It also carries the
  fate of each call: \<open>Ok\<close>, \<open>Fail\<close> (the error is returned and nothing happened) or \<open>Lost\<close> (the
  call took effect, but its caller gets an error: the connection broke after the server
  applied it), and the random draws. Results are stated for every schedule, every sequence of
  fates and all draws; when a list runs out, nothing interferes, calls succeed and draws are 0.
  All clocks agree and never go backwards.
\<close>

section \<open>Atomic actions\<close>

text \<open>
  \<open>issued\<close> and \<open>collided\<close> are history variables no code reads: the list identifiers ever created,
  and whether one was ever created a second time. An identifier carries 128 random bits and
  the row of its first use blocks the second insert, so a collision needs both a repeated draw
  and the deletion of the first row; results about a list over time hold while none occurred.
\<close>

record stores =
  pg :: pg
  kv :: "string \<Rightarrow> keyspace"
  clock :: time
  issued :: "string list"
  collided :: bool

datatype act =
    Tick nat
  | PgCreateList string int u64 bytes string
  | PgFreeze string
  | PgArchive string
  | PgMarkPurged string
  | PgDeleteList string
  | PgReserve string string string time "u64 \<Rightarrow> alloc_error + u64"
  | PgAssignShard string string
  | PgReassignShard string string
  | KvInit string string bytes
  | KvSetByte string string nat int int byte
  | KvIncr string string
  | KvPurge string string

definition on_pg :: "(pg \<Rightarrow> pg) \<Rightarrow> stores \<Rightarrow> stores" where
  "on_pg f s = s\<lparr>pg := f (pg s)\<rparr>"

definition on_kv :: "string \<Rightarrow> (keyspace \<Rightarrow> keyspace) \<Rightarrow> stores \<Rightarrow> stores" where
  "on_kv shard f s = s\<lparr>kv := (kv s)(shard := f (kv s shard))\<rparr>"

definition or_same :: "('e + 'r \<times> 's) \<Rightarrow> 's \<Rightarrow> 's" where
  "or_same r s = (case r of Inl _ \<Rightarrow> s | Inr (_, s') \<Rightarrow> s')"

fun exec :: "act \<Rightarrow> stores \<Rightarrow> stores" where
  "exec (Tick d) s = s\<lparr>clock := clock s + int d\<rparr>"
| "exec (PgCreateList l bits sz k shard) s =
     (case sql_insert_list l bits (int64_of_u64 sz) k shard (clock s) (pg s) of
        Inl _ \<Rightarrow> s
      | Inr db' \<Rightarrow> s\<lparr>pg := db', issued := l # issued s, collided := collided s \<or> l \<in> set (issued s)\<rparr>)"
| "exec (PgFreeze l) s = on_pg (sql_freeze l) s"
| "exec (PgArchive l) s = on_pg (sql_archive l (clock s)) s"
| "exec (PgMarkPurged l) s = on_pg (sql_mark_purged l (clock s)) s"
| "exec (PgDeleteList l) s = on_pg (sql_delete_list l) s"
| "exec (PgReserve l i shard e d) s =
     on_pg (\<lambda>db. or_same (reserve_tx l i shard e d (clock s) db) db) s"
| "exec (PgAssignShard i shard) s = on_pg (sql_assign_shard i shard (clock s)) s"
| "exec (PgReassignShard i shard) s = on_pg (sql_reassign_shard i shard (clock s)) s"
| "exec (KvInit shard l d) s = on_kv shard (\<lambda>ks. or_same (kv_setnx (bitmapKey l) d ks) ks) s"
| "exec (KvSetByte shard l q off bits v) s =
     on_kv shard (\<lambda>ks. or_same (setByteScript (bitmapKey l) q off bits v ks) ks) s"
| "exec (KvIncr shard l) s = on_kv shard (\<lambda>ks. or_same (kv_incr (versionKey l) ks) ks) s"
| "exec (KvPurge shard l) s = on_kv shard (kv_del [bitmapKey l, versionKey l]) s"

text \<open>
  The discipline the service's processes keep, proved for each of them below: a list is archived
  only once all its credentials have expired, only an archived list's bitmap is purged, only
  an archived list is marked purged, only a purged list is deleted.
\<close>

definition all_expired :: "string \<Rightarrow> time \<Rightarrow> pg \<Rightarrow> bool" where
  "all_expired l now db \<longleftrightarrow> (\<forall>r\<in>set (lists db). lr_id r = l \<and> lr_state r = FROZEN \<longrightarrow>
     (case lr_max_exp r of None \<Rightarrow> True | Some t \<Rightarrow> t \<le> pgtz now))"

fun guard :: "act \<Rightarrow> stores \<Rightarrow> bool" where
  "guard (PgArchive l) s = all_expired l (clock s) (pg s)"
| "guard (PgMarkPurged l) s = all_archived l (pg s)"
| "guard (PgDeleteList l) s = all_purged l (pg s)"
| "guard (KvPurge shard l) s = all_archived l (pg s)"
| "guard a s = True"

definition permitted :: "act \<Rightarrow> stores \<Rightarrow> bool" where
  "permitted a s \<longleftrightarrow> collided s \<or> guard a s"

definition act_step :: "act \<Rightarrow> stores \<Rightarrow> stores" where
  "act_step a s = (if permitted a s then exec a s else s)"

text \<open>Reachability by the actions of the service.\<close>

inductive leads :: "stores \<Rightarrow> stores \<Rightarrow> bool" where
  leads_refl: "leads s s"
| leads_step: "leads s t \<Longrightarrow> permitted a t \<Longrightarrow> leads s (exec a t)"

definition initial :: stores where
  "initial = \<lparr>pg = empty_pg, kv = (\<lambda>_. empty_keyspace), clock = 0, issued = [], collided = False\<rparr>"

lemma leads_trans: "leads t u \<Longrightarrow> leads s t \<Longrightarrow> leads s u"
  by (induction rule: leads.induct) (auto intro: leads.intros)

lemma reflp_leads: "reflp leads"
  by (rule reflpI) (rule leads_refl)

lemma transp_leads: "transp leads"
  by (rule transpI) (rule leads_trans)

lemma leads_act_step: "leads s (act_step a s)"
  by (auto simp: act_step_def intro: leads.intros)

lemma leads_act_steps: "leads s (fold act_step as s)"
  by (induction as arbitrary: s) (auto intro: leads_refl leads_trans leads_act_step)

lemma leads_exec: "permitted a s \<Longrightarrow> leads s (exec a s)"
  by (rule leads_step[OF leads_refl])

text \<open>An invariant of the permitted actions is an invariant of every reachable state.\<close>

lemma leads_invariant:
  assumes "leads s t" "I s" "\<And>a u. I u \<Longrightarrow> permitted a u \<Longrightarrow> I (exec a u)"
  shows "I t"
  using assms by (induction rule: leads.induct) auto

lemma leads_rel:
  assumes "leads s t" "\<And>s. R s s" "\<And>s t u. R s t \<Longrightarrow> R t u \<Longrightarrow> R s u"
    "\<And>a u. permitted a u \<Longrightarrow> R u (exec a u)"
  shows "R s t"
  using assms by (induction rule: leads.induct) (blast+)

section \<open>The world of one process\<close>

datatype fate = Ok | Fail | Lost

record 'p world =
  st :: stores
  sched :: "act list list"
  fates :: "fate list"
  draws :: "nat list"
  proc :: 'p

text \<open>\<open>proc\<close> is the state of the process itself, such as its token cache.\<close>

definition interfere :: "('p world, unit) state" where
  "interfere = State (\<lambda>w. case sched w of
       [] \<Rightarrow> ((), w)
     | as # rest \<Rightarrow> ((), w\<lparr>st := fold act_step as (st w), sched := rest\<rparr>))"

definition next_fate :: "('p world, fate) state" where
  "next_fate = State (\<lambda>w. case fates w of [] \<Rightarrow> (Ok, w) | f # rest \<Rightarrow> (f, w\<lparr>fates := rest\<rparr>))"

definition next_draw :: "('p world, nat) state" where
  "next_draw = State (\<lambda>w. case draws w of [] \<Rightarrow> (0, w) | n # rest \<Rightarrow> (n, w\<lparr>draws := rest\<rparr>))"

definition apply_store :: "(stores \<Rightarrow> 'a \<times> stores) \<Rightarrow> ('p world, 'a) state" where
  "apply_store g = State (\<lambda>w. let (r, s) = g (st w) in (r, w\<lparr>st := s\<rparr>))"

text \<open>A call to a store: \<open>g\<close> is its atomic effect, \<open>e\<close> the error of a failed call.\<close>

definition remote :: "err \<Rightarrow> (stores \<Rightarrow> (err + 'a) \<times> stores) \<Rightarrow> ('p world, err + 'a) state" where
  "remote e g = do {
     interfere;
     f \<leftarrow> next_fate;
     (case f of
        Ok \<Rightarrow> apply_store g
      | Fail \<Rightarrow> ret (Inl e)
      | Lost \<Rightarrow> do { apply_store g; ret (Inl e) })
   }"

definition time_now :: "('p world, time) state" where
  "time_now = do { interfere; State (\<lambda>w. (clock (st w), w)) }"

text \<open>\<open>rand.IntN(n)\<close> and \<open>crypto/rand.Read\<close> into \<open>n\<close> bytes.\<close>

definition rand_below :: "nat \<Rightarrow> ('p world, nat) state" where
  "rand_below n = do { d \<leftarrow> next_draw; ret (d mod n) }"

fun rand_list :: "nat \<Rightarrow> ('p world, bytes) state" where
  "rand_list 0 = ret []"
| "rand_list (Suc n) = do { d \<leftarrow> next_draw; bs \<leftarrow> rand_list n; ret (of_nat d # bs) }"

definition rand_read :: "nat \<Rightarrow> ('p world, err + bytes) state" where
  "rand_read n = do {
     f \<leftarrow> next_fate;
     bs \<leftarrow> rand_list n;
     ret (if f = Ok then Inr bs else Inl ErrRandom)
   }"

section \<open>Every process moves the stores along the service's actions\<close>

text \<open>\<open>world_leads\<close>: what any code of a process does to the stores.\<close>

definition world_leads :: "'p world \<Rightarrow> 'p world \<Rightarrow> bool" where
  "world_leads w w' \<longleftrightarrow> leads (st w) (st w')"

lemma reflp_world_leads [moves_rules]: "reflp world_leads"
  by (simp add: reflp_def world_leads_def leads_refl)

lemma transp_world_leads [moves_rules]: "transp world_leads"
  by (auto simp: transp_def world_leads_def intro: leads_trans)

lemma moves_interfere [moves_rules]: "moves world_leads interfere"
  by (rule movesI) (auto simp: interfere_def world_leads_def leads_refl leads_act_steps split: list.splits)

lemma moves_next_fate [moves_rules]: "moves world_leads next_fate"
  by (rule movesI) (auto simp: next_fate_def world_leads_def leads_refl split: list.splits)

lemma moves_next_draw [moves_rules]: "moves world_leads next_draw"
  by (rule movesI) (auto simp: next_draw_def world_leads_def leads_refl split: list.splits)

lemma moves_apply_store: "(\<And>s. leads s (snd (g s))) \<Longrightarrow> moves world_leads (apply_store g)"
  by (rule movesI) (simp add: apply_store_def world_leads_def split: prod.splits, metis snd_conv)

lemma moves_remote:
  assumes "\<And>s. leads s (snd (g s))"
  shows "moves world_leads (remote e g)"
  unfolding remote_def
proof (intro moves_bind moves_interfere moves_next_fate transp_world_leads)
  fix f
  show "moves world_leads (case f of Ok \<Rightarrow> apply_store g | Fail \<Rightarrow> ret (Inl e)
      | Lost \<Rightarrow> do { apply_store g; ret (Inl e) })"
    by (cases f) (auto intro!: moves_apply_store assms moves_bind transp_world_leads moves_ret reflp_world_leads)
qed

lemma moves_time_now [moves_rules]: "moves world_leads time_now"
  unfolding time_now_def
  by (intro moves_rules) (auto intro!: movesI simp: world_leads_def leads_refl)

lemma moves_rand_below [moves_rules]: "moves world_leads (rand_below n)"
  unfolding rand_below_def by (intro moves_rules)

lemma moves_rand_list [moves_rules]: "moves world_leads (rand_list n)"
  by (induction n) (auto intro!: moves_rules)

lemma moves_rand_read [moves_rules]: "moves world_leads (rand_read n)"
  unfolding rand_read_def by (intro moves_rules)

lemma moves_world_leads_D: "moves world_leads m \<Longrightarrow> leads (st w) (st (after m w))"
  by (simp add: moves_def world_leads_def)

section \<open>Specifications that survive interference\<close>

text \<open>
  \<open>stable P\<close>: no action of the service invalidates \<open>P\<close>. \<open>spec P m Q\<close>: from a state with \<open>P\<close>, the
  code \<open>m\<close> performs only permitted actions and ends with \<open>Q\<close>, whatever else runs meanwhile.
\<close>

definition stable :: "(stores \<Rightarrow> bool) \<Rightarrow> bool" where
  "stable P \<longleftrightarrow> (\<forall>s t. P s \<longrightarrow> leads s t \<longrightarrow> P t)"

definition spec :: "(stores \<Rightarrow> bool) \<Rightarrow> ('p world, 'a) state \<Rightarrow> ('a \<Rightarrow> stores \<Rightarrow> bool) \<Rightarrow> bool" where
  "spec P m Q \<longleftrightarrow> (\<forall>w. P (st w) \<longrightarrow>
     leads (st w) (st (after m w)) \<and> Q (result m w) (st (after m w)))"

named_theorems spec_rules \<open>rules for spec\<close>

lemma stableI: "(\<And>a s. P s \<Longrightarrow> permitted a s \<Longrightarrow> P (exec a s)) \<Longrightarrow> stable P"
  by (auto simp: stable_def intro: leads_invariant)

lemma stableD: "stable P \<Longrightarrow> P s \<Longrightarrow> leads s t \<Longrightarrow> P t"
  by (simp add: stable_def)

lemma stable_exec: "stable P \<Longrightarrow> P s \<Longrightarrow> permitted a s \<Longrightarrow> P (exec a s)"
  by (rule stableD) (auto intro: leads_exec)

lemma stable_True [simp]: "stable (\<lambda>s. True)"
  by (simp add: stable_def)

lemma stable_conj: "stable P \<Longrightarrow> stable Q \<Longrightarrow> stable (\<lambda>s. P s \<and> Q s)"
  by (simp add: stable_def) blast

lemma stable_ball: "(\<And>x. x \<in> A \<Longrightarrow> stable (P x)) \<Longrightarrow> stable (\<lambda>s. \<forall>x\<in>A. P x s)"
  by (simp add: stable_def) blast

lemma stable_const [simp]: "stable (\<lambda>s. c)"
  by (simp add: stable_def)

lemma spec_ret: "(\<And>s. P s \<Longrightarrow> Q x s) \<Longrightarrow> spec P (ret x) Q"
  by (simp add: spec_def leads_refl)

lemma spec_bind:
  fixes m :: "('p world, 'x) state"
  assumes "spec P m Q" "\<And>x. spec (Q x) (f x) R"
  shows "spec P (State_Monad.bind m f) R"
  unfolding spec_def
proof (intro allI impI)
  fix w :: "'p world" assume P: "P (st w)"
  obtain x v where m: "run_state m w = (x, v)" by fastforce
  then have a: "leads (st w) (st v)" "Q x (st v)" using assms(1) P by (auto simp: spec_def)
  have "leads (st v) (st (after (f x) v)) \<and> R (result (f x) v) (st (after (f x) v))"
    using assms(2) a(2) by (auto simp: spec_def)
  then show "leads (st w) (st (after (State_Monad.bind m f) w))
      \<and> R (result (State_Monad.bind m f) w) (st (after (State_Monad.bind m f) w))"
    using m a(1) by (auto intro: leads_trans)
qed

lemma spec_pre: "spec P' m Q \<Longrightarrow> (\<And>s. P s \<Longrightarrow> P' s) \<Longrightarrow> spec P m Q"
  by (auto simp: spec_def)

lemma spec_post: "spec P m Q \<Longrightarrow> (\<And>x s. Q x s \<Longrightarrow> Q' x s) \<Longrightarrow> spec P m Q'"
  by (auto simp: spec_def)

lemma spec_pure: "(c \<Longrightarrow> spec P m Q) \<Longrightarrow> spec (\<lambda>s. c \<and> P s) m Q"
  by (auto simp: spec_def)

lemma spec_if: "(b \<Longrightarrow> spec P m Q) \<Longrightarrow> (\<not> b \<Longrightarrow> spec P n Q) \<Longrightarrow> spec P (if b then m else n) Q"
  by simp

lemma spec_case_sum:
  "(\<And>e. r = Inl e \<Longrightarrow> spec P (f e) Q) \<Longrightarrow> (\<And>x. r = Inr x \<Longrightarrow> spec P (g x) Q)
   \<Longrightarrow> spec P (case r of Inl e \<Rightarrow> f e | Inr x \<Rightarrow> g x) Q"
  by (cases r) auto

lemma spec_case_option:
  "(r = None \<Longrightarrow> spec P f Q) \<Longrightarrow> (\<And>x. r = Some x \<Longrightarrow> spec P (g x) Q)
   \<Longrightarrow> spec P (case r of None \<Rightarrow> f | Some x \<Rightarrow> g x) Q"
  by (cases r) auto

text \<open>A stable fact survives any code that performs permitted actions only.\<close>

lemma spec_frame:
  assumes "spec P m Q" "stable F"
  shows "spec (\<lambda>s. P s \<and> F s) m (\<lambda>x s. Q x s \<and> F s)"
  using assms by (auto simp: spec_def dest: stableD)

lemma moves_imp_spec:
  assumes "moves world_leads m" "stable P"
  shows "spec P m (\<lambda>_. P)"
  using assms moves_world_leads_D[OF assms(1)] by (auto simp: spec_def dest: stableD)

lemma spec_imp_moves: "spec (\<lambda>s. True) m Q \<Longrightarrow> moves world_leads m"
  by (auto simp: spec_def world_leads_def intro!: movesI)

lemma spec_for_each:
  assumes "\<And>x. x \<in> set xs \<Longrightarrow> spec P (f x) (\<lambda>_. P)"
  shows "spec P (for_each f xs) (\<lambda>_. P)"
  using assms
proof (induction xs)
  case Nil
  show ?case by (simp add: spec_ret)
next
  case (Cons x xs)
  have "spec P (for_each f xs) (\<lambda>_. P)" using Cons by simp
  moreover have "spec P (f x) (\<lambda>_. P)" using Cons by simp
  ultimately show ?case
    by (auto intro!: spec_bind[where Q = "\<lambda>_. P"] spec_case_option spec_ret)
qed

lemma run_interfere: "\<exists>w'. run_state interfere w = ((), w') \<and> leads (st w) (st w') \<and> proc w' = proc w"
  by (auto simp: interfere_def leads_refl leads_act_steps split: list.splits)

lemma run_next_fate: "\<exists>f w'. run_state next_fate w = (f, w') \<and> st w' = st w \<and> proc w' = proc w"
  by (auto simp: next_fate_def split: list.splits)

text \<open>
  The three outcomes of a call: refused before it had any effect, executed with its result
  returned, or executed with its result lost.
\<close>

lemma run_remote:
  obtains s w' where "leads (st w) s" "proc w' = proc w" "run_state (remote e g) w = (Inl e, w')" "st w' = s"
  | s w' where "leads (st w) s" "proc w' = proc w" "run_state (remote e g) w = (fst (g s), w')" "st w' = snd (g s)"
  | s w' where "leads (st w) s" "proc w' = proc w" "run_state (remote e g) w = (Inl e, w')" "st w' = snd (g s)"
proof -
  obtain w1 where 1: "run_state interfere w = ((), w1)" "leads (st w) (st w1)" "proc w1 = proc w"
    using run_interfere by blast
  obtain f w2 where 2: "run_state next_fate w1 = (f, w2)" "st w2 = st w1" "proc w2 = proc w1"
    using run_next_fate by blast
  show thesis
  proof (cases f)
    case Ok
    then show thesis using 1 2 that(2)[of "st w1" "w2\<lparr>st := snd (g (st w1))\<rparr>"]
      by (simp add: remote_def apply_store_def split: prod.splits)
  next
    case Fail
    then show thesis using 1 2 that(1)[of "st w1" w2] by (simp add: remote_def)
  next
    case Lost
    then show thesis using 1 2 that(3)[of "st w1" "w2\<lparr>st := snd (g (st w1))\<rparr>"]
      by (simp add: remote_def apply_store_def split: prod.splits)
  qed
qed

lemma spec_remote:
  fixes g :: "stores \<Rightarrow> (err + 'x) \<times> stores"
  assumes "stable P" "\<And>s. P s \<Longrightarrow> leads s (snd (g s))"
    "\<And>s. P s \<Longrightarrow> Q (fst (g s)) (snd (g s))" "\<And>s. P s \<Longrightarrow> Q (Inl e) s"
    "\<And>s. P s \<Longrightarrow> Q (Inl e) (snd (g s))"
  shows "spec P (remote e g :: ('p world, err + 'x) state) Q"
  unfolding spec_def
proof (intro allI impI)
  fix w :: "'p world" assume P: "P (st w)"
  show "leads (st w) (st (after (remote e g) w)) \<and> Q (result (remote e g) w) (st (after (remote e g) w))"
  proof (cases rule: run_remote[of w e g])
    case (1 s w')
    then show ?thesis using assms P stableD[OF assms(1) P 1(1)] by simp
  next
    case (2 s w')
    then show ?thesis using assms P stableD[OF assms(1) P 2(1)] by (auto intro: leads_trans)
  next
    case (3 s w')
    then show ?thesis using assms P stableD[OF assms(1) P 3(1)] by (auto intro: leads_trans)
  qed
qed

lemma run_time_now:
  obtains s w' where "leads (st w) s" "proc w' = proc w" "run_state time_now w = (clock s, w')" "st w' = s"
proof -
  obtain w1 where "run_state interfere w = ((), w1)" "leads (st w) (st w1)" "proc w1 = proc w"
    using run_interfere by blast
  then show thesis using that[of "st w1" w1] by (simp add: time_now_def)
qed

lemma clock_exec: "clock s \<le> clock (exec a s)"
  by (cases a) (auto simp: on_pg_def on_kv_def split: sum.splits)

lemma stable_clock: "stable (\<lambda>s. t \<le> clock s)"
  by (rule stableI) (use clock_exec order_trans in blast)

lemma spec_time_now:
  assumes "stable P" "\<And>s t. P s \<Longrightarrow> t = clock s \<Longrightarrow> Q t s"
  shows "spec P time_now Q"
  unfolding spec_def
proof (intro allI impI)
  fix w :: "'a world" assume P: "P (st w)"
  show "leads (st w) (st (after time_now w)) \<and> Q (result time_now w) (st (after time_now w))"
    by (rule run_time_now[of w]) (use assms P stableD[OF assms(1) P] in auto)
qed

section \<open>Specifications without interference\<close>

text \<open>
  \<open>quiet P m Q\<close>: when nothing else runs meanwhile, from a state with \<open>P\<close> the code \<open>m\<close> ends with \<open>Q\<close>,
  whatever the fates of its calls and the random draws.
\<close>

definition quiet :: "(stores \<Rightarrow> bool) \<Rightarrow> ('p world, 'a) state \<Rightarrow> ('a \<Rightarrow> stores \<Rightarrow> bool) \<Rightarrow> bool" where
  "quiet P m Q \<longleftrightarrow> (\<forall>w. sched w = [] \<and> P (st w) \<longrightarrow>
     sched (after m w) = [] \<and> Q (result m w) (st (after m w)))"

lemma quietD:
  "quiet P m Q \<Longrightarrow> sched w = [] \<Longrightarrow> P (st w) \<Longrightarrow> Q (result m w) (st (after m w))"
  by (simp add: quiet_def)

lemma quiet_ret: "(\<And>s. P s \<Longrightarrow> Q x s) \<Longrightarrow> quiet P (ret x) Q"
  by (simp add: quiet_def)

lemma quiet_bind:
  fixes m :: "('p world, 'x) state"
  assumes "quiet P m Q" "\<And>x. quiet (Q x) (f x) R"
  shows "quiet P (State_Monad.bind m f) R"
  unfolding quiet_def
proof (intro allI impI)
  fix w :: "'p world" assume w: "sched w = [] \<and> P (st w)"
  obtain x v where m: "run_state m w = (x, v)" by fastforce
  then have "sched v = []" "Q x (st v)" using assms(1) w by (auto simp: quiet_def)
  then show "sched (after (State_Monad.bind m f) w) = []
      \<and> R (result (State_Monad.bind m f) w) (st (after (State_Monad.bind m f) w))"
    using assms(2) m by (auto simp: quiet_def)
qed

lemma quiet_pre: "quiet P' m Q \<Longrightarrow> (\<And>s. P s \<Longrightarrow> P' s) \<Longrightarrow> quiet P m Q"
  by (auto simp: quiet_def)

lemma quiet_post: "quiet P m Q \<Longrightarrow> (\<And>x s. Q x s \<Longrightarrow> Q' x s) \<Longrightarrow> quiet P m Q'"
  by (auto simp: quiet_def)

lemma quiet_if: "(b \<Longrightarrow> quiet P m Q) \<Longrightarrow> (\<not> b \<Longrightarrow> quiet P n Q) \<Longrightarrow> quiet P (if b then m else n) Q"
  by simp

lemma quiet_pure: "(c \<Longrightarrow> quiet P m Q) \<Longrightarrow> quiet (\<lambda>s. c \<and> P s) m Q"
  by (auto simp: quiet_def)

lemma quiet_case_sum:
  "(\<And>e. r = Inl e \<Longrightarrow> quiet P (f e) Q) \<Longrightarrow> (\<And>x. r = Inr x \<Longrightarrow> quiet P (g x) Q)
   \<Longrightarrow> quiet P (case r of Inl e \<Rightarrow> f e | Inr x \<Rightarrow> g x) Q"
  by (cases r) auto

lemma quiet_case_option:
  "(r = None \<Longrightarrow> quiet P f Q) \<Longrightarrow> (\<And>x. r = Some x \<Longrightarrow> quiet P (g x) Q)
   \<Longrightarrow> quiet P (case r of None \<Rightarrow> f | Some x \<Rightarrow> g x) Q"
  by (cases r) auto

lemma quiet_next_fate: "(\<And>s x. P s \<Longrightarrow> Q x s) \<Longrightarrow> quiet P next_fate Q"
  by (auto simp: quiet_def next_fate_def split: list.splits)

lemma quiet_next_draw: "(\<And>s x. P s \<Longrightarrow> Q x s) \<Longrightarrow> quiet P next_draw Q"
  by (auto simp: quiet_def next_draw_def split: list.splits)

lemma quiet_remote:
  assumes "\<And>s. P s \<Longrightarrow> Q (fst (g s)) (snd (g s))" "\<And>s. P s \<Longrightarrow> Q (Inl e) s"
    "\<And>s. P s \<Longrightarrow> Q (Inl e) (snd (g s))"
  shows "quiet P (remote e g) Q"
  using assms
  by (auto simp: quiet_def remote_def interfere_def next_fate_def apply_store_def
      split: list.splits fate.splits prod.splits) (metis fst_conv snd_conv)+

lemma quiet_time_now: "(\<And>s. P s \<Longrightarrow> Q (clock s) s) \<Longrightarrow> quiet P time_now Q"
  by (auto simp: quiet_def time_now_def interfere_def)

lemma quiet_rand_below: "(\<And>s x. P s \<Longrightarrow> Q x s) \<Longrightarrow> quiet P (rand_below n) Q"
  unfolding rand_below_def by (intro quiet_bind[where Q = "\<lambda>_. P"] quiet_next_draw quiet_ret) auto

lemma quiet_rand_list: "(\<And>s x. P s \<Longrightarrow> length x = n \<Longrightarrow> Q x s) \<Longrightarrow> quiet P (rand_list n) Q"
proof (induction n arbitrary: Q)
  case (Suc n)
  show ?case
    unfolding rand_list.simps
    by (rule quiet_bind[where Q = "\<lambda>_. P"], rule quiet_next_draw, assumption)
       (rule quiet_bind[where Q = "\<lambda>x s. P s \<and> length x = n"], rule Suc.IH,
         auto intro!: quiet_ret Suc.prems)
qed (auto intro: quiet_ret)

lemma quiet_rand_read:
  "(\<And>s x. P s \<Longrightarrow> (\<forall>b. x = Inr b \<longrightarrow> length b = n) \<Longrightarrow> Q x s) \<Longrightarrow> quiet P (rand_read n) Q"
  unfolding rand_read_def
  by (rule quiet_bind[where Q = "\<lambda>_. P"], rule quiet_next_fate, assumption)
     (rule quiet_bind[where Q = "\<lambda>x s. P s \<and> length x = n"], rule quiet_rand_list, auto intro!: quiet_ret)

lemma quiet_for_each:
  assumes "\<And>x xs. quiet (I (x # xs)) (f x) (\<lambda>r s. r = None \<longrightarrow> I xs s)"
  shows "quiet (I xs) (for_each f xs) (\<lambda>r s. r = None \<longrightarrow> I [] s)"
proof (induction xs)
  case (Cons x xs)
  show ?case
    unfolding for_each.simps
    by (rule quiet_bind[OF assms], rule quiet_case_option) (auto intro!: quiet_ret Cons.IH[THEN quiet_pre])
qed (simp add: quiet_ret)

text \<open>A read: one state of the store, not earlier than the one before the call.\<close>

lemma run_read:
  obtains s w' x where "run_state (remote e (\<lambda>s. (Inr (f s), s))) w = (x, w')" "leads (st w) s" "st w' = s"
    "proc w' = proc w" "x = Inl e \<or> x = Inr (f s)"
  by (rule run_remote[of w e "\<lambda>s. (Inr (f s), s)"]) (auto intro: that)

end
