(* ===== verification/Pg_Store.thy ===== *)
theory Pg_Store
  imports World "HOL-Library.List_Lexorder" "HOL-Library.Char_ord"
begin

text \<open>
  \<open>MetaStore\<close>, \<open>src/internal/store/postgres.go\<close>: the metadata store over Postgres. Each method is
  one statement, or one transaction, against the tables of \<open>Tables\<close>. \<open>ORDER BY\<close> on a text column
  is the order of the C collation. \<open>NewMetaStore\<close> is in \<open>Schema\<close>; \<open>Close\<close>, \<open>Stat\<close>
  and metrics have no effect on the tables.
\<close>

section \<open>Definitions\<close>

record ListMeta =
  lm_ID :: string
  lm_Bits :: int
  lm_Size :: u64
  lm_Cursor :: u64
  lm_FPEKey :: bytes
  lm_MaxExp :: "time option"
  lm_State :: list_state
  lm_CreatedAt :: time
  lm_ArchivedAt :: "time option"
  lm_ShardID :: string
  lm_Purged :: bool
  lm_PurgedAt :: "time option"

definition Remaining :: "ListMeta \<Rightarrow> u64" where
  "Remaining lm = (if lm_Size lm \<le> lm_Cursor lm then 0 else lm_Size lm - lm_Cursor lm)"

text \<open>The zero \<open>time.Time\<close>, 1 January of year 1.\<close>

definition zero_time :: time where "zero_time = - 62135596800 * Second"

definition scanListMeta :: "list_row \<Rightarrow> ListMeta" where
  "scanListMeta r = \<lparr>lm_ID = lr_id r, lm_Bits = lr_bits r, lm_Size = u64_of_int (lr_size r),
     lm_Cursor = u64_of_int (lr_cursor r), lm_FPEKey = lr_fpe_key r, lm_MaxExp = lr_max_exp r,
     lm_State = lr_state r, lm_CreatedAt = lr_created_at r, lm_ArchivedAt = lr_archived_at r,
     lm_ShardID = lr_shard_id r, lm_Purged = lr_purged r, lm_PurgedAt = lr_purged_at r\<rparr>"

text \<open>A read, and a write whose answer is computed from the state it finds.\<close>

definition pg_query :: "(pg \<Rightarrow> 'a) \<Rightarrow> ('p world, err + 'a) state" where
  "pg_query f = remote ErrDb (\<lambda>s. (Inr (f (pg s)), s))"

definition call_act :: "err \<Rightarrow> act \<Rightarrow> (stores \<Rightarrow> err + 'a) \<Rightarrow> ('p world, err + 'a) state" where
  "call_act e a answer = remote e (\<lambda>s. (answer s, exec a s))"

definition pg_exec :: "act \<Rightarrow> ('p world, err option) state" where
  "pg_exec a = do {
     r \<leftarrow> call_act ErrDb a (\<lambda>_. Inr ());
     ret (case r of Inl e \<Rightarrow> Some e | Inr _ \<Rightarrow> None)
   }"

definition CreateList ::
  "string \<Rightarrow> int \<Rightarrow> u64 \<Rightarrow> bytes \<Rightarrow> string \<Rightarrow> ('p world, err + ListMeta) state" where
  "CreateList lid bits sz fpeKey shardID = do {
     r \<leftarrow> call_act ErrDb (PgCreateList lid bits sz fpeKey shardID)
           (\<lambda>s. case sql_insert_list lid bits (int64_of_u64 sz) fpeKey shardID (clock s) (pg s) of
                  Inl e \<Rightarrow> Inl e | Inr _ \<Rightarrow> Inr ());
     ret (case r of
            Inl e \<Rightarrow> Inl e
          | Inr _ \<Rightarrow> Inr \<lparr>lm_ID = lid, lm_Bits = bits, lm_Size = sz, lm_Cursor = 0, lm_FPEKey = fpeKey,
              lm_MaxExp = None, lm_State = ACTIVE, lm_CreatedAt = zero_time, lm_ArchivedAt = None,
              lm_ShardID = shardID, lm_Purged = False, lm_PurgedAt = None\<rparr>)
   }"

definition queryLists :: "(list_row \<Rightarrow> bool) \<Rightarrow> ('p world, err + ListMeta list) state" where
  "queryLists P = pg_query (\<lambda>db. map scanListMeta (sql_select_lists P db))"

definition ActiveLists :: "string \<Rightarrow> ('p world, err + ListMeta list) state" where
  "ActiveLists shardID = queryLists (\<lambda>r. lr_shard_id r = shardID \<and> lr_state r = ACTIVE)"

definition LiveLists :: "string \<Rightarrow> ('p world, err + ListMeta list) state" where
  "LiveLists shardID = queryLists (\<lambda>r. lr_shard_id r = shardID \<and> lr_state r \<in> {ACTIVE, FROZEN})"

definition NoiseLists :: "string \<Rightarrow> ('p world, err + ListMeta list) state" where
  "NoiseLists shardID = queryLists (\<lambda>r. lr_shard_id r = shardID
     \<and> lr_state r \<in> {ACTIVE, FROZEN, ARCHIVED} \<and> lr_purged r = False)"

definition GetList :: "string \<Rightarrow> ('p world, err + ListMeta option) state" where
  "GetList lid = pg_query (\<lambda>db. map_option scanListMeta (sql_select_list lid db))"

definition Freeze :: "string \<Rightarrow> ('p world, err option) state" where
  "Freeze listID = pg_exec (PgFreeze listID)"

definition FrozenListsPastGrace :: "time \<Rightarrow> ('p world, err + ListMeta list) state" where
  "FrozenListsPastGrace cutoff = queryLists (\<lambda>r. lr_state r = FROZEN
     \<and> (case lr_max_exp r of None \<Rightarrow> True | Some t \<Rightarrow> t \<le> pgtz cutoff))"

definition Archive :: "string \<Rightarrow> ('p world, err option) state" where
  "Archive listID = pg_exec (PgArchive listID)"

text \<open>A comparison with NULL is not true.\<close>

definition ArchivedListsPastRetention :: "time \<Rightarrow> ('p world, err + ListMeta list) state" where
  "ArchivedListsPastRetention cutoff = queryLists (\<lambda>r. lr_state r = ARCHIVED \<and> lr_purged r = False
     \<and> (case lr_archived_at r of None \<Rightarrow> False | Some t \<Rightarrow> t \<le> pgtz cutoff))"

definition MarkPurged :: "string \<Rightarrow> ('p world, err option) state" where
  "MarkPurged listID = pg_exec (PgMarkPurged listID)"

definition PurgedListsPastDBRetention :: "time \<Rightarrow> ('p world, err + ListMeta list) state" where
  "PurgedListsPastDBRetention cutoff = queryLists (\<lambda>r. lr_purged r = True
     \<and> (case lr_purged_at r of None \<Rightarrow> False | Some t \<Rightarrow> t \<le> pgtz cutoff))"

definition DeleteList :: "string \<Rightarrow> ('p world, err option) state" where
  "DeleteList listID = pg_exec (PgDeleteList listID)"

definition ReserveCursorAndRecord ::
  "string \<Rightarrow> string \<Rightarrow> string \<Rightarrow> time \<Rightarrow> (u64 \<Rightarrow> alloc_error + u64) \<Rightarrow> ('p world, err + u64) state" where
  "ReserveCursorAndRecord listID issuerID shardID exp deriveIndex =
     call_act ErrDb (PgReserve listID issuerID shardID exp deriveIndex)
       (\<lambda>s. case reserve_tx listID issuerID shardID exp deriveIndex (clock s) (pg s) of
              Inl e \<Rightarrow> Inl e | Inr (idx, _) \<Rightarrow> Inr idx)"

definition IsAllocated :: "string \<Rightarrow> u64 \<Rightarrow> ('p world, err + bool) state" where
  "IsAllocated listID idx =
     pg_query (\<lambda>db. sql_select_allocation listID (int64_of_u64 idx) db \<noteq> None)"

definition CheckOwnership :: "string \<Rightarrow> u64 \<Rightarrow> string \<Rightarrow> ('p world, err option) state" where
  "CheckOwnership listID idx issuerID = do {
     r \<leftarrow> pg_query (sql_select_allocation listID (int64_of_u64 idx));
     ret (case r of
            Inl e \<Rightarrow> Some e
          | Inr None \<Rightarrow> Some ErrNotOwner
          | Inr (Some a) \<Rightarrow> if ar_issuer_id a \<noteq> issuerID then Some ErrNotOwner else None)
   }"

definition GetUsage :: "string \<Rightarrow> ('p world, err + usage_row list) state" where
  "GetUsage issuerID =
     pg_query (\<lambda>db. sort_key us_shard_id (filter (\<lambda>u. us_issuer_id u = issuerID) (issuer_usage db)))"

section \<open>Every method performs permitted actions\<close>

lemma moves_pg_query [moves_rules]: "moves world_leads (pg_query f)"
  unfolding pg_query_def by (rule moves_remote) (simp add: leads_refl)

lemma moves_call_act: "(\<And>s. guard a s) \<Longrightarrow> moves world_leads (call_act e a ans)"
  unfolding call_act_def by (rule moves_remote) (simp add: leads_exec permitted_def)

lemma moves_pg_exec: "(\<And>s. guard a s) \<Longrightarrow> moves world_leads (pg_exec a)"
  unfolding pg_exec_def by (intro moves_rules moves_call_act)

lemma moves_queryLists [moves_rules]: "moves world_leads (queryLists P)"
  unfolding queryLists_def by (rule moves_pg_query)

lemma moves_list_queries [moves_rules]:
  "moves world_leads (ActiveLists sh)" "moves world_leads (LiveLists sh)" "moves world_leads (NoiseLists sh)"
  "moves world_leads (GetList l)" "moves world_leads (FrozenListsPastGrace c)"
  "moves world_leads (ArchivedListsPastRetention c)" "moves world_leads (PurgedListsPastDBRetention c)"
  "moves world_leads (IsAllocated l i)" "moves world_leads (GetUsage issuer)"
  unfolding ActiveLists_def LiveLists_def NoiseLists_def GetList_def FrozenListsPastGrace_def
    ArchivedListsPastRetention_def PurgedListsPastDBRetention_def IsAllocated_def GetUsage_def
  by (rule moves_rules)+

lemma moves_CheckOwnership [moves_rules]: "moves world_leads (CheckOwnership l i issuer)"
  unfolding CheckOwnership_def by (intro moves_rules)

lemma moves_list_writes [moves_rules]:
  "moves world_leads (CreateList l b n k sh)" "moves world_leads (Freeze l)"
  "moves world_leads (ReserveCursorAndRecord l i sh e d)"
  unfolding CreateList_def Freeze_def ReserveCursorAndRecord_def
  by (intro moves_rules moves_call_act moves_pg_exec guard.simps[THEN iffD2] TrueI)+

section \<open>What the methods return\<close>

lemma spec_pg_query:
  assumes "stable P" "\<And>s. P s \<Longrightarrow> Q (Inr (f (pg s))) s" "\<And>s. P s \<Longrightarrow> Q (Inl ErrDb) s"
  shows "spec P (pg_query f) Q"
  unfolding pg_query_def by (rule spec_remote) (use assms in \<open>auto simp: leads_refl\<close>)

lemma spec_call_act:
  assumes "stable P" "\<And>s. P s \<Longrightarrow> permitted a s" "\<And>s. P s \<Longrightarrow> Q (ans s) (exec a s)"
    "\<And>s. P s \<Longrightarrow> Q (Inl e) s" "\<And>s. P s \<Longrightarrow> Q (Inl e) (exec a s)"
  shows "spec P (call_act e a ans) Q"
  unfolding call_act_def by (rule spec_remote) (use assms in \<open>auto simp: leads_exec\<close>)

text \<open>A write of which only the permission and a stable fact are of interest.\<close>

lemma spec_pg_exec:
  assumes "stable P" "\<And>s. P s \<Longrightarrow> permitted a s"
  shows "spec P (pg_exec a) (\<lambda>_. P)"
  unfolding pg_exec_def
  by (intro spec_bind[where Q = "\<lambda>_. P"] spec_call_act spec_ret) (use assms stable_exec in blast)+

lemma quiet_call_act:
  assumes "\<And>s. P s \<Longrightarrow> Q (ans s) (exec a s)" "\<And>s. P s \<Longrightarrow> Q (Inl e) s" "\<And>s. P s \<Longrightarrow> Q (Inl e) (exec a s)"
  shows "quiet P (call_act e a ans) Q"
  unfolding call_act_def by (rule quiet_remote) (use assms in auto)

lemma quiet_pg_exec:
  assumes "\<And>s. P s \<Longrightarrow> Q (exec a s)"
  shows "quiet P (pg_exec a) (\<lambda>r s. r = None \<longrightarrow> Q s)"
  unfolding pg_exec_def
  by (rule quiet_bind[where Q = "\<lambda>r s. case r of Inl _ \<Rightarrow> True | Inr _ \<Rightarrow> Q s"], rule quiet_call_act)
     (auto intro!: quiet_ret assms split: sum.splits simp del: exec.simps)

end
