(* ===== verification/Redis_Store.thy ===== *)
theory Redis_Store
  imports Pg_Store
begin

text \<open>
  \<open>BitmapStore\<close>, \<open>src/internal/store/redis.go\<close>: the methods over the commands of \<open>Redis_Kv\<close>. A
  \<open>BitmapStore\<close> value is a connection to one shard's Redis, so a method takes the shard. The two
  commands of \<open>SetStatus\<close> are separate calls: anything may happen between them.
\<close>

section \<open>Definitions\<close>

definition Init :: "string \<Rightarrow> string \<Rightarrow> int \<Rightarrow> ('p world, err option) state" where
  "Init shard listID byteLen =
     (if byteLen < 0 then ret (Some ErrPanic)
      else let zeros = replicate (nat byteLen) 0 in do {
        r \<leftarrow> call_act ErrRedis (KvInit shard listID zeros)
              (\<lambda>s. case kv_setnx (bitmapKey listID) zeros (kv s shard) of
                     Inl e \<Rightarrow> Inl e | Inr (ok, _) \<Rightarrow> Inr ok);
        ret (case r of Inl e \<Rightarrow> Some e | Inr _ \<Rightarrow> None)
      })"

definition SetStatus ::
  "string \<Rightarrow> string \<Rightarrow> u64 \<Rightarrow> u64 \<Rightarrow> int \<Rightarrow> byte \<Rightarrow> ('p world, err + int) state" where
  "SetStatus shard listID byteIndex bitOffset bits value = do {
     r \<leftarrow> call_act ErrRedis (KvSetByte shard listID (unat byteIndex) (uint bitOffset) bits value)
           (\<lambda>s. case setByteScript (bitmapKey listID) (unat byteIndex) (uint bitOffset) bits value (kv s shard) of
                  Inl e \<Rightarrow> Inl e | Inr (b, _) \<Rightarrow> Inr b);
     (case r of
        Inl e \<Rightarrow> ret (Inl e)
      | Inr _ \<Rightarrow> call_act ErrRedis (KvIncr shard listID)
           (\<lambda>s. case kv_incr (versionKey listID) (kv s shard) of Inl e \<Rightarrow> Inl e | Inr (v, _) \<Rightarrow> Inr v))
   }"

text \<open>What \<open>Snapshot\<close> makes of the stored value: absent is all zeros, another length is padded or cut.\<close>

definition snapshot_of :: "bytes option \<Rightarrow> nat \<Rightarrow> bytes" where
  "snapshot_of raw n =
     (case raw of
        None \<Rightarrow> replicate n 0
      | Some d \<Rightarrow> if length d \<noteq> n then take n (d @ replicate n 0) else d)"

definition Snapshot :: "string \<Rightarrow> string \<Rightarrow> int \<Rightarrow> ('p world, err + bytes) state" where
  "Snapshot shard listID byteLen = do {
     r \<leftarrow> remote ErrRedis (\<lambda>s. (Inr (ks_strings (kv s shard) (bitmapKey listID)), s));
     ret (case r of
            Inl e \<Rightarrow> Inl e
          | Inr raw \<Rightarrow> if byteLen < 0 then Inl ErrPanic else Inr (snapshot_of raw (nat byteLen)))
   }"

definition Version :: "string \<Rightarrow> string \<Rightarrow> ('p world, err + int) state" where
  "Version shard listID =
     remote ErrRedis (\<lambda>s. (Inr (case ks_counters (kv s shard) (versionKey listID) of None \<Rightarrow> 0 | Some v \<Rightarrow> v), s))"

definition Purge :: "string \<Rightarrow> string \<Rightarrow> ('p world, err option) state" where
  "Purge shard listID = do {
     r \<leftarrow> call_act ErrRedis (KvPurge shard listID) (\<lambda>_. Inr ());
     ret (case r of Inl e \<Rightarrow> Some e | Inr _ \<Rightarrow> None)
   }"

section \<open>Every method performs permitted actions\<close>

lemma moves_Init [moves_rules]: "moves world_leads (Init sh l n)"
  unfolding Init_def Let_def by (intro moves_rules moves_call_act guard.simps[THEN iffD2] TrueI)

lemma moves_SetStatus [moves_rules]: "moves world_leads (SetStatus sh l q off bits v)"
  unfolding SetStatus_def by (intro moves_rules moves_call_act guard.simps[THEN iffD2] TrueI)

lemma moves_redis_reads [moves_rules]:
  "moves world_leads (Snapshot sh l n)" "moves world_leads (Version sh l)"
  unfolding Snapshot_def Version_def by (intro moves_rules moves_remote; simp add: leads_refl)+

lemma spec_Purge:
  assumes "stable P" "\<And>s. P s \<Longrightarrow> permitted (KvPurge sh l) s"
  shows "spec P (Purge sh l) (\<lambda>_. P)"
  unfolding Purge_def
  by (intro spec_bind[where Q = "\<lambda>_. P"] spec_call_act spec_ret) (use assms stable_exec in blast)+

section \<open>Reading back\<close>

lemma length_snapshot_of [simp]: "length (snapshot_of raw n) = n"
  by (auto simp: snapshot_of_def split: option.splits)

lemma snapshot_of_exact: "length d = n \<Longrightarrow> snapshot_of (Some d) n = d"
  by (simp add: snapshot_of_def)

lemma kv_inv_wrap:
  assumes "kv_inv l (unat sz) bits ks" "ks_strings ks (bitmapKey l) = Some d"
  shows "WrapBitmap d sz bits = Inr \<lparr>bm_bits = bits, bm_size = sz, bm_data = d\<rparr>"
    "wf_bitmap \<lparr>bm_bits = bits, bm_size = sz, bm_data = d\<rparr>"
proof -
  have v: "ValidBitWidth bits" "unat sz * nat bits + 7 < 2 ^ 64" "length d = (unat sz * nat bits + 7) div 8"
    using assms by (auto simp: kv_inv_def)
  then have "of_nat (length d) = byte_len sz bits"
    using byte_len_nat[OF v(1,2)] by (metis of_nat_unat ucast_id)
  then show "WrapBitmap d sz bits = Inr \<lparr>bm_bits = bits, bm_size = sz, bm_data = d\<rparr>"
    using v(1) by (simp add: WrapBitmap_def)
  show "wf_bitmap \<lparr>bm_bits = bits, bm_size = sz, bm_data = d\<rparr>" using v by (simp add: wf_bitmap_def)
qed

section \<open>Properties\<close>

text \<open>
  C14. The Lua script agrees with the in-memory bitmap: on the stored bytes of a list, for an index
  in range, the byte array it leaves is the one \<open>Bitmap.Set\<close> computes for the value cut to the
  list's width. For a value that fits, that is \<open>Bitmap.Set\<close> itself; for a value that does not,
  \<open>Bitmap.Set\<close> fails while the script writes the truncated value and reports success.
\<close>

theorem script_refines_bitmap_set:
  "kv_inv l (unat sz) bits ks \<and> idx < sz \<and> ks_strings ks (bitmapKey l) = Some d
     \<and> ByteOffset idx bits = (byteIndex, bitOffset) \<and> WrapBitmap d sz bits = Inr b
   \<longrightarrow> (\<exists>b' c. Set b idx (v AND mask (nat bits)) = Inr b'
        \<and> setByteScript (bitmapKey l) (unat byteIndex) (uint bitOffset) bits v ks
            = Inr (c, ks\<lparr>ks_strings := (ks_strings ks)(bitmapKey l \<mapsto> Bytes b')\<rparr>)
        \<and> (v \<le> mask (nat bits) \<longleftrightarrow> Set b idx v = Inr b')
        \<and> (\<not> v \<le> mask (nat bits) \<longrightarrow> Set b idx v = Inl (StatusDoesNotFit v bits)))"
proof (intro impI, elim conjE)
  assume inv: "kv_inv l (unat sz) bits ks" and idx: "idx < sz" and d: "ks_strings ks (bitmapKey l) = Some d"
    and bo: "ByteOffset idx bits = (byteIndex, bitOffset)" and wrap: "WrapBitmap d sz bits = Inr b"
  have b: "b = \<lparr>bm_bits = bits, bm_size = sz, bm_data = d\<rparr>" and wf: "wf_bitmap b"
    using kv_inv_wrap[OF inv d] wrap by auto
  have idx': "idx < bm_size b" "unat idx < unat sz" using idx b by (auto simp: word_less_nat_alt)
  let ?b' = "b\<lparr>bm_data := put_entry (nat bits) d (unat idx) (v AND mask (nat bits))\<rparr>"
  have set: "Set b idx u = Inr (b\<lparr>bm_data := put_entry (nat bits) d (unat idx) u\<rparr>)" if "u \<le> mask (nat bits)" for u
    using Set_wf[OF wf idx'(1), of u] that by (simp add: b)
  have nofit: "Set b idx v = Inl (StatusDoesNotFit v bits)" if "\<not> v \<le> mask (nat bits)"
    using idx that by (simp add: Set_def b Let_def exp_minus_one_mask not_le)
  show "\<exists>b' c. Set b idx (v AND mask (nat bits)) = Inr b'
        \<and> setByteScript (bitmapKey l) (unat byteIndex) (uint bitOffset) bits v ks
            = Inr (c, ks\<lparr>ks_strings := (ks_strings ks)(bitmapKey l \<mapsto> Bytes b')\<rparr>)
        \<and> (v \<le> mask (nat bits) \<longleftrightarrow> Set b idx v = Inr b')
        \<and> (\<not> v \<le> mask (nat bits) \<longrightarrow> Set b idx v = Inl (StatusDoesNotFit v bits))"
    using set[of "v AND mask (nat bits)"] set[of v] nofit setByteScript_index[OF inv idx'(2) bo d, of v]
    by (cases "v \<le> mask (nat bits)"; intro exI[of _ ?b'] exI)
       (simp_all add: word_and_le1 Bytes_def and_mask_fits)
qed

definition demo_ks :: keyspace where
  "demo_ks = \<lparr>ks_strings = [bitmapKey ''a.1'' \<mapsto> [0, 3]], ks_counters = Map.empty\<rparr>"

theorem script_refines_bitmap_set_witness:
  "\<exists>b' c. Set \<lparr>bm_bits = 1, bm_size = 12, bm_data = [0, 3]\<rparr> 9 (2 AND mask (nat 1)) = Inr b'
     \<and> setByteScript (bitmapKey ''a.1'') 1 1 1 2 demo_ks
         = Inr (c, demo_ks\<lparr>ks_strings := (ks_strings demo_ks)(bitmapKey ''a.1'' \<mapsto> Bytes b')\<rparr>)
     \<and> Set \<lparr>bm_bits = 1, bm_size = 12, bm_data = [0, 3]\<rparr> 9 2 = Inl (StatusDoesNotFit 2 1)"
  using script_refines_bitmap_set[of "''a.1''" 12 1 demo_ks 9 "[0, 3]" 1 1
      "\<lparr>bm_bits = 1, bm_size = 12, bm_data = [0, 3]\<rparr>" 2]
  by (simp add: demo_ks_def kv_inv_def ValidBitWidth_def ByteOffset_def u64_of_int_def WrapBitmap_def byte_len_def
      word_le_nat_alt) blast

text \<open>
  Revocations survive: after any sequence of status writes to a list, with values that fit,
  every entry of the stored bitmap is the last value written to it, or its old value if it was
  not written; and no write changes the length of the bitmap or the list's width.
\<close>

theorem redis_last_write_wins:
  "kv_inv l n bits ks \<and> (\<forall>(i, v) \<in> set ws. i < n \<and> v \<le> mask (nat bits)) \<and> j < n
   \<longrightarrow> kv_inv l n bits (run_writes (kv_write l bits) ks ws)
     \<and> kv_read l bits (run_writes (kv_write l bits) ks ws) j = last_write ws j (kv_read l bits ks j)"
  using rda.run_writes_inv[of l n bits ks ws] rda.run_writes_last_wins[of l n bits ks ws j] by blast

theorem redis_last_write_wins_witness:
  "kv_read ''a.1'' 1 (run_writes (kv_write ''a.1'' 1) demo_ks [(3, 1), (8, 0), (3, 0), (11, 1)]) 8 = 0
   \<and> kv_inv ''a.1'' 12 1 demo_ks"
  using redis_last_write_wins[of "''a.1''" 12 1 demo_ks "[(3, 1), (8, 0), (3, 0), (11, 1)]" 8]
  by (simp add: demo_ks_def kv_inv_def ValidBitWidth_def)

end
