(* ===== verification/Lifecycle.thy ===== *)
theory Lifecycle
  imports Pg_Store
begin

text \<open>
  The lifecycle of lists and allocations over the whole deployment: the invariant of the stores
  under every action any process of the service performs, how a list's row evolves, and the
  facts about a list that no concurrent activity can invalidate.
\<close>

section \<open>How a row evolves\<close>

fun rank :: "list_state \<Rightarrow> nat" where
  "rank ACTIVE = 0" | "rank FROZEN = 1" | "rank ARCHIVED = 2"

text \<open>The states in the order a list goes through them.\<close>

instantiation list_state :: linorder
begin

definition less_eq_list_state :: "list_state \<Rightarrow> list_state \<Rightarrow> bool" where
  "p \<le> q \<longleftrightarrow> rank p \<le> rank q"

definition less_list_state :: "list_state \<Rightarrow> list_state \<Rightarrow> bool" where
  "p < q \<longleftrightarrow> rank p < rank q"

instance
proof
  fix p q :: list_state
  show "p \<le> q \<Longrightarrow> q \<le> p \<Longrightarrow> p = q" by (cases p; cases q) (simp_all add: less_eq_list_state_def)
qed (auto simp: less_eq_list_state_def less_list_state_def)

end

fun exp_le :: "time option \<Rightarrow> time option \<Rightarrow> bool" where
  "exp_le None _ = True"
| "exp_le (Some s) (Some t) = (s \<le> t)"
| "exp_le (Some s) None = False"

text \<open>
  \<open>row_le r r'\<close>: identity, width, size, key and shard never change; the cursor, the state, the
  latest expiry and the purge mark only go forward; once the list is no longer active, its
  cursor and latest expiry are final; the archival time is written once.
\<close>

definition row_le :: "list_row \<Rightarrow> list_row \<Rightarrow> bool" where
  "row_le r r' \<longleftrightarrow> lr_id r' = lr_id r \<and> lr_bits r' = lr_bits r \<and> lr_size r' = lr_size r
     \<and> lr_fpe_key r' = lr_fpe_key r \<and> lr_shard_id r' = lr_shard_id r \<and> lr_created_at r' = lr_created_at r
     \<and> lr_cursor r \<le> lr_cursor r' \<and> lr_state r \<le> lr_state r'
     \<and> exp_le (lr_max_exp r) (lr_max_exp r')
     \<and> (lr_state r \<noteq> ACTIVE \<longrightarrow> lr_cursor r' = lr_cursor r \<and> lr_max_exp r' = lr_max_exp r)
     \<and> (lr_archived_at r \<noteq> None \<longrightarrow> lr_archived_at r' = lr_archived_at r)
     \<and> (lr_purged r \<longrightarrow> lr_purged r')"

lemma exp_le_refl [simp]: "exp_le e e"
  by (cases e) auto

lemma exp_le_Some: "exp_le e (Some t) \<longleftrightarrow> (case e of None \<Rightarrow> True | Some x \<Rightarrow> x \<le> t)"
  by (cases e) auto

lemma exp_le_trans: "exp_le a b \<Longrightarrow> exp_le b c \<Longrightarrow> exp_le a c"
  by (cases a; cases b; cases c) auto

lemma exp_le_greatest [simp]: "exp_le a (greatest a t)"
  by (cases a) (auto simp: greatest_def)

lemma exp_le_greatest_new [simp]: "exp_le (Some t) (greatest a t)"
  by (cases a) (auto simp: greatest_def)

lemma row_le_refl [simp]: "row_le r r"
  by (simp add: row_le_def)

lemma list_state_order [simp]:
  "ACTIVE \<le> q" "q \<le> ACTIVE \<longleftrightarrow> q = ACTIVE" "q \<le> ARCHIVED" "ARCHIVED \<le> q \<longleftrightarrow> q = ARCHIVED"
  by (cases q; simp add: less_eq_list_state_def)+

lemma row_le_not_active: "row_le r r' \<Longrightarrow> lr_state r \<noteq> ACTIVE \<Longrightarrow> lr_state r' \<noteq> ACTIVE"
  by (auto simp: row_le_def)

lemma row_le_trans:
  assumes "row_le a b" "row_le b c"
  shows "row_le a c"
proof -
  have "lr_state a \<noteq> ACTIVE \<Longrightarrow> lr_state b \<noteq> ACTIVE"
    using assms(1) by (rule row_le_not_active)
  then show ?thesis
    using assms exp_le_trans[of "lr_max_exp a" "lr_max_exp b" "lr_max_exp c"] unfolding row_le_def by auto
qed

lemma row_le_archived: "row_le r r' \<Longrightarrow> lr_state r = ARCHIVED \<Longrightarrow> lr_state r' = ARCHIVED"
  by (auto simp: row_le_def)

text \<open>Every action other than creation and deletion updates the rows in place, forward.\<close>

definition in_place :: "act \<Rightarrow> bool" where
  "in_place a \<longleftrightarrow> (case a of PgCreateList _ _ _ _ _ \<Rightarrow> False | PgDeleteList _ \<Rightarrow> False | _ \<Rightarrow> True)"

lemma update_rows:
  assumes "\<And>r. r \<in> set (lists db) \<Longrightarrow> P r \<Longrightarrow> row_le r (f r)"
  shows "\<exists>h. lists (sql_update_lists P f db) = map h (lists db) \<and> (\<forall>r\<in>set (lists db). row_le r (h r))"
  using assms
  by (intro exI[of _ "\<lambda>r. if P r then f r else r"]) (auto simp: sql_update_lists_def)

lemma same_rows: "\<exists>h. ls = map h ls \<and> (\<forall>r\<in>set ls. row_le r (h r))"
  by (intro exI[of _ id]) auto

lemma reserve_rows:
  assumes "wf_pg db"
  shows "\<exists>h. lists (or_same (reserve_tx l i sh e d now db) db) = map h (lists db)
     \<and> (\<forall>r\<in>set (lists db). row_le r (h r))"
proof (cases "reserve_tx l i sh e d now db")
  case (Inl err)
  then show ?thesis using same_rows by (simp add: or_same_def)
next
  case (Inr p)
  obtain idx db' where p: "p = (idx, db')" by fastforce
  from assms Inr p obtain r where r: "r \<in> set (lists db)" "reservable l r"
    and ls: "lists db' = map (\<lambda>r. if lr_id r = l then reserved_row e r else r) (lists db)"
    by (auto elim: reserve_tx_InrD)
  have "row_le q (if lr_id q = l then reserved_row e q else q)" if "q \<in> set (lists db)" for q
  proof (cases "lr_id q = l")
    case True
    then have "q = r" using same_list_row[OF assms r(1) that] r(2) by (simp add: reservable_def)
    then show ?thesis using r(2) by (auto simp: row_le_def reservable_def reserved_row_def advance_def)
  qed simp
  then show ?thesis using Inr p ls
    by (intro exI[of _ "\<lambda>r. if lr_id r = l then reserved_row e r else r"]) (simp add: or_same_def)
qed

lemma exec_rows:
  assumes "wf_pg (pg s)" "in_place a"
  shows "\<exists>h. lists (pg (exec a s)) = map h (lists (pg s)) \<and> (\<forall>r\<in>set (lists (pg s)). row_le r (h r))"
proof (cases a)
  case (PgFreeze l)
  then show ?thesis by (simp add: on_pg_def sql_freeze_def) (rule update_rows, simp add: row_le_def)
next
  case (PgArchive l)
  have "row_le r (r\<lparr>lr_state := ARCHIVED, lr_archived_at := Some (pgtz (clock s))\<rparr>)"
    if "r \<in> set (lists (pg s))" "lr_state r = FROZEN" for r
    using assms(1) that by (auto simp: row_le_def wf_pg_def wf_lists_def wf_row_def)
  then show ?thesis using PgArchive by (simp add: on_pg_def sql_archive_def) (rule update_rows, blast)
next
  case (PgMarkPurged l)
  then show ?thesis by (simp add: on_pg_def sql_mark_purged_def) (rule update_rows, simp add: row_le_def)
next
  case (PgReserve l i sh e d)
  then show ?thesis using reserve_rows[OF assms(1)] by (simp add: on_pg_def)
qed (use assms(2) same_rows in \<open>auto simp: in_place_def on_pg_def on_kv_def sql_assign_shard_def
       shard_insert_def sql_reassign_shard_def\<close>)

section \<open>The invariant of the stores\<close>

text \<open>
  Besides well-formed tables: every list ever created is recorded in the history; the usage
  counters cover the allocations; no allocation outlives its list's \<open>max_exp\<close>; and an archived
  list was archived after the last of its credentials expired.
\<close>

definition exp_inv :: "time \<Rightarrow> pg \<Rightarrow> bool" where
  "exp_inv now db \<longleftrightarrow>
     (\<forall>a\<in>set (allocations db). \<forall>r\<in>set (lists db). lr_id r = ar_list_id a \<longrightarrow> exp_le (Some (ar_exp a)) (lr_max_exp r))
     \<and> (\<forall>r\<in>set (lists db). \<forall>t. lr_archived_at r = Some t \<longrightarrow> t \<le> now \<and> exp_le (lr_max_exp r) (Some t))"

definition good :: "stores \<Rightarrow> bool" where
  "good s \<longleftrightarrow> wf_pg (pg s) \<and> lr_id ` set (lists (pg s)) \<subseteq> set (issued s)
     \<and> usage_covers (pg s) \<and> exp_inv (clock s) (pg s) \<and> (\<forall>r\<in>set (lists (pg s)). lr_size r < 2 ^ 63)"

definition store_inv :: "stores \<Rightarrow> bool" where
  "store_inv s \<longleftrightarrow> collided s \<or> good s"

lemma pgtz_le [simp]: "pgtz t \<le> t"
  by (simp add: pgtz_def)

lemma pgtz_mono: "s \<le> t \<Longrightarrow> pgtz s \<le> pgtz t"
proof -
  assume "s \<le> t"
  then have "s div 1000 \<le> t div 1000" by (rule zdiv_mono1) simp
  moreover have "pgtz x = x div 1000 * 1000" for x by (simp add: pgtz_def minus_mod_eq_div_mult)
  ultimately show ?thesis by simp
qed

lemma exp_inv_update:
  assumes "exp_inv now db"
    "\<And>r. r \<in> set (lists db) \<Longrightarrow> P r \<Longrightarrow> lr_id (f r) = lr_id r \<and> exp_le (lr_max_exp r) (lr_max_exp (f r))
       \<and> (\<forall>t. lr_archived_at (f r) = Some t \<longrightarrow> t \<le> now \<and> exp_le (lr_max_exp (f r)) (Some t))"
  shows "exp_inv now (sql_update_lists P f db)"
  unfolding exp_inv_def sql_update_lists_def
proof (intro conjI ballI impI)
  fix a r assume a: "a \<in> set (allocations (db\<lparr>lists := map (\<lambda>r. if P r then f r else r) (lists db)\<rparr>))"
    and r: "r \<in> set (lists (db\<lparr>lists := map (\<lambda>r. if P r then f r else r) (lists db)\<rparr>))" "lr_id r = ar_list_id a"
  then obtain q where q: "q \<in> set (lists db)" "r = (if P q then f q else q)" by auto
  then have "lr_id q = ar_list_id a" "exp_le (lr_max_exp q) (lr_max_exp r)"
    using assms(2)[OF q(1)] r(2) by (auto split: if_splits)
  then show "exp_le (Some (ar_exp a)) (lr_max_exp r)"
    using assms(1) a q(1) exp_le_trans by (force simp: exp_inv_def)
next
  fix r assume "r \<in> set (lists (db\<lparr>lists := map (\<lambda>r. if P r then f r else r) (lists db)\<rparr>))"
  then obtain q where q: "q \<in> set (lists db)" "r = (if P q then f q else q)" by auto
  moreover have "\<forall>t. lr_archived_at q = Some t \<longrightarrow> t \<le> now \<and> exp_le (lr_max_exp q) (Some t)"
    using assms(1) q(1) by (simp add: exp_inv_def)
  ultimately show "\<forall>t. lr_archived_at r = Some t \<longrightarrow> t \<le> now \<and> exp_le (lr_max_exp r) (Some t)"
    using assms(2)[OF q(1)] by (cases "P q") auto
qed

lemma exp_inv_later: "exp_inv now db \<Longrightarrow> now \<le> later \<Longrightarrow> exp_inv later db"
  by (force simp: exp_inv_def)

lemma exp_inv_reserve:
  assumes "wf_pg db" "exp_inv now db" "reserve_tx l i sh e d t db = Inr (idx, db')"
  shows "exp_inv now db'"
proof -
  obtain r where r: "r \<in> set (lists db)" "reservable l r"
    and ls: "lists db' = map (\<lambda>r. if lr_id r = l then reserved_row e r else r) (lists db)"
    and as: "allocations db' = allocations db @ [\<lparr>ar_list_id = l, ar_idx = int64_of_u64 idx,
       ar_issuer_id = i, ar_exp = pgtz e, ar_created_at = pgtz t\<rparr>]"
    by (rule reserve_tx_InrD[OF assms(1,3)])
  have "lr_archived_at q = None" if "q \<in> set (lists db)" "lr_id q = l" for q
  proof -
    have "q = r" using same_list_row[OF assms(1) r(1) that(1)] that(2) r(2) by (simp add: reservable_def)
    then show ?thesis
      using r assms(1) by (auto simp: reservable_def wf_pg_def wf_lists_def wf_row_def)
  qed
  then have "exp_inv now (sql_update_lists (\<lambda>r. lr_id r = l) (reserved_row e) db)"
    using assms(2) by (intro exp_inv_update) auto
  then have old: "exp_inv now (db\<lparr>lists := lists db'\<rparr>)" by (simp add: sql_update_lists_def ls)
  have "exp_le (Some (pgtz e)) (lr_max_exp q)" if q: "q \<in> set (lists db')" "lr_id q = l" for q
  proof -
    from q(1) have "q \<in> (\<lambda>r. if lr_id r = l then reserved_row e r else r) ` set (lists db)" by (simp only: ls set_map)
    then show ?thesis using q(2) by (elim imageE) (simp split: if_splits)
  qed
  then show ?thesis using old unfolding exp_inv_def by (simp add: as)
qed

lemma usage_covers_reserve:
  assumes "wf_pg db" "usage_covers db" "reserve_tx l i sh e d t db = Inr (idx, db')"
  shows "usage_covers db'"
  unfolding usage_covers_def
proof
  fix j
  show "int (allocs_by j (allocations db')) \<le> usage_total j (issuer_usage db')"
    using usage_reserve_tx[OF assms(1,3), of j] assms(2) by (simp add: usage_covers_def) (metis diff_ge_0_iff_ge)
qed

lemma allocs_by_filter: "allocs_by j (filter P as) \<le> allocs_by j as"
  by (induction as) (auto simp: allocs_by_def)

lemma usage_covers_delete: "usage_covers db \<Longrightarrow> usage_covers (sql_delete_list l db)"
  unfolding usage_covers_def sql_delete_list_def
  using allocs_by_filter by (simp, meson of_nat_mono order_trans)

section \<open>Every action keeps the invariant\<close>

lemma exec_pg_other:
  assumes "in_place a" "wf_pg (pg s)"
  shows "collided (exec a s) = collided s" "issued (exec a s) = issued s"
    "lr_id ` set (lists (pg (exec a s))) = lr_id ` set (lists (pg s))"
proof -
  show "collided (exec a s) = collided s" "issued (exec a s) = issued s"
    using assms(1) by (cases a; simp add: in_place_def on_pg_def on_kv_def)+
  obtain h where h: "lists (pg (exec a s)) = map h (lists (pg s))" "\<forall>r\<in>set (lists (pg s)). row_le r (h r)"
    using exec_rows[OF assms(2,1)] by blast
  have "lr_id (h r) = lr_id r" if "r \<in> set (lists (pg s))" for r
    using h(2) that by (simp add: row_le_def)
  then show "lr_id ` set (lists (pg (exec a s))) = lr_id ` set (lists (pg s))"
    unfolding h(1) set_map image_image by (rule image_cong[OF refl])
qed

lemma exec_sizes:
  assumes "in_place a" "wf_pg (pg s)" "\<forall>r\<in>set (lists (pg s)). lr_size r < n"
  shows "\<forall>r\<in>set (lists (pg (exec a s))). lr_size r < n"
  using exec_rows[OF assms(2,1)] assms(3) by (auto simp: row_le_def)

lemma wf_pg_exec_reserve:
  "wf_pg db \<Longrightarrow> wf_pg (or_same (reserve_tx l i sh e d t db) db)"
  by (auto simp: or_same_def split: sum.splits intro: wf_reserve_tx)

lemma good_in_place:
  assumes "good s" "in_place a" "guard a s"
  shows "good (exec a s)"
proof -
  have wf: "wf_pg (pg s)" and us: "usage_covers (pg s)" and ex: "exp_inv (clock s) (pg s)"
    using assms(1) by (auto simp: good_def)
  have "wf_pg (pg (exec a s)) \<and> usage_covers (pg (exec a s)) \<and> exp_inv (clock (exec a s)) (pg (exec a s))"
  proof (cases a)
    case (Tick d)
    then show ?thesis using wf us ex by (auto intro: exp_inv_later)
  next
    case (PgFreeze l)
    have "exp_inv (clock s) (sql_freeze l (pg s))"
      unfolding sql_freeze_def by (rule exp_inv_update[OF ex]) (use ex in \<open>auto simp: exp_inv_def\<close>)
    moreover have "usage_covers (sql_freeze l (pg s))"
      using us by (simp add: usage_covers_def sql_freeze_def sql_update_lists_def)
    ultimately show ?thesis using wf PgFreeze by (simp add: on_pg_def wf_sql_freeze)
  next
    case (PgArchive l)
    have "exp_inv (clock s) (sql_archive l (clock s) (pg s))"
      unfolding sql_archive_def
      by (rule exp_inv_update[OF ex])
         (use assms(3) PgArchive in \<open>auto simp: all_expired_def exp_le_Some\<close>)
    moreover have "usage_covers (sql_archive l (clock s) (pg s))"
      using us by (simp add: usage_covers_def sql_archive_def sql_update_lists_def)
    ultimately show ?thesis using wf PgArchive by (simp add: on_pg_def wf_sql_archive)
  next
    case (PgMarkPurged l)
    have "exp_inv (clock s) (sql_mark_purged l (clock s) (pg s))"
      unfolding sql_mark_purged_def by (rule exp_inv_update[OF ex]) (use ex in \<open>auto simp: exp_inv_def\<close>)
    moreover have "usage_covers (sql_mark_purged l (clock s) (pg s))"
      using us by (simp add: usage_covers_def sql_mark_purged_def sql_update_lists_def)
    ultimately show ?thesis using wf PgMarkPurged assms(3) by (simp add: on_pg_def wf_sql_mark_purged)
  next
    case (PgReserve l i sh e d)
    then show ?thesis using wf us ex
      by (auto simp: on_pg_def wf_pg_exec_reserve)
         (auto simp: or_same_def split: sum.splits intro: usage_covers_reserve exp_inv_reserve)
  next
    case (PgAssignShard i sh)
    then show ?thesis using wf us ex wf_sql_assign_shard[OF wf, of i sh "clock s"]
      by (auto simp: on_pg_def sql_assign_shard_def shard_insert_def usage_covers_def exp_inv_def)
  next
    case (PgReassignShard i sh)
    then show ?thesis using wf us ex wf_sql_reassign_shard[OF wf, of i sh "clock s"]
      by (auto simp: on_pg_def sql_reassign_shard_def shard_insert_def usage_covers_def exp_inv_def)
  qed (use wf us ex assms(2) in \<open>auto simp: in_place_def on_kv_def\<close>)
  then show ?thesis
    using assms(1) exec_pg_other[OF assms(2) wf] exec_sizes[OF assms(2) wf] by (auto simp: good_def)
qed

lemma int64_less: "int64_of_u64 w < 2 ^ 63"
  using sint_lt[of w] by (simp add: int64_of_u64_def)

lemma good_create:
  assumes "good s" "\<not> collided (exec (PgCreateList l b n k sh) s)"
  shows "good (exec (PgCreateList l b n k sh) s)"
proof (cases "sql_insert_list l b (int64_of_u64 n) k sh (clock s) (pg s)")
  case (Inl e)
  then show ?thesis using assms(1) by simp
next
  case (Inr db')
  then have "wf_pg db'" using assms(1) wf_sql_insert_list by (auto simp: good_def)
  moreover have "\<forall>a\<in>set (allocations (pg s)). ar_list_id a \<noteq> l"
    using assms(1) Inr
    by (auto simp: good_def wf_pg_def wf_allocs_def sql_insert_list_def split: if_splits)
  moreover obtain r where db': "db' = (pg s)\<lparr>lists := lists (pg s) @ [r]\<rparr>"
    and r: "lr_id r = l" "lr_size r < 2 ^ 63" "lr_archived_at r = None"
    using Inr int64_less[of n] by (auto simp: sql_insert_list_def split: if_splits)
  ultimately show ?thesis
    using assms(1) Inr r unfolding good_def
    by (simp add: usage_covers_def exp_inv_def) blast
qed

lemma good_delete: "good s \<Longrightarrow> good (exec (PgDeleteList l) s)"
  unfolding good_def
  by (auto simp: on_pg_def wf_sql_delete_list usage_covers_delete) (auto simp: sql_delete_list_def exp_inv_def)

lemma collided_exec: "collided s \<Longrightarrow> collided (exec a s)"
  by (cases a) (auto simp: on_pg_def on_kv_def split: sum.splits)

lemma act_cases_in_place:
  obtains "in_place a" | l b n k sh where "a = PgCreateList l b n k sh" | l where "a = PgDeleteList l"
  by (cases a) (auto simp: in_place_def)

lemma store_inv_exec: "store_inv s \<Longrightarrow> permitted a s \<Longrightarrow> store_inv (exec a s)"
  by (rule act_cases_in_place[of a])
     (auto simp: store_inv_def permitted_def collided_exec good_in_place intro: good_create good_delete
        simp del: exec.simps)

lemma stable_store_inv: "stable store_inv"
  by (rule stableI) (rule store_inv_exec)

lemma store_inv_initial [simp]: "store_inv initial"
  by (simp add: store_inv_def good_def initial_def usage_covers_def exp_inv_def)
     (simp add: empty_pg_def allocs_by_def usage_total_def)

section \<open>Facts no concurrent activity invalidates\<close>

text \<open>
  \<open>list_sat l P\<close>: list \<open>l\<close> was created, and its row, if it is still there, satisfies \<open>P\<close>.
  \<open>alloc_sat l i P\<close>: index \<open>i\<close> of list \<open>l\<close> is allocated with \<open>P\<close>, unless the list has been deleted.
\<close>

definition list_sat :: "string \<Rightarrow> (list_row \<Rightarrow> bool) \<Rightarrow> stores \<Rightarrow> bool" where
  "list_sat l P s \<longleftrightarrow> collided s \<or> (good s \<and> l \<in> set (issued s)
     \<and> (\<forall>r\<in>set (lists (pg s)). lr_id r = l \<longrightarrow> P r))"

definition alloc_sat :: "string \<Rightarrow> int \<Rightarrow> (alloc_row \<Rightarrow> bool) \<Rightarrow> stores \<Rightarrow> bool" where
  "alloc_sat l i P s \<longleftrightarrow> collided s \<or> (good s \<and> l \<in> set (issued s)
     \<and> (l \<in> lr_id ` set (lists (pg s)) \<longrightarrow> (\<exists>a\<in>set (allocations (pg s)). alloc_at l i a \<and> P a)))"

lemma good_exec: "good s \<Longrightarrow> permitted a s \<Longrightarrow> \<not> collided (exec a s) \<Longrightarrow> good (exec a s)"
  using store_inv_exec[of s a] by (simp add: store_inv_def)

lemma create_fresh:
  assumes "l \<in> set (issued s)" "\<not> collided (exec (PgCreateList l' b n k sh) s)"
    "r \<in> set (lists (pg (exec (PgCreateList l' b n k sh) s)))" "lr_id r = l"
  shows "r \<in> set (lists (pg s))"
  using assms by (auto simp: sql_insert_list_def split: if_splits)

lemma issued_exec: "set (issued s) \<subseteq> set (issued (exec a s))"
  by (cases a) (auto simp: on_pg_def on_kv_def split: sum.splits)

lemma stable_list_sat:
  assumes up: "\<And>r r'. P r \<Longrightarrow> row_le r r' \<Longrightarrow> P r'"
  shows "stable (list_sat l P)"
proof (rule stableI)
  fix a s assume sat: "list_sat l P s" and perm: "permitted a s"
  show "list_sat l P (exec a s)"
  proof (cases "collided (exec a s)")
    case False
    then have g: "good s" and l: "l \<in> set (issued s)" and P: "\<forall>r\<in>set (lists (pg s)). lr_id r = l \<longrightarrow> P r"
      using sat collided_exec by (auto simp: list_sat_def)
    have "P r" if r: "r \<in> set (lists (pg (exec a s)))" "lr_id r = l" for r
    proof (rule act_cases_in_place[of a])
      assume "in_place a"
      then obtain h where h: "lists (pg (exec a s)) = map h (lists (pg s))"
          "\<forall>r\<in>set (lists (pg s)). row_le r (h r)"
        using exec_rows[of s a] g unfolding good_def by blast
      then obtain q where "q \<in> set (lists (pg s))" "r = h q" using r(1) by auto
      then show ?thesis using h(2) r(2) P up by (metis row_le_def)
    next
      fix l' b n k sh assume a: "a = PgCreateList l' b n k sh"
      show ?thesis using create_fresh[OF l, of l' b n k sh r] False r P unfolding a by blast
    next
      fix l' assume a: "a = PgDeleteList l'"
      show ?thesis using r P unfolding a by (simp add: on_pg_def sql_delete_list_def)
    qed
    then show ?thesis
      using good_exec[OF g perm False] issued_exec[of s a] l by (auto simp: list_sat_def)
  qed (simp add: list_sat_def)
qed

lemma allocations_exec:
  assumes "wf_pg (pg s)" "x \<in> set (allocations (pg s))" "ar_list_id x \<in> lr_id ` set (lists (pg (exec a s)))"
  shows "x \<in> set (allocations (pg (exec a s)))"
proof (cases a)
  case (PgReserve l i sh e d)
  then show ?thesis
    using assms by (auto simp: on_pg_def or_same_def split: sum.splits elim!: reserve_tx_InrD)
qed (use assms in \<open>auto simp: on_pg_def on_kv_def sql_insert_list_def sql_freeze_def sql_archive_def
       sql_mark_purged_def sql_update_lists_def sql_delete_list_def sql_assign_shard_def
       sql_reassign_shard_def shard_insert_def split: sum.splits if_splits\<close>)

lemma ids_exec:
  assumes "good s" "\<not> collided (exec a s)" "l \<in> set (issued s)" "l \<in> lr_id ` set (lists (pg (exec a s)))"
  shows "l \<in> lr_id ` set (lists (pg s))"
proof (rule act_cases_in_place[of a])
  assume "in_place a"
  then show ?thesis using exec_pg_other(3)[of a s] assms by (simp add: good_def)
next
  fix l' b n k sh assume a: "a = PgCreateList l' b n k sh"
  obtain r where "r \<in> set (lists (pg (exec a s)))" "lr_id r = l" using assms(4) by auto
  then show ?thesis using create_fresh[OF assms(3), of l' b n k sh r] assms(2) unfolding a by blast
next
  fix l' assume a: "a = PgDeleteList l'"
  show ?thesis using assms(4) unfolding a by (auto simp: on_pg_def sql_delete_list_def)
qed

lemma stable_alloc_sat: "stable (alloc_sat l i P)"
proof (rule stableI)
  fix a s assume sat: "alloc_sat l i P s" and perm: "permitted a s"
  show "alloc_sat l i P (exec a s)"
  proof (cases "collided (exec a s)")
    case False
    then have g: "good s" and l: "l \<in> set (issued s)"
      and al: "l \<in> lr_id ` set (lists (pg s)) \<longrightarrow> (\<exists>a\<in>set (allocations (pg s)). alloc_at l i a \<and> P a)"
      using sat collided_exec by (auto simp: alloc_sat_def)
    have "\<exists>x\<in>set (allocations (pg (exec a s))). alloc_at l i x \<and> P x"
      if mem: "l \<in> lr_id ` set (lists (pg (exec a s)))"
    proof -
      obtain x where x: "x \<in> set (allocations (pg s))" "alloc_at l i x" "P x"
        using al ids_exec[OF g False l mem] by blast
      then show ?thesis using allocations_exec[of s x a] g mem by (auto simp: good_def alloc_at_def)
    qed
    then show ?thesis
      using good_exec[OF g perm False] issued_exec[of s a] l by (auto simp: alloc_sat_def)
  qed (simp add: alloc_sat_def)
qed

abbreviation archived_list :: "string \<Rightarrow> stores \<Rightarrow> bool" where
  "archived_list l \<equiv> list_sat l (\<lambda>r. lr_state r = ARCHIVED)"

abbreviation purged_list :: "string \<Rightarrow> stores \<Rightarrow> bool" where
  "purged_list l \<equiv> list_sat l lr_purged"

abbreviation expired_list :: "string \<Rightarrow> time \<Rightarrow> stores \<Rightarrow> bool" where
  "expired_list l c \<equiv> list_sat l (\<lambda>r. lr_state r \<noteq> ACTIVE \<and> exp_le (lr_max_exp r) (Some c))"

lemma stable_archived_list: "stable (archived_list l)"
  by (rule stable_list_sat) (rule row_le_archived)

lemma stable_purged_list: "stable (purged_list l)"
  by (rule stable_list_sat) (simp add: row_le_def)

lemma stable_expired_list: "stable (expired_list l c)"
  by (rule stable_list_sat) (metis row_le_def row_le_not_active)

lemma permitted_archived: "archived_list l s \<Longrightarrow> permitted (PgMarkPurged l) s \<and> permitted (KvPurge sh l) s"
  by (auto simp: list_sat_def permitted_def all_archived_def)

lemma permitted_purged: "purged_list l s \<Longrightarrow> permitted (PgDeleteList l) s"
  by (auto simp: list_sat_def permitted_def all_purged_def)

lemma permitted_expired:
  "expired_list l c s \<Longrightarrow> c \<le> pgtz (clock s) \<Longrightarrow> permitted (PgArchive l) s"
  by (force simp: list_sat_def permitted_def all_expired_def exp_le_Some split: option.splits)

section \<open>Properties\<close>

lemma reachable_good:
  assumes "leads initial s" "\<not> collided s"
  shows "good s"
  using stableD[OF stable_store_inv store_inv_initial assms(1)] assms(2) by (simp add: store_inv_def)

text \<open>
  C5. In every state the service can reach, under any interleaving of allocations, rotation,
  garbage collection, deletions and shard assignments by any number of processes: identifiers
  are unique, no index of a list is allocated twice, the cursor of every list is exactly the
  number of its allocations and never passes its size, every allocation belongs to an
  existing list, and every issuer's accounting total covers its allocations.
\<close>

theorem reachable_allocation_invariant:
  "leads initial s \<and> \<not> collided s \<longrightarrow>
     distinct (map lr_id (lists (pg s)))
   \<and> distinct (map (\<lambda>a. (ar_list_id a, ar_idx a)) (allocations (pg s)))
   \<and> (\<forall>r\<in>set (lists (pg s)). lr_cursor r = int (allocs_in (lr_id r) (allocations (pg s)))
        \<and> lr_cursor r \<le> max 0 (lr_size r))
   \<and> (\<forall>a\<in>set (allocations (pg s)). ar_list_id a \<in> lr_id ` set (lists (pg s)))
   \<and> (\<forall>issuer. int (allocs_by issuer (allocations (pg s))) \<le> usage_total issuer (issuer_usage (pg s)))"
  using reachable_good[of s]
  by (auto simp: good_def wf_pg_def wf_lists_def wf_allocs_def wf_row_def usage_covers_def)


lemma row_step:
  assumes "good s" "permitted a s" "\<not> collided s" "r \<in> set (lists (pg s))"
  shows "(\<exists>r'\<in>set (lists (pg (exec a s))). row_le r r') \<or> lr_purged r \<and> lr_state r = ARCHIVED"
proof (rule act_cases_in_place[of a])
  assume "in_place a"
  then obtain h where "lists (pg (exec a s)) = map h (lists (pg s))" "\<forall>r\<in>set (lists (pg s)). row_le r (h r)"
    using exec_rows[of s a] assms(1) unfolding good_def by blast
  then show ?thesis using assms(4) by auto
next
  fix l b n k sh assume "a = PgCreateList l b n k sh"
  then have "r \<in> set (lists (pg (exec a s)))"
    using assms(4) by (auto simp: sql_insert_list_def split: sum.splits if_splits)
  then show ?thesis using row_le_refl by blast
next
  fix l assume a: "a = PgDeleteList l"
  show ?thesis
  proof (cases "lr_id r = l")
    case True
    then have "lr_purged r" using assms a by (auto simp: permitted_def all_purged_def)
    then show ?thesis using assms(1,4) by (auto simp: good_def wf_pg_def wf_lists_def wf_row_def)
  next
    case False
    then have "r \<in> set (lists (pg (exec a s)))" using assms(4) a by (simp add: on_pg_def sql_delete_list_def)
    then show ?thesis using row_le_refl by blast
  qed
qed


text \<open>
  Accounting does not drift: as long as no list is deleted, every action leaves each issuer's
  usage total equal to the number of its allocations, across all shards.
\<close>

theorem usage_counter_exact:
  "wf_pg (pg s) \<and> usage_exact (pg s) \<and> (\<forall>l. a \<noteq> PgDeleteList l) \<longrightarrow> usage_exact (pg (exec a s))"
proof (intro impI, elim conjE)
  assume wf: "wf_pg (pg s)" and ex: "usage_exact (pg s)" and nd: "\<forall>l. a \<noteq> PgDeleteList l"
  show "usage_exact (pg (exec a s))"
  proof (cases a)
    case (PgReserve l i sh e d)
    show ?thesis
    proof (cases "reserve_tx l i sh e d (clock s) (pg s)")
      case (Inl err)
      then show ?thesis using ex PgReserve by (simp add: on_pg_def or_same_def)
    next
      case (Inr p)
      obtain idx db' where p: "p = (idx, db')" by fastforce
      have "int (allocs_by j (allocations db')) = usage_total j (issuer_usage db')" for j
        using usage_reserve_tx[OF wf Inr[unfolded p], of j] ex by (simp add: usage_exact_def)
      then show ?thesis using PgReserve Inr p by (simp add: on_pg_def or_same_def usage_exact_def)
    qed
  qed (use ex nd in \<open>auto simp: usage_exact_def on_pg_def on_kv_def sql_insert_list_def sql_freeze_def
       sql_archive_def sql_mark_purged_def sql_update_lists_def sql_assign_shard_def sql_reassign_shard_def
       shard_insert_def split: sum.splits if_splits\<close>)
qed

section \<open>A run\<close>

text \<open>A list of two entries is created, filled by two issuers, expires and is archived.\<close>

definition demo_acts :: "act list" where
  "demo_acts = [PgCreateList ''a.1'' 2 2 [7] ''a'', PgReserve ''a.1'' ''alice'' ''a'' 5000 (\<lambda>c. Inr (1 - c)),
     PgReserve ''a.1'' ''bob'' ''a'' 3000 (\<lambda>c. Inr (1 - c)), Tick 6000, PgArchive ''a.1'']"

definition demo_state :: stores where "demo_state = fold act_step demo_acts initial"

lemma leads_demo: "leads initial demo_state"
  unfolding demo_state_def by (rule leads_act_steps)

lemma demo_state_pg:
  "pg demo_state =
    \<lparr>lists = [\<lparr>lr_id = ''a.1'', lr_bits = 2, lr_size = 2, lr_cursor = 2, lr_fpe_key = [7], lr_max_exp = Some 5000,
       lr_state = ARCHIVED, lr_created_at = 0, lr_archived_at = Some 6000, lr_purged = False, lr_shard_id = ''a'',
       lr_purged_at = None\<rparr>],
     allocations = [\<lparr>ar_list_id = ''a.1'', ar_idx = 1, ar_issuer_id = ''alice'', ar_exp = 5000, ar_created_at = 0\<rparr>,
       \<lparr>ar_list_id = ''a.1'', ar_idx = 0, ar_issuer_id = ''bob'', ar_exp = 3000, ar_created_at = 0\<rparr>],
     issuer_usage = [\<lparr>us_issuer_id = ''alice'', us_shard_id = ''a'', us_index_count = 1, us_updated_at = 0\<rparr>,
       \<lparr>us_issuer_id = ''bob'', us_shard_id = ''a'', us_index_count = 1, us_updated_at = 0\<rparr>],
     issuer_shard = []\<rparr> \<and> \<not> collided demo_state \<and> clock demo_state = 6000"
  unfolding demo_state_def demo_acts_def
  by (simp add: act_step_def permitted_def initial_def empty_pg_def sql_insert_list_def on_pg_def or_same_def
      reserve_tx_def sql_reserve_cursor_def reservable_def sql_update_lists_def advance_def sql_bump_max_exp_def
      sql_insert_allocation_def sql_select_list_def alloc_at_def sql_count_usage_def usage_of_def greatest_def
      pgtz_def int64_of_u64_def u64_of_int_def sql_archive_def all_expired_def)

theorem reachable_allocation_invariant_witness:
  "leads initial demo_state \<and> \<not> collided demo_state
   \<and> distinct (map (\<lambda>a. (ar_list_id a, ar_idx a)) (allocations (pg demo_state)))"
  using reachable_allocation_invariant[of demo_state] leads_demo demo_state_pg by blast


definition demo_mid :: stores where "demo_mid = fold act_step (take 2 demo_acts) initial"

lemma demo_mid_pg:
  "lists (pg demo_mid) = [\<lparr>lr_id = ''a.1'', lr_bits = 2, lr_size = 2, lr_cursor = 1, lr_fpe_key = [7],
     lr_max_exp = Some 5000, lr_state = ACTIVE, lr_created_at = 0, lr_archived_at = None, lr_purged = False,
     lr_shard_id = ''a'', lr_purged_at = None\<rparr>] \<and> \<not> collided demo_mid"
  by (simp add: demo_mid_def demo_acts_def act_step_def permitted_def initial_def empty_pg_def
      sql_insert_list_def on_pg_def or_same_def reserve_tx_def sql_reserve_cursor_def reservable_def
      sql_update_lists_def sql_bump_max_exp_def sql_insert_allocation_def sql_select_list_def alloc_at_def
      sql_count_usage_def advance_def int64_of_u64_def u64_of_int_def greatest_def pgtz_def)

lemma demo_mid: "leads demo_mid demo_state \<and> good demo_mid \<and> \<not> collided demo_mid \<and> lists (pg demo_mid) \<noteq> []"
proof -
  have "demo_state = fold act_step (drop 2 demo_acts) demo_mid"
    by (simp add: demo_state_def demo_mid_def demo_acts_def)
  then have "leads demo_mid demo_state" using leads_act_steps by metis
  moreover have s: "\<not> collided demo_mid \<and> lists (pg demo_mid) \<noteq> []" using demo_mid_pg by simp
  moreover have "good demo_mid"
    by (rule reachable_good) (use s in \<open>simp_all add: demo_mid_def leads_act_steps\<close>)
  ultimately show ?thesis by blast
qed


theorem usage_counter_exact_witness:
  "usage_exact (pg (exec (PgReserve ''a.1'' ''carol'' ''b'' 9000 Inr) demo_state))
   \<and> usage_total ''bob'' (issuer_usage (pg demo_state)) = 1"
proof -
  have "wf_pg (pg demo_state)" using reachable_good[OF leads_demo] demo_state_pg by (simp add: good_def)
  moreover have "usage_exact (pg demo_state)"
    unfolding demo_state_pg[THEN conjunct1] by (auto simp: usage_exact_def allocs_by_def usage_total_def)
  ultimately show ?thesis
    using usage_counter_exact[of demo_state "PgReserve ''a.1'' ''carol'' ''b'' 9000 Inr"]
    by (simp add: demo_state_pg usage_total_def del: exec.simps)
qed

end
