(* ===== verification/Pool.thy ===== *)
theory Pool
  imports Redis_Store Lifecycle
begin

text \<open>
  The pool of active lists, \<open>src/internal/pool/pool.go\<close>: placement by power of two choices, age-based
  rotation and topping up. \<open>Run\<close> is a ticker that calls \<open>EnsureHealthy\<close> and logs its error; one tick
  is one call.
\<close>

section \<open>Definitions\<close>

record Manager =
  mg_ShardID :: string
  mg_Width :: int
  mg_Capacity :: u64
  mg_Bits :: int
  mg_MaxAge :: duration

definition NewManager :: "string \<Rightarrow> int \<Rightarrow> u64 \<Rightarrow> int \<Rightarrow> duration \<Rightarrow> Manager" where
  "NewManager shardID w capacity bits maxAge =
     \<lparr>mg_ShardID = shardID, mg_Width = w, mg_Capacity = capacity, mg_Bits = bits, mg_MaxAge = maxAge\<rparr>"

definition ChooseByPowerOfTwo :: "ListMeta list \<Rightarrow> ('p world, ListMeta option) state" where
  "ChooseByPowerOfTwo candidates =
     (case candidates of
        [] \<Rightarrow> ret None
      | [c] \<Rightarrow> ret (Some c)
      | _ \<Rightarrow> do {
          i \<leftarrow> rand_below (length candidates);
          j0 \<leftarrow> rand_below (length candidates - 1);
          let j = (if j0 \<ge> i then j0 + 1 else j0);
          let a = candidates ! i;
          let b = candidates ! j;
          ret (if Remaining a < Remaining b then Some b else Some a)
        })"

definition createList :: "Manager \<Rightarrow> ('p world, err + ListMeta) state" where
  "createList m = do {
     rid \<leftarrow> ListID_New rand_read (mg_ShardID m);
     (case rid of
        Inl (ShardContainsSeparator s) \<Rightarrow> ret (Inl (ErrShardName s))
      | Inl (RandomFailed e) \<Rightarrow> ret (Inl e)
      | Inr lid \<Rightarrow> do {
          rk \<leftarrow> NewKey rand_read;
          (case rk of
             Inl e \<Rightarrow> ret (Inl e)
           | Inr key \<Rightarrow> do {
               rl \<leftarrow> CreateList lid (mg_Bits m) (mg_Capacity m) key (mg_ShardID m);
               (case rl of
                  Inl e \<Rightarrow> ret (Inl e)
                | Inr lm \<Rightarrow> do {
                    ri \<leftarrow> Init (mg_ShardID m) (lm_ID lm) (int64_of_u64 (byte_len (lm_Size lm) (lm_Bits lm)));
                    (case ri of Some e \<Rightarrow> ret (Inl e) | None \<Rightarrow> ret (Inr lm))
                  })
             })
        })
   }"

text \<open>The loop that freezes the lists past their maximum age and keeps the others.\<close>

fun freeze_aged :: "Manager \<Rightarrow> ListMeta list \<Rightarrow> ListMeta list \<Rightarrow> ('p world, err + ListMeta list) state" where
  "freeze_aged m remaining [] = ret (Inr remaining)"
| "freeze_aged m remaining (lm # lms) = do {
     old \<leftarrow> (if mg_MaxAge m > 0
             then do { now \<leftarrow> time_now; ret (now - lm_CreatedAt lm \<ge> mg_MaxAge m) }
             else ret False);
     if old then do {
       r \<leftarrow> Freeze (lm_ID lm);
       (case r of Some e \<Rightarrow> ret (Inl e) | None \<Rightarrow> freeze_aged m remaining lms)
     }
     else freeze_aged m (remaining @ [lm]) lms
   }"

text \<open>The loop \<open>for len(remaining) < m.Width\<close>: \<open>k\<close> lists are still missing.\<close>

fun top_up :: "Manager \<Rightarrow> nat \<Rightarrow> ListMeta list \<Rightarrow> ('p world, err + ListMeta list) state" where
  "top_up m 0 remaining = ret (Inr remaining)"
| "top_up m (Suc k) remaining = do {
     r \<leftarrow> createList m;
     (case r of Inl e \<Rightarrow> ret (Inl e) | Inr lm \<Rightarrow> top_up m k (remaining @ [lm]))
   }"

definition EnsureHealthy :: "Manager \<Rightarrow> ('p world, err option) state" where
  "EnsureHealthy m = do {
     ra \<leftarrow> ActiveLists (mg_ShardID m);
     (case ra of
        Inl e \<Rightarrow> ret (Some e)
      | Inr active \<Rightarrow> do {
          rr \<leftarrow> freeze_aged m [] active;
          (case rr of
             Inl e \<Rightarrow> ret (Some e)
           | Inr remaining \<Rightarrow> do {
               rt \<leftarrow> top_up m (nat (mg_Width m) - length remaining) remaining;
               ret (case rt of Inl e \<Rightarrow> Some e | Inr _ \<Rightarrow> None)
             })
        })
   }"

definition PickForAllocation :: "Manager \<Rightarrow> ('p world, err + ListMeta option) state" where
  "PickForAllocation m = do {
     ra \<leftarrow> ActiveLists (mg_ShardID m);
     (case ra of
        Inl e \<Rightarrow> ret (Inl e)
      | Inr active \<Rightarrow>
          if active = [] then do {
            rh \<leftarrow> EnsureHealthy m;
            (case rh of
               Some e \<Rightarrow> ret (Inl e)
             | None \<Rightarrow> do {
                 rb \<leftarrow> ActiveLists (mg_ShardID m);
                 (case rb of
                    Inl e \<Rightarrow> ret (Inl e)
                  | Inr active' \<Rightarrow> do { c \<leftarrow> ChooseByPowerOfTwo active'; ret (Inr c) })
               })
          }
          else do { c \<leftarrow> ChooseByPowerOfTwo active; ret (Inr c) })
   }"

section \<open>Every operation performs permitted actions\<close>

lemma moves_ListID_New [moves_rules]: "moves world_leads (ListID_New rand_read sh)"
  unfolding ListID_New_def by (intro moves_rules)

lemma moves_NewKey [moves_rules]: "moves world_leads (NewKey rand_read)"
  unfolding NewKey_def by (intro moves_rules)

lemma moves_Choose [moves_rules]: "moves world_leads (ChooseByPowerOfTwo cs)"
  unfolding ChooseByPowerOfTwo_def Let_def by (auto intro!: moves_rules split: list.split)

lemma moves_createList [moves_rules]: "moves world_leads (createList m)"
  unfolding createList_def by (auto intro!: moves_rules split: listid_error.split)

lemma moves_freeze_aged [moves_rules]: "moves world_leads (freeze_aged m rem lms)"
  by (induction m rem lms rule: freeze_aged.induct) (auto intro!: moves_rules)

lemma moves_top_up [moves_rules]: "moves world_leads (top_up m k rem)"
  by (induction m k rem rule: top_up.induct) (auto intro!: moves_rules)

lemma moves_EnsureHealthy [moves_rules]: "moves world_leads (EnsureHealthy m)"
  unfolding EnsureHealthy_def by (intro moves_rules)

lemma moves_PickForAllocation [moves_rules]: "moves world_leads (PickForAllocation m)"
  unfolding PickForAllocation_def by (intro moves_rules)

section \<open>Properties\<close>

text \<open>
  Power of two choices: with at least two candidates, the chosen list is the emptier of two
  distinct candidates (never one with less room than both samples), every ordered pair of
  distinct candidates is sampled by exactly one pair of draws, and with one or no candidate
  the choice is that one or none. The issuer is not an input.
\<close>

theorem choose_power_of_two:
  "(2 \<le> length cs \<longrightarrow>
      (\<exists>i<length cs. \<exists>j<length cs. i \<noteq> j \<and> result (ChooseByPowerOfTwo cs) w =
         Some (if Remaining (cs ! i) < Remaining (cs ! j) then cs ! j else cs ! i))
    \<and> (\<forall>i<length cs. \<forall>j<length cs. i \<noteq> j \<longrightarrow>
         result (ChooseByPowerOfTwo cs) (w\<lparr>draws := [i, if i < j then j - 1 else j]\<rparr>) =
         Some (if Remaining (cs ! i) < Remaining (cs ! j) then cs ! j else cs ! i)))
   \<and> result (ChooseByPowerOfTwo []) w = None
   \<and> result (ChooseByPowerOfTwo [c]) w = Some c"
proof (intro conjI impI)
  assume len: "2 \<le> length cs"
  then obtain a b bs where cs: "cs = a # b # bs" by (metis Suc_le_length_iff numeral_2_eq_2)
  have run: "result (ChooseByPowerOfTwo cs) w =
     (let i = result next_draw w mod length cs;
          j0 = result next_draw (after next_draw w) mod (length cs - 1);
          j = (if j0 \<ge> i then j0 + 1 else j0)
      in Some (if Remaining (cs ! i) < Remaining (cs ! j) then cs ! j else cs ! i))" for w :: "'a world"
    by (simp add: ChooseByPowerOfTwo_def cs rand_below_def Let_def split: prod.splits)
  show "\<exists>i<length cs. \<exists>j<length cs. i \<noteq> j \<and> result (ChooseByPowerOfTwo cs) w =
         Some (if Remaining (cs ! i) < Remaining (cs ! j) then cs ! j else cs ! i)"
  proof -
    define i where "i = result next_draw w mod length cs"
    define j0 where "j0 = result next_draw (after next_draw w) mod (length cs - 1)"
    define j where "j = (if j0 \<ge> i then j0 + 1 else j0)"
    have "0 < length cs" "0 < length cs - 1" using len by auto
    then have "i < length cs" "j0 < length cs - 1" by (simp_all only: i_def j0_def mod_less_divisor)
    then have "i < length cs" "j < length cs" "i \<noteq> j" by (auto simp: j_def)
    moreover have "result (ChooseByPowerOfTwo cs) w =
        Some (if Remaining (cs ! i) < Remaining (cs ! j) then cs ! j else cs ! i)"
      using run[of w] unfolding Let_def i_def j0_def j_def .
    ultimately show ?thesis by blast
  qed
  show "\<forall>i<length cs. \<forall>j<length cs. i \<noteq> j \<longrightarrow>
         result (ChooseByPowerOfTwo cs) (w\<lparr>draws := [i, if i < j then j - 1 else j]\<rparr>) =
         Some (if Remaining (cs ! i) < Remaining (cs ! j) then cs ! j else cs ! i)"
  proof (intro allI impI)
    fix i j assume ij: "i < length cs" "j < length cs" "i \<noteq> j"
    then have "(if i < j then j - 1 else j) < length cs - 1" by auto
    then have "(if i < j then j - 1 else j) mod (length cs - 1) = (if i < j then j - 1 else j)"
      by (rule mod_less)
    then show "result (ChooseByPowerOfTwo cs) (w\<lparr>draws := [i, if i < j then j - 1 else j]\<rparr>) =
         Some (if Remaining (cs ! i) < Remaining (cs ! j) then cs ! j else cs ! i)"
      using ij by (auto simp: run next_draw_def Let_def)
  qed
qed (simp_all add: ChooseByPowerOfTwo_def)

text \<open>Topping up.\<close>

definition active_in :: "string \<Rightarrow> stores \<Rightarrow> nat" where
  "active_in shard s = length (filter (\<lambda>r. lr_shard_id r = shard \<and> lr_state r = ACTIVE) (lists (pg s)))"

lemma active_in_kv: "active_in sh (on_kv sh' f s) = active_in sh s"
  by (simp add: active_in_def on_kv_def)

lemma quiet_CreateList:
  "quiet (\<lambda>s. k \<le> active_in sh s) (CreateList l b n key sh)
     (\<lambda>r s. case r of Inl _ \<Rightarrow> True | Inr _ \<Rightarrow> Suc k \<le> active_in sh s)"
  unfolding CreateList_def
  by (rule quiet_bind[where Q = "\<lambda>r s. case r of Inl _ \<Rightarrow> True | Inr _ \<Rightarrow> Suc k \<le> active_in sh s"],
      rule quiet_call_act)
     (auto simp: active_in_def sql_insert_list_def split: sum.splits intro!: quiet_ret)

lemma quiet_Init:
  "quiet (\<lambda>s. k \<le> active_in sh s) (Init sh' l n) (\<lambda>r s. r = None \<longrightarrow> k \<le> active_in sh s)"
  unfolding Init_def Let_def
  by (intro quiet_if quiet_ret, simp)
     (rule quiet_bind[where Q = "\<lambda>r s. k \<le> active_in sh s"], rule quiet_call_act,
       auto simp: active_in_kv intro!: quiet_ret)

lemma quiet_ListID_New: "quiet P (ListID_New rand_read sh) (\<lambda>_. P)"
  unfolding ListID_New_def
  by (intro quiet_if quiet_ret, simp)
     (rule quiet_bind[where Q = "\<lambda>_. P"], rule quiet_rand_read, auto intro!: quiet_case_sum quiet_ret)

lemma quiet_NewKey: "quiet P (NewKey rand_read) (\<lambda>_. P)"
  unfolding NewKey_def
  by (rule quiet_bind[where Q = "\<lambda>_. P"], rule quiet_rand_read) (auto intro!: quiet_case_sum quiet_ret)

lemma quiet_createList:
  "quiet (\<lambda>s. k \<le> active_in (mg_ShardID m) s) (createList m)
     (\<lambda>r s. case r of Inl _ \<Rightarrow> True | Inr _ \<Rightarrow> Suc k \<le> active_in (mg_ShardID m) s)"
  (is "quiet ?P _ ?Q")
proof -
  have ini: "quiet (\<lambda>s. Suc k \<le> active_in (mg_ShardID m) s) (do { ri \<leftarrow> Init (mg_ShardID m) (lm_ID lm) n;
      (case ri of Some e \<Rightarrow> ret (Inl e) | None \<Rightarrow> ret (Inr lm)) }) ?Q" for n lm
    by (rule quiet_bind[OF quiet_Init]) (auto intro!: quiet_case_option quiet_ret)
  have cre: "quiet ?P (do { rl \<leftarrow> CreateList lid b c key (mg_ShardID m);
      (case rl of Inl e \<Rightarrow> ret (Inl e) | Inr lm \<Rightarrow> do {
         ri \<leftarrow> Init (mg_ShardID m) (lm_ID lm) (n lm);
         (case ri of Some e \<Rightarrow> ret (Inl e) | None \<Rightarrow> ret (Inr lm)) }) }) ?Q" for lid b c key n
    by (rule quiet_bind[OF quiet_CreateList], rule quiet_case_sum)
       (auto intro!: quiet_ret intro: ini[THEN quiet_pre])
  have bad: "quiet ?P (case e of ShardContainsSeparator s \<Rightarrow> ret (Inl (ErrShardName s))
      | RandomFailed e \<Rightarrow> ret (Inl e)) ?Q" for e
    by (cases e) (simp_all add: quiet_ret)
  show ?thesis
    unfolding createList_def
    by (rule quiet_bind[OF quiet_ListID_New], rule quiet_case_sum, rule bad,
        rule quiet_bind[OF quiet_NewKey], rule quiet_case_sum, simp add: quiet_ret, rule cre)
qed

lemma quiet_top_up:
  "quiet (\<lambda>s. length rem \<le> active_in (mg_ShardID m) s) (top_up m k rem)
     (\<lambda>r s. case r of Inl _ \<Rightarrow> True | Inr rem' \<Rightarrow> length rem + k \<le> active_in (mg_ShardID m) s)"
proof (induction k arbitrary: rem)
  case (Suc k)
  show ?case
    unfolding top_up.simps
    by (rule quiet_bind[OF quiet_createList], rule quiet_case_sum)
       (auto intro!: quiet_ret intro: Suc.IH[THEN quiet_pre, THEN quiet_post] split: sum.splits)
qed (auto intro: quiet_ret)

text \<open>The rows of the lists kept so far, and of those still to be looked at, are active.\<close>

definition rows_active :: "string \<Rightarrow> ListMeta list \<Rightarrow> stores \<Rightarrow> bool" where
  "rows_active sh lms s \<longleftrightarrow> wf_pg (pg s) \<and> distinct (map lm_ID lms)
     \<and> (\<forall>lm\<in>set lms. \<exists>r\<in>set (lists (pg s)). lr_id r = lm_ID lm \<and> lr_shard_id r = sh \<and> lr_state r = ACTIVE)"

lemma rows_active_count: "rows_active sh lms s \<Longrightarrow> length lms \<le> active_in sh s"
proof -
  assume a: "rows_active sh lms s"
  let ?act = "filter (\<lambda>r. lr_shard_id r = sh \<and> lr_state r = ACTIVE) (lists (pg s))"
  have "lm_ID ` set lms \<subseteq> lr_id ` set ?act" using a by (force simp: rows_active_def)
  then have "card (lm_ID ` set lms) \<le> card (lr_id ` set ?act)" by (rule card_mono[OF finite_imageI[OF finite_set]])
  also have "card (lm_ID ` set lms) = length lms"
    using a distinct_card[of "map lm_ID lms"] by (simp add: rows_active_def)
  also have "card (lr_id ` set ?act) \<le> length ?act" by (rule le_trans[OF card_image_le[OF finite_set] card_length])
  finally show ?thesis by (simp add: active_in_def)
qed

lemma rows_active_freeze:
  assumes "rows_active sh (rem @ lm # lms) s"
  shows "rows_active sh (rem @ lms) (exec (PgFreeze (lm_ID lm)) s)"
proof -
  have "\<exists>r\<in>set (lists (pg (exec (PgFreeze (lm_ID lm)) s))).
      lr_id r = lm_ID q \<and> lr_shard_id r = sh \<and> lr_state r = ACTIVE" if q: "q \<in> set (rem @ lms)" for q
  proof -
    obtain r where r: "r \<in> set (lists (pg s))" "lr_id r = lm_ID q" "lr_shard_id r = sh" "lr_state r = ACTIVE"
      using assms[unfolded rows_active_def] q by (metis UnCI UnE list.set_intros(2) set_append)
    have "lm_ID lm \<notin> lm_ID ` set (rem @ lms)" using assms by (auto simp: rows_active_def)
    then have "lm_ID q \<noteq> lm_ID lm" using q by (metis imageI)
    then have "r \<in> set (lists (pg (exec (PgFreeze (lm_ID lm)) s)))"
      using r(1,2) by (force simp: on_pg_def sql_freeze_def sql_update_lists_def)
    then show ?thesis using r by blast
  qed
  then show ?thesis
    using assms unfolding rows_active_def by (simp add: on_pg_def wf_sql_freeze)
qed

lemma quiet_freeze_aged:
  "quiet (rows_active sh (rem @ lms)) (freeze_aged m rem lms)
     (\<lambda>r s. case r of Inl _ \<Rightarrow> True | Inr rem' \<Rightarrow> rows_active sh rem' s)"
proof (induction m rem lms rule: freeze_aged.induct)
  case (1 m rem)
  show ?case by (simp add: quiet_ret)
next
  case (2 m rem lm lms)
  have age: "quiet P (if mg_MaxAge m > 0 then do { now \<leftarrow> time_now; ret (now - lm_CreatedAt lm \<ge> mg_MaxAge m) }
      else ret False) (\<lambda>_. P)" for P
    by (intro quiet_if quiet_bind[where Q = "\<lambda>_. P"] quiet_time_now quiet_ret)
  have frz: "quiet (rows_active sh (rem @ lm # lms)) (Freeze (lm_ID lm))
      (\<lambda>r s. case r of Some _ \<Rightarrow> True | None \<Rightarrow> rows_active sh (rem @ lms) s)"
    unfolding Freeze_def pg_exec_def
    by (rule quiet_bind[where Q = "\<lambda>r s. case r of Inl _ \<Rightarrow> True | Inr _ \<Rightarrow> rows_active sh (rem @ lms) s"],
        rule quiet_call_act) (auto intro!: quiet_ret rows_active_freeze split: sum.splits simp del: exec.simps)
  show ?case
    unfolding freeze_aged.simps
    by (rule quiet_bind[OF age], rule quiet_if, rule quiet_bind[OF frz], rule quiet_case_option)
       (use 2 in \<open>auto intro: quiet_ret\<close>)
qed

lemma quiet_ActiveLists:
  "quiet (\<lambda>s. wf_pg (pg s)) (ActiveLists sh)
     (\<lambda>r s. case r of Inl _ \<Rightarrow> True | Inr lms \<Rightarrow> rows_active sh lms s)"
  unfolding ActiveLists_def queryLists_def pg_query_def
  by (rule quiet_remote)
     (auto simp: rows_active_def sql_select_lists_def scanListMeta_def wf_pg_def wf_lists_def comp_def distinct_map
       inj_on_def)

text \<open>
  Pool health: when \<open>EnsureHealthy\<close> reports success with nothing else running, its shard has at
  least \<open>Width\<close> active lists, whatever it froze for age.
\<close>

theorem ensure_healthy_width:
  "sched w = [] \<and> wf_pg (pg (st w)) \<and> result (EnsureHealthy m) w = None
   \<longrightarrow> mg_Width m \<le> int (active_in (mg_ShardID m) (st (after (EnsureHealthy m) w)))"
proof -
  have top: "quiet (rows_active (mg_ShardID m) rem) (do {
        rt \<leftarrow> top_up m (nat (mg_Width m) - length rem) rem;
        ret (case rt of Inl e \<Rightarrow> Some e | Inr _ \<Rightarrow> None) })
      (\<lambda>r s. r = None \<longrightarrow> mg_Width m \<le> int (active_in (mg_ShardID m) s))" for rem
    by (rule quiet_bind[OF quiet_top_up[THEN quiet_pre]])
       (auto intro!: quiet_ret rows_active_count split: sum.splits)
  have "quiet (\<lambda>s. wf_pg (pg s)) (EnsureHealthy m)
      (\<lambda>r s. r = None \<longrightarrow> mg_Width m \<le> int (active_in (mg_ShardID m) s))"
    unfolding EnsureHealthy_def
    by (rule quiet_bind[OF quiet_ActiveLists], rule quiet_case_sum, force intro!: quiet_ret,
        rule quiet_bind[OF quiet_freeze_aged[where sh = "mg_ShardID m", THEN quiet_pre]], simp,
        rule quiet_case_sum) (auto intro!: quiet_ret top[THEN quiet_pre])
  then show ?thesis using quietD by fastforce
qed

definition demo_manager :: Manager where
  "demo_manager = \<lparr>mg_ShardID = ''a'', mg_Width = 1, mg_Capacity = 100, mg_Bits = 2, mg_MaxAge = 0\<rparr>"

definition quiet_world :: "stores \<Rightarrow> 'p \<Rightarrow> 'p world" where
  "quiet_world s p = \<lparr>st = s, sched = [], fates = [], draws = [], proc = p\<rparr>"

definition demo_list :: "string \<Rightarrow> u64 \<Rightarrow> ListMeta" where
  "demo_list l n = \<lparr>lm_ID = l, lm_Bits = 2, lm_Size = n, lm_Cursor = 2, lm_FPEKey = [7], lm_MaxExp = None,
     lm_State = ACTIVE, lm_CreatedAt = 0, lm_ArchivedAt = None, lm_ShardID = ''a'', lm_Purged = False,
     lm_PurgedAt = None\<rparr>"

theorem choose_power_of_two_witness:
  "result (ChooseByPowerOfTwo [demo_list ''a.1'' 5, demo_list ''a.2'' 9]) ((quiet_world initial ())\<lparr>draws := [0, 0]\<rparr>)
   = Some (demo_list ''a.2'' 9)"
proof -
  let ?cs = "[demo_list ''a.1'' 5, demo_list ''a.2'' 9]"
  have "\<forall>i<length ?cs. \<forall>j<length ?cs. i \<noteq> j \<longrightarrow>
         result (ChooseByPowerOfTwo ?cs) ((quiet_world initial ())\<lparr>draws := [i, if i < j then j - 1 else j]\<rparr>) =
         Some (if Remaining (?cs ! i) < Remaining (?cs ! j) then ?cs ! j else ?cs ! i)"
    using choose_power_of_two[of ?cs "quiet_world initial ()"] by simp
  from this[rule_format, of 0 1] show ?thesis by (simp add: Remaining_def demo_list_def)
qed

theorem ensure_healthy_width_witness:
  "result (EnsureHealthy demo_manager) (quiet_world demo_mid ()) = None
   \<and> 1 \<le> active_in ''a'' (st (after (EnsureHealthy demo_manager) (quiet_world demo_mid ())))"
proof -
  have "result (EnsureHealthy demo_manager) (quiet_world demo_mid ()) = None"
    by (simp add: EnsureHealthy_def ActiveLists_def queryLists_def pg_query_def remote_def interfere_def
        next_fate_def apply_store_def quiet_world_def demo_manager_def sql_select_lists_def demo_mid_pg)
  then show ?thesis
    using ensure_healthy_width[of "quiet_world demo_mid ()" demo_manager] demo_mid
    by (simp add: quiet_world_def good_def demo_manager_def)
qed

end
