(* ===== verification/GC.thy ===== *)
theory GC
  imports Pool
begin

text \<open>
  The garbage collector, \<open>src/internal/gc/sweeper.go\<close>: archive, purge, delete. A \<open>Sweeper\<close> holds the
  \<open>BitmapStore\<close> of its own shard (\<open>sw_shard\<close>) and the Postgres every shard shares. \<open>Run\<close> is a ticker
  that calls \<open>Sweep\<close> and logs its error; one tick is one call.
\<close>

section \<open>Definitions\<close>

record Sweeper =
  sw_shard :: string
  sw_Grace :: duration
  sw_Retention :: duration
  sw_DBRetention :: duration

definition NewSweeper :: "string \<Rightarrow> duration \<Rightarrow> duration \<Rightarrow> duration \<Rightarrow> Sweeper" where
  "NewSweeper shard grace retention dbRetention =
     \<lparr>sw_shard = shard, sw_Grace = grace, sw_Retention = retention, sw_DBRetention = dbRetention\<rparr>"

definition sweep_delete :: "Sweeper \<Rightarrow> time \<Rightarrow> ('p world, err option) state" where
  "sweep_delete s now =
     (if sw_DBRetention s \<le> 0 then ret None
      else do {
        rp \<leftarrow> PurgedListsPastDBRetention (now - sw_DBRetention s);
        (case rp of
           Inl e \<Rightarrow> ret (Some e)
         | Inr purged \<Rightarrow> for_each (\<lambda>lm. DeleteList (lm_ID lm)) purged)
      })"

definition sweep_purge :: "Sweeper \<Rightarrow> time \<Rightarrow> ('p world, err option) state" where
  "sweep_purge s now = do {
     ra \<leftarrow> ArchivedListsPastRetention (now - sw_Retention s);
     (case ra of
        Inl e \<Rightarrow> ret (Some e)
      | Inr archived \<Rightarrow> do {
          e2 \<leftarrow> for_each (\<lambda>lm. do {
                  r \<leftarrow> Purge (sw_shard s) (lm_ID lm);
                  (case r of Some e \<Rightarrow> ret (Some e) | None \<Rightarrow> MarkPurged (lm_ID lm))
                }) archived;
          (case e2 of Some e \<Rightarrow> ret (Some e) | None \<Rightarrow> sweep_delete s now)
        })
   }"

definition Sweep :: "Sweeper \<Rightarrow> ('p world, err option) state" where
  "Sweep s = do {
     now \<leftarrow> time_now;
     rf \<leftarrow> FrozenListsPastGrace (now - sw_Grace s);
     (case rf of
        Inl e \<Rightarrow> ret (Some e)
      | Inr frozen \<Rightarrow> do {
          e1 \<leftarrow> for_each (\<lambda>lm. Archive (lm_ID lm)) frozen;
          (case e1 of Some e \<Rightarrow> ret (Some e) | None \<Rightarrow> sweep_purge s now)
        })
   }"

section \<open>A sweep keeps the discipline of the lifecycle\<close>

lemma list_sat_query:
  assumes "store_inv s" "\<forall>r\<in>set (lists (pg s)). lr_id r = l \<longrightarrow> P r" "l \<in> lr_id ` set (lists (pg s))"
  shows "list_sat l P s"
  using assms by (auto simp: list_sat_def store_inv_def good_def)

lemma spec_queryLists:
  assumes "stable F"
  shows "spec (\<lambda>s. store_inv s \<and> F s) (queryLists P)
    (\<lambda>r s. store_inv s \<and> F s \<and> (\<forall>lms. r = Inr lms \<longrightarrow> (\<forall>lm\<in>set lms. list_sat (lm_ID lm) P s)))"
  unfolding queryLists_def
proof (rule spec_pg_query)
  show "stable (\<lambda>s. store_inv s \<and> F s)" by (intro stable_conj stable_store_inv assms)
next
  fix s assume s: "store_inv s \<and> F s"
  have "list_sat (lr_id r) P s" if r: "r \<in> set (lists (pg s))" "P r" for r
  proof (cases "collided s")
    case False
    then have "good s" using s by (simp add: store_inv_def)
    then have "r' = r" if "r' \<in> set (lists (pg s))" "lr_id r' = lr_id r" for r'
      using same_list_row[of "pg s" r r'] r that by (simp add: good_def)
    then show ?thesis using s r by (intro list_sat_query) auto
  qed (simp add: list_sat_def)
  then show "store_inv s \<and> F s \<and> (\<forall>lms. Inr (map scanListMeta (sql_select_lists P (pg s))) = Inr lms
      \<longrightarrow> (\<forall>lm\<in>set lms. list_sat (lm_ID lm) P s))"
    using s by (auto simp: sql_select_lists_def scanListMeta_def)
qed simp

lemma spec_for_each_lists:
  assumes "stable F" "\<And>x. x \<in> set xs \<Longrightarrow> stable (G x)"
    "\<And>x. x \<in> set xs \<Longrightarrow> spec (\<lambda>s. F s \<and> (\<forall>y\<in>set xs. G y s)) (f x) (\<lambda>_ s. F s \<and> (\<forall>y\<in>set xs. G y s))"
  shows "spec (\<lambda>s. F s \<and> (\<forall>y\<in>set xs. G y s)) (for_each f xs) (\<lambda>_. F)"
  by (rule spec_post[OF spec_for_each[OF assms(3)]]) auto

lemma list_sat_mono: "list_sat l P s \<Longrightarrow> (\<And>r. P r \<Longrightarrow> Q r) \<Longrightarrow> list_sat l Q s"
  by (auto simp: list_sat_def)

lemma spec_sweep_delete: "spec store_inv (sweep_delete sw now) (\<lambda>_. store_inv)"
proof -
  have del: "spec (\<lambda>s. store_inv s \<and> (\<forall>lm\<in>set lms. purged_list (lm_ID lm) s)) (for_each (\<lambda>lm. DeleteList (lm_ID lm)) lms)
      (\<lambda>_. store_inv)" for lms :: "ListMeta list"
    unfolding DeleteList_def
    by (rule spec_for_each_lists[OF stable_store_inv stable_purged_list], rule spec_pg_exec)
       (auto intro!: stable_conj stable_ball stable_store_inv stable_purged_list permitted_purged)
  show ?thesis
    unfolding sweep_delete_def PurgedListsPastDBRetention_def
    by (intro spec_if spec_ret, assumption)
       (rule spec_bind[OF spec_queryLists[where F = "\<lambda>_. True", THEN spec_pre]],
         auto intro!: spec_case_sum spec_ret del[THEN spec_pre] intro: list_sat_mono)
qed

lemma spec_purge_one:
  assumes "lm \<in> set lms"
  shows "spec (\<lambda>s. store_inv s \<and> (\<forall>lm\<in>set lms. archived_list (lm_ID lm) s))
      (do { r \<leftarrow> Purge sh (lm_ID lm); (case r of Some e \<Rightarrow> ret (Some e) | None \<Rightarrow> MarkPurged (lm_ID lm)) })
      (\<lambda>_ s. store_inv s \<and> (\<forall>lm\<in>set lms. archived_list (lm_ID lm) s))"
  unfolding MarkPurged_def
  by (rule spec_bind[OF spec_Purge], (use assms in \<open>auto intro!: stable_conj stable_ball stable_store_inv
        stable_archived_list dest: permitted_archived\<close>)[2], rule spec_case_option, rule spec_pg_exec)
     (use assms in \<open>auto intro!: stable_conj stable_ball stable_store_inv stable_archived_list spec_ret
        dest: permitted_archived\<close>)

lemma spec_sweep_purge: "spec store_inv (sweep_purge sw now) (\<lambda>_. store_inv)"
proof -
  have loop: "spec (\<lambda>s. store_inv s \<and> (\<forall>lm\<in>set lms. archived_list (lm_ID lm) s)) (for_each (\<lambda>lm. do {
        r \<leftarrow> Purge (sw_shard sw) (lm_ID lm);
        (case r of Some e \<Rightarrow> ret (Some e) | None \<Rightarrow> MarkPurged (lm_ID lm)) }) lms) (\<lambda>_. store_inv)" for lms
    by (rule spec_for_each_lists[OF stable_store_inv stable_archived_list]) (rule spec_purge_one)
  show ?thesis
    unfolding sweep_purge_def ArchivedListsPastRetention_def
    by (rule spec_bind[OF spec_queryLists[where F = "\<lambda>_. True", THEN spec_pre]], simp, simp, rule spec_case_sum)
       (auto intro!: spec_ret spec_bind[OF loop[THEN spec_pre]] spec_case_option spec_sweep_delete
         intro: list_sat_mono)
qed

lemma spec_Sweep:
  assumes "0 \<le> sw_Grace sw"
  shows "spec store_inv (Sweep sw) (\<lambda>_. store_inv)"
proof -
  let ?c = "\<lambda>now. pgtz (now - sw_Grace sw)"
  have arch: "spec (\<lambda>s. (store_inv s \<and> now \<le> clock s) \<and> (\<forall>lm\<in>set lms. expired_list (lm_ID lm) (?c now) s))
      (for_each (\<lambda>lm. Archive (lm_ID lm)) lms) (\<lambda>_ s. store_inv s \<and> now \<le> clock s)"
    for now and lms :: "ListMeta list"
    unfolding Archive_def
  proof (rule spec_for_each_lists[OF _ stable_expired_list], intro stable_conj stable_store_inv stable_clock,
      rule spec_pg_exec)
    fix lm s assume "lm \<in> set lms"
      and s: "(store_inv s \<and> now \<le> clock s) \<and> (\<forall>lm\<in>set lms. expired_list (lm_ID lm) (?c now) s)"
    moreover have "?c now \<le> pgtz (clock s)" using s assms by (intro pgtz_mono) linarith
    ultimately show "permitted (PgArchive (lm_ID lm)) s" using permitted_expired by blast
  qed (intro stable_conj stable_ball stable_store_inv stable_clock stable_expired_list)
  show ?thesis
    unfolding Sweep_def FrozenListsPastGrace_def
    by (rule spec_bind[where Q = "\<lambda>now s. store_inv s \<and> now \<le> clock s"],
        rule spec_time_now[OF stable_store_inv], simp,
        rule spec_bind[OF spec_queryLists[OF stable_clock]], rule spec_case_sum)
       (auto intro!: spec_ret spec_bind[OF arch[THEN spec_pre]] spec_case_option
          spec_sweep_purge[THEN spec_pre] intro: list_sat_mono simp: exp_le_Some)
qed

section \<open>A sweep does all its work\<close>

definition past :: "time \<Rightarrow> time option \<Rightarrow> bool" where
  "past c t \<longleftrightarrow> (case t of None \<Rightarrow> True | Some x \<Rightarrow> x \<le> pgtz c)"

definition due_archive :: "time \<Rightarrow> list_row \<Rightarrow> bool" where
  "due_archive c r \<longleftrightarrow> lr_state r = FROZEN \<and> past c (lr_max_exp r)"

definition due_purge :: "time \<Rightarrow> list_row \<Rightarrow> bool" where
  "due_purge c r \<longleftrightarrow> lr_state r = ARCHIVED \<and> \<not> lr_purged r
     \<and> (case lr_archived_at r of None \<Rightarrow> False | Some t \<Rightarrow> t \<le> pgtz c)"

text \<open>The rows with \<open>P\<close> are all among the lists still to be handled.\<close>

definition todo :: "(list_row \<Rightarrow> bool) \<Rightarrow> ListMeta list \<Rightarrow> stores \<Rightarrow> bool" where
  "todo P lms s \<longleftrightarrow> (\<forall>r\<in>set (lists (pg s)). P r \<longrightarrow> lr_id r \<in> lm_ID ` set lms)"

lemma todo_archive:
  "todo (due_archive c) (lm # lms) s \<Longrightarrow> todo (due_archive c) lms (exec (PgArchive (lm_ID lm)) s)"
  unfolding exec.simps sql_archive_def todo_def on_pg_def sql_update_lists_def due_archive_def by auto

lemma todo_mark_purged:
  "todo (due_purge c) (lm # lms) s \<Longrightarrow> todo (due_purge c) lms (exec (PgMarkPurged (lm_ID lm)) s)"
  "todo (due_archive c') [] s \<Longrightarrow> todo (due_archive c') [] (exec (PgMarkPurged l) s)"
  unfolding exec.simps sql_mark_purged_def todo_def on_pg_def sql_update_lists_def due_archive_def due_purge_def
  by auto

lemma todo_delete: "todo P [] s \<Longrightarrow> todo P [] (exec (PgDeleteList l) s)"
  by (simp add: todo_def on_pg_def sql_delete_list_def)

lemma todo_purge: "todo P lms (exec (KvPurge sh l) s) = todo P lms s"
  by (simp add: todo_def on_kv_def)

lemma quiet_queryLists:
  "quiet F (queryLists P) (\<lambda>r s. F s \<and> (\<forall>lms. r = Inr lms \<longrightarrow> todo P lms s))"
  unfolding queryLists_def pg_query_def
  by (rule quiet_remote) (auto simp: todo_def sql_select_lists_def scanListMeta_def image_image)

text \<open>The Redis of every other shard is out of reach of the sweeper.\<close>

definition other_redis :: "Sweeper \<Rightarrow> (string \<Rightarrow> keyspace) \<Rightarrow> stores \<Rightarrow> bool" where
  "other_redis sw K s \<longleftrightarrow> (\<forall>sh. sh \<noteq> sw_shard sw \<longrightarrow> kv s sh = K sh)"

lemma other_redis_exec:
  "other_redis sw K (exec (PgArchive l) s) = other_redis sw K s"
  "other_redis sw K (exec (PgMarkPurged l) s) = other_redis sw K s"
  "other_redis sw K (exec (PgDeleteList l) s) = other_redis sw K s"
  "other_redis sw K (exec (KvPurge (sw_shard sw) l) s) = other_redis sw K s"
  by (simp_all add: other_redis_def on_pg_def on_kv_def)

lemma quiet_sweep_delete:
  "quiet (\<lambda>s. todo (due_archive c) [] s \<and> todo (due_purge c') [] s \<and> other_redis sw K s) (sweep_delete sw now)
     (\<lambda>r s. r = None \<longrightarrow> todo (due_archive c) [] s \<and> todo (due_purge c') [] s \<and> other_redis sw K s)"
  (is "quiet ?P _ _")
proof -
  have loop: "quiet ?P (for_each (\<lambda>lm. DeleteList (lm_ID lm)) lms) (\<lambda>r s. r = None \<longrightarrow> ?P s)" for lms :: "ListMeta list"
    unfolding DeleteList_def
    by (rule quiet_for_each[where I = "\<lambda>_. ?P"], rule quiet_pg_exec)
       (simp add: todo_delete other_redis_exec del: exec.simps)
  show ?thesis
    unfolding sweep_delete_def PurgedListsPastDBRetention_def
    by (rule quiet_if, simp add: quiet_ret)
       (rule quiet_bind[OF quiet_queryLists], rule quiet_case_sum, auto intro!: quiet_ret loop[THEN quiet_pre])
qed

lemma quiet_purge_one:
  "quiet (\<lambda>s. todo (due_archive c) [] s \<and> todo (due_purge c') (lm # lms) s \<and> other_redis sw K s)
     (do { r \<leftarrow> Purge (sw_shard sw) (lm_ID lm); (case r of Some e \<Rightarrow> ret (Some e) | None \<Rightarrow> MarkPurged (lm_ID lm)) })
     (\<lambda>r s. r = None \<longrightarrow> todo (due_archive c) [] s \<and> todo (due_purge c') lms s \<and> other_redis sw K s)"
  (is "quiet ?P _ _")
proof -
  have pur: "quiet ?P (Purge (sw_shard sw) (lm_ID lm)) (\<lambda>r. ?P)"
    unfolding Purge_def
    by (rule quiet_bind[where Q = "\<lambda>_. ?P"], rule quiet_call_act)
       (auto intro!: quiet_ret simp: todo_purge other_redis_exec simp del: exec.simps)
  show ?thesis
    unfolding MarkPurged_def
    by (rule quiet_bind[OF pur], rule quiet_case_option, rule quiet_pg_exec)
       (auto intro!: quiet_ret todo_mark_purged simp: other_redis_exec simp del: exec.simps)
qed

lemma due_queries:
  "FrozenListsPastGrace c = queryLists (due_archive c)"
  "ArchivedListsPastRetention c = queryLists (due_purge c)"
  unfolding FrozenListsPastGrace_def ArchivedListsPastRetention_def
  by (rule arg_cong[where f = queryLists]; simp add: fun_eq_iff due_archive_def due_purge_def past_def)+

lemma quiet_sweep_purge:
  "quiet (\<lambda>s. todo (due_archive c) [] s \<and> other_redis sw K s) (sweep_purge sw now)
     (\<lambda>r s. r = None \<longrightarrow> todo (due_archive c) [] s \<and> todo (due_purge (now - sw_Retention sw)) [] s
        \<and> other_redis sw K s)"
proof -
  let ?I = "\<lambda>lms s. todo (due_archive c) [] s \<and> todo (due_purge (now - sw_Retention sw)) lms s \<and> other_redis sw K s"
  have loop: "quiet (?I lms) (for_each (\<lambda>lm. do { r \<leftarrow> Purge (sw_shard sw) (lm_ID lm);
        (case r of Some e \<Rightarrow> ret (Some e) | None \<Rightarrow> MarkPurged (lm_ID lm)) }) lms)
      (\<lambda>r s. r = None \<longrightarrow> ?I [] s)" for lms
    by (rule quiet_for_each) (rule quiet_purge_one)
  show ?thesis
    unfolding sweep_purge_def due_queries
    by (rule quiet_bind[OF quiet_queryLists], rule quiet_case_sum)
       (auto intro!: quiet_ret quiet_bind[OF loop[THEN quiet_pre]] quiet_case_option
          quiet_sweep_delete[THEN quiet_pre])
qed

lemma quiet_Sweep:
  "quiet (\<lambda>s. clock s = now \<and> other_redis sw K s) (Sweep sw)
     (\<lambda>r s. r = None \<longrightarrow> todo (due_archive (now - sw_Grace sw)) [] s
        \<and> todo (due_purge (now - sw_Retention sw)) [] s \<and> other_redis sw K s)"
proof -
  let ?I = "\<lambda>lms s. todo (due_archive (now - sw_Grace sw)) lms s \<and> other_redis sw K s"
  have loop: "quiet (?I lms) (for_each (\<lambda>lm. Archive (lm_ID lm)) lms) (\<lambda>r s. r = None \<longrightarrow> ?I [] s)" for lms
    unfolding Archive_def
    by (rule quiet_for_each, rule quiet_pg_exec) (simp add: todo_archive other_redis_exec del: exec.simps)
  show ?thesis
    unfolding Sweep_def due_queries
    by (rule quiet_bind[where Q = "\<lambda>t s. t = now \<and> other_redis sw K s"], rule quiet_time_now, simp,
        rule quiet_pure, rule quiet_bind[OF quiet_queryLists], rule quiet_case_sum)
       (auto intro!: quiet_ret quiet_bind[OF loop[THEN quiet_pre]] quiet_case_option
          quiet_sweep_purge[THEN quiet_pre])
qed

section \<open>Properties\<close>

text \<open>
  Garbage collection is safe under concurrency: with a non-negative grace period, whatever
  other processes do between its statements and however its calls fail, a sweep performs only
  actions of the lifecycle: it archives only lists whose credentials have all expired, purges
  and marks only archived lists, deletes only purged ones; and the invariant of the stores
  survives.
\<close>

theorem sweep_keeps_lifecycle:
  "0 \<le> sw_Grace sw \<and> store_inv (st w)
   \<longrightarrow> leads (st w) (st (after (Sweep sw) w)) \<and> store_inv (st (after (Sweep sw) w))"
  using spec_Sweep[of sw] by (auto simp: spec_def)

text \<open>
  C22. Garbage collection is complete: a sweep that reports success with nothing else running leaves
  no frozen list past its grace period and no archived, unpurged list past its retention.
\<close>

theorem sweep_complete:
  "sched w = [] \<and> result (Sweep sw) w = None \<and> r \<in> set (lists (pg (st (after (Sweep sw) w))))
   \<longrightarrow> \<not> (lr_state r = FROZEN \<and> past (clock (st w) - sw_Grace sw) (lr_max_exp r))
     \<and> \<not> due_purge (clock (st w) - sw_Retention sw) r"
proof (intro impI, elim conjE)
  assume w: "sched w = []" "result (Sweep sw) w = None" "r \<in> set (lists (pg (st (after (Sweep sw) w))))"
  have "todo (due_archive (clock (st w) - sw_Grace sw)) [] (st (after (Sweep sw) w))
     \<and> todo (due_purge (clock (st w) - sw_Retention sw)) [] (st (after (Sweep sw) w))"
    using quietD[OF quiet_Sweep[of "clock (st w)" sw "kv (st w)"], of w] w by (simp add: other_redis_def)
  then show "\<not> (lr_state r = FROZEN \<and> past (clock (st w) - sw_Grace sw) (lr_max_exp r))
     \<and> \<not> due_purge (clock (st w) - sw_Retention sw) r"
    using w(3) by (auto simp: todo_def due_archive_def)
qed

text \<open>
  The purge of another shard's list misses its bitmap: the sweep selects the archived lists of
  every shard, but deletes the keys in its own shard's Redis only. A list of another shard whose
  retention has elapsed ends up marked as purged, so no later sweep of any shard considers it,
  while its bitmap stays in the Redis of its own shard.
\<close>

theorem purge_leaks_other_shards_bitmap:
  assumes "sched w = []" "good (st w)" "\<not> collided (st (after (Sweep sw) w))" "0 \<le> sw_Grace sw"
    "r \<in> set (lists (pg (st w)))" "due_purge (clock (st w) - sw_Retention sw) r"
    "lr_shard_id r \<noteq> sw_shard sw" "result (Sweep sw) w = None"
  shows "(\<forall>r'\<in>set (lists (pg (st (after (Sweep sw) w)))). lr_id r' = lr_id r \<longrightarrow> lr_purged r')
       \<and> kv (st (after (Sweep sw) w)) (lr_shard_id r) = kv (st w) (lr_shard_id r)"
proof -
  let ?t = "st (after (Sweep sw) w)" and ?c = "clock (st w) - sw_Retention sw"
  obtain t where t: "lr_state r = ARCHIVED" "lr_archived_at r = Some t" "t \<le> pgtz ?c"
    using assms(6) by (auto simp: due_purge_def split: option.splits)
  let ?P = "\<lambda>r. lr_state r = ARCHIVED \<and> lr_archived_at r = Some t"
  have "list_sat (lr_id r) ?P (st w)"
    using assms(2,5) t same_list_row[of "pg (st w)" r] by (auto simp: list_sat_def good_def)
  moreover have "stable (list_sat (lr_id r) ?P)"
    by (rule stable_list_sat) (auto simp: row_le_archived, auto simp: row_le_def)
  moreover have "leads (st w) ?t"
    using spec_Sweep[OF assms(4)] assms(2) by (auto simp: spec_def store_inv_def)
  ultimately have "list_sat (lr_id r) ?P ?t" by (blast dest: stableD)
  then have P: "\<forall>r'\<in>set (lists (pg ?t)). lr_id r' = lr_id r \<longrightarrow> ?P r'"
    using assms(3) by (simp add: list_sat_def)
  have q: "todo (due_purge ?c) [] ?t" "other_redis sw (kv (st w)) ?t"
    using quietD[OF quiet_Sweep[of "clock (st w)" sw "kv (st w)"], of w] assms(1,8) by (auto simp: other_redis_def)
  then show ?thesis
    using P t(3) assms(7) by (auto simp: todo_def due_purge_def other_redis_def)
qed

section \<open>A sweep of another shard\<close>

definition demo_sweeper :: Sweeper where
  "demo_sweeper = \<lparr>sw_shard = ''b'', sw_Grace = 0, sw_Retention = 0, sw_DBRetention = 0\<rparr>"

lemma good_demo_state: "good demo_state"
  using reachable_good[OF leads_demo] demo_state_pg by simp

lemma demo_sweep:
  "result (Sweep demo_sweeper) (quiet_world demo_state ()) = None
   \<and> \<not> collided (st (after (Sweep demo_sweeper) (quiet_world demo_state ())))
   \<and> lists (pg (st (after (Sweep demo_sweeper) (quiet_world demo_state ())))) =
      [(hd (lists (pg demo_state)))\<lparr>lr_purged := True, lr_purged_at := Some 6000\<rparr>]"
  by (simp add: Sweep_def sweep_purge_def sweep_delete_def time_now_def FrozenListsPastGrace_def
      ArchivedListsPastRetention_def queryLists_def pg_query_def remote_def interfere_def next_fate_def
      apply_store_def quiet_world_def demo_sweeper_def sql_select_lists_def demo_state_pg pgtz_def
      Purge_def MarkPurged_def pg_exec_def call_act_def on_kv_def on_pg_def sql_mark_purged_def
      sql_update_lists_def scanListMeta_def)

theorem sweep_keeps_lifecycle_witness:
  "leads demo_state (st (after (Sweep demo_sweeper) (quiet_world demo_state ())))"
  using sweep_keeps_lifecycle[of demo_sweeper "quiet_world demo_state ()"] good_demo_state
  by (simp add: demo_sweeper_def quiet_world_def store_inv_def)

theorem sweep_complete_witness:
  "\<exists>r\<in>set (lists (pg (st (after (Sweep demo_sweeper) (quiet_world demo_state ()))))). \<not> due_purge 6000 r"
  using sweep_complete[of "quiet_world demo_state ()" demo_sweeper
      "(hd (lists (pg demo_state)))\<lparr>lr_purged := True, lr_purged_at := Some 6000\<rparr>"] demo_sweep demo_state_pg
  by (simp add: quiet_world_def demo_sweeper_def)

theorem purge_leaks_other_shards_bitmap_witness:
  "\<exists>w :: unit world. \<exists>r\<in>set (lists (pg (st w))). lr_shard_id r = ''a'' \<and> \<not> lr_purged r
     \<and> (\<forall>r'\<in>set (lists (pg (st (after (Sweep demo_sweeper) w)))). lr_id r' = lr_id r \<longrightarrow> lr_purged r')
     \<and> kv (st (after (Sweep demo_sweeper) w)) ''a'' = kv (st w) ''a''"
  using purge_leaks_other_shards_bitmap[of "quiet_world demo_state ()" demo_sweeper "hd (lists (pg demo_state))"]
    demo_sweep demo_state_pg good_demo_state
  by (intro exI[of _ "quiet_world demo_state ()"] bexI[of _ "hd (lists (pg demo_state))"])
     (simp_all add: quiet_world_def demo_sweeper_def due_purge_def pgtz_def)

end
