(* ===== verification/Publisher.thy ===== *)
theory Publisher
  imports GC Tokens
begin

text \<open>
  The publisher, \<open>src/internal/publisher/publisher.go\<close> and \<open>debounce.go\<close>: the cache of signed tokens and
  the debouncer that schedules rebuilds. The process state holds the cache, the debouncer and
  the callbacks that are due: a goroutine started by \<open>go fire()\<close> or a timer of \<open>time.AfterFunc\<close>. The
  cache and the debouncer are guarded by mutexes; each operation on them is atomic.
\<close>

section \<open>The debouncer\<close>

record leadingDebouncer =
  lastFired :: "string \<Rightarrow> time option"
  pending :: "string \<Rightarrow> bool"

definition newLeadingDebouncer :: leadingDebouncer where
  "newLeadingDebouncer = \<lparr>lastFired = (\<lambda>_. None), pending = (\<lambda>_. False)\<rparr>"

datatype outcome = Covered | FireNow | FireAfter duration

text \<open>
  \<open>Trigger\<close> with the two readings of the clock it makes: what it does to the state and what it
  schedules. \<open>timer_fired\<close> is the locked part of the callback it hands to \<open>afterFunc\<close>.
\<close>

definition Trigger :: "string \<Rightarrow> duration \<Rightarrow> time \<Rightarrow> time \<Rightarrow> leadingDebouncer \<Rightarrow> outcome \<times> leadingDebouncer" where
  "Trigger key floor now1 now2 d =
     (if pending d key then (Covered, d)
      else let elapsed = time_Sub now1 (case lastFired d key of None \<Rightarrow> zero_time | Some t \<Rightarrow> t)
           in if elapsed \<ge> floor then (FireNow, d\<lparr>lastFired := (lastFired d)(key := Some now2)\<rparr>)
              else (FireAfter (floor - elapsed), d\<lparr>pending := (pending d)(key := True)\<rparr>))"

definition timer_fired :: "string \<Rightarrow> time \<Rightarrow> leadingDebouncer \<Rightarrow> leadingDebouncer" where
  "timer_fired key now d =
     d\<lparr>pending := (pending d)(key := False), lastFired := (lastFired d)(key := Some now)\<rparr>"

section \<open>Definitions\<close>

record Published =
  pd_Token :: string
  pd_CWT :: bytes
  pd_Version :: int
  pd_Bits :: int
  pd_TTL :: int

record Publisher =
  pb_shards :: "string list"
  pb_key :: signer
  pb_keyID :: string
  pb_baseURL :: string
  pb_jwk :: jwk
  pb_certChain :: "string list"

datatype task = FireTask string int | TimerTask time string int

record pub_state =
  cache :: "string \<Rightarrow> Published option"
  debounce :: leadingDebouncer
  tasks :: "task list"

definition Publisher_New ::
  "token_lib \<Rightarrow> string list \<Rightarrow> signer \<Rightarrow> string \<Rightarrow> string \<Rightarrow> string list \<Rightarrow> token_error + Publisher \<times> pub_state" where
  "Publisher_New lib shards key keyID baseURL certChain =
     (case Public lib key of
        OtherKey \<Rightarrow> Inl NotECDSA
      | EcdsaKey _ _ \<Rightarrow>
          and_then (JWKFromPublicKey lib (Public lib key)) (\<lambda>m.
            Inr (\<lparr>pb_shards = shards, pb_key = key, pb_keyID = keyID, pb_baseURL = baseURL, pb_jwk = m,
                  pb_certChain = certChain\<rparr>,
                 \<lparr>cache = (\<lambda>_. None), debounce = newLeadingDebouncer, tasks = []\<rparr>)))"

definition get_proc :: "('p world, 'p) state" where
  "get_proc = State (\<lambda>w. (proc w, w))"

definition modify_proc :: "('p \<Rightarrow> 'p) \<Rightarrow> ('p world, unit) state" where
  "modify_proc f = State (\<lambda>w. ((), w\<lparr>proc := f (proc w)\<rparr>))"

definition Publisher_Get :: "string \<Rightarrow> pub_state \<Rightarrow> Published option" where
  "Publisher_Get listID p = cache p listID"

definition token_params :: "Publisher \<Rightarrow> ListMeta \<Rightarrow> int \<Rightarrow> Bitmap \<Rightarrow> time \<Rightarrow> TokenParams" where
  "token_params p lm ttl bm now =
     \<lparr>tp_ListURL = pb_baseURL p @ ''/lists/'' @ lm_ID lm, tp_IssuedAt = now, tp_TTL = ttl, tp_Bitmap = bm,
      tp_KeyID = pb_keyID p, tp_JWK = Some (pb_jwk p), tp_X5C = pb_certChain p\<rparr>"

definition PublishIfStale ::
  "token_lib \<Rightarrow> Publisher \<Rightarrow> ListMeta \<Rightarrow> int \<Rightarrow> (pub_state world, err + Published) state" where
  "PublishIfStale lib p lm ttlSeconds =
     (if lm_ShardID lm \<notin> set (pb_shards p) then ret (Inl (ErrNoBitmapStore (lm_ShardID lm)))
      else do {
        rv \<leftarrow> Version (lm_ShardID lm) (lm_ID lm);
        (case rv of
           Inl e \<Rightarrow> ret (Inl e)
         | Inr liveVersion \<Rightarrow> do {
             ps \<leftarrow> get_proc;
             let hit = (case cache ps (lm_ID lm) of
                          None \<Rightarrow> None
                        | Some c \<Rightarrow> if pd_Version c = liveVersion \<and> pd_TTL c = ttlSeconds then Some c else None);
             (case hit of
                Some cached \<Rightarrow> ret (Inr cached)
              | None \<Rightarrow> do {
                  rs \<leftarrow> Snapshot (lm_ShardID lm) (lm_ID lm) (int64_of_u64 (byte_len (lm_Size lm) (lm_Bits lm)));
                  (case rs of
                     Inl e \<Rightarrow> ret (Inl e)
                   | Inr raw \<Rightarrow>
                       (case WrapBitmap raw (lm_Size lm) (lm_Bits lm) of
                          Inl e \<Rightarrow> ret (Inl (ErrBitmap e))
                        | Inr bm \<Rightarrow> do {
                            now \<leftarrow> time_now;
                            (case BuildToken lib (pb_key p) (token_params p lm ttlSeconds bm now) of
                               Inl _ \<Rightarrow> ret (Inl ErrToken)
                             | Inr token \<Rightarrow>
                                 (case BuildCWTToken lib (pb_key p) (token_params p lm ttlSeconds bm now) of
                                    Inl _ \<Rightarrow> ret (Inl ErrToken)
                                  | Inr cwt \<Rightarrow> do {
                                      let pub = \<lparr>pd_Token = token, pd_CWT = cwt, pd_Version = liveVersion,
                                                 pd_Bits = lm_Bits lm, pd_TTL = ttlSeconds\<rparr>;
                                      modify_proc (\<lambda>ps. ps\<lparr>cache := (cache ps)(lm_ID lm := Some pub)\<rparr>);
                                      ret (Inr pub)
                                    }))
                          }))
                })
           })
      })"

text \<open>The callback of \<open>MarkDirty\<close>, and \<open>MarkDirty\<close> itself: only scheduling.\<close>

definition dirty_publish :: "token_lib \<Rightarrow> Publisher \<Rightarrow> string \<Rightarrow> int \<Rightarrow> (pub_state world, unit) state" where
  "dirty_publish lib p listID ttlSeconds = do {
     r \<leftarrow> GetList listID;
     (case r of
        Inr (Some lm) \<Rightarrow> do { PublishIfStale lib p lm ttlSeconds; ret () }
      | _ \<Rightarrow> ret ())
   }"

definition MarkDirty :: "string \<Rightarrow> int \<Rightarrow> (pub_state world, unit) state" where
  "MarkDirty listID ttlSeconds = do {
     now1 \<leftarrow> time_now;
     now2 \<leftarrow> time_now;
     modify_proc (\<lambda>ps.
       let (out, d) = Trigger listID (wrap64 (ttlSeconds * Second)) now1 now2 (debounce ps)
       in ps\<lparr>debounce := d,
             tasks := tasks ps @ (case out of
                Covered \<Rightarrow> []
              | FireNow \<Rightarrow> [FireTask listID ttlSeconds]
              | FireAfter delay \<Rightarrow> [TimerTask (now2 + delay) listID ttlSeconds])\<rparr>)
   }"

text \<open>A task that is due runs; a timer first clears its entry in the debouncer.\<close>

definition run_task :: "token_lib \<Rightarrow> Publisher \<Rightarrow> task \<Rightarrow> (pub_state world, unit) state" where
  "run_task lib p t =
     (case t of
        FireTask listID ttl \<Rightarrow> dirty_publish lib p listID ttl
      | TimerTask due listID ttl \<Rightarrow> do {
          now \<leftarrow> time_now;
          modify_proc (\<lambda>ps. ps\<lparr>debounce := timer_fired listID now (debounce ps)\<rparr>);
          dirty_publish lib p listID ttl
        })"

text \<open>One tick of \<open>Run\<close>: every list of \<open>listIDs\<close> is published if stale, errors are logged.\<close>

definition publish_tick ::
  "token_lib \<Rightarrow> Publisher \<Rightarrow> (pub_state world, err + ListMeta list \<times> int) state \<Rightarrow> (pub_state world, unit) state" where
  "publish_tick lib p listIDs = do {
     r \<leftarrow> listIDs;
     (case r of
        Inl _ \<Rightarrow> ret ()
      | Inr (lms, ttl) \<Rightarrow> do {
          for_each (\<lambda>lm. do { PublishIfStale lib p lm ttl; ret (None :: unit option) }) lms;
          ret ()
        })
   }"

section \<open>Every operation performs permitted actions\<close>

lemma moves_get_proc [moves_rules]: "moves world_leads get_proc"
  by (rule movesI) (simp add: get_proc_def world_leads_def leads_refl)

lemma moves_modify_proc [moves_rules]: "moves world_leads (modify_proc f)"
  by (rule movesI) (simp add: modify_proc_def world_leads_def leads_refl)

lemma moves_PublishIfStale [moves_rules]: "moves world_leads (PublishIfStale lib p lm ttl)"
  unfolding PublishIfStale_def Let_def by (intro moves_rules)

lemma moves_dirty_publish [moves_rules]: "moves world_leads (dirty_publish lib p l ttl)"
  unfolding dirty_publish_def by (intro moves_rules)

lemma moves_MarkDirty [moves_rules]: "moves world_leads (MarkDirty l ttl)"
  unfolding MarkDirty_def by (intro moves_rules)

lemma moves_run_task [moves_rules]: "moves world_leads (run_task lib p t)"
  unfolding run_task_def by (cases t) (auto intro!: moves_rules)

lemma moves_publish_tick: "moves world_leads m \<Longrightarrow> moves world_leads (publish_tick lib p m)"
  unfolding publish_tick_def by (intro moves_rules)

section \<open>The debouncer over time\<close>

text \<open>
  One key of a debouncer with floor \<open>F\<close>: time passes, the key is triggered, its timer fires at or
  after it is due, other keys are triggered. \<open>dfires\<close> are the instants at which a publish was started,
  latest first.
\<close>

record dstate =
  dd :: leadingDebouncer
  dnow :: time
  dtimers :: "time list"
  dfires :: "time list"

inductive dreach :: "string \<Rightarrow> duration \<Rightarrow> dstate \<Rightarrow> bool" for key F where
  dinit: "0 \<le> t \<Longrightarrow> dreach key F \<lparr>dd = newLeadingDebouncer, dnow = t, dtimers = [], dfires = []\<rparr>"
| dpass: "dreach key F s \<Longrightarrow> dnow s \<le> t \<Longrightarrow> dreach key F (s\<lparr>dnow := t\<rparr>)"
| dtrigger: "dreach key F s \<Longrightarrow> dnow s \<le> n1 \<Longrightarrow> n1 \<le> n2 \<Longrightarrow> Trigger key F n1 n2 (dd s) = (out, d)
    \<Longrightarrow> dreach key F (s\<lparr>dd := d, dnow := n2,
          dtimers := dtimers s @ (case out of FireAfter delay \<Rightarrow> [n2 + delay] | _ \<Rightarrow> []),
          dfires := (case out of FireNow \<Rightarrow> n2 # dfires s | _ \<Rightarrow> dfires s)\<rparr>)"
| dother: "dreach key F s \<Longrightarrow> k \<noteq> key \<Longrightarrow> Trigger k G n1 n2 (dd s) = (out, d) \<Longrightarrow> dreach key F (s\<lparr>dd := d\<rparr>)"
| dother_timer: "dreach key F s \<Longrightarrow> k \<noteq> key \<Longrightarrow> dreach key F (s\<lparr>dd := timer_fired k n (dd s)\<rparr>)"
| dtimer: "dreach key F s \<Longrightarrow> due \<in> set (dtimers s) \<Longrightarrow> due \<le> n \<Longrightarrow> dnow s \<le> n
    \<Longrightarrow> dreach key F (s\<lparr>dd := timer_fired key n (dd s), dnow := n, dtimers := remove1 due (dtimers s),
          dfires := n # dfires s\<rparr>)"

definition dinv :: "string \<Rightarrow> duration \<Rightarrow> dstate \<Rightarrow> bool" where
  "dinv key F s \<longleftrightarrow> 0 \<le> dnow s
     \<and> lastFired (dd s) key = (case dfires s of [] \<Rightarrow> None | t # _ \<Rightarrow> Some t)
     \<and> (\<forall>t. lastFired (dd s) key = Some t \<longrightarrow> t \<le> dnow s)
     \<and> successively (\<lambda>a b. b + F \<le> a) (dfires s)
     \<and> (if pending (dd s) key
        then (\<exists>due t. dtimers s = [due] \<and> lastFired (dd s) key = Some t \<and> t + F \<le> due \<and> due \<le> dnow s + F)
        else dtimers s = [])"

lemma Trigger_cases:
  assumes "Trigger key F n1 n2 d = (out, d')" "F < 2 ^ 63" "0 \<le> n1" "\<forall>t. lastFired d key = Some t \<longrightarrow> t \<le> n1"
  obtains "pending d key" "out = Covered" "d' = d"
  | "\<not> pending d key" "out = FireNow" "d' = d\<lparr>lastFired := (lastFired d)(key := Some n2)\<rparr>"
      "\<forall>t. lastFired d key = Some t \<longrightarrow> t + F \<le> n1"
  | t where "\<not> pending d key" "lastFired d key = Some t" "out = FireAfter (F - (n1 - t))" "t \<le> n1" "n1 < t + F"
      "d' = d\<lparr>pending := (pending d)(key := True)\<rparr>"
proof (cases "pending d key")
  case True
  then show thesis using that(1) assms(1) by (simp add: Trigger_def)
next
  case False
  show thesis
  proof (cases "lastFired d key")
    case None
    have "F \<le> time_Sub n1 zero_time" using assms(2,3) by (simp add: time_Sub_def zero_time_def Second_def)
    then show thesis using that(2) None False assms(1) by (simp add: Trigger_def)
  next
    case (Some t)
    have t: "t \<le> n1" using assms(4) Some by simp
    show thesis
    proof (cases "F \<le> time_Sub n1 t")
      case True
      then have "t + F \<le> n1" using assms(2) t by (auto simp: time_Sub_def min_def max_def split: if_splits)
      then show thesis using that(2) True False Some assms(1) by (simp add: Trigger_def)
    next
      case le: False
      then have "time_Sub n1 t = n1 - t" "n1 < t + F"
        using assms(2) t by (auto simp: time_Sub_def min_def max_def split: if_splits)
      then show thesis using that(3)[of t] le False Some t assms(1) by (simp add: Trigger_def)
    qed
  qed
qed

lemma dinv_trigger:
  assumes "dinv key F s" "F < 2 ^ 63" "dnow s \<le> n1" "n1 \<le> n2" "Trigger key F n1 n2 (dd s) = (out, d)"
  shows "dinv key F (s\<lparr>dd := d, dnow := n2,
          dtimers := dtimers s @ (case out of FireAfter delay \<Rightarrow> [n2 + delay] | _ \<Rightarrow> []),
          dfires := (case out of FireNow \<Rightarrow> n2 # dfires s | _ \<Rightarrow> dfires s)\<rparr>)"
proof -
  have n1: "0 \<le> n1" "\<forall>t. lastFired (dd s) key = Some t \<longrightarrow> t \<le> n1"
    using assms(1,3) by (auto simp: dinv_def intro: order_trans)
  show ?thesis
  proof (rule Trigger_cases[OF assms(5,2) n1])
    assume "pending (dd s) key" "out = Covered" "d = dd s"
    then show ?thesis using assms(1,3,4) unfolding dinv_def by (force intro: order_trans)
  next
    assume "\<not> pending (dd s) key" "out = FireNow" "d = (dd s)\<lparr>lastFired := (lastFired (dd s))(key := Some n2)\<rparr>"
      "\<forall>t. lastFired (dd s) key = Some t \<longrightarrow> t + F \<le> n1"
    then show ?thesis using assms(1,3,4) unfolding dinv_def
      by (cases "dfires s") auto
  next
    fix t assume "\<not> pending (dd s) key" "lastFired (dd s) key = Some t" "out = FireAfter (F - (n1 - t))"
      "t \<le> n1" "n1 < t + F" "d = (dd s)\<lparr>pending := (pending (dd s))(key := True)\<rparr>"
    then show ?thesis using assms(1,3,4) unfolding dinv_def by auto
  qed
qed

lemma dinv_other:
  assumes "lastFired d key = lastFired (dd s) key" "pending d key = pending (dd s) key"
  shows "dinv key F (s\<lparr>dd := d\<rparr>) = dinv key F s"
  by (simp add: dinv_def assms)

lemma dreach_dinv: "dreach key F s \<Longrightarrow> 0 \<le> F \<Longrightarrow> F < 2 ^ 63 \<Longrightarrow> dinv key F s"
proof (induction rule: dreach.induct)
  case (dinit t)
  then show ?case by (simp add: dinv_def newLeadingDebouncer_def)
next
  case (dpass s t)
  then show ?case unfolding dinv_def by (force intro: order_trans)
next
  case (dtrigger s n1 n2 out d)
  then show ?case using dinv_trigger by blast
next
  case (dother s k G n1 n2 out d)
  then have "lastFired d key = lastFired (dd s) key" "pending d key = pending (dd s) key"
    by (auto simp: Trigger_def Let_def split: if_splits)
  then show ?case using dinv_other dother by blast
next
  case (dother_timer s k n)
  then show ?case using dinv_other[of "timer_fired k n (dd s)" key s F] by (simp add: timer_fired_def)
next
  case (dtimer s due n)
  then have "pending (dd s) key" by (auto simp: dinv_def split: if_splits)
  then show ?case using dtimer unfolding dinv_def
    by (cases "dfires s") (auto simp: timer_fired_def)
qed

section \<open>Properties\<close>

text \<open>
  C28. Debouncing: however triggers arrive, two publishes of the same list are started at least the
  floor apart, at most one timer is pending per list, and a trigger is never lost: as long as a
  trigger is unserved its timer is due within one floor of the present.
\<close>

theorem debounce_rate_and_delivery:
  assumes "dreach key F s" "0 \<le> F" "F < 2 ^ 63"
  shows "successively (\<lambda>later earlier. earlier + F \<le> later) (dfires s)
       \<and> length (dtimers s) \<le> 1
       \<and> (pending (dd s) key \<longrightarrow> (\<exists>due. dtimers s = [due] \<and> due \<le> dnow s + F))"
  using dreach_dinv[OF assms] by (auto simp: dinv_def split: if_splits)

theorem debounce_rate_and_delivery_witness:
  "\<exists>s. dreach ''l'' 10 s \<and> dfires s = [10, 0] \<and> successively (\<lambda>later earlier. earlier + 10 \<le> later) (dfires s)"
proof -
  let ?d0 = "newLeadingDebouncer" and ?l = "''l''"
  let ?s0 = "\<lparr>dd = ?d0, dnow = 0, dtimers = [], dfires = []\<rparr>"
  have t1: "Trigger ?l 10 0 0 ?d0 = (FireNow, ?d0\<lparr>lastFired := (lastFired ?d0)(?l := Some 0)\<rparr>)"
    by (simp add: Trigger_def newLeadingDebouncer_def time_Sub_def zero_time_def Second_def)
  define d1 where "d1 = ?d0\<lparr>lastFired := (lastFired ?d0)(?l := Some 0)\<rparr>"
  have t2: "Trigger ?l 10 4 4 d1 = (FireAfter 6, d1\<lparr>pending := (pending d1)(?l := True)\<rparr>)"
    by (simp add: Trigger_def newLeadingDebouncer_def d1_def time_Sub_def)
  define d2 where "d2 = d1\<lparr>pending := (pending d1)(?l := True)\<rparr>"
  have "dreach ?l 10 ?s0" by (rule dinit) simp
  then have "dreach ?l 10 \<lparr>dd = d1, dnow = 0, dtimers = [], dfires = [0]\<rparr>"
    using dtrigger[of ?l 10 ?s0 0 0 FireNow d1] t1 by (simp add: d1_def)
  then have "dreach ?l 10 \<lparr>dd = d2, dnow = 4, dtimers = [10], dfires = [0]\<rparr>"
    using dtrigger[of ?l 10 "\<lparr>dd = d1, dnow = 0, dtimers = [], dfires = [0]\<rparr>" 4 4 "FireAfter 6" d2] t2
    by (simp add: d2_def)
  then have r: "dreach ?l 10 \<lparr>dd = timer_fired ?l 10 d2, dnow = 10, dtimers = [], dfires = [10, 0]\<rparr>"
    using dtimer[of ?l 10 "\<lparr>dd = d2, dnow = 4, dtimers = [10], dfires = [0]\<rparr>" 10 10] by simp
  show ?thesis using debounce_rate_and_delivery[OF r] r by force
qed

text \<open>The version of a list as Redis holds it.\<close>

definition live_version :: "string \<Rightarrow> string \<Rightarrow> stores \<Rightarrow> int" where
  "live_version sh l s = (case ks_counters (kv s sh) (versionKey l) of None \<Rightarrow> 0 | Some v \<Rightarrow> v)"

lemma PublishIfStale_contents:
  assumes "run_state (PublishIfStale lib p lm ttl) w = (Inr pd, w')"
  shows "\<exists>s1. leads (st w) s1 \<and> leads s1 (st w') \<and> pd_Version pd = live_version (lm_ShardID lm) (lm_ID lm) s1
     \<and> pd_TTL pd = ttl
     \<and> (cache (proc w) (lm_ID lm) = Some pd \<and> proc w' = proc w
        \<or> (\<exists>s2 bm now. leads s1 s2 \<and> leads s2 (st w') \<and> clock s2 \<le> now \<and> now \<le> clock (st w')
            \<and> WrapBitmap (snapshot_of (ks_strings (kv s2 (lm_ShardID lm)) (bitmapKey (lm_ID lm)))
                 (nat (int64_of_u64 (byte_len (lm_Size lm) (lm_Bits lm))))) (lm_Size lm) (lm_Bits lm) = Inr bm
            \<and> BuildToken lib (pb_key p) (token_params p lm ttl bm now) = Inr (pd_Token pd)
            \<and> BuildCWTToken lib (pb_key p) (token_params p lm ttl bm now) = Inr (pd_CWT pd)
            \<and> pd_Bits pd = lm_Bits lm \<and> proc w' = (proc w)\<lparr>cache := (cache (proc w))(lm_ID lm := Some pd)\<rparr>))"
proof -
  have shard: "lm_ShardID lm \<in> set (pb_shards p)"
    using assms by (auto simp: PublishIfStale_def split: if_splits)
  obtain s1 w1 x where v: "run_state (Version (lm_ShardID lm) (lm_ID lm)) w = (x, w1)" "leads (st w) s1" "st w1 = s1"
      "proc w1 = proc w" "x = Inl ErrRedis \<or> x = Inr (live_version (lm_ShardID lm) (lm_ID lm) s1)"
    unfolding Version_def live_version_def by (rule run_read)
  from assms shard v have x: "x = Inr (live_version (lm_ShardID lm) (lm_ID lm) s1)"
    by (auto simp: PublishIfStale_def)
  show ?thesis
  proof (cases "\<exists>c. cache (proc w) (lm_ID lm) = Some c
      \<and> pd_Version c = live_version (lm_ShardID lm) (lm_ID lm) s1 \<and> pd_TTL c = ttl")
    case True
    then have "pd_Version pd = live_version (lm_ShardID lm) (lm_ID lm) s1 \<and> pd_TTL pd = ttl
        \<and> cache (proc w) (lm_ID lm) = Some pd \<and> w' = w1"
      using assms shard v x by (auto simp: PublishIfStale_def get_proc_def)
    then show ?thesis using v leads_refl by blast
  next
    case False
    then have miss: "(case cache (proc w) (lm_ID lm) of None \<Rightarrow> None
        | Some c \<Rightarrow> if pd_Version c = live_version (lm_ShardID lm) (lm_ID lm) s1 \<and> pd_TTL c = ttl
                  then Some c else None) = None"
      by (auto split: option.splits)
    let ?n = "int64_of_u64 (byte_len (lm_Size lm) (lm_Bits lm))"
    obtain s2 w2 y where s: "run_state (remote ErrRedis (\<lambda>s. (Inr (ks_strings (kv s (lm_ShardID lm)) (bitmapKey (lm_ID lm))), s))) w1
        = (y, w2)" "leads (st w1) s2" "st w2 = s2" "proc w2 = proc w1"
        "y = Inl ErrRedis \<or> y = Inr (ks_strings (kv s2 (lm_ShardID lm)) (bitmapKey (lm_ID lm)))"
      by (rule run_read[where f = "\<lambda>s. ks_strings (kv s (lm_ShardID lm)) (bitmapKey (lm_ID lm))"])
    obtain s3 w3 where n: "leads (st w2) s3" "proc w3 = proc w2" "run_state time_now w2 = (clock s3, w3)" "st w3 = s3"
      by (rule run_time_now)
    have y: "y = Inr (ks_strings (kv s2 (lm_ShardID lm)) (bitmapKey (lm_ID lm)))" "\<not> ?n < 0"
      using assms shard v x s miss by (auto simp: PublishIfStale_def get_proc_def Snapshot_def split: if_splits)
    then obtain bm where bm: "WrapBitmap (snapshot_of (ks_strings (kv s2 (lm_ShardID lm)) (bitmapKey (lm_ID lm)))
        (nat ?n)) (lm_Size lm) (lm_Bits lm) = Inr bm"
      using assms shard v x s miss by (auto simp: PublishIfStale_def get_proc_def Snapshot_def split: sum.splits)
    then have "BuildToken lib (pb_key p) (token_params p lm ttl bm (clock s3)) = Inr (pd_Token pd)
        \<and> BuildCWTToken lib (pb_key p) (token_params p lm ttl bm (clock s3)) = Inr (pd_CWT pd)
        \<and> pd_Version pd = live_version (lm_ShardID lm) (lm_ID lm) s1 \<and> pd_TTL pd = ttl
        \<and> st w' = s3 \<and> pd_Bits pd = lm_Bits lm \<and> proc w' = (proc w)\<lparr>cache := (cache (proc w))(lm_ID lm := Some pd)\<rparr>"
      using assms shard v x s miss y n
      by (auto simp: PublishIfStale_def get_proc_def Snapshot_def modify_proc_def Let_def split: sum.splits)
    moreover have "clock s2 \<le> clock s3" using stableD[OF stable_clock order_refl] s n by metis
    ultimately show ?thesis
      using v s n bm leads_refl leads_trans[of s2 s3 s1] by (intro exI[of _ s1]) (auto intro!: exI[of _ s2])
  qed
qed

text \<open>
  C10. What a published token contains, whatever runs concurrently: either the cached token, built for
  the live version and ttl; or a token built from the bytes of the bitmap at a moment not before
  the one at which its version number was read. A write counted by the version of a token is
  therefore in the token, since \<open>SetStatus\<close> writes the bitmap before it bumps the version.
\<close>

theorem published_token_contents:
  assumes "run_state (PublishIfStale lib p lm ttl) w = (Inr pd, w')"
  shows "\<exists>s1. leads (st w) s1 \<and> leads s1 (st w') \<and> pd_Version pd = live_version (lm_ShardID lm) (lm_ID lm) s1
     \<and> pd_TTL pd = ttl
     \<and> (cache (proc w) (lm_ID lm) = Some pd \<and> proc w' = proc w
        \<or> (\<exists>s2 bm now. leads s1 s2 \<and> leads s2 (st w') \<and> clock s2 \<le> now \<and> now \<le> clock (st w')
            \<and> WrapBitmap (snapshot_of (ks_strings (kv s2 (lm_ShardID lm)) (bitmapKey (lm_ID lm)))
                 (nat (int64_of_u64 (byte_len (lm_Size lm) (lm_Bits lm))))) (lm_Size lm) (lm_Bits lm) = Inr bm
            \<and> BuildToken lib (pb_key p) (token_params p lm ttl bm now) = Inr (pd_Token pd)
            \<and> BuildCWTToken lib (pb_key p) (token_params p lm ttl bm now) = Inr (pd_CWT pd)
            \<and> pd_Bits pd = lm_Bits lm \<and> proc w' = (proc w)\<lparr>cache := (cache (proc w))(lm_ID lm := Some pd)\<rparr>))"
  using assms by (rule PublishIfStale_contents)

definition demo_publisher :: Publisher where
  "demo_publisher = \<lparr>pb_shards = [''a''], pb_key = 0, pb_keyID = ''k1'', pb_baseURL = ''https://s'',
     pb_jwk = [(''kty'', ''EC'')], pb_certChain = []\<rparr>"

definition demo_lm :: ListMeta where
  "demo_lm = \<lparr>lm_ID = ''a.1'', lm_Bits = 2, lm_Size = 6, lm_Cursor = 2, lm_FPEKey = [7], lm_MaxExp = None,
     lm_State = ACTIVE, lm_CreatedAt = 0, lm_ArchivedAt = None, lm_ShardID = ''a'', lm_Purged = False,
     lm_PurgedAt = None\<rparr>"

definition demo_pub_world :: "pub_state world" where
  "demo_pub_world = \<lparr>st = initial\<lparr>clock := 7 * Second + 5, kv := (\<lambda>_. empty_keyspace)(''a'' :=
       \<lparr>ks_strings = [bitmapKey ''a.1'' \<mapsto> [0x24, 0x01]], ks_counters = [versionKey ''a.1'' \<mapsto> 3]\<rparr>)\<rparr>,
     sched = [], fates = [], draws = [],
     proc = \<lparr>cache = (\<lambda>_. None), debounce = newLeadingDebouncer, tasks = []\<rparr>\<rparr>"

lemma demo_token_params: "token_params demo_publisher demo_lm 60 demo_bitmap (7 * Second + 5) = demo_params"
  by (simp add: token_params_def demo_publisher_def demo_lm_def demo_params_def)

lemma demo_wrap: "WrapBitmap [0x24, 0x01] (lm_Size demo_lm) (lm_Bits demo_lm) = Inr demo_bitmap"
  by (simp add: WrapBitmap_def demo_lm_def demo_bitmap_def ValidBitWidth_def byte_len_def u64_of_int_def)

lemma demo_byte_len: "int64_of_u64 (byte_len (lm_Size demo_lm) (lm_Bits demo_lm)) = 2"
  by (simp add: byte_len_def demo_lm_def u64_of_int_def int64_of_u64_def)

lemma demo_publish:
  "\<exists>pd w'. run_state (PublishIfStale demo_lib demo_publisher demo_lm 60) demo_pub_world = (Inr pd, w')"
proof -
  have "lm_ShardID demo_lm = ''a''" "lm_ID demo_lm = ''a.1''" "pb_key demo_publisher = 0"
    "''a'' \<in> set (pb_shards demo_publisher)" by (simp_all add: demo_lm_def demo_publisher_def)
  then show ?thesis
    using demo_builds demo_wrap
    by (simp add: PublishIfStale_def Version_def Snapshot_def remote_def interfere_def next_fate_def apply_store_def
        get_proc_def modify_proc_def time_now_def demo_pub_world_def initial_def demo_byte_len demo_token_params
        snapshot_of_def bitmapKey_def versionKey_def Let_def)
qed

theorem published_token_contents_witness:
  "\<exists>pd w' s1. run_state (PublishIfStale demo_lib demo_publisher demo_lm 60) demo_pub_world = (Inr pd, w')
     \<and> leads (st demo_pub_world) s1 \<and> pd_Version pd = live_version ''a'' ''a.1'' s1 \<and> pd_TTL pd = 60"
proof -
  obtain pd w' where r: "run_state (PublishIfStale demo_lib demo_publisher demo_lm 60) demo_pub_world = (Inr pd, w')"
    using demo_publish by blast
  from published_token_contents[OF r] r show ?thesis by (auto simp: demo_lm_def)
qed

end
