(* ===== verification/Ingestion.thy ===== *)
theory Ingestion
  imports Publisher Config "HOL-Library.Multiset"
begin

text \<open>
  The issuer-facing service, \<open>src/internal/ingestion/handlers.go\<close>, \<open>server.go\<close> and \<open>auth.go\<close>: allocation of an
  index, status updates, self-service accounting, and the checks in front of them.

  \<open>tokengin\<close> is the token library: \<open>TokenAuth\<close> maps the \<open>Authorization\<close> header to the status it aborts
  with or the result it stores, \<open>MustHaveTAC\<close> says whether it aborts. A JSON body is what binding
  it yields. The \<open>BitmapStore\<close> of a server is the Redis of its own shard. A panic in a handler is
  turned into a 500 by \<open>gin.Recovery\<close>.
\<close>

section \<open>Definitions\<close>

datatype 'a body = EmptyBody | Malformed | Json 'a

record auth_result =
  au_UserID :: string
  au_TenantID :: string
  au_TAC :: string

record tokengin =
  TokenAuth :: "string \<Rightarrow> nat + auth_result option"
  MustHaveTAC :: "string \<Rightarrow> auth_result option \<Rightarrow> nat option"

datatype response =
    Aborted nat
  | Error nat string
  | Allocated string u64 time
  | NoContent
  | Usage string "(string \<times> int) list"
  | Healthz string
  | MetricsPage
  | NoRoute

record Server =
  sv_cfg :: IngestionConfig
  sv_pool :: Manager

definition Ingestion_New :: "IngestionConfig \<Rightarrow> Manager \<Rightarrow> Server" where
  "Ingestion_New cfg pm = \<lparr>sv_cfg = cfg, sv_pool = pm\<rparr>"

abbreviation sv_shard :: "Server \<Rightarrow> string" where
  "sv_shard s \<equiv> ic_ShardID (sv_cfg s)"

abbreviation (input) maxAllocateAttempts :: nat where "maxAllocateAttempts \<equiv> 5"

definition requireShard :: "string \<Rightarrow> auth_result option \<Rightarrow> response option" where
  "requireShard shardID r =
     (case r of
        None \<Rightarrow> Some (Error 401 ''no authentication context'')
      | Some au \<Rightarrow> if au_TenantID au \<noteq> shardID then Some (Error 403 ''token is not authorized for this shard'')
                 else None)"

definition issuerFromContext :: "auth_result option \<Rightarrow> string" where
  "issuerFromContext r = (case r of None \<Rightarrow> '''' | Some au \<Rightarrow> au_UserID au)"

text \<open>The attempts of \<open>handleAllocate\<close>, \<open>k\<close> of them left.\<close>

fun allocate_attempts ::
  "(bytes \<Rightarrow> bytes \<Rightarrow> bytes) \<Rightarrow> Server \<Rightarrow> string \<Rightarrow> time \<Rightarrow> nat \<Rightarrow> (pub_state world, response) state" where
  "allocate_attempts hmac s issuerID expiry 0 =
     ret (Error 503 ''could not allocate after retrying against the active pool; try again shortly'')"
| "allocate_attempts hmac s issuerID expiry (Suc k) = do {
     rp \<leftarrow> PickForAllocation (sv_pool s);
     (case rp of
        Inl _ \<Rightarrow> ret (Error 500 ''could not obtain an active list'')
      | Inr None \<Rightarrow> ret (Error 503 ''no active list available'')
      | Inr (Some lm) \<Rightarrow>
          (case New (lm_FPEKey lm) (lm_Size lm) of
             Inl _ \<Rightarrow> ret (Error 500 ''internal allocator error'')
           | Inr alloc \<Rightarrow> do {
               rr \<leftarrow> ReserveCursorAndRecord (lm_ID lm) issuerID (sv_shard s) expiry (Index hmac alloc);
               (case rr of
                  Inl e \<Rightarrow>
                    if e = ErrListFull then allocate_attempts hmac s issuerID expiry k
                    else ret (Error 500 ''could not allocate an index'')
                | Inr idx \<Rightarrow>
                    (case ByteOffset idx (lm_Bits lm) of (byteIndex, bitOffset) \<Rightarrow> do {
                       rs \<leftarrow> SetStatus (sv_shard s) (lm_ID lm) byteIndex bitOffset (lm_Bits lm) StatusValid;
                       (case rs of
                          Inl _ \<Rightarrow> ret (Error 500 ''could not initialize allocated index'')
                        | Inr _ \<Rightarrow> do {
                            MarkDirty (lm_ID lm) (ic_DefaultTTLSeconds (sv_cfg s));
                            ret (Allocated (ic_BaseURL (sv_cfg s) @ ''/lists/'' @ lm_ID lm) idx expiry)
                          })
                     }))
             }))
   }"

text \<open>The decoded body is the \<open>exp\<close> field, the zero time when it is absent.\<close>

definition handleAllocate ::
  "(bytes \<Rightarrow> bytes \<Rightarrow> bytes) \<Rightarrow> Server \<Rightarrow> auth_result option \<Rightarrow> time body \<Rightarrow> (pub_state world, response) state" where
  "handleAllocate hmac s au body =
     (if body = Malformed then ret (Error 400 ''invalid request'')
      else do {
        now \<leftarrow> time_now;
        let maxExp = now + ic_MaxExpiry (sv_cfg s);
        let reqExp = (case body of Json e \<Rightarrow> e | _ \<Rightarrow> zero_time);
        if reqExp = zero_time then
          allocate_attempts hmac s (issuerFromContext au) maxExp maxAllocateAttempts
        else if reqExp > maxExp then ret (Error 400 ''exp exceeds the maximum allowed expiration'')
        else allocate_attempts hmac s (issuerFromContext au) reqExp maxAllocateAttempts
      })"

definition statusNames :: "string \<Rightarrow> byte option" where
  "statusNames = [''VALID'' \<mapsto> StatusValid, ''INVALID'' \<mapsto> StatusInvalid, ''SUSPENDED'' \<mapsto> StatusSuspended]"

text \<open>\<open>binding:"required"\<close> rejects an empty \<open>status\<close>.\<close>

definition handleSetStatus ::
  "Server \<Rightarrow> auth_result option \<Rightarrow> string \<Rightarrow> string \<Rightarrow> string body \<Rightarrow> (pub_state world, response) state" where
  "handleSetStatus s au listID idxParam body =
     (case ParseUint idxParam of
        None \<Rightarrow> ret (Error 400 ''invalid index'')
      | Some idx \<Rightarrow>
          (case body of
             Json name \<Rightarrow>
               if name = '''' then ret (Error 400 ''invalid request'')
               else (case statusNames name of
                 None \<Rightarrow> ret (Error 400 ''unknown status value; expected VALID, INVALID, or SUSPENDED'')
               | Some status \<Rightarrow> do {
                   ro \<leftarrow> CheckOwnership listID idx (issuerFromContext au);
                   (case ro of
                      Some e \<Rightarrow> ret (if e = ErrNotOwner then Error 403 ''you do not own this index''
                                   else Error 500 ''could not verify ownership'')
                    | None \<Rightarrow> do {
                        rl \<leftarrow> GetList listID;
                        (case rl of
                           Inr (Some lm) \<Rightarrow>
                             if lm_State lm = ARCHIVED then
                               ret (Error 410 ''this status list has been archived; no further updates are possible'')
                             else (case ByteOffset idx (lm_Bits lm) of (byteIndex, bitOffset) \<Rightarrow> do {
                               rs \<leftarrow> SetStatus (sv_shard s) listID byteIndex bitOffset (lm_Bits lm) status;
                               (case rs of
                                  Inl _ \<Rightarrow> ret (Error 500 ''could not update status'')
                                | Inr _ \<Rightarrow> do {
                                    MarkDirty listID (ic_DefaultTTLSeconds (sv_cfg s));
                                    ret NoContent
                                  })
                             })
                         | _ \<Rightarrow> ret (Error 404 ''list not found''))
                      })
                 })
           | _ \<Rightarrow> ret (Error 400 ''invalid request'')))"

definition handleAccountingMe :: "auth_result option \<Rightarrow> (pub_state world, response) state" where
  "handleAccountingMe au = do {
     r \<leftarrow> GetUsage (issuerFromContext au);
     (case r of
        Inl _ \<Rightarrow> ret (Error 500 ''could not look up usage'')
      | Inr us \<Rightarrow> ret (Usage (issuerFromContext au) (map (\<lambda>u. (us_shard_id u, us_index_count u)) us)))
   }"

definition handleHealthz :: "Server \<Rightarrow> response" where
  "handleHealthz s = Healthz (sv_shard s)"

text \<open>The routes, with their middleware in order.\<close>

datatype request =
    GetHealthz
  | GetMetrics
  | PostAllocate string "time body"
  | PatchStatus string string string "string body"
  | GetAccounting string
  | OtherRequest

definition authed ::
  "tokengin \<Rightarrow> Server \<Rightarrow> string \<Rightarrow> string \<Rightarrow> (auth_result option \<Rightarrow> (pub_state world, response) state)
   \<Rightarrow> (pub_state world, response) state" where
  "authed tg s authorization tac handler =
     (case TokenAuth tg authorization of
        Inl code \<Rightarrow> ret (Aborted code)
      | Inr au \<Rightarrow>
          (case requireShard (sv_shard s) au of
             Some resp \<Rightarrow> ret resp
           | None \<Rightarrow>
               (case MustHaveTAC tg tac au of
                  Some code \<Rightarrow> ret (Aborted code)
                | None \<Rightarrow> handler au)))"

definition Ingestion_Router ::
  "tokengin \<Rightarrow> (bytes \<Rightarrow> bytes \<Rightarrow> bytes) \<Rightarrow> Server \<Rightarrow> request \<Rightarrow> (pub_state world, response) state" where
  "Ingestion_Router tg hmac s req =
     (case req of
        GetHealthz \<Rightarrow> ret (handleHealthz s)
      | GetMetrics \<Rightarrow> ret MetricsPage
      | PostAllocate au body \<Rightarrow> authed tg s au ''i'' (\<lambda>r. handleAllocate hmac s r body)
      | PatchStatus au listID idx body \<Rightarrow> authed tg s au ''w'' (\<lambda>r. handleSetStatus s r listID idx body)
      | GetAccounting au \<Rightarrow> authed tg s au ''r'' handleAccountingMe
      | OtherRequest \<Rightarrow> ret NoRoute)"

definition ListsForPublishing :: "Server \<Rightarrow> (pub_state world, err + ListMeta list \<times> int) state" where
  "ListsForPublishing s = do {
     r \<leftarrow> LiveLists (sv_shard s);
     (case r of Inl e \<Rightarrow> ret (Inl e) | Inr lms \<Rightarrow> ret (Inr (lms, ic_DefaultTTLSeconds (sv_cfg s))))
   }"

section \<open>Every request performs permitted actions\<close>

lemma moves_allocate_attempts [moves_rules]: "moves world_leads (allocate_attempts hmac s i e k)"
proof (induction k)
  case 0
  show ?case by (simp add: moves_ret reflp_world_leads)
next
  case (Suc k)
  show ?case unfolding allocate_attempts.simps by (intro moves_rules Suc)
qed

lemma moves_handlers [moves_rules]:
  "moves world_leads (handleAllocate hmac s au body)"
  "moves world_leads (handleSetStatus s au l i sb)"
  "moves world_leads (handleAccountingMe au)"
  unfolding handleAllocate_def handleAccountingMe_def Let_def handleSetStatus_def
  by (intro moves_rules) (auto split: body.split intro!: moves_rules)

lemma moves_Router: "moves world_leads (Ingestion_Router tg hmac s req)"
  unfolding Ingestion_Router_def authed_def by (cases req) (auto intro!: moves_rules)

lemma moves_ListsForPublishing [moves_rules]: "moves world_leads (ListsForPublishing s)"
  unfolding ListsForPublishing_def by (intro moves_rules)

section \<open>What a query says about a list, for good\<close>

text \<open>\<open>describes lm r\<close>: the fixed columns of the row are those \<open>lm\<close> was scanned with.\<close>

definition describes :: "ListMeta \<Rightarrow> list_row \<Rightarrow> bool" where
  "describes lm r \<longleftrightarrow> lr_bits r = lm_Bits lm \<and> u64_of_int (lr_size r) = lm_Size lm
     \<and> lr_fpe_key r = lm_FPEKey lm \<and> lr_shard_id r = lm_ShardID lm"

abbreviation described :: "ListMeta \<Rightarrow> stores \<Rightarrow> bool" where
  "described lm \<equiv> list_sat (lm_ID lm) (describes lm)"

lemma stable_described: "stable (described lm)"
  by (rule stable_list_sat) (simp add: describes_def row_le_def)

lemma described_scan: "store_inv s \<Longrightarrow> r \<in> set (lists (pg s)) \<Longrightarrow> described (scanListMeta r) s"
proof (cases "collided s")
  case False
  assume s: "store_inv s" "r \<in> set (lists (pg s))"
  then have "r' = r" if "r' \<in> set (lists (pg s))" "lr_id r' = lr_id r" for r'
    using False same_list_row[of "pg s" r r'] that by (simp add: store_inv_def good_def)
  then show ?thesis using s by (intro list_sat_query) (auto simp: scanListMeta_def describes_def)
qed (simp add: list_sat_def)

lemma spec_ActiveLists:
  "spec store_inv (ActiveLists sh)
     (\<lambda>r s. store_inv s \<and> (\<forall>lms. r = Inr lms \<longrightarrow> (\<forall>lm\<in>set lms. described lm s \<and> lm_ShardID lm = sh)))"
  unfolding ActiveLists_def queryLists_def
  by (rule spec_pg_query[OF stable_store_inv])
     (auto simp: sql_select_lists_def scanListMeta_def dest!: described_scan)

lemma spec_GetList:
  "spec store_inv (GetList l)
     (\<lambda>r s. store_inv s \<and> (\<forall>lm. r = Inr (Some lm) \<longrightarrow> described lm s \<and> lm_ID lm = l))"
  unfolding GetList_def
  by (rule spec_pg_query[OF stable_store_inv])
     (auto dest!: select_list_mem described_scan simp: scanListMeta_def)

text \<open>A fact about the result that holds in every run.\<close>

lemma spec_result:
  assumes "moves world_leads m" "stable P" "\<And>w. R (result m w)"
  shows "spec P m (\<lambda>x s. P s \<and> R x)"
  using moves_imp_spec[OF assms(1,2)] assms(3) by (simp add: spec_def)

lemma Choose_mem: "result (ChooseByPowerOfTwo cs) w = Some c \<Longrightarrow> c \<in> set cs"
proof -
  assume r: "result (ChooseByPowerOfTwo cs) w = Some c"
  consider "cs = []" | a where "cs = [a]" | a b ds where "cs = a # b # ds" by (metis list.exhaust)
  then show ?thesis
  proof cases
    case 3
    define i where "i = result next_draw w mod length cs"
    define j where "j = result next_draw (after next_draw w) mod (length cs - 1)"
    have "i < length cs" "j < length cs - 1" unfolding i_def j_def by (simp_all add: 3 del: length_Cons)
    moreover have "c = cs ! i \<or> c = cs ! j \<or> c = cs ! Suc j"
      using r by (auto simp: ChooseByPowerOfTwo_def 3 rand_below_def Let_def i_def j_def split: prod.splits if_splits)
    ultimately show ?thesis by (auto intro!: nth_mem)
  qed (use r in \<open>auto simp: ChooseByPowerOfTwo_def\<close>)
qed

lemma spec_Choose:
  "stable P \<Longrightarrow> spec P (ChooseByPowerOfTwo cs) (\<lambda>r s. P s \<and> (\<forall>c. r = Some c \<longrightarrow> c \<in> set cs))"
  by (rule spec_result[OF moves_Choose]) (auto dest: Choose_mem)

lemma spec_PickForAllocation:
  "spec store_inv (PickForAllocation m)
     (\<lambda>r s. store_inv s \<and> (\<forall>lm. r = Inr (Some lm) \<longrightarrow> described lm s \<and> lm_ShardID lm = mg_ShardID m))"
  (is "spec _ _ ?Q")
proof -
  have pick: "spec (\<lambda>s. store_inv s \<and> (\<forall>lm\<in>set lms. described lm s \<and> lm_ShardID lm = mg_ShardID m))
      (do { c \<leftarrow> ChooseByPowerOfTwo lms; ret (Inr c) }) ?Q" for lms
    by (rule spec_bind[OF spec_Choose])
       (auto intro!: stable_conj stable_store_inv stable_ball stable_described spec_ret)
  have again: "spec store_inv (do { rb \<leftarrow> ActiveLists (mg_ShardID m);
        (case rb of Inl e \<Rightarrow> ret (Inl e) | Inr active' \<Rightarrow> do { c \<leftarrow> ChooseByPowerOfTwo active'; ret (Inr c) }) }) ?Q"
    by (rule spec_bind[OF spec_ActiveLists], rule spec_case_sum) (auto intro!: spec_ret pick[THEN spec_pre])
  have create: "spec store_inv (do { rh \<leftarrow> EnsureHealthy m; (case rh of Some e \<Rightarrow> ret (Inl e) | None \<Rightarrow> do {
        rb \<leftarrow> ActiveLists (mg_ShardID m);
        (case rb of Inl e \<Rightarrow> ret (Inl e) | Inr active' \<Rightarrow> do { c \<leftarrow> ChooseByPowerOfTwo active'; ret (Inr c) }) }) }) ?Q"
    by (rule spec_bind[OF moves_imp_spec[OF moves_EnsureHealthy stable_store_inv]], rule spec_case_option)
       (auto intro!: spec_ret again)
  show ?thesis
    unfolding PickForAllocation_def
    by (rule spec_bind[OF spec_ActiveLists], rule spec_case_sum, force intro!: spec_ret, rule spec_if)
       (auto intro!: pick[THEN spec_pre] create[THEN spec_pre])
qed

section \<open>Reserving an index\<close>

lemma reserve_tx_derived: "reserve_tx l i sh e d now db = Inr (idx, db') \<Longrightarrow> \<exists>c. d c = Inr idx"
  by (auto simp: reserve_tx_def split: option.splits sum.splits)

lemma alloc_sat_reserve:
  assumes "store_inv s" "reserve_tx l i sh e d (clock s) (pg s) = Inr (idx, db')"
  shows "alloc_sat l (int64_of_u64 idx) (\<lambda>a. ar_issuer_id a = i \<and> ar_exp a = pgtz e)
     (exec (PgReserve l i sh e d) s)"
proof (cases "collided s")
  case True
  then show ?thesis by (simp add: alloc_sat_def on_pg_def)
next
  case False
  let ?s' = "exec (PgReserve l i sh e d) s"
  have g: "good s" using assms(1) False by (simp add: store_inv_def)
  then have wf: "wf_pg (pg s)" by (simp add: good_def)
  have pg': "pg ?s' = db'" using assms(2) by (simp add: on_pg_def or_same_def)
  have "good ?s'" using good_in_place[OF g, of "PgReserve l i sh e d"] by (simp add: in_place_def del: exec.simps)
  moreover obtain r where "r \<in> set (lists (pg s))" "reservable l r"
    and as: "allocations db' = allocations (pg s) @ [\<lparr>ar_list_id = l, ar_idx = int64_of_u64 idx, ar_issuer_id = i,
       ar_exp = pgtz e, ar_created_at = pgtz (clock s)\<rparr>]"
    by (rule reserve_tx_InrD[OF wf assms(2)])
  moreover have "issued ?s' = issued s" by (simp add: on_pg_def)
  ultimately show ?thesis
    using g by (auto simp: alloc_sat_def pg' alloc_at_def good_def reservable_def simp del: exec.simps)
qed

lemma spec_Reserve:
  assumes "stable F"
  shows "spec (\<lambda>s. store_inv s \<and> F s) (ReserveCursorAndRecord l i sh e d)
    (\<lambda>r s. store_inv s \<and> F s \<and> (\<forall>idx. r = Inr idx \<longrightarrow> (\<exists>c. d c = Inr idx)
       \<and> alloc_sat l (int64_of_u64 idx) (\<lambda>a. ar_issuer_id a = i \<and> ar_exp a = pgtz e) s))"
  unfolding ReserveCursorAndRecord_def
proof (rule spec_call_act)
  show st: "stable (\<lambda>s. store_inv s \<and> F s)" by (intro stable_conj stable_store_inv assms)
  fix s assume s: "store_inv s \<and> F s"
  show perm: "permitted (PgReserve l i sh e d) s" by (simp add: permitted_def)
  have keep: "store_inv (exec (PgReserve l i sh e d) s) \<and> F (exec (PgReserve l i sh e d) s)"
    using stable_exec[OF st s perm] .
  show "store_inv (exec (PgReserve l i sh e d) s) \<and> F (exec (PgReserve l i sh e d) s) \<and>
    (\<forall>idx. (case reserve_tx l i sh e d (clock s) (pg s) of Inl e \<Rightarrow> Inl e | Inr (idx, _) \<Rightarrow> Inr idx) = Inr idx \<longrightarrow>
      (\<exists>c. d c = Inr idx) \<and> alloc_sat l (int64_of_u64 idx) (\<lambda>a. ar_issuer_id a = i \<and> ar_exp a = pgtz e)
        (exec (PgReserve l i sh e d) s))"
    using keep s reserve_tx_derived[of l i sh e d "clock s" "pg s"] alloc_sat_reserve[of s l i sh e d]
    by (auto split: sum.splits prod.splits simp del: exec.simps)
  show "store_inv (exec (PgReserve l i sh e d) s) \<and> F (exec (PgReserve l i sh e d) s) \<and>
    (\<forall>idx. Inl ErrDb = Inr idx \<longrightarrow> (\<exists>c. d c = Inr idx) \<and>
      alloc_sat l (int64_of_u64 idx) (\<lambda>a. ar_issuer_id a = i \<and> ar_exp a = pgtz e) (exec (PgReserve l i sh e d) s))"
    using keep by simp
qed simp

section \<open>Writing a status\<close>

lemma stable_leads: "stable (\<lambda>s. \<exists>s1. P s1 \<and> leads (f s1) s)"
  by (auto simp: stable_def intro: leads_trans)

lemma spec_SetStatus:
  assumes "stable P"
  shows "spec P (SetStatus sh l q off bits v)
    (\<lambda>r s. \<forall>n. r = Inr n \<longrightarrow> (\<exists>s1. P s1 \<and> leads (exec (KvSetByte sh l (unat q) (uint off) bits v) s1) s))"
  (is "spec _ _ (\<lambda>r s. \<forall>n. r = Inr n \<longrightarrow> ?W s)")
proof -
  have a: "spec P (call_act ErrRedis (KvSetByte sh l (unat q) (uint off) bits v)
      (\<lambda>s. case setByteScript (bitmapKey l) (unat q) (uint off) bits v (kv s sh) of Inl e \<Rightarrow> Inl e | Inr (b, _) \<Rightarrow> Inr b))
      (\<lambda>r s. \<forall>n. r = Inr n \<longrightarrow> ?W s)"
    by (rule spec_call_act[OF assms]) (auto simp: permitted_def simp del: exec.simps intro: leads_refl)
  have b: "spec ?W (call_act ErrRedis (KvIncr sh l)
      (\<lambda>s. case kv_incr (versionKey l) (kv s sh) of Inl e \<Rightarrow> Inl e | Inr (v, _) \<Rightarrow> Inr v)) (\<lambda>_. ?W)"
    by (rule moves_imp_spec[OF moves_call_act stable_leads]) simp
  show ?thesis
    unfolding SetStatus_def
    by (rule spec_bind[OF a], rule spec_case_sum) (auto intro!: spec_ret b[THEN spec_post, THEN spec_pre])
qed

lemma spec_MarkDirty: "stable P \<Longrightarrow> spec P (MarkDirty l ttl) (\<lambda>_. P)"
  by (rule moves_imp_spec[OF moves_MarkDirty])

text \<open>What a status write leaves in the bitmap of the list it names.\<close>

lemma kv_exec_set_byte:
  assumes "ByteOffset idx bits = (q, off)"
  shows "kv (exec (KvSetByte sh l (unat q) (uint off) bits v) s) sh = kv_write l bits (kv s sh) (unat idx) v"
  using assms by (simp add: kv_write_def on_kv_def or_same_def split: sum.splits prod.splits)

lemma kv_read_write:
  assumes "kv_inv l n bits ks" "i < n" "j < n"
  shows "kv_read l bits (kv_write l bits ks i v) j = (if i = j then v AND mask (nat bits) else kv_read l bits ks j)"
    "kv_inv l n bits (kv_write l bits ks i v)"
proof -
  obtain d where d: "ks_strings ks (bitmapKey l) = Some d" using assms(1) by (auto simp: kv_inv_def split: option.splits)
  have same: "kv_write l bits ks i v = kv_write l bits ks i (v AND mask (nat bits))"
    using kv_write_entry[OF assms(1,2) d] by (simp add: and.assoc)
  have fit: "v AND mask (nat bits) \<le> mask (nat bits)" by (rule word_and_le1)
  show "kv_read l bits (kv_write l bits ks i v) j = (if i = j then v AND mask (nat bits) else kv_read l bits ks j)"
    unfolding same
    using rda.rd_wr_same[OF assms(1,2) fit] rda.rd_wr_other[OF assms(1,2) fit assms(3)] by (cases "i = j") simp_all
  show "kv_inv l n bits (kv_write l bits ks i v)"
    unfolding same by (rule rda.inv_wr[OF assms(1,2) fit])
qed

section \<open>Allocation\<close>

text \<open>
  What the issuer is entitled to conclude from a \<open>201\<close>: \<open>granted s lm issuer e idx t\<close> says that in the
  state \<open>t\<close> list \<open>lm\<close> of this server's pool has the index recorded for the issuer with that expiry.
\<close>

definition granted :: "Server \<Rightarrow> ListMeta \<Rightarrow> string \<Rightarrow> time \<Rightarrow> u64 \<Rightarrow> stores \<Rightarrow> bool" where
  "granted s lm issuer e idx t \<longleftrightarrow> store_inv t \<and> described lm t
     \<and> alloc_sat (lm_ID lm) (int64_of_u64 idx) (\<lambda>a. ar_issuer_id a = issuer \<and> ar_exp a = pgtz e) t"

definition reset_to_valid :: "Server \<Rightarrow> ListMeta \<Rightarrow> u64 \<Rightarrow> stores \<Rightarrow> stores" where
  "reset_to_valid s lm idx t = exec (KvSetByte (sv_shard s) (lm_ID lm) (unat (fst (ByteOffset idx (lm_Bits lm))))
     (uint (snd (ByteOffset idx (lm_Bits lm)))) (lm_Bits lm) StatusValid) t"

definition allocated_ok :: "Server \<Rightarrow> string \<Rightarrow> time \<Rightarrow> response \<Rightarrow> stores \<Rightarrow> bool" where
  "allocated_ok s issuer e resp t \<longleftrightarrow> (\<forall>url idx e'. resp = Allocated url idx e' \<longrightarrow> e' = e
     \<and> (\<exists>lm t1. url = ic_BaseURL (sv_cfg s) @ ''/lists/'' @ lm_ID lm \<and> lm_ShardID lm = mg_ShardID (sv_pool s)
          \<and> idx < lm_Size lm \<and> granted s lm issuer e idx t1 \<and> leads (reset_to_valid s lm idx t1) t))"

lemma stable_granted: "stable (granted s lm i e idx)"
  unfolding granted_def by (intro stable_conj stable_store_inv stable_described stable_alloc_sat)

lemma New_al_n: "New key n = Inr a \<Longrightarrow> al_n a = n"
  by (auto simp: New_def Let_def split: if_splits)

lemma allocated_ok_Error [simp]: "allocated_ok s i e (Error c m) t"
  by (simp add: allocated_ok_def)

lemma spec_initialise:
  assumes "lm_ShardID lm = mg_ShardID (sv_pool s)" "idx < lm_Size lm"
  shows "spec (granted s lm i e idx)
    (case ByteOffset idx (lm_Bits lm) of (byteIndex, bitOffset) \<Rightarrow> do {
       rs \<leftarrow> SetStatus (sv_shard s) (lm_ID lm) byteIndex bitOffset (lm_Bits lm) StatusValid;
       (case rs of
          Inl _ \<Rightarrow> ret (Error 500 ''could not initialize allocated index'')
        | Inr _ \<Rightarrow> do {
            MarkDirty (lm_ID lm) (ic_DefaultTTLSeconds (sv_cfg s));
            ret (Allocated (ic_BaseURL (sv_cfg s) @ ''/lists/'' @ lm_ID lm) idx e)
          })
     }) (allocated_ok s i e)"
proof -
  obtain q off where bo: "ByteOffset idx (lm_Bits lm) = (q, off)" by fastforce
  let ?W = "\<lambda>t. \<exists>t1. granted s lm i e idx t1 \<and> leads (reset_to_valid s lm idx t1) t"
  have set: "spec (granted s lm i e idx) (SetStatus (sv_shard s) (lm_ID lm) q off (lm_Bits lm) StatusValid)
      (\<lambda>r t. \<forall>n. r = Inr n \<longrightarrow> ?W t)"
    using spec_SetStatus[OF stable_granted] by (simp add: reset_to_valid_def bo del: exec.simps)
  have fin: "spec ?W (do { MarkDirty (lm_ID lm) ttl; ret (Allocated (ic_BaseURL (sv_cfg s) @ ''/lists/'' @ lm_ID lm) idx e) })
      (allocated_ok s i e)" for ttl
    by (rule spec_bind[OF spec_MarkDirty[OF stable_leads]], rule spec_ret)
       (use assms in \<open>auto simp: allocated_ok_def\<close>)
  show ?thesis
    unfolding bo prod.case
    by (rule spec_bind[OF set], rule spec_case_sum, simp add: spec_ret, rule spec_pre[OF fin]) simp
qed

lemma spec_allocate_attempts: "spec store_inv (allocate_attempts hmac s i e k) (allocated_ok s i e)"
proof (induction k)
  case 0
  show ?case by (simp add: spec_ret)
next
  case (Suc k)
  have reserve: "spec (\<lambda>t. store_inv t \<and> described lm t) (do {
       rr \<leftarrow> ReserveCursorAndRecord (lm_ID lm) i (sv_shard s) e (Index hmac alloc);
       (case rr of
          Inl err \<Rightarrow> if err = ErrListFull then allocate_attempts hmac s i e k
                   else ret (Error 500 ''could not allocate an index'')
        | Inr idx \<Rightarrow>
            (case ByteOffset idx (lm_Bits lm) of (byteIndex, bitOffset) \<Rightarrow> do {
               rs \<leftarrow> SetStatus (sv_shard s) (lm_ID lm) byteIndex bitOffset (lm_Bits lm) StatusValid;
               (case rs of
                  Inl _ \<Rightarrow> ret (Error 500 ''could not initialize allocated index'')
                | Inr _ \<Rightarrow> do {
                    MarkDirty (lm_ID lm) (ic_DefaultTTLSeconds (sv_cfg s));
                    ret (Allocated (ic_BaseURL (sv_cfg s) @ ''/lists/'' @ lm_ID lm) idx e)
                  })
             })) }) (allocated_ok s i e)"
    if "New (lm_FPEKey lm) (lm_Size lm) = Inr alloc" "lm_ShardID lm = mg_ShardID (sv_pool s)" for lm alloc
  proof (rule spec_bind[OF spec_Reserve[OF stable_described]], rule spec_case_sum, goal_cases)
    case (1 rr err)
    show ?case by (intro spec_if spec_ret spec_pre[OF Suc]) auto
  next
    case (2 rr idx)
    show ?case
      by (rule spec_pre, rule spec_pure[where c = "idx < lm_Size lm"], rule spec_initialise[OF that(2)], assumption)
         (use 2 in \<open>auto simp: granted_def New_al_n[OF that(1), symmetric] dest: Index_InrD\<close>)
  qed
  show ?case
    unfolding allocate_attempts.simps
    by (rule spec_bind[OF spec_PickForAllocation], rule spec_case_sum, simp add: spec_ret,
        rule spec_case_option, simp add: spec_ret, rule spec_case_sum, simp add: spec_ret)
       (rule spec_pre, rule spec_pure[where c = "lm_ShardID lm = mg_ShardID (sv_pool s)" for lm], rule reserve, auto)
qed

definition chosen_exp :: "Server \<Rightarrow> time body \<Rightarrow> time \<Rightarrow> time \<Rightarrow> bool" where
  "chosen_exp s body now e \<longleftrightarrow>
     (let maxExp = now + ic_MaxExpiry (sv_cfg s)
      in case body of Json r \<Rightarrow> (if r = zero_time then e = maxExp else e = r \<and> r \<le> maxExp) | _ \<Rightarrow> e = maxExp)"

lemma spec_handleAllocate:
  "spec (\<lambda>t. store_inv t \<and> c \<le> clock t) (handleAllocate hmac s au body)
     (\<lambda>resp t. \<forall>url idx e. resp = Allocated url idx e \<longrightarrow>
        (\<exists>now. c \<le> now \<and> now \<le> clock t \<and> chosen_exp s body now e)
        \<and> allocated_ok s (issuerFromContext au) e resp t)" (is "spec _ _ ?Q")
proof -
  have att: "spec (\<lambda>t. store_inv t \<and> c \<le> now \<and> now \<le> clock t) (allocate_attempts hmac s (issuerFromContext au) e k) ?Q"
    if "chosen_exp s body now e" for e now k
  proof -
    have "spec (\<lambda>t. store_inv t \<and> (c \<le> now \<and> now \<le> clock t)) (allocate_attempts hmac s (issuerFromContext au) e k)
        (\<lambda>resp t. allocated_ok s (issuerFromContext au) e resp t \<and> (c \<le> now \<and> now \<le> clock t))"
      by (rule spec_frame[OF spec_allocate_attempts]) (intro stable_conj stable_const stable_clock)
    then show ?thesis by (rule spec_post) (use that in \<open>auto simp: allocated_ok_def\<close>)
  qed
  let ?req = "case body of Json e \<Rightarrow> e | _ \<Rightarrow> zero_time"
  have none: "chosen_exp s body now (now + ic_MaxExpiry (sv_cfg s))" if "?req = zero_time" for now
    using that by (simp add: chosen_exp_def split: body.splits)
  have some: "chosen_exp s body now ?req" if "?req \<noteq> zero_time" "\<not> now + ic_MaxExpiry (sv_cfg s) < ?req" for now
    using that by (auto simp: chosen_exp_def split: body.splits)
  show ?thesis
    unfolding handleAllocate_def Let_def
    by (rule spec_if, rule spec_ret, simp,
        rule spec_bind[where Q = "\<lambda>now t. store_inv t \<and> c \<le> now \<and> now \<le> clock t"], rule spec_time_now,
        intro stable_conj stable_store_inv stable_clock, simp,
        rule spec_if, erule att[OF none], rule spec_if, rule spec_ret, simp, rule att[OF some])
qed

lemma leads_reset: "leads t (reset_to_valid s lm idx t)"
  unfolding reset_to_valid_def by (rule leads_exec) (simp add: permitted_def)

lemma reset_reads_valid:
  assumes "kv_inv (lm_ID lm) (unat (lm_Size lm)) (lm_Bits lm) (kv t (sv_shard s))" "idx < lm_Size lm"
  shows "kv_read (lm_ID lm) (lm_Bits lm) (kv (reset_to_valid s lm idx t) (sv_shard s)) (unat idx) = StatusValid"
proof -
  obtain q off where bo: "ByteOffset idx (lm_Bits lm) = (q, off)" by fastforce
  have "unat idx < unat (lm_Size lm)" using assms(2) by (simp add: word_less_nat_alt)
  then show ?thesis
    using kv_read_write(1)[OF assms(1), of "unat idx" "unat idx" StatusValid]
    by (simp add: reset_to_valid_def bo kv_exec_set_byte[OF bo] del: exec.simps)
qed

section \<open>Properties\<close>

text \<open>
  C2. What a 201 from \<open>POST /allocate\<close> guarantees, whatever other requests, background jobs and
  processes do meanwhile and whichever calls fail: the URL names a list of this server's shard, the
  index lies below the list's size, and the allocation is recorded for the caller with the
  returned expiry, in the final state and for good; the expiry is the requested one, or the
  maximum when none was requested, and never beyond the maximum; and the entry was reset to VALID
  after the index had been reserved and before the response.
\<close>

theorem allocate_grants_index:
  assumes "store_inv (st w)" "run_state (handleAllocate hmac s au body) w = (Allocated url idx e, w')"
  shows "\<exists>lm t. url = ic_BaseURL (sv_cfg s) @ ''/lists/'' @ lm_ID lm \<and> lm_ShardID lm = mg_ShardID (sv_pool s)
     \<and> idx < lm_Size lm
     \<and> granted s lm (issuerFromContext au) e idx t \<and> leads (reset_to_valid s lm idx t) (st w')
     \<and> (kv_inv (lm_ID lm) (unat (lm_Size lm)) (lm_Bits lm) (kv t (sv_shard s)) \<longrightarrow>
          kv_read (lm_ID lm) (lm_Bits lm) (kv (reset_to_valid s lm idx t) (sv_shard s)) (unat idx) = StatusValid)
     \<and> granted s lm (issuerFromContext au) e idx (st w')
     \<and> (\<exists>now. clock (st w) \<le> now \<and> now \<le> clock (st w') \<and> e \<le> now + ic_MaxExpiry (sv_cfg s)
          \<and> (if \<exists>r. body = Json r \<and> r \<noteq> zero_time then body = Json e else e = now + ic_MaxExpiry (sv_cfg s)))"
proof -
  have "(\<exists>now. clock (st w) \<le> now \<and> now \<le> clock (st w') \<and> chosen_exp s body now e)
      \<and> allocated_ok s (issuerFromContext au) e (Allocated url idx e) (st w')"
    using spec_handleAllocate[of "clock (st w)" hmac s au body] assms by (auto simp: spec_def)
  then obtain now lm t where now: "clock (st w) \<le> now" "now \<le> clock (st w')" "chosen_exp s body now e"
    and lm: "url = ic_BaseURL (sv_cfg s) @ ''/lists/'' @ lm_ID lm" "lm_ShardID lm = mg_ShardID (sv_pool s)"
      "idx < lm_Size lm" and t: "granted s lm (issuerFromContext au) e idx t" "leads (reset_to_valid s lm idx t) (st w')"
    by (auto simp: allocated_ok_def)
  have "granted s lm (issuerFromContext au) e idx (st w')"
    using stableD[OF stable_granted t(1)] leads_trans[OF t(2) leads_reset] by blast
  moreover have "e \<le> now + ic_MaxExpiry (sv_cfg s)
      \<and> (if \<exists>r. body = Json r \<and> r \<noteq> zero_time then body = Json e else e = now + ic_MaxExpiry (sv_cfg s))"
    using now(3) by (cases body) (auto simp: chosen_exp_def Let_def split: if_splits)
  ultimately show ?thesis using lm t now(1,2) reset_reads_valid[of lm t s idx] by blast
qed

section \<open>Status updates\<close>

definition owns :: "string \<Rightarrow> u64 \<Rightarrow> string \<Rightarrow> stores \<Rightarrow> bool" where
  "owns l idx issuer t \<longleftrightarrow>
     (\<exists>a. sql_select_allocation l (int64_of_u64 idx) (pg t) = Some a \<and> ar_issuer_id a = issuer)"

definition live_row :: "string \<Rightarrow> list_row \<Rightarrow> stores \<Rightarrow> bool" where
  "live_row l r t \<longleftrightarrow> sql_select_list l (pg t) = Some r \<and> lr_state r \<noteq> ARCHIVED"

definition parsed :: "string \<Rightarrow> string body \<Rightarrow> u64 \<Rightarrow> byte \<Rightarrow> bool" where
  "parsed idxParam body idx v \<longleftrightarrow> ParseUint idxParam = Some idx \<and> (\<exists>name. body = Json name \<and> statusNames name = Some v)"

definition set_byte :: "Server \<Rightarrow> string \<Rightarrow> u64 \<Rightarrow> int \<Rightarrow> byte \<Rightarrow> stores \<Rightarrow> stores" where
  "set_byte s l idx bits v t = exec (KvSetByte (sv_shard s) l (unat (fst (ByteOffset idx bits)))
     (uint (snd (ByteOffset idx bits))) bits v) t"

lemma statusNames_nonempty: "statusNames name = Some v \<Longrightarrow> name \<noteq> []"
  by (auto simp: statusNames_def split: if_splits)

lemma spec_read:
  fixes F :: "err + 'x \<Rightarrow> stores \<Rightarrow> bool"
  assumes "\<And>t. F (Inr (f (pg t))) t"
  shows "spec (\<lambda>t. \<exists>t1. P t1 \<and> leads t1 t) (pg_query f)
    (\<lambda>r t. r = Inl ErrDb \<or> (\<exists>t2. ((\<exists>t1. P t1 \<and> leads t1 t2) \<and> F r t2) \<and> leads t2 t))"
  by (rule spec_pg_query) (use assms stable_leads[where f = "\<lambda>t. t"] leads_refl in blast)+

lemma spec_CheckOwnership:
  "spec (\<lambda>t. \<exists>t1. P t1 \<and> leads t1 t) (CheckOwnership l idx i)
    (\<lambda>r t. r = None \<longrightarrow> (\<exists>t2. ((\<exists>t1. P t1 \<and> leads t1 t2) \<and> owns l idx i t2) \<and> leads t2 t))"
  unfolding CheckOwnership_def
  by (rule spec_bind[OF spec_read[where F = "\<lambda>r t. r = Inr (sql_select_allocation l (int64_of_u64 idx) (pg t))"]], simp,
      rule spec_ret) (auto simp: owns_def split: option.splits if_splits)

lemma spec_GetList_live:
  "spec (\<lambda>t. \<exists>t1. P t1 \<and> leads t1 t) (GetList l)
    (\<lambda>r t. \<forall>lm. r = Inr (Some lm) \<and> lm_State lm \<noteq> ARCHIVED \<longrightarrow>
       (\<exists>t2. ((\<exists>t1. P t1 \<and> leads t1 t2) \<and> (\<exists>row. live_row l row t2 \<and> lm = scanListMeta row)) \<and> leads t2 t))"
  unfolding GetList_def
  by (rule spec_post[OF spec_read[where F = "\<lambda>r t. \<forall>lm. r = Inr (Some lm) \<and> lm_State lm \<noteq> ARCHIVED \<longrightarrow>
        (\<exists>row. live_row l row t \<and> lm = scanListMeta row)"]])
     (auto simp: live_row_def scanListMeta_def)

definition updated ::
  "Server \<Rightarrow> string \<Rightarrow> string \<Rightarrow> string \<Rightarrow> string body \<Rightarrow> (stores \<Rightarrow> bool) \<Rightarrow> stores \<Rightarrow> bool" where
  "updated s l issuer idxParam body P t \<longleftrightarrow> (\<exists>t0 t1 t2 t3 idx v row. P t0 \<and> leads t0 t1 \<and> leads t1 t2 \<and> leads t2 t3
     \<and> parsed idxParam body idx v \<and> owns l idx issuer t1 \<and> live_row l row t2
     \<and> leads (set_byte s l idx (lr_bits row) v t3) t)"

lemma stable_updated: "stable (updated s l i ip b P)"
  unfolding updated_def stable_def by (blast intro: leads_trans)

lemma spec_write:
  assumes "parsed ip b idx v"
  shows "spec (\<lambda>t. \<exists>t2. ((\<exists>t1. ((\<exists>t0. P t0 \<and> leads t0 t1) \<and> owns l idx i t1) \<and> leads t1 t2)
        \<and> (\<exists>row. live_row l row t2 \<and> lm = scanListMeta row)) \<and> leads t2 t)
    (case ByteOffset idx (lm_Bits lm) of (byteIndex, bitOffset) \<Rightarrow> do {
       rs \<leftarrow> SetStatus (sv_shard s) l byteIndex bitOffset (lm_Bits lm) v;
       (case rs of
          Inl _ \<Rightarrow> ret (Error 500 ''could not update status'')
        | Inr _ \<Rightarrow> do { MarkDirty l (ic_DefaultTTLSeconds (sv_cfg s)); ret NoContent })
     })
    (\<lambda>r t. r = NoContent \<longrightarrow> updated s l i ip b P t)"
    (is "spec ?Pre _ _")
proof -
  obtain q off where bo: "ByteOffset idx (lm_Bits lm) = (q, off)" by fastforce
  have st: "stable ?Pre" using stable_leads[where f = "\<lambda>t. t"] .
  have upd: "updated s l i ip b P t"
    if "?Pre t3" "leads (exec (KvSetByte (sv_shard s) l (unat q) (uint off) (lm_Bits lm) v) t3) t" for t3 t
  proof -
    from that(1) obtain t0 t1 t2 row where "P t0" "leads t0 t1" "owns l idx i t1" "leads t1 t2" "live_row l row t2"
      "lm = scanListMeta row" "leads t2 t3" by blast
    moreover have "lm_Bits lm = lr_bits row" using \<open>lm = scanListMeta row\<close> by (simp add: scanListMeta_def)
    ultimately show ?thesis
      using that(2) assms bo unfolding updated_def set_byte_def by (metis fst_conv snd_conv)
  qed
  have set: "spec ?Pre (SetStatus (sv_shard s) l q off (lm_Bits lm) v)
      (\<lambda>r t. \<forall>n. r = Inr n \<longrightarrow> updated s l i ip b P t)"
    by (rule spec_post[OF spec_SetStatus[OF st]]) (use upd in blast)
  have fin: "spec (updated s l i ip b P) (do { MarkDirty l ttl; ret NoContent }) (\<lambda>r t. updated s l i ip b P t)" for ttl
    by (rule spec_bind[OF spec_MarkDirty[OF stable_updated]], rule spec_ret)
  show ?thesis
    unfolding bo prod.case
    by (rule spec_bind[OF set], rule spec_case_sum, simp add: spec_ret, rule spec_post[OF spec_pre[OF fin]]) simp_all
qed

lemma spec_case_body:
  "(b = EmptyBody \<Longrightarrow> spec P f Q) \<Longrightarrow> (b = Malformed \<Longrightarrow> spec P g Q) \<Longrightarrow> (\<And>x. b = Json x \<Longrightarrow> spec P (h x) Q)
   \<Longrightarrow> spec P (case b of EmptyBody \<Rightarrow> f | Malformed \<Rightarrow> g | Json x \<Rightarrow> h x) Q"
  by (cases b) auto

lemma spec_handleSetStatus:
  "spec P (handleSetStatus s au l ip b) (\<lambda>r t. r = NoContent \<longrightarrow> updated s l (issuerFromContext au) ip b P t)"
proof -
  let ?Q = "\<lambda>r t. r = NoContent \<longrightarrow> updated s l (issuerFromContext au) ip b P t"
  have err: "spec R (ret (Error c m)) ?Q" for R :: "stores \<Rightarrow> bool" and c m by (rule spec_ret) simp
  have body: "spec P (do {
       ro \<leftarrow> CheckOwnership l idx (issuerFromContext au);
       (case ro of
          Some e \<Rightarrow> ret (if e = ErrNotOwner then Error 403 ''you do not own this index'' else Error 500 ''could not verify ownership'')
        | None \<Rightarrow> do {
            rl \<leftarrow> GetList l;
            (case rl of
               Inr (Some lm) \<Rightarrow>
                 if lm_State lm = ARCHIVED then ret (Error 410 ''this status list has been archived; no further updates are possible'')
                 else (case ByteOffset idx (lm_Bits lm) of (byteIndex, bitOffset) \<Rightarrow> do {
                   rs \<leftarrow> SetStatus (sv_shard s) l byteIndex bitOffset (lm_Bits lm) v;
                   (case rs of
                      Inl _ \<Rightarrow> ret (Error 500 ''could not update status'')
                    | Inr _ \<Rightarrow> do { MarkDirty l (ic_DefaultTTLSeconds (sv_cfg s)); ret NoContent })
                 })
             | _ \<Rightarrow> ret (Error 404 ''list not found''))
          }) }) ?Q" if p: "parsed ip b idx v" for idx v
    by (rule spec_bind[OF spec_pre[OF spec_CheckOwnership[where P = P]]], (use leads_refl in blast),
        rule spec_case_option, 
        rule spec_bind[OF spec_pre[OF spec_GetList_live[where P = "\<lambda>t. (\<exists>t0. P t0 \<and> leads t0 t) \<and> owns l idx (issuerFromContext au) t"]]],
        blast, rule spec_case_sum, rule err, rule spec_case_option, rule err, rule spec_if, rule err,
        rule spec_pre[OF spec_write[OF p, where P = P]], blast, rule spec_ret, simp)
  show ?thesis
    unfolding handleSetStatus_def
    by (rule spec_case_option, rule err, rule spec_case_body, rule err, rule err, rule spec_if, rule err,
        rule spec_case_option, rule err, rule body, simp add: parsed_def)
qed

text \<open>
  C3. Only the owner changes a status, whatever runs concurrently: when \<open>PATCH /status\<close> answers 204,
  the index was recorded for the caller at a moment during the request, the list existed and was not
  archived at a later moment, and the byte written afterwards is the one of that index at the width
  of the list's row, with the named status.
\<close>

theorem set_status_only_by_owner:
  assumes "run_state (handleSetStatus s au l idxParam body) w = (NoContent, w')"
  shows "\<exists>t1 t2 t3 idx v row. leads (st w) t1 \<and> leads t1 t2 \<and> leads t2 t3
     \<and> parsed idxParam body idx v \<and> owns l idx (issuerFromContext au) t1 \<and> live_row l row t2
     \<and> leads (set_byte s l idx (lr_bits row) v t3) (st w')"
proof -
  have "updated s l (issuerFromContext au) idxParam body (\<lambda>t. t = st w) (st w')"
    using spec_handleSetStatus[of "\<lambda>t. t = st w" s au l idxParam body] assms by (auto simp: spec_def)
  then show ?thesis unfolding updated_def by blast
qed

section \<open>Status updates with nothing else running\<close>

lemma quiet_pg_query:
  "quiet (\<lambda>t. t = t0) (pg_query f) (\<lambda>r t. t = t0 \<and> (r = Inl ErrDb \<or> r = Inr (f (pg t0))))"
  unfolding pg_query_def by (rule quiet_remote) auto

lemma quiet_MarkDirty: "quiet P (MarkDirty l ttl) (\<lambda>_. P)"
  unfolding MarkDirty_def
  by (rule quiet_bind[where Q = "\<lambda>_. P"], rule quiet_time_now, assumption,
      rule quiet_bind[where Q = "\<lambda>_. P"], rule quiet_time_now, assumption)
     (simp add: quiet_def modify_proc_def)

lemma quiet_SetStatus:
  "quiet (\<lambda>t. t = t0) (SetStatus sh l q off bits v)
     (\<lambda>r t. \<forall>n. r = Inr n \<longrightarrow> t = exec (KvIncr sh l) (exec (KvSetByte sh l (unat q) (uint off) bits v) t0)
        \<and> n = live_version sh l t0 + 1 \<and> live_version sh l t = n)"
proof -
  let ?t1 = "exec (KvSetByte sh l (unat q) (uint off) bits v) t0"
  have ver: "live_version sh l ?t1 = live_version sh l t0"
    by (auto simp: live_version_def on_kv_def or_same_def setByteScript_def kv_setrange_def Let_def
        split: sum.splits if_splits)
  have incr: "quiet (\<lambda>t. t = ?t1) (call_act ErrRedis (KvIncr sh l)
      (\<lambda>s. case kv_incr (versionKey l) (kv s sh) of Inl e \<Rightarrow> Inl e | Inr (v, _) \<Rightarrow> Inr v))
      (\<lambda>r t. \<forall>n. r = Inr n \<longrightarrow> t = exec (KvIncr sh l) ?t1 \<and> n = live_version sh l t0 + 1 \<and> live_version sh l t = n)"
    unfolding ver[symmetric]
    by (rule quiet_call_act)
       (auto simp: live_version_def kv_incr_def Let_def on_kv_def or_same_def simp del: exec.simps(11) split: if_splits)
  show ?thesis
    unfolding SetStatus_def
    by (rule quiet_bind[where Q = "\<lambda>r t. \<forall>n. r = Inr n \<longrightarrow> t = ?t1"], rule quiet_call_act, simp, simp, simp,
        rule quiet_case_sum, rule quiet_ret, simp, rule quiet_pre[OF incr], simp)
qed

definition may_update :: "string \<Rightarrow> string \<Rightarrow> string \<Rightarrow> string body \<Rightarrow> u64 \<Rightarrow> byte \<Rightarrow> list_row \<Rightarrow> stores \<Rightarrow> bool" where
  "may_update l issuer ip b idx v row t \<longleftrightarrow> parsed ip b idx v \<and> owns l idx issuer t \<and> live_row l row t"

lemma quiet_case_body:
  "(b = EmptyBody \<Longrightarrow> quiet P f Q) \<Longrightarrow> (b = Malformed \<Longrightarrow> quiet P g Q) \<Longrightarrow> (\<And>x. b = Json x \<Longrightarrow> quiet P (h x) Q)
   \<Longrightarrow> quiet P (case b of EmptyBody \<Rightarrow> f | Malformed \<Rightarrow> g | Json x \<Rightarrow> h x) Q"
  by (cases b) auto

lemma quiet_CheckOwnership:
  "quiet (\<lambda>t. t = t0) (CheckOwnership l idx i) (\<lambda>r t. t = t0 \<and> (r = None \<longrightarrow> owns l idx i t0))"
  unfolding CheckOwnership_def
  by (rule quiet_bind[OF quiet_pg_query], rule quiet_ret) (auto simp: owns_def split: option.splits if_splits)

lemma quiet_GetList:
  "quiet (\<lambda>t. t = t0) (GetList l)
     (\<lambda>r t. t = t0 \<and> (\<forall>lm. r = Inr (Some lm) \<longrightarrow> (\<exists>row. sql_select_list l (pg t0) = Some row \<and> lm = scanListMeta row)))"
  unfolding GetList_def by (rule quiet_post[OF quiet_pg_query]) (auto dest!: sym[of "Some _"])

lemma quiet_handleSetStatus:
  "quiet (\<lambda>t. t = t0) (handleSetStatus s au l ip b)
     (\<lambda>r t. if r = NoContent then \<exists>idx v row. may_update l (issuerFromContext au) ip b idx v row t0
          \<and> t = exec (KvIncr (sv_shard s) l) (set_byte s l idx (lr_bits row) v t0)
          \<and> live_version (sv_shard s) l t = live_version (sv_shard s) l t0 + 1
        else t = t0 \<or> (\<exists>idx v row. may_update l (issuerFromContext au) ip b idx v row t0))"
  (is "quiet _ _ ?Q")
proof -
  have err: "quiet (\<lambda>t. t = t0 \<and> R) (ret (Error c m)) ?Q" for R c m by (rule quiet_ret) simp
  have wr: "quiet (\<lambda>t. t = t0) (case ByteOffset idx (lm_Bits lm) of (byteIndex, bitOffset) \<Rightarrow> do {
       rs \<leftarrow> SetStatus (sv_shard s) l byteIndex bitOffset (lm_Bits lm) v;
       (case rs of
          Inl _ \<Rightarrow> ret (Error 500 ''could not update status'')
        | Inr _ \<Rightarrow> do { MarkDirty l (ic_DefaultTTLSeconds (sv_cfg s)); ret NoContent })
     }) ?Q" if m: "may_update l (issuerFromContext au) ip b idx v row t0" "lm = scanListMeta row" for idx v lm row
  proof -
    obtain q off where bo: "ByteOffset idx (lm_Bits lm) = (q, off)" by fastforce
    have bits: "lm_Bits lm = lr_bits row" using m(2) by (simp add: scanListMeta_def)
    define W where "W t \<longleftrightarrow> t = exec (KvIncr (sv_shard s) l) (set_byte s l idx (lr_bits row) v t0)
      \<and> live_version (sv_shard s) l t = live_version (sv_shard s) l t0 + 1" for t
    have set: "quiet (\<lambda>t. t = t0) (SetStatus (sv_shard s) l q off (lm_Bits lm) v) (\<lambda>r t. \<forall>n. r = Inr n \<longrightarrow> W t)"
      by (rule quiet_post[OF quiet_SetStatus]) (use bo bits in \<open>auto simp: W_def set_byte_def simp del: exec.simps\<close>)
    have fin: "quiet W (do { MarkDirty l ttl; ret NoContent }) ?Q" for ttl
      by (rule quiet_bind[OF quiet_MarkDirty], rule quiet_ret) (use m in \<open>auto simp: W_def simp del: exec.simps\<close>)
    show ?thesis
      unfolding bo prod.case
      by (rule quiet_bind[OF set], rule quiet_case_sum, rule quiet_ret, (use m in force), rule quiet_pre[OF fin]) simp
  qed
  have own: "quiet (\<lambda>t. t = t0) (do {
       ro \<leftarrow> CheckOwnership l idx (issuerFromContext au);
       (case ro of
          Some e \<Rightarrow> ret (if e = ErrNotOwner then Error 403 ''you do not own this index'' else Error 500 ''could not verify ownership'')
        | None \<Rightarrow> do {
            rl \<leftarrow> GetList l;
            (case rl of
               Inr (Some lm) \<Rightarrow>
                 if lm_State lm = ARCHIVED then ret (Error 410 ''this status list has been archived; no further updates are possible'')
                 else (case ByteOffset idx (lm_Bits lm) of (byteIndex, bitOffset) \<Rightarrow> do {
                   rs \<leftarrow> SetStatus (sv_shard s) l byteIndex bitOffset (lm_Bits lm) v;
                   (case rs of
                      Inl _ \<Rightarrow> ret (Error 500 ''could not update status'')
                    | Inr _ \<Rightarrow> do { MarkDirty l (ic_DefaultTTLSeconds (sv_cfg s)); ret NoContent })
                 })
             | _ \<Rightarrow> ret (Error 404 ''list not found''))
          }) }) ?Q" if p: "parsed ip b idx v" for idx v
  proof (rule quiet_bind[OF quiet_CheckOwnership], rule quiet_case_option,
      rule quiet_pre[OF quiet_pure[where c = "owns l idx (issuerFromContext au) t0" and P = "\<lambda>t. t = t0"]], goal_cases)
    case (1 ro)
    note own_t0 = 1(2)
    show ?case
    proof (rule quiet_bind[OF quiet_GetList], rule quiet_case_sum, rule err, rule quiet_case_option, rule err,
        rule quiet_if, rule err, goal_cases)
      case (1 rl lmo lm)
      show ?case
      proof (rule quiet_pre[OF quiet_pure[where c = "\<exists>row. sql_select_list l (pg t0) = Some row \<and> lm = scanListMeta row"
            and P = "\<lambda>t. t = t0"]])
        assume "\<exists>row. sql_select_list l (pg t0) = Some row \<and> lm = scanListMeta row"
        then obtain row where row: "sql_select_list l (pg t0) = Some row" "lm = scanListMeta row" by blast
        then have "live_row l row t0" using 1 by (simp add: live_row_def scanListMeta_def)
        then show "quiet (\<lambda>t. t = t0) (case ByteOffset idx (lm_Bits lm) of (byteIndex, bitOffset) \<Rightarrow> do {
           rs \<leftarrow> SetStatus (sv_shard s) l byteIndex bitOffset (lm_Bits lm) v;
           (case rs of
              Inl _ \<Rightarrow> ret (Error 500 ''could not update status'')
            | Inr _ \<Rightarrow> do { MarkDirty l (ic_DefaultTTLSeconds (sv_cfg s)); ret NoContent }) }) ?Q"
          using p own_t0 by (intro wr[OF _ row(2)]) (simp add: may_update_def)
      qed (use 1 in simp)
    qed
  qed (simp, rule quiet_ret, simp)
  show ?thesis
    unfolding handleSetStatus_def
    by (rule quiet_case_option, rule quiet_ret, simp, rule quiet_case_body, rule quiet_ret, simp, rule quiet_ret, simp,
        rule quiet_if, rule quiet_ret, simp, rule quiet_case_option, rule quiet_ret, simp, rule own, simp add: parsed_def)
qed

text \<open>
  C30. A status update without authority changes nothing: when nothing else runs and the request does not
  name an index recorded for the caller in a list that exists and is not archived, with a known status,
  the answer is an error and every store is exactly as before, whichever of the calls fail.
\<close>

theorem set_status_rejected_without_effect:
  assumes "sched w = []" "\<not> (\<exists>idx v row. may_update l (issuerFromContext au) idxParam body idx v row (st w))"
  shows "result (handleSetStatus s au l idxParam body) w \<noteq> NoContent
       \<and> st (after (handleSetStatus s au l idxParam body) w) = st w"
  using quietD[OF quiet_handleSetStatus assms(1), of "st w" s au l idxParam body] assms(2) by (auto split: if_splits)

lemma kv_exec_incr:
  "ks_strings (kv (exec (KvIncr sh l) t) sh) = ks_strings (kv t sh)"
  "kv (exec (KvIncr sh l) t) sh' = (if sh' = sh then kv (exec (KvIncr sh l) t) sh else kv t sh')"
  "pg (exec (KvIncr sh l) t) = pg t" "clock (exec (KvIncr sh l) t) = clock t"
  by (auto simp: on_kv_def or_same_def kv_incr_def Let_def split: sum.splits if_splits)

lemma kv_set_byte:
  "kv (set_byte s l idx bits v t) (sv_shard s) = kv_write l bits (kv t (sv_shard s)) (unat idx) v"
  "sh \<noteq> sv_shard s \<Longrightarrow> kv (set_byte s l idx bits v t) sh = kv t sh"
  "pg (set_byte s l idx bits v t) = pg t" "clock (set_byte s l idx bits v t) = clock t"
  using kv_exec_set_byte[of idx bits "fst (ByteOffset idx bits)" "snd (ByteOffset idx bits)" "sv_shard s" l v t]
  by (simp_all add: set_byte_def on_kv_def)

lemma kv_strings_cong:
  "ks_strings a (bitmapKey l) = ks_strings b (bitmapKey l) \<Longrightarrow> kv_read l bits a = kv_read l bits b"
  "ks_strings a (bitmapKey l) = ks_strings b (bitmapKey l) \<Longrightarrow> kv_inv l n bits a = kv_inv l n bits b"
  by (simp_all add: kv_read_def kv_inv_def fun_eq_iff)

lemma acknowledged_update:
  assumes "sched w = []" "run_state (handleSetStatus s au l idxParam body) w = (NoContent, w')"
  shows "\<exists>idx v row. may_update l (issuerFromContext au) idxParam body idx v row (st w)
     \<and> (\<forall>n. kv_inv l n (lr_bits row) (kv (st w) (sv_shard s)) \<and> unat idx < n \<longrightarrow>
          kv_inv l n (lr_bits row) (kv (st w') (sv_shard s))
          \<and> (\<forall>j<n. kv_read l (lr_bits row) (kv (st w') (sv_shard s)) j =
               (if j = unat idx then v AND mask (nat (lr_bits row)) else kv_read l (lr_bits row) (kv (st w) (sv_shard s)) j)))
     \<and> live_version (sv_shard s) l (st w') = live_version (sv_shard s) l (st w) + 1
     \<and> (\<forall>sh. sh \<noteq> sv_shard s \<longrightarrow> kv (st w') sh = kv (st w) sh) \<and> pg (st w') = pg (st w)"
proof -
  obtain idx v row where m: "may_update l (issuerFromContext au) idxParam body idx v row (st w)"
    and t: "st w' = exec (KvIncr (sv_shard s) l) (set_byte s l idx (lr_bits row) v (st w))"
    and ver: "live_version (sv_shard s) l (st w') = live_version (sv_shard s) l (st w) + 1"
    using quietD[OF quiet_handleSetStatus assms(1), of "st w" s au l idxParam body] assms(2) by auto
  have str: "ks_strings (kv (st w') (sv_shard s)) (bitmapKey l)
      = ks_strings (kv_write l (lr_bits row) (kv (st w) (sv_shard s)) (unat idx) v) (bitmapKey l)"
    by (simp add: t kv_exec_incr(1) kv_set_byte(1) del: exec.simps)
  have others: "kv (st w') sh = kv (st w) sh" if "sh \<noteq> sv_shard s" for sh
    using kv_exec_incr(2)[of "sv_shard s" l "set_byte s l idx (lr_bits row) v (st w)" sh] that
    by (simp add: t kv_set_byte(2) del: exec.simps)
  have "kv_inv l n (lr_bits row) (kv (st w') (sv_shard s))
      \<and> (\<forall>j<n. kv_read l (lr_bits row) (kv (st w') (sv_shard s)) j =
           (if j = unat idx then v AND mask (nat (lr_bits row)) else kv_read l (lr_bits row) (kv (st w) (sv_shard s)) j))"
    if "kv_inv l n (lr_bits row) (kv (st w) (sv_shard s))" "unat idx < n" for n
    using kv_read_write[OF that, of _ v] kv_strings_cong[OF str] that(2) by auto
  then show ?thesis
    using m ver others t kv_exec_incr(3) kv_set_byte(3) by (intro exI[of _ idx] exI[of _ v] exI[of _ row]) metis
qed


lemma sum_list_sort_key: "(\<Sum>x\<leftarrow>sort_key f xs. g x) = (\<Sum>x\<leftarrow>xs. g x :: int)"
proof -
  have "mset (map g (sort_key f xs)) = mset (map g xs)" by simp
  then show ?thesis by (metis sum_mset_sum_list)
qed

text \<open>
  C31. Self-service accounting: whatever runs concurrently, the answer of \<open>GET /accounting/me\<close> lists the
  counters of the caller only, one per shard in shard order, as they stood at one moment during the
  request, and their sum covers every allocation of the caller at that moment.
\<close>

theorem accounting_is_own_usage:
  assumes "store_inv (st w)" "run_state (handleAccountingMe au) w = (Usage issuer us, w')"
  shows "issuer = issuerFromContext au \<and> (\<exists>t. leads (st w) t \<and> leads t (st w')
     \<and> us = map (\<lambda>u. (us_shard_id u, us_index_count u))
              (sort_key us_shard_id (filter (\<lambda>u. us_issuer_id u = issuer) (issuer_usage (pg t))))
     \<and> sorted (map fst us) \<and> (\<Sum>u\<leftarrow>us. snd u) = usage_total issuer (issuer_usage (pg t))
     \<and> (\<not> collided t \<longrightarrow> int (allocs_by issuer (allocations (pg t))) \<le> (\<Sum>u\<leftarrow>us. snd u)))"
proof -
  let ?i = "issuerFromContext au"
  let ?q = "\<lambda>db. sort_key us_shard_id (filter (\<lambda>u. us_issuer_id u = ?i) (issuer_usage db))"
  obtain t w1 x where r: "run_state (GetUsage ?i) w = (x, w1)" "leads (st w) t" "st w1 = t"
      "x = Inl ErrDb \<or> x = Inr (?q (pg t))"
    unfolding GetUsage_def pg_query_def by (rule run_read[where f = "\<lambda>s. ?q (pg s)"])
  then have e: "issuer = ?i" "us = map (\<lambda>u. (us_shard_id u, us_index_count u)) (?q (pg t))" "w' = w1"
    using assms(2) by (auto simp: handleAccountingMe_def)
  have total: "(\<Sum>u\<leftarrow>us. snd u) = usage_total ?i (issuer_usage (pg t))"
  proof -
    have "(\<Sum>u\<leftarrow>us. snd u) = (\<Sum>u\<leftarrow>?q (pg t). us_index_count u)" by (simp add: e(2) comp_def)
    also have "\<dots> = (\<Sum>u\<leftarrow>filter (\<lambda>u. us_issuer_id u = ?i) (issuer_usage (pg t)). us_index_count u)"
      by (rule sum_list_sort_key)
    also have "\<dots> = usage_total ?i (issuer_usage (pg t))"
      by (simp add: usage_total_def sum_list_map_filter')
    finally show ?thesis .
  qed
  have "usage_covers (pg t)" if "\<not> collided t"
    using stableD[OF stable_store_inv assms(1) r(2)] that by (simp add: store_inv_def good_def)
  moreover have "sorted (map fst us)" by (simp add: e(2) comp_def)
  ultimately show ?thesis
    using e r total leads_refl by (intro conjI exI[of _ t]) (auto simp: usage_covers_def)
qed

text \<open>
  A request whose token belongs to another shard, or lacks the permission of the route, is turned
  away before the handler runs: the answer is an abort or a 403, and nothing at all has changed.
\<close>

theorem foreign_token_rejected:
  assumes "TokenAuth tg authorization = Inr (Some au)"
    "au_TenantID au \<noteq> sv_shard s \<or> MustHaveTAC tg tac (Some au) \<noteq> None"
    "(req, tac) \<in> {(PostAllocate authorization b1, ''i''), (PatchStatus authorization l idx b2, ''w''), (GetAccounting authorization, ''r'')}"
  shows "\<exists>code. run_state (Ingestion_Router tg hmac s req) w
     = (if au_TenantID au \<noteq> sv_shard s then Error 403 ''token is not authorized for this shard'' else Aborted code, w)"
  using assms by (auto simp: Ingestion_Router_def authed_def requireShard_def)

section \<open>Requests on a small deployment\<close>

text \<open>One active list of two entries, at two bits each, empty; and the same list after an allocation.\<close>

definition demo_empty :: stores where
  "demo_empty = fold act_step [PgCreateList ''a.1'' 2 2 (replicate 32 7) ''a'', KvInit ''a'' ''a.1'' [0]] initial"

definition demo_row :: list_row where
  "demo_row = \<lparr>lr_id = ''a.1'', lr_bits = 2, lr_size = 2, lr_cursor = 0, lr_fpe_key = replicate 32 7, lr_max_exp = None,
     lr_state = ACTIVE, lr_created_at = 0, lr_archived_at = None, lr_purged = False, lr_shard_id = ''a'', lr_purged_at = None\<rparr>"

definition demo_owned :: stores where
  "demo_owned = fold act_step [PgReserve ''a.1'' ''alice'' ''a'' 5000 Inr] demo_empty"

definition demo_cfg :: IngestionConfig where
  "demo_cfg = \<lparr>ic_HTTPAddr = [], ic_BaseURL = ''https://s'', ic_RedisAddr = [], ic_RedisURL = [], ic_PostgresDSN = [],
     ic_ShardID = ''a'', ic_ListCapacity = 2, ic_ListBits = 2, ic_PoolWidth = 1, ic_RotationMaxAge = 0, ic_PoolCheckInterval = 0,
     ic_DefaultTTLSeconds = 60, ic_PublishInterval = 0, ic_DecoyNoiseRate = 0, ic_DecoyCheckInterval = 0, ic_MaxExpiry = 9000,
     ic_GCGracePeriod = 0, ic_GCRetentionPeriod = 0, ic_GCCheckInterval = 0, ic_DBRetentionPeriod = 0,
     ic_Signing = KeySource 0, ic_SigningKeyID = [], ic_SigningCertChain = [], ic_ASJWKSURL = [], ic_AccessTokenIssuer = [],
     ic_AccessTokenAudience = [], ic_JWKSRefreshInterval = 0\<rparr>"

definition demo_server :: Server where
  "demo_server = \<lparr>sv_cfg = demo_cfg, sv_pool = demo_manager\<rparr>"

definition demo_auth :: "string \<Rightarrow> auth_result" where
  "demo_auth tenant = \<lparr>au_UserID = ''alice'', au_TenantID = tenant, au_TAC = ''riw''\<rparr>"

definition demo_proc :: pub_state where
  "demo_proc = \<lparr>cache = (\<lambda>_. None), debounce = newLeadingDebouncer, tasks = []\<rparr>"

lemma demo_empty_state:
  "pg demo_empty = \<lparr>lists = [demo_row], allocations = [], issuer_usage = [], issuer_shard = []\<rparr>"
  "kv demo_empty ''a'' = \<lparr>ks_strings = [bitmapKey ''a.1'' \<mapsto> [0]], ks_counters = Map.empty\<rparr>"
  "clock demo_empty = 0" "\<not> collided demo_empty"
  by (simp_all add: demo_empty_def act_step_def permitted_def initial_def empty_pg_def sql_insert_list_def on_kv_def
      or_same_def kv_setnx_def empty_keyspace_def demo_row_def pgtz_def int64_of_u64_def)

lemma demo_owned_state:
  "pg demo_owned = \<lparr>lists = [reserved_row 5000 demo_row],
     allocations = [\<lparr>ar_list_id = ''a.1'', ar_idx = 0, ar_issuer_id = ''alice'', ar_exp = 5000, ar_created_at = 0\<rparr>],
     issuer_usage = [\<lparr>us_issuer_id = ''alice'', us_shard_id = ''a'', us_index_count = 1, us_updated_at = 0\<rparr>], issuer_shard = []\<rparr>"
  "kv demo_owned = kv demo_empty" "clock demo_owned = 0" "\<not> collided demo_owned"
  by (simp_all add: demo_owned_def act_step_def permitted_def on_pg_def or_same_def reserve_tx_def sql_reserve_cursor_def
      reservable_def sql_update_lists_def sql_bump_max_exp_def sql_insert_allocation_def sql_select_list_def
      demo_empty_state sql_count_usage_def reserved_row_def advance_def int64_of_u64_def u64_of_int_def greatest_def
      pgtz_def demo_row_def)

lemma store_inv_demo: "store_inv demo_empty" "store_inv demo_owned"
proof -
  show e: "store_inv demo_empty"
    unfolding demo_empty_def by (rule stableD[OF stable_store_inv store_inv_initial leads_act_steps])
  show "store_inv demo_owned"
    unfolding demo_owned_def by (rule stableD[OF stable_store_inv e leads_act_steps])
qed

abbreviation demo_world :: "stores \<Rightarrow> pub_state world" where
  "demo_world t \<equiv> quiet_world t demo_proc"

lemmas run_world_defs = remote_def interfere_def next_fate_def apply_store_def time_now_def modify_proc_def quiet_world_def

lemma run_read_quiet:
  "run_state (pg_query f) (demo_world t) = (Inr (f (pg t)), demo_world t)"
  by (simp add: pg_query_def run_world_defs)

lemma run_act_quiet:
  "run_state (call_act e a ans) (demo_world t) = (ans t, demo_world (exec a t))"
  by (simp add: call_act_def run_world_defs del: exec.simps)

lemma run_MarkDirty_quiet:
  "\<exists>p. run_state (MarkDirty l ttl) (demo_world t) = ((), quiet_world t p)"
  by (simp add: MarkDirty_def run_world_defs split: prod.splits)

definition demo_hmac :: "bytes \<Rightarrow> bytes \<Rightarrow> bytes" where "demo_hmac k m = []"

lemma demo_alloc: "New (replicate 32 7) 2 = Inr \<lparr>al_key = replicate 32 7, al_n = 2, al_half = 1\<rparr>"
  by (simp add: New_def Len64_def bit_len.simps)

lemma demo_index: "Index demo_hmac \<lparr>al_key = k, al_n = 2, al_half = 1\<rparr> 0 = Inr 0"
  by code_simp

lemma demo_pick: "run_state (PickForAllocation demo_manager) (demo_world demo_empty) = (Inr (Some (scanListMeta demo_row)), demo_world demo_empty)"
  by (simp add: PickForAllocation_def ActiveLists_def queryLists_def run_read_quiet demo_empty_state
      sql_select_lists_def demo_manager_def ChooseByPowerOfTwo_def demo_row_def)

lemma demo_reserve:
  "run_state (ReserveCursorAndRecord ''a.1'' ''alice'' ''a'' 9000 (Index demo_hmac \<lparr>al_key = k, al_n = 2, al_half = 1\<rparr>)) (demo_world demo_empty)
   = (Inr 0, demo_world (exec (PgReserve ''a.1'' ''alice'' ''a'' 9000 (Index demo_hmac \<lparr>al_key = k, al_n = 2, al_half = 1\<rparr>)) demo_empty))"
  unfolding ReserveCursorAndRecord_def run_act_quiet
  by (simp add: reserve_tx_def sql_reserve_cursor_def reservable_def demo_empty_state demo_row_def demo_index[unfolded One_nat_def]
      sql_update_lists_def sql_bump_max_exp_def sql_insert_allocation_def sql_select_list_def advance_def u64_of_int_def del: exec.simps)

lemma demo_set_status:
  assumes "kv t ''a'' = kv demo_empty ''a''"
  shows "\<exists>t'. run_state (SetStatus ''a'' ''a.1'' 0 0 2 v) (demo_world t) = (Inr 1, demo_world t')"
proof -
  have inv: "kv_inv ''a.1'' 2 2 (kv t ''a'')" by (simp add: assms demo_empty_state kv_inv_def ValidBitWidth_def)
  obtain b ks where b: "setByteScript (bitmapKey ''a.1'') 0 0 2 v (kv t ''a'') = Inr (b, ks)"
    using setByteScript_index[OF inv, of 0 0 0 "[0]" v]
    by (auto simp: assms demo_empty_state ByteOffset_def u64_of_int_def)
  have "ks_counters ks (versionKey ''a.1'') = None"
    using b by (auto simp: setByteScript_def Let_def kv_setrange_def assms demo_empty_state split: if_splits)
  then show ?thesis
    unfolding SetStatus_def
    by (simp add: run_act_quiet b on_kv_def or_same_def kv_incr_def Let_def del: exec.simps(12)) blast
qed

lemma demo_allocate:
  "\<exists>w'. run_state (handleAllocate demo_hmac demo_server (Some (demo_auth ''a'')) EmptyBody) (demo_world demo_empty)
     = (Allocated ''https://s/lists/a.1'' 0 9000, w')"
proof -
  let ?a = "\<lparr>al_key = replicate 32 7, al_n = 2, al_half = 1\<rparr>"
  let ?t = "exec (PgReserve ''a.1'' ''alice'' ''a'' 9000 (Index demo_hmac ?a)) demo_empty"
  have now: "run_state time_now (demo_world demo_empty) = (0, demo_world demo_empty)"
    by (simp add: run_world_defs demo_empty_state)
  have "kv ?t ''a'' = kv demo_empty ''a''" by (simp add: on_pg_def)
  from demo_set_status[OF this, of 0] obtain t' where
    set: "run_state (SetStatus ''a'' ''a.1'' 0 0 2 0) (demo_world ?t) = (Inr 1, demo_world t')" by blast
  obtain p where dirty: "run_state (MarkDirty ''a.1'' 60) (demo_world t') = ((), quiet_world t' p)"
    using run_MarkDirty_quiet by blast
  have lm: "lm_ID (scanListMeta demo_row) = ''a.1''" "lm_FPEKey (scanListMeta demo_row) = replicate 32 7"
    "lm_Size (scanListMeta demo_row) = 2" "lm_Bits (scanListMeta demo_row) = 2" "ByteOffset 0 2 = (0, 0)"
    by (simp_all add: scanListMeta_def demo_row_def u64_of_int_def ByteOffset_def)
  have sv: "sv_pool demo_server = demo_manager" "sv_shard demo_server = ''a''" "ic_DefaultTTLSeconds (sv_cfg demo_server) = 60"
    "ic_BaseURL (sv_cfg demo_server) = ''https://s''" "ic_MaxExpiry (sv_cfg demo_server) = 9000"
    "issuerFromContext (Some (demo_auth ''a'')) = ''alice''"
    by (simp_all add: demo_server_def demo_cfg_def demo_auth_def issuerFromContext_def)
  have "\<exists>w'. run_state (allocate_attempts demo_hmac demo_server ''alice'' 9000 (Suc k)) (demo_world demo_empty)
      = (Allocated ''https://s/lists/a.1'' 0 9000, w')" for k
    by (simp add: sv demo_pick lm demo_alloc[unfolded One_nat_def] demo_reserve[unfolded One_nat_def] set[unfolded One_nat_def]
        dirty del: exec.simps)
  from this[of 4] show ?thesis by (simp add: handleAllocate_def now sv)
qed

theorem allocate_grants_index_witness:
  "\<exists>w' lm t. run_state (handleAllocate demo_hmac demo_server (Some (demo_auth ''a'')) EmptyBody) (demo_world demo_empty)
       = (Allocated ''https://s/lists/a.1'' 0 9000, w')
     \<and> granted demo_server lm ''alice'' 9000 0 (st w') \<and> leads (reset_to_valid demo_server lm 0 t) (st w')"
proof -
  obtain w' where r: "run_state (handleAllocate demo_hmac demo_server (Some (demo_auth ''a'')) EmptyBody) (demo_world demo_empty)
       = (Allocated ''https://s/lists/a.1'' 0 9000, w')" using demo_allocate by blast
  have "store_inv (st (demo_world demo_empty))" using store_inv_demo by (simp add: quiet_world_def)
  from allocate_grants_index[OF this r] r show ?thesis by (auto simp: issuerFromContext_def demo_auth_def)
qed

lemma demo_patch:
  "\<exists>t' p. run_state (handleSetStatus demo_server (Some (demo_auth ''a'')) ''a.1'' ''0'' (Json ''INVALID'')) (demo_world demo_owned)
     = (NoContent, quiet_world t' p)"
proof -
  have idx: "ParseUint ''0'' = Some 0" by (simp add: ParseUint_def is_digit_def)
  have al: "sql_select_allocation ''a.1'' 0 (pg demo_owned)
      = Some \<lparr>ar_list_id = ''a.1'', ar_idx = 0, ar_issuer_id = ''alice'', ar_exp = 5000, ar_created_at = 0\<rparr>"
    "sql_select_list ''a.1'' (pg demo_owned) = Some (reserved_row 5000 demo_row)"
    by (simp_all add: demo_owned_state sql_select_allocation_def alloc_at_def sql_select_list_def demo_row_def)
  have row: "lm_State (scanListMeta (reserved_row 5000 demo_row)) = ACTIVE"
    "lm_Bits (scanListMeta (reserved_row 5000 demo_row)) = 2" "ByteOffset 0 2 = (0, 0)" "int64_of_u64 0 = 0"
    by (simp_all add: scanListMeta_def demo_row_def reserved_row_def advance_def ByteOffset_def u64_of_int_def int64_of_u64_def)
  have sv: "sv_shard demo_server = ''a''" "ic_DefaultTTLSeconds (sv_cfg demo_server) = 60"
    "issuerFromContext (Some (demo_auth ''a'')) = ''alice''" "statusNames ''INVALID'' = Some 1"
    by (simp_all add: demo_server_def demo_cfg_def demo_auth_def issuerFromContext_def statusNames_def)
  obtain t' where set: "run_state (SetStatus ''a'' ''a.1'' 0 0 2 1) (demo_world demo_owned) = (Inr 1, demo_world t')"
    using demo_set_status[of demo_owned 1] demo_owned_state(2) by auto
  obtain p where dirty: "run_state (MarkDirty ''a.1'' 60) (demo_world t') = ((), quiet_world t' p)"
    using run_MarkDirty_quiet by blast
  show ?thesis
    unfolding handleSetStatus_def CheckOwnership_def GetList_def
    by (simp add: idx sv run_read_quiet al row set dirty) blast
qed

theorem set_status_only_by_owner_witness:
  "\<exists>t1. leads demo_owned t1 \<and> (\<exists>idx. owns ''a.1'' idx ''alice'' t1)
     \<and> (\<exists>w'. run_state (handleSetStatus demo_server (Some (demo_auth ''a'')) ''a.1'' ''0'' (Json ''INVALID'')) (demo_world demo_owned)
           = (NoContent, w'))"
proof -
  obtain w' where r: "run_state (handleSetStatus demo_server (Some (demo_auth ''a'')) ''a.1'' ''0'' (Json ''INVALID''))
      (demo_world demo_owned) = (NoContent, w')" using demo_patch by blast
  from set_status_only_by_owner[OF r] r show ?thesis
    by (auto simp: quiet_world_def issuerFromContext_def demo_auth_def)
qed

theorem set_status_rejected_without_effect_witness:
  "result (handleSetStatus demo_server (Some (demo_auth ''a'')) ''a.1'' ''0'' (Json ''INVALID'')) (demo_world demo_empty) \<noteq> NoContent
   \<and> st (after (handleSetStatus demo_server (Some (demo_auth ''a'')) ''a.1'' ''0'' (Json ''INVALID'')) (demo_world demo_empty)) = demo_empty"
proof -
  have "\<not> owns l idx i (st (demo_world demo_empty))" for l idx i
    by (simp add: owns_def sql_select_allocation_def quiet_world_def demo_empty_state)
  then have no: "\<not> (\<exists>idx v row. may_update ''a.1'' (issuerFromContext (Some (demo_auth ''a''))) ''0'' (Json ''INVALID'') idx v row
      (st (demo_world demo_empty)))" by (simp add: may_update_def)
  have "sched (demo_world demo_empty) = []" "st (demo_world demo_empty) = demo_empty" by (simp_all add: quiet_world_def)
  then show ?thesis using set_status_rejected_without_effect[OF _ no, of demo_server] by metis
qed


theorem accounting_is_own_usage_witness:
  "\<exists>w' t. run_state (handleAccountingMe (Some (demo_auth ''a''))) (demo_world demo_owned) = (Usage ''alice'' [(''a'', 1)], w')
     \<and> leads demo_owned t \<and> usage_total ''alice'' (issuer_usage (pg t)) = 1"
proof -
  have r: "run_state (handleAccountingMe (Some (demo_auth ''a''))) (demo_world demo_owned)
      = (Usage ''alice'' [(''a'', 1)], demo_world demo_owned)"
    by (simp add: handleAccountingMe_def GetUsage_def run_read_quiet demo_owned_state issuerFromContext_def demo_auth_def)
  have "store_inv (st (demo_world demo_owned))" using store_inv_demo by (simp add: quiet_world_def)
  from accounting_is_own_usage[OF this r] r show ?thesis by (auto simp: quiet_world_def)
qed

theorem foreign_token_rejected_witness:
  "run_state (Ingestion_Router \<lparr>TokenAuth = (\<lambda>_. Inr (Some (demo_auth ''b''))), MustHaveTAC = (\<lambda>_ _. None)\<rparr> demo_hmac demo_server
     (PatchStatus ''Bearer t'' ''a.1'' ''0'' (Json ''INVALID''))) (demo_world demo_owned)
   = (Error 403 ''token is not authorized for this shard'', demo_world demo_owned)"
  using foreign_token_rejected[of "\<lparr>TokenAuth = (\<lambda>_. Inr (Some (demo_auth ''b''))), MustHaveTAC = (\<lambda>_ _. None)\<rparr>" "''Bearer t''"
      "demo_auth ''b''" demo_server "''w''" "PatchStatus ''Bearer t'' ''a.1'' ''0'' (Json ''INVALID'')" EmptyBody "''a.1''" "''0''"
      "Json ''INVALID''" demo_hmac "demo_world demo_owned"]
  by (simp add: demo_auth_def demo_server_def demo_cfg_def)

end
