(* ===== verification/Ingress.thy ===== *)
theory Ingress
  imports Ingestion ListID
begin

text \<open>
  The ingress router, \<open>src/internal/ingress/router.go\<close>: it validates the access token and forwards the
  request to the ingestion service of a shard, the one in the identifier of the list the path names, or else
  the one of the token. The token library (\<open>Validate\<close>) and the URL parser are arguments; an answer
  carries the labels of the counter \<open>IngressProxyTotal\<close> it increments.
\<close>

section \<open>Definitions\<close>

text \<open>A rejection either carries the expiry sentinel of one of the two token libraries or it does not.\<close>

datatype validate_error = TokenExpired | TokenRejected

datatype 'u ingress_response =
    Unauthorized string string
  | BadGateway string
  | ProxyTo 'u

record 'u Router =
  rt_validator :: "string \<Rightarrow> validate_error + auth_result"
  rt_proxies :: "string \<Rightarrow> 'u option"

record http_request =
  hr_Authorization :: string
  hr_Path :: string

fun build_proxies :: "(string \<Rightarrow> 'e + 'u) \<Rightarrow> (string \<Rightarrow> 'u option) \<Rightarrow> (string \<times> string) list \<Rightarrow> 'e + (string \<Rightarrow> 'u option)" where
  "build_proxies url_Parse proxies [] = Inr proxies"
| "build_proxies url_Parse proxies ((shardID, backend) # rest) =
     (case url_Parse backend of
        Inl e \<Rightarrow> Inl e
      | Inr target \<Rightarrow> build_proxies url_Parse (proxies(shardID \<mapsto> target)) rest)"

text \<open>\<open>backends\<close> is a Go map: an association list with distinct keys, in the order its iteration happens to take.\<close>

definition Router_New ::
  "(string \<Rightarrow> 'e + 'u) \<Rightarrow> (string \<Rightarrow> validate_error + auth_result) \<Rightarrow> (string \<times> string) list \<Rightarrow> 'e + 'u Router" where
  "Router_New url_Parse validator backends =
     (case build_proxies url_Parse Map.empty backends of
        Inl e \<Rightarrow> Inl e
      | Inr proxies \<Rightarrow> Inr \<lparr>rt_validator = validator, rt_proxies = proxies\<rparr>)"

definition listIDFromStatusPath :: "string \<Rightarrow> string option" where
  "listIDFromStatusPath path =
     (case str_split (CHR ''/'') (str_trim (\<lambda>c. c = CHR ''/'') path) of
        [s0, s1, s2] \<Rightarrow> if s0 \<noteq> ''status'' \<or> s1 = [] then None else Some s1
      | _ \<Rightarrow> None)"

definition bearerInvalidTokenChallenge :: "validate_error \<Rightarrow> string" where
  "bearerInvalidTokenChallenge err =
     (let description = (if err = TokenExpired then ''the access token expired'' else ''the access token is invalid'')
      in ''Bearer error='' @ [CHR 0x22] @ ''invalid_token'' @ [CHR 0x22] @ '', error_description='' @ [CHR 0x22] @ description @ [CHR 0x22])"

definition ServeHTTP :: "'u Router \<Rightarrow> http_request \<Rightarrow> (string \<times> string) \<times> 'u ingress_response" where
  "ServeHTTP r req =
     (case CutPrefix (hr_Authorization req) ''Bearer '' of (token, ok) \<Rightarrow>
        if \<not> ok \<or> token = []
        then (([], ''missing_token''),
              Unauthorized (''Bearer error='' @ [CHR 0x22] @ ''invalid_request'' @ [CHR 0x22]) ''missing or malformed Authorization header'')
        else case rt_validator r token of
          Inl err \<Rightarrow> (([], if err = TokenExpired then ''expired_token'' else ''invalid_token''),
                     Unauthorized (bearerInvalidTokenChallenge err) ''invalid access token'')
        | Inr res \<Rightarrow>
            let shardID = (case listIDFromStatusPath (hr_Path req) of
                  None \<Rightarrow> au_TenantID res
                | Some listID \<Rightarrow>
                    (case ParseShard listID of
                       None \<Rightarrow> au_TenantID res
                     | Some s \<Rightarrow> if rt_proxies r s \<noteq> None then s else au_TenantID res))
            in case rt_proxies r shardID of
                 None \<Rightarrow> ((shardID, ''unknown_shard''), BadGateway ''no backend configured for this shard'')
               | Some proxy \<Rightarrow> ((shardID, ''proxied''), ProxyTo proxy))"

section \<open>Paths and proxies\<close>

abbreviation status_path :: "string \<Rightarrow> string \<Rightarrow> string" where
  "status_path l i \<equiv> ''/status/'' @ l @ ''/'' @ i"

lemma listIDFromStatusPath_status:
  assumes "l \<noteq> []" "i \<noteq> []" "CHR ''/'' \<notin> set l" "CHR ''/'' \<notin> set i"
  shows "listIDFromStatusPath (status_path l i) = Some l"
proof -
  let ?sl = "\<lambda>c. c = CHR ''/''"
  have "dropWhile ?sl (status_path l i) = ''status/'' @ l @ ''/'' @ i" by simp
  moreover have "dropWhile ?sl (rev (''status/'' @ l @ ''/'' @ i)) = rev (''status/'' @ l @ ''/'' @ i)"
    using assms(2,4) by (cases i rule: rev_cases) auto
  ultimately have "str_trim ?sl (status_path l i) = ''status'' @ CHR ''/'' # l @ CHR ''/'' # i"
    by (simp add: str_trim_def)
  moreover have "str_split (CHR ''/'') (''status'' @ CHR ''/'' # l @ CHR ''/'' # i) = [''status'', l, i]"
    using assms by (subst str_split_append, simp, subst str_split_append, simp, simp add: str_split_no_sep)
  ultimately show ?thesis using assms(1) by (simp add: listIDFromStatusPath_def)
qed

lemma build_proxies_ok:
  assumes "build_proxies url_Parse m bs = Inr m'" "distinct (map fst bs)"
  shows "(\<forall>(sh, b) \<in> set bs. \<exists>u. url_Parse b = Inr u \<and> m' sh = Some u) \<and> (\<forall>s. s \<notin> fst ` set bs \<longrightarrow> m' s = m s)"
  using assms
proof (induction bs arbitrary: m)
  case (Cons b bs)
  obtain sh u where b: "b = (sh, u)" by fastforce
  with Cons.prems(1) obtain t where t: "url_Parse u = Inr t" "build_proxies url_Parse (m(sh \<mapsto> t)) bs = Inr m'"
    by (auto split: sum.splits)
  have d: "distinct (map fst bs)" "sh \<notin> fst ` set bs" using Cons.prems(2) b by auto
  note IH = Cons.IH[OF t(2) d(1)]
  from IH d(2) have "m' sh = Some t" by simp
  with IH t(1) b show ?case by auto
qed simp

lemma Router_New_proxies:
  assumes "Router_New url_Parse v bs = Inr r" "distinct (map fst bs)"
  shows "rt_validator r = v" "rt_proxies r s = Some u \<longleftrightarrow> (\<exists>b. map_of bs s = Some b \<and> url_Parse b = Inr u)"
    "rt_proxies r s = None \<longleftrightarrow> s \<notin> fst ` set bs"
proof -
  have m: "build_proxies url_Parse Map.empty bs = Inr (rt_proxies r)" and "rt_validator r = v"
    using assms(1) by (auto simp: Router_New_def split: sum.splits)
  then show "rt_validator r = v" by simp
  note ok = build_proxies_ok[OF m assms(2)]
  show "rt_proxies r s = None \<longleftrightarrow> s \<notin> fst ` set bs" using ok by fastforce
  show "rt_proxies r s = Some u \<longleftrightarrow> (\<exists>b. map_of bs s = Some b \<and> url_Parse b = Inr u)"
  proof (cases "s \<in> fst ` set bs")
    case True
    then obtain b where b: "map_of bs s = Some b" "(s, b) \<in> set bs"
      using assms(2) by (metis map_of_SomeD map_of_eq_None_iff not_Some_eq)
    with ok obtain u' where "url_Parse b = Inr u'" "rt_proxies r s = Some u'" by blast
    with b show ?thesis by auto
  next
    case False
    then have "map_of bs s = None" by (simp add: map_of_eq_None_iff)
    with ok False show ?thesis by auto
  qed
qed

lemma CutPrefix_bearer: "CutPrefix a p = (t, ok) \<Longrightarrow> ok \<longleftrightarrow> a = p @ t"
  by (auto simp: CutPrefix_def prefix_def split: if_splits)

section \<open>Properties\<close>

text \<open>The caller the token authenticates, and the shard the request is for.\<close>

definition authenticated :: "(string \<Rightarrow> validate_error + auth_result) \<Rightarrow> http_request \<Rightarrow> auth_result \<Rightarrow> bool" where
  "authenticated validator req au \<longleftrightarrow>
     (\<exists>token. hr_Authorization req = ''Bearer '' @ token \<and> token \<noteq> [] \<and> validator token = Inr au)"

definition wanted_shard :: "(string \<times> string) list \<Rightarrow> string \<Rightarrow> string \<Rightarrow> string" where
  "wanted_shard backends path tenant =
     (case Option.bind (listIDFromStatusPath path) ParseShard of
        Some s \<Rightarrow> if s \<in> fst ` set backends then s else tenant
      | None \<Rightarrow> tenant)"

lemma ServeHTTP_authenticated:
  assumes "Router_New url_Parse validator backends = Inr r" "distinct (map fst backends)" "authenticated validator req au"
  shows "ServeHTTP r req =
     (let sh = wanted_shard backends (hr_Path req) (au_TenantID au)
      in case rt_proxies r sh of
           None \<Rightarrow> ((sh, ''unknown_shard''), BadGateway ''no backend configured for this shard'')
         | Some u \<Rightarrow> ((sh, ''proxied''), ProxyTo u))"
proof -
  obtain token where t: "hr_Authorization req = ''Bearer '' @ token" "token \<noteq> []" "rt_validator r token = Inr au"
    using assms(3) Router_New_proxies(1)[OF assms(1,2)] by (auto simp: authenticated_def)
  then have c: "CutPrefix (hr_Authorization req) ''Bearer '' = (token, True)" by (simp add: CutPrefix_def)
  have iff: "s \<in> fst ` set backends \<longleftrightarrow> rt_proxies r s \<noteq> None" for s by (simp add: Router_New_proxies(3)[OF assms(1,2)])
  have "(case listIDFromStatusPath (hr_Path req) of None \<Rightarrow> au_TenantID au
      | Some listID \<Rightarrow> (case ParseShard listID of None \<Rightarrow> au_TenantID au
         | Some s \<Rightarrow> if rt_proxies r s \<noteq> None then s else au_TenantID au)) = wanted_shard backends (hr_Path req) (au_TenantID au)"
    by (simp add: wanted_shard_def iff split: option.split)
  then show ?thesis using t(2,3) by (simp add: ServeHTTP_def c Let_def)
qed

lemma ServeHTTP_unauthenticated:
  assumes "Router_New url_Parse validator backends = Inr r" "distinct (map fst backends)" "\<nexists>au. authenticated validator req au"
  shows "\<exists>l c m. ServeHTTP r req = (([], l), Unauthorized c m)"
proof -
  obtain token ok where c: "CutPrefix (hr_Authorization req) ''Bearer '' = (token, ok)" by fastforce
  then have "\<not> ok \<or> token = [] \<or> (\<exists>e. rt_validator r token = Inl e)"
    using assms(3) CutPrefix_bearer[OF c] Router_New_proxies(1)[OF assms(1,2)]
    by (cases "validator token") (auto simp: authenticated_def)
  then show ?thesis unfolding ServeHTTP_def c by auto
qed

text \<open>
  Where a request goes: a configured router forwards a request exactly when it carries a bearer token
  the validator accepts and the wanted shard has a backend, and then to that backend. The wanted shard is
  the one in the identifier of the list the path names, if that shard is configured, and the token's tenant
  otherwise. Without a valid token the answer is a 401, without a backend a 502.
\<close>

theorem ingress_routes:
  assumes "Router_New url_Parse validator backends = Inr r" "distinct (map fst backends)"
  shows "(case snd (ServeHTTP r req) of
      ProxyTo u \<Rightarrow> \<exists>au b. authenticated validator req au
        \<and> map_of backends (wanted_shard backends (hr_Path req) (au_TenantID au)) = Some b \<and> url_Parse b = Inr u
    | Unauthorized _ _ \<Rightarrow> \<nexists>au. authenticated validator req au
    | BadGateway _ \<Rightarrow> \<exists>au. authenticated validator req au \<and> au_TenantID au \<notin> fst ` set backends
        \<and> wanted_shard backends (hr_Path req) (au_TenantID au) = au_TenantID au)"
proof (cases "\<exists>au. authenticated validator req au")
  case True
  then obtain au where au: "authenticated validator req au" by blast
  let ?sh = "wanted_shard backends (hr_Path req) (au_TenantID au)"
  have "?sh = au_TenantID au \<or> ?sh \<in> fst ` set backends"
    by (auto simp: wanted_shard_def split: option.splits)
  note sh = this
  show ?thesis
  proof (cases "rt_proxies r ?sh")
    case None
    then have "snd (ServeHTTP r req) = BadGateway ''no backend configured for this shard''"
      using ServeHTTP_authenticated[OF assms au] by simp
    then show ?thesis using au sh None Router_New_proxies(3)[OF assms, of ?sh] by auto
  next
    case (Some u)
    then have "snd (ServeHTTP r req) = ProxyTo u" using ServeHTTP_authenticated[OF assms au] by simp
    then show ?thesis using au Some Router_New_proxies(2)[OF assms, of ?sh u] by auto
  qed
next
  case False
  then show ?thesis using ServeHTTP_unauthenticated[OF assms False] by force
qed

text \<open>
  C18. An update of a credential reaches the shard that holds it: for a list identifier made for shard
  \<open>sh\<close>, whatever its random part, \<open>PATCH /status/{listID}/{idx}\<close> is forwarded to the backend configured for
  \<open>sh\<close>, whichever tenant the token names.
\<close>

theorem update_routed_to_list_shard:
  assumes "Router_New url_Parse validator backends = Inr r" "distinct (map fst backends)"
    "map_of backends sh = Some b" "url_Parse b = Inr u" "authenticated validator \<lparr>hr_Authorization = a, hr_Path = p\<rparr> au"
    "run_state (ListID_New random sh) s = (Inr l, s')" "run_state (random 16) s = (Inr bytes, s')" "length bytes = 16"
    "sh \<noteq> []" "CHR ''/'' \<notin> set sh" "p = status_path l (show_nat (unat (idx :: u64)))"
  shows "ServeHTTP r \<lparr>hr_Authorization = a, hr_Path = p\<rparr> = ((sh, ''proxied''), ProxyTo u)"
proof -
  have l: "l = sh @ separator # hex_encode bytes" "separator \<notin> set sh"
    using assms(6,7) by (auto simp: ListID_New_def str_contains_iff split: if_splits)
  have "hex_encode bytes \<noteq> []" using assms(8) by (metis length_0_conv length_hex_encode mult_is_0 zero_neq_numeral)
  then have shard: "ParseShard l = Some sh" using ParseShard_prefixed l assms(9) by simp
  have "CHR ''/'' \<notin> set (hex_encode bytes)" using hex_encode_chars[of bytes] by auto
  then have "listIDFromStatusPath p = Some l" unfolding assms(11)
    using l assms(9,10) show_nat_nonempty by (intro listIDFromStatusPath_status) (auto dest: show_nat_digits simp: is_digit_def)
  then have "wanted_shard backends p t = sh" for t
    using shard map_of_SomeD[OF assms(3)] by (force simp: wanted_shard_def)
  then show ?thesis
    using ServeHTTP_authenticated[OF assms(1,2,5)] Router_New_proxies(2)[OF assms(1,2), of sh u] assms(3,4) by simp
qed

text \<open>
  C19. A reassigned issuer cannot update the credentials issued before: when the token names another tenant
  than the shard in the list's identifier, the router forwards \<open>PATCH /status/{listID}/{idx}\<close> to the shard of
  the list, and the ingestion service there answers 403 to every body, without any change. (The token
  library decides the same claims for the same token at both.)
\<close>

theorem reassigned_issuer_cannot_update:
  assumes "Router_New url_Parse validator backends = Inr r" "distinct (map fst backends)"
    "ParseShard l = Some sh" "map_of backends sh = Some b" "url_Parse b = Inr u"
    "CHR ''/'' \<notin> set l" "i \<noteq> []" "CHR ''/'' \<notin> set i"
    "validator token = Inr au" "token \<noteq> []" "TokenAuth tg (''Bearer '' @ token) = Inr (Some au)"
    "au_TenantID au \<noteq> sh" "sv_shard s = sh"
  shows "snd (ServeHTTP r \<lparr>hr_Authorization = ''Bearer '' @ token, hr_Path = status_path l i\<rparr>) = ProxyTo u
    \<and> run_state (Ingestion_Router tg hmac s (PatchStatus (''Bearer '' @ token) l i body)) w
        = (Error 403 ''token is not authorized for this shard'', w)"
proof (rule conjI)
  have "l \<noteq> []" using ParseShard_SomeD[OF assms(3)] by auto
  then have "wanted_shard backends (status_path l i) t = sh" for t
    using listIDFromStatusPath_status[of l i] assms(3,6,7,8) map_of_SomeD[OF assms(4)]
    by (force simp: wanted_shard_def)
  moreover have au: "authenticated validator \<lparr>hr_Authorization = ''Bearer '' @ token, hr_Path = status_path l i\<rparr> au"
    using assms(9,10) by (simp add: authenticated_def)
  ultimately show "snd (ServeHTTP r \<lparr>hr_Authorization = ''Bearer '' @ token, hr_Path = status_path l i\<rparr>) = ProxyTo u"
    using ServeHTTP_authenticated[OF assms(1,2) au] Router_New_proxies(2)[OF assms(1,2), of sh u] assms(4,5) by simp
  show "run_state (Ingestion_Router tg hmac s (PatchStatus (''Bearer '' @ token) l i body)) w
      = (Error 403 ''token is not authorized for this shard'', w)"
    using assms(11,12,13) by (simp add: Ingestion_Router_def authed_def requireShard_def)
qed

section \<open>Witnesses\<close>

definition demo_validator :: "string \<Rightarrow> validate_error + auth_result" where
  "demo_validator token = (if token = ''tok-b'' then Inr (demo_auth ''b'') else if token = ''tok-c'' then Inr (demo_auth ''c'') else Inl TokenRejected)"

definition demo_backends :: "(string \<times> string) list" where
  "demo_backends = [(''a'', ''http://a''), (''b'', ''http://b'')]"

definition demo_router :: "string Router" where
  "demo_router = \<lparr>rt_validator = demo_validator, rt_proxies = [''a'' \<mapsto> ''http://a'', ''b'' \<mapsto> ''http://b'']\<rparr>"

lemma demo_router_New: "Router_New (Inr :: string \<Rightarrow> unit + string) demo_validator demo_backends = Inr demo_router"
  "distinct (map fst demo_backends)"
  by (simp_all add: Router_New_def demo_backends_def demo_router_def)

definition demo_tokengin :: tokengin where
  "demo_tokengin = \<lparr>TokenAuth = (\<lambda>a. case demo_validator (drop 7 a) of Inl _ \<Rightarrow> Inl 401 | Inr au \<Rightarrow> Inr (Some au)),
     MustHaveTAC = (\<lambda>t r. None)\<rparr>"

theorem ingress_routes_witness:
  "map_of demo_backends (wanted_shard demo_backends ''/allocate'' ''b'') = Some ''http://b''"
proof -
  let ?req = "\<lparr>hr_Authorization = ''Bearer tok-b'', hr_Path = ''/allocate''\<rparr>"
  have p: "listIDFromStatusPath ''/allocate'' = None" by (simp add: listIDFromStatusPath_def str_trim_def)
  have s: "snd (ServeHTTP demo_router ?req) = ProxyTo ''http://b''"
    by (simp add: ServeHTTP_def p demo_router_def demo_validator_def CutPrefix_def demo_auth_def Let_def)
  have "authenticated demo_validator ?req au \<longleftrightarrow> au = demo_auth ''b''" for au
    by (auto simp: authenticated_def demo_validator_def)
  then show ?thesis using ingress_routes[OF demo_router_New, of ?req] s by (simp add: demo_auth_def)
qed

theorem update_routed_to_list_shard_witness:
  "\<exists>l. ServeHTTP demo_router \<lparr>hr_Authorization = ''Bearer tok-c'', hr_Path = status_path l (show_nat 7)\<rparr>
     = ((''a'', ''proxied''), ProxyTo ''http://a'')"
proof -
  let ?random = "\<lambda>n. ret (Inr (replicate n 0xA1) :: unit + bytes)" and ?l = "''a.'' @ hex_encode (replicate 16 0xA1)"
  have l: "run_state (ListID_New ?random ''a'') () = (Inr ?l, ())"
    by (simp add: ListID_New_def str_contains_iff)
  have "authenticated demo_validator \<lparr>hr_Authorization = ''Bearer tok-c'', hr_Path = p\<rparr> (demo_auth ''c'')" for p
    by (simp add: authenticated_def demo_validator_def)
  from update_routed_to_list_shard[OF demo_router_New _ _ this l, where bytes = "replicate 16 0xA1" and idx = 7 and b = "''http://a''" and u = "''http://a''"] show ?thesis
    by (intro exI[of _ ?l]) (simp add: demo_backends_def del: show_nat.simps)
qed

theorem reassigned_issuer_cannot_update_witness:
  "snd (ServeHTTP demo_router \<lparr>hr_Authorization = ''Bearer '' @ ''tok-b'', hr_Path = status_path ''a.1'' ''0''\<rparr>) = ProxyTo ''http://a''
    \<and> run_state (Ingestion_Router demo_tokengin demo_hmac demo_server (PatchStatus (''Bearer '' @ ''tok-b'') ''a.1'' ''0'' (Json ''INVALID'')))
        (demo_world demo_owned) = (Error 403 ''token is not authorized for this shard'', demo_world demo_owned)"
proof (rule reassigned_issuer_cannot_update[OF demo_router_New])
  show "ParseShard ''a.1'' = Some ''a''" by (simp add: ParseShard_def)
  show "map_of demo_backends ''a'' = Some ''http://a''" by (simp add: demo_backends_def)
  show "demo_validator ''tok-b'' = Inr (demo_auth ''b'')" by (simp add: demo_validator_def)
  then show "TokenAuth demo_tokengin (''Bearer '' @ ''tok-b'') = Inr (Some (demo_auth ''b''))" by (simp add: demo_tokengin_def)
  show "sv_shard demo_server = ''a''" by (simp add: demo_server_def demo_cfg_def)
qed (simp_all add: demo_auth_def)

end
