(* ===== verification/Verifier.thy ===== *)
theory Verifier
  imports Publisher Config
begin

text \<open>
  The read-only service, \<open>src/internal/verifier/handlers.go\<close> and \<open>server.go\<close>: \<open>GET /lists/{id}\<close> with content
  negotiation, conditional requests and the retention window of archived lists. A missing header is
  the empty string, as \<open>GetHeader\<close> returns it.
\<close>

section \<open>Definitions\<close>

definition jwtMediaType :: string where "jwtMediaType = ''application/statuslist+jwt''"
definition cwtMediaType :: string where "cwtMediaType = ''application/statuslist+cwt''"

text \<open>The media range of one element of the header: \<open>TrimSpace(SplitN(part, ";", 2)[0])\<close>.\<close>

definition media_range :: "string \<Rightarrow> string" where
  "media_range part = TrimSpace (hd (str_split (CHR '';'') part))"

fun negotiate_parts :: "string list \<Rightarrow> string" where
  "negotiate_parts [] = ''''"
| "negotiate_parts (part # parts) =
     (if media_range part = cwtMediaType then cwtMediaType
      else if media_range part = jwtMediaType \<or> media_range part = ''*/*'' then jwtMediaType
      else negotiate_parts parts)"

definition negotiateListFormat :: "string \<Rightarrow> string" where
  "negotiateListFormat accept =
     (let accept = TrimSpace accept
      in if accept = '''' \<or> accept = ''*/*'' then jwtMediaType
         else negotiate_parts (str_split (CHR '','') accept))"

datatype list_response =
    ListError nat string
  | NotModified
  | ListToken string string string bytes
  | VerifierHealthz
  | VerifierMetrics
  | VerifierNoRoute

text \<open>\<open>ListToken\<close> carries the \<open>ETag\<close>, the \<open>Cache-Control\<close> header, the media type and the body.\<close>

record VerifierServer =
  vs_cfg :: VerifierConfig
  vs_pub :: Publisher

definition Verifier_New :: "VerifierConfig \<Rightarrow> Publisher \<Rightarrow> VerifierServer" where
  "Verifier_New cfg pub = \<lparr>vs_cfg = cfg, vs_pub = pub\<rparr>"

definition etag_of :: "Published \<Rightarrow> string" where
  "etag_of pd = CHR 0x22 # FormatInt (pd_Version pd) @ [CHR 0x22]"

definition cache_control_of :: "Published \<Rightarrow> string" where
  "cache_control_of pd = ''public, max-age='' @ FormatInt (pd_TTL pd)"

definition handleGetList ::
  "token_lib \<Rightarrow> VerifierServer \<Rightarrow> string \<Rightarrow> string \<Rightarrow> string \<Rightarrow> (pub_state world, list_response) state" where
  "handleGetList lib s listID accept ifNoneMatch = do {
     rl \<leftarrow> GetList listID;
     (case rl of
        Inl _ \<Rightarrow> ret (ListError 500 ''lookup failed'')
      | Inr None \<Rightarrow> ret (ListError 404 ''list not found'')
      | Inr (Some lm) \<Rightarrow> do {
          gone \<leftarrow> (if lm_State lm = ARCHIVED
                   then (case lm_ArchivedAt lm of
                           None \<Rightarrow> ret True
                         | Some t \<Rightarrow> do {
                             now \<leftarrow> time_now;
                             ret (time_Sub now t > vc_GCRetentionPeriod (vs_cfg s))
                           })
                   else ret False);
          if gone then ret (ListError 410 ''this status list has been archived'')
          else let format = negotiateListFormat accept
          in if format = '''' then ret (ListError 406 (''Accept must include '' @ jwtMediaType @ '' or '' @ cwtMediaType))
             else do {
               rp \<leftarrow> PublishIfStale lib (vs_pub s) lm (vc_DefaultTTLSeconds (vs_cfg s));
               (case rp of
                  Inl _ \<Rightarrow> ret (ListError 500 ''could not publish list'')
                | Inr pub \<Rightarrow>
                    if ifNoneMatch = etag_of pub then ret NotModified
                    else if format = cwtMediaType
                         then ret (ListToken (etag_of pub) (cache_control_of pub) cwtMediaType (pd_CWT pub))
                         else ret (ListToken (etag_of pub) (cache_control_of pub) jwtMediaType (string_bytes (pd_Token pub))))
             }
        })
   }"

datatype list_request = GetList_Healthz | GetList_Metrics | GetListRequest string string string | OtherListRequest

definition Verifier_Router ::
  "token_lib \<Rightarrow> VerifierServer \<Rightarrow> list_request \<Rightarrow> (pub_state world, list_response) state" where
  "Verifier_Router lib s req =
     (case req of
        GetList_Healthz \<Rightarrow> ret VerifierHealthz
      | GetList_Metrics \<Rightarrow> ret VerifierMetrics
      | GetListRequest listID accept ifNoneMatch \<Rightarrow> handleGetList lib s listID accept ifNoneMatch
      | OtherListRequest \<Rightarrow> ret VerifierNoRoute)"

section \<open>Reads change nothing\<close>

lemma moves_handleGetList [moves_rules]: "moves world_leads (handleGetList lib s l a m)"
  unfolding handleGetList_def Let_def by (intro moves_rules)

lemma quiet_read: "quiet P (remote e (\<lambda>s. (Inr (f s), s))) (\<lambda>_. P)"
  by (rule quiet_remote) auto

lemma quiet_proc: "quiet P get_proc (\<lambda>_. P)" "quiet P (modify_proc f) (\<lambda>_. P)"
  by (simp_all add: quiet_def get_proc_def modify_proc_def)

lemma quiet_keep_bind: "quiet P m (\<lambda>_. P) \<Longrightarrow> (\<And>x. quiet P (f x) (\<lambda>_. P)) \<Longrightarrow> quiet P (State_Monad.bind m f) (\<lambda>_. P)"
  by (rule quiet_bind)

lemma quiet_keep_ret: "quiet P (ret x) (\<lambda>_. P)"
  by (rule quiet_ret)

lemma quiet_keep_time: "quiet P time_now (\<lambda>_. P)"
  by (rule quiet_time_now)

lemmas quiet_keep = quiet_keep_bind quiet_keep_ret quiet_keep_time quiet_read quiet_proc quiet_if quiet_case_sum quiet_case_option

lemma quiet_PublishIfStale: "quiet P (PublishIfStale lib p lm ttl) (\<lambda>_. P)"
  unfolding PublishIfStale_def Version_def Snapshot_def Let_def by (intro quiet_keep)

lemma quiet_handleGetList: "quiet P (handleGetList lib s l a m) (\<lambda>_. P)"
  unfolding handleGetList_def GetList_def pg_query_def Let_def by (intro quiet_keep quiet_PublishIfStale)

section \<open>Properties\<close>

definition acceptable :: "string set" where
  "acceptable = {cwtMediaType, jwtMediaType, ''*/*''}"

lemma negotiate_parts_find:
  "negotiate_parts ps = (case find (\<lambda>p. media_range p \<in> acceptable) ps of
     None \<Rightarrow> '''' | Some p \<Rightarrow> if media_range p = cwtMediaType then cwtMediaType else jwtMediaType)"
  by (induction ps) (auto simp: acceptable_def)

text \<open>
  C39. Content negotiation is the first acceptable media range: an empty or \<open>*/*\<close> header gets the JWT;
  otherwise the first element of the header whose range, parameters stripped, is one of the two types or
  \<open>*/*\<close> decides, weights notwithstanding, and only a header with no such element gets no format.
\<close>

theorem negotiation_first_acceptable:
  "negotiateListFormat accept =
     (let parts = str_split (CHR '','') (TrimSpace accept)
      in if TrimSpace accept = '''' then jwtMediaType
         else case find (\<lambda>p. media_range p \<in> acceptable) parts of
                None \<Rightarrow> '''' | Some p \<Rightarrow> if media_range p = cwtMediaType then cwtMediaType else jwtMediaType)
   \<and> (negotiateListFormat accept = '''' \<longleftrightarrow> TrimSpace accept \<noteq> ''''
        \<and> find (\<lambda>p. media_range p \<in> acceptable) (str_split (CHR '','') (TrimSpace accept)) = None)"
proof -
  have "TrimSpace ''*/*'' = ''*/*''" "str_split (CHR '';'') ''*/*'' = [''*/*'']"
    by (simp_all add: TrimSpace_def str_trim_def is_space_def)
  then have star: "media_range ''*/*'' = ''*/*''" by (simp add: media_range_def)
  have split: "str_split (CHR '','') ''*/*'' = [''*/*'']" by simp
  have ne: "jwtMediaType \<noteq> ''''" "cwtMediaType \<noteq> ''''" "cwtMediaType \<noteq> ''*/*''"
    by (simp_all add: jwtMediaType_def cwtMediaType_def)
  have "negotiate_parts [''*/*''] = jwtMediaType" using ne(3) by (simp add: star)
  then have "negotiateListFormat accept = (if TrimSpace accept = '''' then jwtMediaType
      else negotiate_parts (str_split (CHR '','') (TrimSpace accept)))"
    unfolding negotiateListFormat_def Let_def using split by auto
  then show ?thesis using ne by (auto simp: negotiate_parts_find split: option.splits)
qed

definition row_gone :: "VerifierServer \<Rightarrow> time \<Rightarrow> list_row \<Rightarrow> bool" where
  "row_gone s now r \<longleftrightarrow> lr_state r = ARCHIVED
     \<and> (case lr_archived_at r of None \<Rightarrow> True | Some a \<Rightarrow> time_Sub now a > vc_GCRetentionPeriod (vs_cfg s))"

lemma negotiate_range: "negotiateListFormat accept \<in> {'''', jwtMediaType, cwtMediaType}"
  by (auto simp: negotiateListFormat_def Let_def negotiate_parts_find split: option.splits)

text \<open>The rest of the handler once the list is there and not gone.\<close>

lemma served_result:
  assumes "fmt \<in> {jwtMediaType, cwtMediaType}"
  shows "result (do {
     rp \<leftarrow> PublishIfStale lib p lm ttl;
     (case rp of
        Inl _ \<Rightarrow> ret (ListError 500 ''could not publish list'')
      | Inr pub \<Rightarrow>
          if inm = etag_of pub then ret NotModified
          else if fmt = cwtMediaType
               then ret (ListToken (etag_of pub) (cache_control_of pub) cwtMediaType (pd_CWT pub))
               else ret (ListToken (etag_of pub) (cache_control_of pub) jwtMediaType (string_bytes (pd_Token pub)))) }) w
     \<in> {NotModified, ListError 500 ''could not publish list''} \<union> {ListToken etag cc fmt data |etag cc data. etag \<noteq> inm}"
  using assms by (cases "run_state (PublishIfStale lib p lm ttl) w") (auto split: sum.splits)

text \<open>
  The answers of \<open>GET /lists/{id}\<close>: a read never changes any store; and with no failing call and nothing
  else running, an unknown list is a 404, a list archived for longer than the retention period a 410, an
  unacceptable \<open>Accept\<close> a 406, and every other request is served from the publisher, as a token of the
  negotiated type, a 304, or a 500 when the token cannot be built.
\<close>

theorem verifier_answers:
  assumes "sched w = []"
  shows "st (after (handleGetList lib s l accept inm) w) = st w
    \<and> (fates w = [] \<longrightarrow> result (handleGetList lib s l accept inm) w \<in>
        (case sql_select_list l (pg (st w)) of
           None \<Rightarrow> {ListError 404 ''list not found''}
         | Some row \<Rightarrow>
             if row_gone s (clock (st w)) row then {ListError 410 ''this status list has been archived''}
             else if negotiateListFormat accept = '''' then {ListError 406 (''Accept must include '' @ jwtMediaType @ '' or '' @ cwtMediaType)}
             else {NotModified, ListError 500 ''could not publish list''}
               \<union> {ListToken etag cc (negotiateListFormat accept) data |etag cc data. etag \<noteq> inm}))"
proof (intro conjI impI)
  show "st (after (handleGetList lib s l accept inm) w) = st w"
    using quietD[OF quiet_handleGetList assms, of "\<lambda>t. t = st w"] by simp
next
  assume f: "fates w = []"
  have get: "run_state (GetList l) w = (Inr (map_option scanListMeta (sql_select_list l (pg (st w)))), w)"
    using assms f by (simp add: GetList_def pg_query_def remote_def interfere_def next_fate_def apply_store_def)
  have now: "run_state time_now w = (clock (st w), w)"
    using assms by (simp add: time_now_def interfere_def)
  have gone: "run_state (if lm_State (scanListMeta row) = ARCHIVED
        then (case lm_ArchivedAt (scanListMeta row) of None \<Rightarrow> ret True
              | Some t \<Rightarrow> do { now \<leftarrow> time_now; ret (time_Sub now t > vc_GCRetentionPeriod (vs_cfg s)) })
        else ret False) w = (row_gone s (clock (st w)) row, w)" for row
    by (auto simp: row_gone_def scanListMeta_def now split: option.splits)
  show "result (handleGetList lib s l accept inm) w \<in>
        (case sql_select_list l (pg (st w)) of
           None \<Rightarrow> {ListError 404 ''list not found''}
         | Some row \<Rightarrow>
             if row_gone s (clock (st w)) row then {ListError 410 ''this status list has been archived''}
             else if negotiateListFormat accept = '''' then {ListError 406 (''Accept must include '' @ jwtMediaType @ '' or '' @ cwtMediaType)}
             else {NotModified, ListError 500 ''could not publish list''}
               \<union> {ListToken etag cc (negotiateListFormat accept) data |etag cc data. etag \<noteq> inm})"
  proof (cases "sql_select_list l (pg (st w))")
    case None
    then show ?thesis by (simp add: handleGetList_def get)
  next
    case (Some row)
    show ?thesis
    proof (cases "row_gone s (clock (st w)) row \<or> negotiateListFormat accept = ''''")
      case True
      then show ?thesis using Some gone[of row] by (auto simp: handleGetList_def get Let_def)
    next
      case False
      then have "negotiateListFormat accept \<in> {jwtMediaType, cwtMediaType}" using negotiate_range[of accept] by auto
      from served_result[OF this, where inm = inm and lib = lib and p = "vs_pub s" and lm = "scanListMeta row"
          and ttl = "vc_DefaultTTLSeconds (vs_cfg s)" and w = w] show ?thesis
        using Some False gone[of row] by (simp add: handleGetList_def get Let_def del: Un_iff)
    qed
  qed
qed

definition built_from :: "token_lib \<Rightarrow> Publisher \<Rightarrow> ListMeta \<Rightarrow> int \<Rightarrow> bytes \<Rightarrow> Published \<Rightarrow> bool" where
  "built_from lib p lm ttl d pd \<longleftrightarrow> (\<exists>bm now. WrapBitmap d (lm_Size lm) (lm_Bits lm) = Inr bm
     \<and> BuildToken lib (pb_key p) (token_params p lm ttl bm now) = Inr (pd_Token pd)
     \<and> BuildCWTToken lib (pb_key p) (token_params p lm ttl bm now) = Inr (pd_CWT pd))"

definition stored_bytes :: "ListMeta \<Rightarrow> stores \<Rightarrow> bytes" where
  "stored_bytes lm t = snapshot_of (ks_strings (kv t (lm_ShardID lm)) (bitmapKey (lm_ID lm)))
     (nat (int64_of_u64 (byte_len (lm_Size lm) (lm_Bits lm))))"

lemma run_gone:
  obtains w2 gone where "run_state (if lm_State lm = ARCHIVED
      then (case lm_ArchivedAt lm of None \<Rightarrow> ret True
            | Some t \<Rightarrow> do { now \<leftarrow> time_now; ret (time_Sub now t > R) })
      else ret False) w = (gone, w2)" "leads (st w) (st w2)" "proc w2 = proc w"
    "\<not> gone \<and> lm_State lm = ARCHIVED \<longrightarrow> (\<exists>a. lm_ArchivedAt lm = Some a \<and> time_Sub (clock (st w2)) a \<le> R)"
proof (cases "lm_State lm = ARCHIVED \<and> lm_ArchivedAt lm \<noteq> None")
  case True
  then obtain a where a: "lm_State lm = ARCHIVED" "lm_ArchivedAt lm = Some a" by blast
  obtain t w2 where "leads (st w) t" "proc w2 = proc w" "run_state time_now w = (clock t, w2)" "st w2 = t"
    by (rule run_time_now)
  then show thesis using a by (intro that[of "time_Sub (clock t) a > R" w2]) auto
next
  case False
  then show thesis by (intro that[of "lm_State lm = ARCHIVED" w]) (auto simp: leads_refl split: option.splits)
qed

text \<open>
  C9. What a verifier is served, whatever runs concurrently: the list existed at a moment during the
  request and, if archived, was within its retention window; the \<open>ETag\<close> is the version of the list at a
  later moment, before the response; the body is the token of the negotiated type, taken from the cache
  for exactly that version, or built from the bitmap stored at a moment after the version was read.
\<close>

theorem served_token_is_live:
  assumes "run_state (handleGetList lib s l accept inm) w = (ListToken etag cc mt data, w')"
  shows "\<exists>t1 t2 row pd. leads (st w) t1 \<and> leads t1 t2 \<and> leads t2 (st w')
     \<and> sql_select_list l (pg t1) = Some row
     \<and> (lr_state row = ARCHIVED \<longrightarrow> (\<exists>a now. lr_archived_at row = Some a \<and> clock t1 \<le> now \<and> now \<le> clock (st w')
          \<and> time_Sub now a \<le> vc_GCRetentionPeriod (vs_cfg s)))
     \<and> pd_Version pd = live_version (lr_shard_id row) l t2 \<and> etag = etag_of pd \<and> etag \<noteq> inm
     \<and> mt = negotiateListFormat accept \<and> data = (if mt = cwtMediaType then pd_CWT pd else string_bytes (pd_Token pd))
     \<and> (cache (proc w) l = Some pd
        \<or> (\<exists>t3. leads t2 t3 \<and> leads t3 (st w') \<and> built_from lib (vs_pub s) (scanListMeta row)
             (vc_DefaultTTLSeconds (vs_cfg s)) (stored_bytes (scanListMeta row) t3) pd))"
proof -
  let ?R = "vc_GCRetentionPeriod (vs_cfg s)" and ?ttl = "vc_DefaultTTLSeconds (vs_cfg s)"
  obtain t1 w1 x where g: "run_state (GetList l) w = (x, w1)" "leads (st w) t1" "st w1 = t1" "proc w1 = proc w"
      "x = Inl ErrDb \<or> x = Inr (map_option scanListMeta (sql_select_list l (pg t1)))"
    unfolding GetList_def pg_query_def by (rule run_read[where f = "\<lambda>s. map_option scanListMeta (sql_select_list l (pg s))"])
  then obtain row where row: "sql_select_list l (pg t1) = Some row" "x = Inr (Some (scanListMeta row))"
    using assms by (auto simp: handleGetList_def split: option.splits)
  let ?lm = "scanListMeta row"
  obtain w2 gone where go: "run_state (if lm_State ?lm = ARCHIVED
      then (case lm_ArchivedAt ?lm of None \<Rightarrow> ret True | Some t \<Rightarrow> do { now \<leftarrow> time_now; ret (time_Sub now t > ?R) })
      else ret False) w1 = (gone, w2)" "leads (st w1) (st w2)" "proc w2 = proc w1"
    "\<not> gone \<and> lm_State ?lm = ARCHIVED \<longrightarrow> (\<exists>a. lm_ArchivedAt ?lm = Some a \<and> time_Sub (clock (st w2)) a \<le> ?R)"
    by (rule run_gone[of ?lm ?R w1])
  have ng: "\<not> gone" "negotiateListFormat accept \<noteq> ''''"
    using assms g(1) row(2) go(1) by (auto simp: handleGetList_def Let_def split: if_splits)
  obtain rp w3 where p: "run_state (PublishIfStale lib (vs_pub s) ?lm ?ttl) w2 = (rp, w3)" by fastforce
  then obtain pd where pd: "rp = Inr pd" "w3 = w'" "etag = etag_of pd" "etag \<noteq> inm" "mt = negotiateListFormat accept"
      "data = (if mt = cwtMediaType then pd_CWT pd else string_bytes (pd_Token pd))"
    using assms g(1) row(2) go(1) ng negotiate_range[of accept]
    by (auto simp: handleGetList_def Let_def split: sum.splits if_splits)
  have lm: "lm_ID ?lm = l" "lm_ShardID ?lm = lr_shard_id row" "lm_ArchivedAt ?lm = lr_archived_at row" "lm_State ?lm = lr_state row"
    using select_list_mem[OF row(1)] by (simp_all add: scanListMeta_def)
  obtain t2 where t2: "leads (st w2) t2" "leads t2 (st w')" "pd_Version pd = live_version (lr_shard_id row) l t2"
      "cache (proc w2) l = Some pd \<or> (\<exists>t3. leads t2 t3 \<and> leads t3 (st w') \<and> built_from lib (vs_pub s) ?lm ?ttl (stored_bytes ?lm t3) pd)"
    using PublishIfStale_contents[of lib "vs_pub s" ?lm ?ttl w2 pd w'] p pd(1,2) lm
    unfolding built_from_def stored_bytes_def by metis
  have "clock t1 \<le> clock (st w2)" "clock (st w2) \<le> clock (st w')"
    using stableD[OF stable_clock order_refl] go(2) g(3) leads_trans[OF t2(2,1)] by blast+
  then have "lr_state row = ARCHIVED \<longrightarrow> (\<exists>a now. lr_archived_at row = Some a \<and> clock t1 \<le> now \<and> now \<le> clock (st w')
      \<and> time_Sub now a \<le> ?R)" using go(4) ng(1) lm by auto
  moreover have "leads t1 t2" using leads_trans[OF t2(1)] go(2) g(3) by blast
  ultimately show ?thesis using g row(1) pd t2 go(3) by metis
qed

text \<open>With nothing else running, an uncached list is built from the bytes stored now.\<close>

lemma PublishIfStale_quiet:
  assumes "sched w = []" "fates w = []"
    "\<forall>pd. cache (proc w) (lm_ID lm) = Some pd \<longrightarrow> pd_Version pd \<noteq> live_version (lm_ShardID lm) (lm_ID lm) (st w)"
    "run_state (PublishIfStale lib p lm ttl) w = (Inr pd, w')"
  shows "\<exists>bm. WrapBitmap (stored_bytes lm (st w)) (lm_Size lm) (lm_Bits lm) = Inr bm
     \<and> BuildToken lib (pb_key p) (token_params p lm ttl bm (clock (st w))) = Inr (pd_Token pd)
     \<and> BuildCWTToken lib (pb_key p) (token_params p lm ttl bm (clock (st w))) = Inr (pd_CWT pd)"
proof -
  let ?lv = "live_version (lm_ShardID lm) (lm_ID lm) (st w)"
  have v: "run_state (Version (lm_ShardID lm) (lm_ID lm)) w = (Inr ?lv, w)"
    using assms(1,2) by (simp add: Version_def live_version_def remote_def interfere_def next_fate_def apply_store_def)
  have miss: "(case cache (proc w) (lm_ID lm) of None \<Rightarrow> None
      | Some c \<Rightarrow> if pd_Version c = ?lv \<and> pd_TTL c = ttl then Some c else None) = None"
    using assms(3) by (auto split: option.splits)
  show ?thesis
    using assms(1,2,4) v miss
    by (auto simp: PublishIfStale_def Snapshot_def stored_bytes_def remote_def interfere_def next_fate_def
        apply_store_def get_proc_def time_now_def modify_proc_def Let_def split: if_splits sum.splits)
qed

text \<open>What is then served, when the cache holds nothing of the current version.\<close>

lemma served_from_store:
  fixes row s
  defines "lm \<equiv> scanListMeta row" and "ttl \<equiv> vc_DefaultTTLSeconds (vs_cfg s)"
  assumes "sched w = []" "fates w = []" "sql_select_list l (pg (st w)) = Some row"
    "\<forall>pd. cache (proc w) l = Some pd \<longrightarrow> pd_Version pd \<noteq> live_version (lr_shard_id row) l (st w)"
    "run_state (handleGetList lib s l accept inm) w = (ListToken etag cc mt data, w')"
  shows "\<exists>bm token cwt. WrapBitmap (stored_bytes lm (st w)) (lm_Size lm) (lm_Bits lm) = Inr bm
     \<and> BuildToken lib (pb_key (vs_pub s)) (token_params (vs_pub s) lm ttl bm (clock (st w))) = Inr token
     \<and> BuildCWTToken lib (pb_key (vs_pub s)) (token_params (vs_pub s) lm ttl bm (clock (st w))) = Inr cwt
     \<and> data = (if mt = cwtMediaType then cwt else string_bytes token)"
proof -
  have get: "run_state (GetList l) w = (Inr (Some lm), w)"
    using assms(3,4,5) by (simp add: GetList_def pg_query_def remote_def interfere_def next_fate_def apply_store_def lm_def)
  obtain gone where go: "run_state (if lm_State lm = ARCHIVED
      then (case lm_ArchivedAt lm of None \<Rightarrow> ret True
        | Some t \<Rightarrow> do { now \<leftarrow> time_now; ret (time_Sub now t > vc_GCRetentionPeriod (vs_cfg s)) })
      else ret False) w = (gone, w)"
    using assms(3) by (cases "lm_ArchivedAt lm"; cases "lm_State lm = ARCHIVED") (simp_all add: time_now_def interfere_def)
  obtain pd where pd: "run_state (PublishIfStale lib (vs_pub s) lm ttl) w = (Inr pd, w')"
      "data = (if mt = cwtMediaType then pd_CWT pd else string_bytes (pd_Token pd))"
    using assms(7) get go negotiate_range[of accept]
    by (cases "run_state (PublishIfStale lib (vs_pub s) lm ttl) w")
      (auto simp: handleGetList_def Let_def ttl_def split: sum.splits if_splits)
  have lm: "lm_ID lm = l" "lm_ShardID lm = lr_shard_id row"
    using select_list_mem[OF assms(5)] by (simp_all add: lm_def scanListMeta_def)
  then show ?thesis using PublishIfStale_quiet[OF assms(3,4) _ pd(1)] assms(6) pd(2) by auto
qed

lemma missing_bitmap_valid:
  assumes "ks_strings (kv t (lm_ShardID lm)) (bitmapKey (lm_ID lm)) = None"
    "WrapBitmap (stored_bytes lm t) (lm_Size lm) (lm_Bits lm) = Inr bm"
    "unat (lm_Size lm) * nat (lm_Bits lm) + 7 < 2 ^ 64" "lm_Size lm \<noteq> 0"
  shows "\<forall>i < lm_Size lm. Get bm i = Inr StatusValid"
proof -
  have v: "ValidBitWidth (lm_Bits lm)" and
    bm: "bm = \<lparr>bm_bits = lm_Bits lm, bm_size = lm_Size lm, bm_data = stored_bytes lm t\<rparr>"
    "of_nat (length (stored_bytes lm t)) = byte_len (lm_Size lm) (lm_Bits lm)"
    using assms(2) by (auto simp: WrapBitmap_def Let_def split: if_splits)
  obtain n where n: "stored_bytes lm t = replicate n 0" "n = nat (int64_of_u64 (byte_len (lm_Size lm) (lm_Bits lm)))"
    using assms(1) by (simp add: stored_bytes_def snapshot_of_def)
  have "sint (byte_len (lm_Size lm) (lm_Bits lm)) < 2 ^ 63" using sint_lt[of "byte_len (lm_Size lm) (lm_Bits lm)"] by simp
  then have "n < 2 ^ 64" using n(2) by (simp add: int64_of_u64_def nat_less_iff)
  then have "n = unat (byte_len (lm_Size lm) (lm_Bits lm))"
    using bm(2)[symmetric] n(1) by (simp add: unat_of_nat take_bit_eq_mod)
  then have "NewBitmap (lm_Size lm) (lm_Bits lm) = Inr bm" using v bm(1) n(1) assms(4) by (simp add: NewBitmap_def)
  then show ?thesis using NewBitmap_wf assms(3) by blast
qed


section \<open>Witnesses\<close>

text \<open>An archived list at the last instant of its retention window, its bitmap already purged.\<close>

definition demo_archived_row :: list_row where
  "demo_archived_row = \<lparr>lr_id = ''a.1'', lr_bits = 2, lr_size = 2, lr_cursor = 0, lr_fpe_key = [], lr_max_exp = None,
     lr_state = ARCHIVED, lr_created_at = 0, lr_archived_at = Some 0, lr_purged = True, lr_shard_id = ''a'', lr_purged_at = Some 100\<rparr>"

definition demo_archived_world :: "pub_state world" where
  "demo_archived_world = \<lparr>st = initial\<lparr>clock := 100, pg := empty_pg\<lparr>lists := [demo_archived_row]\<rparr>\<rparr>,
     sched = [], fates = [], draws = [],
     proc = \<lparr>cache = (\<lambda>_. None), debounce = newLeadingDebouncer, tasks = []\<rparr>\<rparr>"

definition demo_verifier :: VerifierServer where
  "demo_verifier = \<lparr>vs_cfg = \<lparr>vc_HTTPAddr = [], vc_BaseURL = ''https://s'', vc_PostgresDSN = [], vc_ShardRedisURLs = [(''a'', ''r'')],
       vc_DefaultTTLSeconds = 60, vc_GCRetentionPeriod = 100, vc_Signing = KeySource 0,
       vc_SigningKeyID = ''k1'', vc_SigningCertChain = []\<rparr>,
     vs_pub = demo_publisher\<rparr>"

definition any_lib :: token_lib where
  "any_lib = demo_lib\<lparr>cbor_Marshal := (\<lambda>_. Some [3]), jwt_SigningString := (\<lambda>_ _. Some ''h.c'')\<rparr>"

lemma any_lib_builds:
  assumes "tp_X5C p = []"
  shows "\<exists>t. BuildToken any_lib 0 p = Inr t" "\<exists>c. BuildCWTToken any_lib 0 p = Inr c"
  using assms
  by (simp_all add: BuildCWTToken_def BuildToken_def any_lib_def demo_lib_def compressLst_def EncodeLst_def
      cose_protected_def signCOSESign1_def asn1ToRawECDSA_def es256_Sign_def string_bytes_def Let_def
      del: fill_bytes.simps)

lemma demo_verifier_publishes:
  "\<exists>pd w'. run_state (PublishIfStale any_lib demo_publisher (scanListMeta demo_archived_row) 60) demo_archived_world = (Inr pd, w')"
proof -
  let ?lm = "scanListMeta demo_archived_row"
  have lm: "lm_ShardID ?lm = ''a''" "lm_ID ?lm = ''a.1''" "lm_Size ?lm = 2" "lm_Bits ?lm = 2" "pb_key demo_publisher = 0"
    "pb_shards demo_publisher = [''a'']"
    by (simp_all add: scanListMeta_def demo_archived_row_def demo_publisher_def u64_of_int_def)
  have n: "byte_len 2 2 = 1" "int64_of_u64 1 = 1" by (simp_all add: byte_len_def u64_of_int_def int64_of_u64_def)
  obtain t c where "BuildToken any_lib 0 (token_params demo_publisher ?lm 60 \<lparr>bm_bits = 2, bm_size = 2, bm_data = [0]\<rparr> 100) = Inr t"
    "BuildCWTToken any_lib 0 (token_params demo_publisher ?lm 60 \<lparr>bm_bits = 2, bm_size = 2, bm_data = [0]\<rparr> 100) = Inr c"
    using any_lib_builds[of "token_params demo_publisher ?lm 60 \<lparr>bm_bits = 2, bm_size = 2, bm_data = [0]\<rparr> 100"]
    by (auto simp: token_params_def demo_publisher_def)
  then show ?thesis
    by (simp add: PublishIfStale_def Version_def Snapshot_def remote_def interfere_def next_fate_def apply_store_def
        get_proc_def modify_proc_def time_now_def demo_archived_world_def initial_def lm n WrapBitmap_def ValidBitWidth_def
        empty_keyspace_def snapshot_of_def Let_def del: One_nat_def)
qed

lemma demo_serves:
  "\<exists>etag cc mt data w'. run_state (handleGetList any_lib demo_verifier ''a.1'' [] []) demo_archived_world
     = (ListToken etag cc mt data, w')"
proof -
  let ?w = demo_archived_world
  have get: "run_state (GetList ''a.1'') ?w = (Inr (Some (scanListMeta demo_archived_row)), ?w)"
    by (simp add: GetList_def pg_query_def remote_def interfere_def next_fate_def apply_store_def demo_archived_world_def
        sql_select_list_def demo_archived_row_def)
  have now: "run_state time_now ?w = (100, ?w)" by (simp add: time_now_def interfere_def demo_archived_world_def)
  have fmt: "negotiateListFormat [] = jwtMediaType" "jwtMediaType \<noteq> cwtMediaType" "jwtMediaType \<noteq> []"
    by (simp_all add: negotiateListFormat_def TrimSpace_def str_trim_def jwtMediaType_def cwtMediaType_def)
  obtain pd w' where pd: "run_state (PublishIfStale any_lib demo_publisher (scanListMeta demo_archived_row) 60) ?w = (Inr pd, w')"
    using demo_verifier_publishes by blast
  have lm: "lm_State (scanListMeta demo_archived_row) = ARCHIVED" "lm_ArchivedAt (scanListMeta demo_archived_row) = Some 0"
    "vc_GCRetentionPeriod (vs_cfg demo_verifier) = 100" "vs_pub demo_verifier = demo_publisher"
    "vc_DefaultTTLSeconds (vs_cfg demo_verifier) = 60"
    by (simp_all add: scanListMeta_def demo_archived_row_def demo_verifier_def)
  show ?thesis using pd by (simp add: handleGetList_def get now lm fmt Let_def etag_of_def time_Sub_def)
qed

theorem verifier_answers_witness:
  "result (handleGetList demo_lib demo_verifier ''b.1'' [] []) demo_archived_world = ListError 404 ''list not found''"
  using verifier_answers[of demo_archived_world demo_lib demo_verifier "''b.1''" "[]" "[]"]
  by (simp add: demo_archived_world_def sql_select_list_def demo_archived_row_def)

theorem served_token_is_live_witness:
  "\<exists>etag cc mt data w'. run_state (handleGetList any_lib demo_verifier ''a.1'' [] []) demo_archived_world
     = (ListToken etag cc mt data, w') \<and> (\<exists>t1 row. leads (st demo_archived_world) t1 \<and> sql_select_list ''a.1'' (pg t1) = Some row)"
proof -
  obtain etag cc mt data w' where
    "run_state (handleGetList any_lib demo_verifier ''a.1'' [] []) demo_archived_world = (ListToken etag cc mt data, w')"
    using demo_serves by blast
  from served_token_is_live[OF this] this show ?thesis by blast
qed


end
