(* ===== verification/Decoy.thy ===== *)
theory Decoy
  imports Ingestion
begin

text \<open>
  Decoy noise, \<open>src/internal/decoy/decoy.go\<close>: status flips at indices that were never allocated, so that a
  changed entry of a published list does not prove a revocation. The expected number of flips is computed
  with exact rationals where the source has floating-point numbers, so it can differ from the source's by
  one in a rounding; every result below holds for all draws. The counter and the log lines are left out.
\<close>

section \<open>Definitions\<close>

record Noiser =
  nz_shardID :: string
  nz_Rate :: rat
  nz_DefaultTTLSeconds :: int

definition NewNoiser :: "string \<Rightarrow> rat \<Rightarrow> int \<Rightarrow> Noiser" where
  "NewNoiser shardID rate defaultTTLSeconds =
     \<lparr>nz_shardID = shardID, nz_Rate = rate, nz_DefaultTTLSeconds = defaultTTLSeconds\<rparr>"

text \<open>\<open>rand.Float64\<close>: a multiple of \<open>2^-53\<close> below 1.\<close>

definition rand_Float64 :: "('p world, rat) state" where
  "rand_Float64 = do { d \<leftarrow> rand_below (2 ^ 53); ret (of_nat d / 2 ^ 53) }"

definition nextDecoyStatus :: "byte \<Rightarrow> ('p world, byte \<times> bool) state" where
  "nextDecoyStatus cur =
     (if cur = StatusValid then do {
        b \<leftarrow> rand_below 2;
        ret (if b = 0 then (StatusInvalid, True) else (StatusSuspended, True))
      } else if cur = StatusSuspended then do {
        b \<leftarrow> rand_below 2;
        ret (if b = 0 then (StatusValid, True) else (cur, False))
      } else ret (cur, False))"

text \<open>The loop of \<open>sweepList\<close>: \<open>k\<close> rounds left, \<open>dirty\<close> whether a flip was written. \<open>bm\<close> is the snapshot of the whole pass.\<close>

fun decoy_flips ::
  "(bytes \<Rightarrow> bytes \<Rightarrow> bytes) \<Rightarrow> Noiser \<Rightarrow> ListMeta \<Rightarrow> Allocator \<Rightarrow> Bitmap \<Rightarrow> bool \<Rightarrow> nat
   \<Rightarrow> (pub_state world, err + bool) state" where
  "decoy_flips hmac n lm alloc bm dirty 0 = ret (Inr dirty)"
| "decoy_flips hmac n lm alloc bm dirty (Suc k) = do {
     d \<leftarrow> rand_below (unat (lm_Size lm - lm_Cursor lm));
     (case Index hmac alloc (lm_Cursor lm + of_nat d) of
        Inl e \<Rightarrow> ret (Inl (ErrAlloc e))
      | Inr idx \<Rightarrow>
          (case Get bm idx of
             Inl e \<Rightarrow> ret (Inl (ErrBitmap e))
           | Inr cur \<Rightarrow> do {
               nc \<leftarrow> nextDecoyStatus cur;
               if \<not> snd nc then decoy_flips hmac n lm alloc bm dirty k
               else do {
                 ra \<leftarrow> IsAllocated (lm_ID lm) idx;
                 (case ra of
                    Inl e \<Rightarrow> ret (Inl e)
                  | Inr allocated \<Rightarrow>
                      if allocated then decoy_flips hmac n lm alloc bm dirty k
                      else (case ByteOffset idx (lm_Bits lm) of (byteIndex, bitOffset) \<Rightarrow> do {
                        rs \<leftarrow> SetStatus (nz_shardID n) (lm_ID lm) byteIndex bitOffset (lm_Bits lm) (fst nc);
                        (case rs of
                           Inl e \<Rightarrow> ret (Inl e)
                         | Inr _ \<Rightarrow> decoy_flips hmac n lm alloc bm True k)
                      }))
               }
             }))
   }"

definition sweepList ::
  "(bytes \<Rightarrow> bytes \<Rightarrow> bytes) \<Rightarrow> Noiser \<Rightarrow> ListMeta \<Rightarrow> (pub_state world, err option) state" where
  "sweepList hmac n lm = (
     let unallocated = lm_Size lm - lm_Cursor lm
     in if unallocated = 0 then ret None
     else do {
       let expected = of_nat (unat unallocated) * nz_Rate n;
       let whole = nat \<lfloor>expected\<rfloor>;
       f \<leftarrow> rand_Float64;
       let count = (if f < expected - of_nat whole then Suc whole else whole);
       if count = 0 then ret None
       else (case New (lm_FPEKey lm) (lm_Size lm) of
         Inl e \<Rightarrow> ret (Some (ErrAlloc e))
       | Inr alloc \<Rightarrow> do {
           rs \<leftarrow> Snapshot (nz_shardID n) (lm_ID lm) (int64_of_u64 (byte_len (lm_Size lm) (lm_Bits lm)));
           (case rs of
              Inl e \<Rightarrow> ret (Some e)
            | Inr raw \<Rightarrow>
                (case WrapBitmap raw (lm_Size lm) (lm_Bits lm) of
                   Inl e \<Rightarrow> ret (Some (ErrBitmap e))
                 | Inr bm \<Rightarrow> do {
                     rd \<leftarrow> decoy_flips hmac n lm alloc bm False count;
                     (case rd of
                        Inl e \<Rightarrow> ret (Some e)
                      | Inr dirty \<Rightarrow> do {
                          (if dirty then MarkDirty (lm_ID lm) (nz_DefaultTTLSeconds n) else ret ());
                          ret None
                        })
                   }))
         })
     })"

text \<open>\<open>Sweep\<close>: the error of one list is logged, and the pass goes on.\<close>

definition Noiser_Sweep :: "(bytes \<Rightarrow> bytes \<Rightarrow> bytes) \<Rightarrow> Noiser \<Rightarrow> (pub_state world, err option) state" where
  "Noiser_Sweep hmac n =
     (if nz_Rate n \<le> 0 then ret None
      else do {
        rl \<leftarrow> NoiseLists (nz_shardID n);
        (case rl of
           Inl e \<Rightarrow> ret (Some e)
         | Inr lms \<Rightarrow> for_each (\<lambda>lm. do { sweepList hmac n lm; ret None }) lms)
      })"

section \<open>Every pass performs permitted actions\<close>

lemma moves_rand_Float64 [moves_rules]: "moves world_leads rand_Float64"
  unfolding rand_Float64_def by (intro moves_rules)

lemma moves_nextDecoyStatus [moves_rules]: "moves world_leads (nextDecoyStatus cur)"
  unfolding nextDecoyStatus_def by (intro moves_rules)

lemma moves_decoy_flips [moves_rules]: "moves world_leads (decoy_flips hmac n lm alloc bm dirty k)"
proof (induction k arbitrary: dirty)
  case 0
  show ?case by (simp add: moves_ret reflp_world_leads)
next
  case (Suc k)
  show ?case unfolding decoy_flips.simps by (intro moves_rules Suc)
qed

lemma moves_sweepList [moves_rules]: "moves world_leads (sweepList hmac n lm)"
  unfolding sweepList_def Let_def by (intro moves_rules)

lemma moves_Noiser_Sweep: "moves world_leads (Noiser_Sweep hmac n)"
  unfolding Noiser_Sweep_def by (intro moves_rules)

section \<open>What a pass leaves alone\<close>

lemma quiet_SetStatus_keep:
  assumes "\<And>t. P t \<Longrightarrow> P (exec (KvSetByte sh l (unat q) (uint off) bits v) t)" "\<And>t. P t \<Longrightarrow> P (exec (KvIncr sh l) t)"
  shows "quiet P (SetStatus sh l q off bits v) (\<lambda>_. P)"
  unfolding SetStatus_def call_act_def
  by (rule quiet_bind[OF quiet_remote[where Q = "\<lambda>_. P"]])
     (auto intro!: quiet_case_sum quiet_ret quiet_remote simp del: exec.simps intro: assms)

lemma quiet_nextDecoyStatus: "quiet P (nextDecoyStatus cur) (\<lambda>_. P)"
  unfolding nextDecoyStatus_def
  by (intro quiet_if quiet_bind[where Q = "\<lambda>_. P"] quiet_rand_below quiet_ret)

text \<open>
  \<open>spared S l n bits t0\<close>: in shard \<open>S\<close>, the list \<open>l\<close> of \<open>n\<close> entries reads as in \<open>t0\<close> at every allocated index; the
  tables and the other shards are those of \<open>t0\<close>.
\<close>

definition spared :: "string \<Rightarrow> string \<Rightarrow> nat \<Rightarrow> int \<Rightarrow> stores \<Rightarrow> stores \<Rightarrow> bool" where
  "spared S l n bits t0 t \<longleftrightarrow> pg t = pg t0 \<and> (\<forall>sh. sh \<noteq> S \<longrightarrow> kv t sh = kv t0 sh) \<and> kv_inv l n bits (kv t S)
     \<and> (\<forall>j<n. sql_select_allocation l (int64_of_u64 (of_nat j)) (pg t0) \<noteq> None \<longrightarrow>
          kv_read l bits (kv t S) j = kv_read l bits (kv t0 S) j)"

lemma bitmapKey_inj: "bitmapKey l = bitmapKey l' \<longleftrightarrow> l = l'"
  by (simp add: bitmapKey_def)

lemma kv_write_other: "l' \<noteq> l \<Longrightarrow> ks_strings (kv_write l bits ks i v) (bitmapKey l') = ks_strings ks (bitmapKey l')"
  by (auto simp: kv_write_def setByteScript_def kv_setrange_def bitmapKey_inj Let_def split: prod.splits sum.splits if_splits)

lemma spared_KvIncr: "spared S l n bits t0 t \<Longrightarrow> spared S l n bits t0 (exec (KvIncr S l') t)"
  using kv_strings_cong[where l = l, OF fun_cong[OF kv_exec_incr(1)[of S l' t]]] kv_exec_incr(2)[of S l' t] kv_exec_incr(3)[of S l' t]
  unfolding spared_def by (metis (no_types, lifting))

lemma spared_KvSetByte:
  assumes "spared S l n bits t0 t" "ByteOffset idx bits' = (q, off)"
    "l' = l \<Longrightarrow> bits' = bits \<and> unat idx < n \<and> sql_select_allocation l (int64_of_u64 idx) (pg t0) = None"
  shows "spared S l n bits t0 (exec (KvSetByte S l' (unat q) (uint off) bits' v) t)"
proof -
  let ?t = "exec (KvSetByte S l' (unat q) (uint off) bits' v) t"
  have kv: "kv ?t S = kv_write l' bits' (kv t S) (unat idx) v" by (rule kv_exec_set_byte[OF assms(2)])
  have other: "pg ?t = pg t" "\<forall>sh. sh \<noteq> S \<longrightarrow> kv ?t sh = kv t sh" by (simp_all add: on_kv_def)
  have inv: "kv_inv l n bits (kv t S)" using assms(1) by (simp add: spared_def)
  show ?thesis
  proof (cases "l' = l")
    case True
    then have b: "bits' = bits" "unat idx < n" "sql_select_allocation l (int64_of_u64 idx) (pg t0) = None" using assms(3) by auto
    have "kv_read l bits (kv ?t S) j = kv_read l bits (kv t S) j"
      if "j < n" "sql_select_allocation l (int64_of_u64 (of_nat j)) (pg t0) \<noteq> None" for j
      using kv_read_write(1)[OF inv b(2) that(1), of v] that(2) b kv True by auto
    moreover have "kv_inv l n bits (kv ?t S)" using kv_read_write(2)[OF inv b(2,2), of v] kv True b(1) by simp
    ultimately show ?thesis using assms(1) other unfolding spared_def by simp
  next
    case False
    then have "ks_strings (kv ?t S) (bitmapKey l) = ks_strings (kv t S) (bitmapKey l)" using kv kv_write_other by simp
    from kv_strings_cong[OF this] show ?thesis using assms(1) other unfolding spared_def by simp
  qed
qed

lemma quiet_IsAllocated:
  "quiet (spared S l n bits t0) (IsAllocated l' idx)
     (\<lambda>r t. (r = Inr False \<longrightarrow> sql_select_allocation l' (int64_of_u64 idx) (pg t0) = None) \<and> spared S l n bits t0 t)"
  unfolding IsAllocated_def pg_query_def by (rule quiet_remote) (auto simp: spared_def)

lemma quiet_decoy_flips:
  assumes "lm_ID lm = l \<Longrightarrow> lm_Bits lm = bits \<and> unat (bm_size bm) \<le> n"
  shows "quiet (spared (nz_shardID z) l n bits t0) (decoy_flips hmac z lm alloc bm dirty k) (\<lambda>_. spared (nz_shardID z) l n bits t0)"
proof (induction k arbitrary: dirty)
  case 0
  show ?case by (simp add: quiet_ret)
next
  case (Suc k)
  let ?P = "spared (nz_shardID z) l n bits t0"
  have wr: "quiet ?P (case ByteOffset idx (lm_Bits lm) of (byteIndex, bitOffset) \<Rightarrow> do {
        rs \<leftarrow> SetStatus (nz_shardID z) (lm_ID lm) byteIndex bitOffset (lm_Bits lm) v;
        (case rs of Inl e \<Rightarrow> ret (Inl e) | Inr _ \<Rightarrow> decoy_flips hmac z lm alloc bm True k) }) (\<lambda>_. ?P)"
    if "Get bm idx = Inr cur" "sql_select_allocation (lm_ID lm) (int64_of_u64 idx) (pg t0) = None" for idx cur v
  proof -
    obtain q off where bo: "ByteOffset idx (lm_Bits lm) = (q, off)" by fastforce
    have "idx < bm_size bm" using that(1) by (auto simp: Get_def split: if_splits)
    then have idx: "unat idx < unat (bm_size bm)" by (simp add: word_less_nat_alt)
    have "quiet ?P (SetStatus (nz_shardID z) (lm_ID lm) q off (lm_Bits lm) v) (\<lambda>_. ?P)"
    proof (rule quiet_SetStatus_keep)
      fix t assume t: "?P t"
      show "?P (exec (KvSetByte (nz_shardID z) (lm_ID lm) (unat q) (uint off) (lm_Bits lm) v) t)"
        by (rule spared_KvSetByte[OF t bo]) (use assms idx that(2) in auto)
      show "?P (exec (KvIncr (nz_shardID z) (lm_ID lm)) t)" using t by (rule spared_KvIncr)
    qed
    then show ?thesis unfolding bo prod.case by (intro quiet_bind[where Q = "\<lambda>_. ?P"] quiet_case_sum quiet_ret Suc)
  qed
  have al: "quiet ?P (do { ra \<leftarrow> IsAllocated (lm_ID lm) idx;
      (case ra of Inl e \<Rightarrow> ret (Inl e)
       | Inr allocated \<Rightarrow> if allocated then decoy_flips hmac z lm alloc bm dirty k
           else (case ByteOffset idx (lm_Bits lm) of (byteIndex, bitOffset) \<Rightarrow> do {
             rs \<leftarrow> SetStatus (nz_shardID z) (lm_ID lm) byteIndex bitOffset (lm_Bits lm) v;
             (case rs of Inl e \<Rightarrow> ret (Inl e) | Inr _ \<Rightarrow> decoy_flips hmac z lm alloc bm True k) })) }) (\<lambda>_. ?P)"
    if "Get bm idx = Inr cur" for idx cur v
    by (intro quiet_bind[OF quiet_IsAllocated] quiet_pure quiet_case_sum quiet_if) (auto intro: quiet_ret Suc wr[OF that])
  show ?case
    unfolding decoy_flips.simps
    by (intro quiet_bind[where Q = "\<lambda>_. ?P"] quiet_rand_below quiet_case_sum quiet_ret quiet_nextDecoyStatus quiet_if Suc al)
qed

lemma quiet_sweepList:
  assumes "lm_ID lm = l \<Longrightarrow> lm_Bits lm = bits \<and> unat (lm_Size lm) \<le> n"
  shows "quiet (spared (nz_shardID z) l n bits t0) (sweepList hmac z lm) (\<lambda>_. spared (nz_shardID z) l n bits t0)"
proof -
  let ?P = "spared (nz_shardID z) l n bits t0"
  have snap: "quiet ?P (Snapshot sh i b) (\<lambda>_. ?P)" for sh i b
    unfolding Snapshot_def by (intro quiet_bind[where Q = "\<lambda>_. ?P"] quiet_remote quiet_ret) auto
  have fl: "quiet ?P (decoy_flips hmac z lm alloc bm d k) (\<lambda>_. ?P)"
    if "WrapBitmap raw (lm_Size lm) (lm_Bits lm) = Inr bm" for raw alloc bm d k
  proof (rule quiet_decoy_flips)
    assume "lm_ID lm = l"
    moreover have "bm_size bm = lm_Size lm" using that by (auto simp: WrapBitmap_def Let_def split: if_splits)
    ultimately show "lm_Bits lm = bits \<and> unat (bm_size bm) \<le> n" using assms by simp
  qed
  show ?thesis
    unfolding sweepList_def rand_Float64_def Let_def
    by (intro quiet_if quiet_ret quiet_bind[where Q = "\<lambda>_. ?P"] quiet_rand_below quiet_case_sum snap fl quiet_MarkDirty)
qed

lemma quiet_Noiser_Sweep:
  assumes "wf_pg (pg t0)" "sql_select_list l (pg t0) = Some row"
  shows "quiet (spared (nz_shardID z) l (unat (u64_of_int (lr_size row))) (lr_bits row) t0) (Noiser_Sweep hmac z)
     (\<lambda>_. spared (nz_shardID z) l (unat (u64_of_int (lr_size row))) (lr_bits row) t0)"
proof -
  let ?P = "spared (nz_shardID z) l (unat (u64_of_int (lr_size row))) (lr_bits row) t0"
  have row: "row \<in> set (lists (pg t0))" "lr_id row = l" using select_list_mem[OF assms(2)] by auto
  have q: "quiet ?P (NoiseLists (nz_shardID z)) (\<lambda>r t. (\<forall>lms. r = Inr lms \<longrightarrow>
      (\<forall>lm\<in>set lms. lm_ID lm = l \<longrightarrow> lm_Bits lm = lr_bits row \<and> unat (lm_Size lm) \<le> unat (u64_of_int (lr_size row)))) \<and> ?P t)"
    unfolding NoiseLists_def queryLists_def pg_query_def
    by (rule quiet_remote)
       (auto simp: spared_def sql_select_lists_def scanListMeta_def row(2) dest!: same_list_row[OF assms(1) row(1)])
  have "quiet ?P (for_each (\<lambda>lm. do { sweepList hmac z lm; ret (None :: err option) }) lms) (\<lambda>_. ?P)"
    if "\<forall>lm\<in>set lms. lm_ID lm = l \<longrightarrow> lm_Bits lm = lr_bits row \<and> unat (lm_Size lm) \<le> unat (u64_of_int (lr_size row))" for lms
    using that
  proof (induction lms)
    case (Cons lm lms)
    then show ?case
      unfolding for_each.simps
      by (intro quiet_bind[where Q = "\<lambda>_. ?P"] quiet_sweepList quiet_ret quiet_case_option) auto
  qed (simp add: quiet_ret)
  then show ?thesis
    unfolding Noiser_Sweep_def
    by (intro quiet_if quiet_ret quiet_bind[OF q] quiet_pure quiet_case_sum) (auto intro: quiet_ret)
qed

section \<open>Properties\<close>


text \<open>One round of the loop in a quiet world: draws \<open>d\<close> and \<open>b\<close>, an entry that reads VALID in the snapshot.\<close>

lemma run_SetStatus:
  assumes "sched w = []" "fates w = []" "kv_inv l n bits (kv (st w) sh)" "unat idx < n" "ByteOffset idx bits = (q, off)"
    "live_version sh l (st w) < max_counter"
  shows "\<exists>t. run_state (SetStatus sh l q off bits v) w = (Inr (live_version sh l (st w) + 1), w\<lparr>st := t\<rparr>) \<and> pg t = pg (st w) \<and> clock t = clock (st w)
     \<and> ks_strings (kv t sh) = ks_strings (kv_write l bits (kv (st w) sh) (unat idx) v)
     \<and> live_version sh l t = live_version sh l (st w) + 1"
proof -
  let ?t1 = "exec (KvSetByte sh l (unat q) (uint off) bits v) (st w)" and ?lv = "live_version sh l (st w)"
  obtain d where d: "ks_strings (kv (st w) sh) (bitmapKey l) = Some d" using assms(3) by (auto simp: kv_inv_def split: option.splits)
  obtain bb ks where ks: "setByteScript (bitmapKey l) (unat q) (uint off) bits v (kv (st w) sh) = Inr (bb, ks)"
      "ks_counters ks = ks_counters (kv (st w) sh)"
    using setByteScript_index[OF assms(3,4,5) d, of v] by auto
  have t1: "kv ?t1 sh = ks" "pg ?t1 = pg (st w)" "clock ?t1 = clock (st w)" using ks by (simp_all add: on_kv_def or_same_def)
  have cnt: "(case ks_counters ks (versionKey l) of None \<Rightarrow> 0 | Some n \<Rightarrow> n) = ?lv" using ks(2) by (simp add: live_version_def)
  have inc: "kv_incr (versionKey l) (kv ?t1 sh) = Inr (?lv + 1, ks\<lparr>ks_counters := (ks_counters ks)(versionKey l \<mapsto> ?lv + 1)\<rparr>)"
    unfolding t1(1) using assms(6) by (simp add: kv_incr_def cnt Let_def)
  let ?t2 = "exec (KvIncr sh l) ?t1"
  have "run_state (SetStatus sh l q off bits v) w = (Inr (?lv + 1), w\<lparr>st := ?t2\<rparr>)"
    using assms(1,2) ks(1) inc
    by (simp add: SetStatus_def call_act_def remote_def interfere_def next_fate_def apply_store_def del: exec.simps)
  moreover have "live_version sh l ?t2 = ?lv + 1" using inc by (simp add: live_version_def on_kv_def or_same_def)
  moreover have "ks_strings (kv ?t2 sh) = ks_strings (kv_write l bits (kv (st w) sh) (unat idx) v)"
    using kv_exec_incr(1) kv_exec_set_byte[OF assms(5)] by simp
  ultimately show ?thesis using kv_exec_incr(3,4)[of sh l ?t1] t1(2,3) by (intro exI[of _ ?t2]) simp
qed

lemma run_flip:
  fixes z lm
  defines "S \<equiv> nz_shardID z" and "l \<equiv> lm_ID lm" and "bits \<equiv> lm_Bits lm"
  assumes "sched w = []" "fates w = []" "draws w = d # b # ds" "d < unat (lm_Size lm - lm_Cursor lm)"
    "Index hmac alloc (lm_Cursor lm + of_nat d) = Inr idx" "Get bm idx = Inr StatusValid"
    "sql_select_allocation l (int64_of_u64 idx) (pg (st w)) = None"
    "kv_inv l n bits (kv (st w) S)" "unat idx < n" "live_version S l (st w) < max_counter"
  shows "\<exists>t. run_state (decoy_flips hmac z lm alloc bm dirty (Suc k)) w = run_state (decoy_flips hmac z lm alloc bm True k) (w\<lparr>draws := ds, st := t\<rparr>)
     \<and> pg t = pg (st w) \<and> kv_inv l n bits (kv t S) \<and> live_version S l t = live_version S l (st w) + 1
     \<and> kv_read l bits (kv t S) (unat idx) = (if b mod 2 = 0 then StatusInvalid else StatusSuspended) AND mask (nat bits)"
proof -
  obtain q off where bo: "ByteOffset idx bits = (q, off)" by fastforce
  let ?v = "if b mod 2 = 0 then StatusInvalid else StatusSuspended"
  let ?w = "w\<lparr>draws := ds\<rparr>"
  have "sched ?w = []" "fates ?w = []" "kv_inv l n bits (kv (st ?w) S)" "live_version S l (st ?w) < max_counter" using assms by simp_all
  from run_SetStatus[OF this(1,2,3) assms(12) bo this(4), of ?v] obtain t where
    t: "run_state (SetStatus S l q off bits ?v) ?w = (Inr (live_version S l (st w) + 1), ?w\<lparr>st := t\<rparr>)" "pg t = pg (st w)"
      "ks_strings (kv t S) = ks_strings (kv_write l bits (kv (st w) S) (unat idx) ?v)" "live_version S l t = live_version S l (st w) + 1"
    by auto
  have d: "run_state (rand_below m) w = (d mod m, w\<lparr>draws := b # ds\<rparr>)" for m using assms(6) by (simp add: rand_below_def next_draw_def)
  have nx: "run_state (nextDecoyStatus StatusValid) (w\<lparr>draws := b # ds\<rparr>) = ((?v, True), ?w)"
    by (simp add: nextDecoyStatus_def rand_below_def next_draw_def)
  have al: "run_state (IsAllocated l idx) ?w = (Inr False, ?w)"
    using assms(4,5,10) by (simp add: IsAllocated_def pg_query_def remote_def interfere_def next_fate_def apply_store_def)
  have "run_state (decoy_flips hmac z lm alloc bm dirty (Suc k)) w = run_state (decoy_flips hmac z lm alloc bm True k) (w\<lparr>draws := ds, st := t\<rparr>)"
    using assms(7,8,9) nx al bo t(1) by (simp add: d S_def l_def bits_def)
  moreover note kv_strings_cong[OF fun_cong[OF t(3)]] kv_read_write[OF assms(11,12,12), of ?v]
  ultimately show ?thesis using t(2,4) by (intro exI[of _ t]) simp
qed

text \<open>
  A decoy revocation can be undone: the loop keeps reading the snapshot it took before its first write,
  so when one pass draws the same never-allocated position twice, an entry the first draw set to INVALID is
  set to SUSPENDED by the second, a change a real entry never makes and the noise is meant never to make.
\<close>

theorem decoy_revocation_undone:
  assumes "sched w = []" "fates w = []" "draws w = [d, 0, d, 1]" "d < unat (lm_Size lm - lm_Cursor lm)"
    "Index hmac alloc (lm_Cursor lm + of_nat d) = Inr idx" "Get bm idx = Inr StatusValid" "lm_Bits lm = 2"
    "sql_select_allocation (lm_ID lm) (int64_of_u64 idx) (pg (st w)) = None"
    "unat idx < n" "kv_inv (lm_ID lm) n 2 (kv (st w) (nz_shardID z))"
    "live_version (nz_shardID z) (lm_ID lm) (st w) + 1 < max_counter"
  shows "\<exists>w1 w2. run_state (decoy_flips hmac z lm alloc bm False 1) w = (Inr True, w1)
     \<and> kv_read (lm_ID lm) 2 (kv (st w1) (nz_shardID z)) (unat idx) = StatusInvalid
     \<and> run_state (decoy_flips hmac z lm alloc bm False 2) w = (Inr True, w2)
     \<and> kv_read (lm_ID lm) 2 (kv (st w2) (nz_shardID z)) (unat idx) = StatusSuspended"
proof -
  have m: "StatusInvalid AND mask (nat 2) = StatusInvalid" "StatusSuspended AND mask (nat 2) = StatusSuspended"
    by (simp_all add: mask_eq_exp_minus_1)
  have lv: "live_version (nz_shardID z) (lm_ID lm) (st w) < max_counter" using assms(11) by linarith
  obtain t1 where t1: "\<And>k. run_state (decoy_flips hmac z lm alloc bm False (Suc k)) w
        = run_state (decoy_flips hmac z lm alloc bm True k) (w\<lparr>draws := [d, 1], st := t1 k\<rparr>)"
    "\<And>k. pg (t1 k) = pg (st w)" "\<And>k. kv_inv (lm_ID lm) n 2 (kv (t1 k) (nz_shardID z))"
    "\<And>k. live_version (nz_shardID z) (lm_ID lm) (t1 k) = live_version (nz_shardID z) (lm_ID lm) (st w) + 1"
    "\<And>k. kv_read (lm_ID lm) 2 (kv (t1 k) (nz_shardID z)) (unat idx) = StatusInvalid"
    using run_flip[OF assms(1,2,3,4,5,6,8) _ assms(9) lv, of False] assms(7,10) m by (simp) metis
  let ?w = "w\<lparr>draws := [d, 1], st := t1 1\<rparr>"
  have "sched ?w = []" "fates ?w = []" "draws ?w = [d, 1]" using assms by simp_all
  moreover have "sql_select_allocation (lm_ID lm) (int64_of_u64 idx) (pg (st ?w)) = None"
    "live_version (nz_shardID z) (lm_ID lm) (st ?w) < max_counter" "kv_inv (lm_ID lm) n 2 (kv (st ?w) (nz_shardID z))"
    using t1 assms(8,11) by simp_all
  ultimately obtain t2 where "run_state (decoy_flips hmac z lm alloc bm True (Suc 0)) ?w
        = run_state (decoy_flips hmac z lm alloc bm True 0) (?w\<lparr>draws := [], st := t2\<rparr>)"
    "kv_read (lm_ID lm) 2 (kv t2 (nz_shardID z)) (unat idx) = StatusSuspended"
    using run_flip[of ?w d 1 "[]" lm hmac alloc idx bm n z True 0] assms(4,5,6,7,9) m by auto
  then show ?thesis using t1(1)[of 0] t1(1)[of 1] t1(5)[of 0] by (simp add: numeral_2_eq_2)
qed

section \<open>Witnesses\<close>

definition demo_noiser :: Noiser where "demo_noiser = NewNoiser ''a'' 1 60"

lemma demo_noise_inv: "kv_inv ''a.1'' 2 2 (kv demo_empty ''a'')"
  by (simp add: demo_empty_state kv_inv_def ValidBitWidth_def)


theorem decoy_revocation_undone_witness:
  "\<exists>w2. run_state (decoy_flips demo_hmac demo_noiser (scanListMeta demo_row) \<lparr>al_key = [], al_n = 2, al_half = 1\<rparr>
       \<lparr>bm_bits = 2, bm_size = 2, bm_data = [0]\<rparr> False 2) ((demo_world demo_empty)\<lparr>draws := [0, 0, 0, 1]\<rparr>) = (Inr True, w2)
     \<and> kv_read ''a.1'' 2 (kv (st w2) ''a'') 0 = StatusSuspended"
proof -
  let ?w = "(demo_world demo_empty)\<lparr>draws := [0, 0, 0, 1]\<rparr>" and ?lm = "scanListMeta demo_row"
  have lm: "lm_ID ?lm = ''a.1''" "lm_Size ?lm = 2" "lm_Cursor ?lm = 0" "lm_Bits ?lm = 2" "nz_shardID demo_noiser = ''a''"
    by (simp_all add: scanListMeta_def demo_row_def u64_of_int_def demo_noiser_def NewNoiser_def)
  have w: "sched ?w = []" "fates ?w = []" "draws ?w = [0, 0, 0, 1]" "st ?w = demo_empty" by (simp_all add: quiet_world_def)
  have "Get \<lparr>bm_bits = 2, bm_size = 2, bm_data = [0]\<rparr> 0 = Inr StatusValid" by (simp add: Get_def ByteOffset_def)
  moreover have "live_version ''a'' ''a.1'' demo_empty + 1 < max_counter" by (simp add: live_version_def demo_empty_state)
  moreover have "sql_select_allocation ''a.1'' (int64_of_u64 0) (pg demo_empty) = None"
    by (simp add: demo_empty_state sql_select_allocation_def)
  ultimately show ?thesis
    using decoy_revocation_undone[OF w(1,2,3), of ?lm demo_hmac "\<lparr>al_key = [], al_n = 2, al_half = 1\<rparr>" 0
        "\<lparr>bm_bits = 2, bm_size = 2, bm_data = [0]\<rparr>" 2 demo_noiser] demo_index[of "[]"] demo_noise_inv w(4) lm by auto
qed

end
