(* ===== verification/Trust.thy ===== *)
theory Trust
  imports Go_Strings
begin

text \<open>
  Trust evaluation, \<open>src/internal/trust\<close>: the decision whether a key may act as an issuer
  (\<open>trust.go\<close>), the evaluator that asks a policy decision point (\<open>authzen.go\<close>) and the one that trusts
  everyone (\<open>allowall.go\<close>). A JSON value is a tree; a Go \<open>map[string]any\<close> is the list of the members of
  an object, the nil map is \<open>None\<close>. The JSON encoder and decoder and the HTTP client with the decision
  point behind it are arguments.
\<close>

section \<open>Definitions\<close>

datatype json = JNull | JBool bool | JNumber int | JString string | JArray "json list" | JObject "(string \<times> json) list"

type_synonym jobject = "(string \<times> json) list"

record Decision =
  dc_Trusted :: bool
  dc_Reason :: string

abbreviation (input) CredentialJWK :: string where "CredentialJWK \<equiv> ''jwk''"
abbreviation (input) CredentialX5C :: string where "CredentialX5C \<equiv> ''x5c''"

record Credential =
  cr_Type :: string
  cr_JWK :: "jobject option"
  cr_X5C :: "string list"

definition CredentialFromJWK :: "jobject option \<Rightarrow> Credential" where
  "CredentialFromJWK jwk = \<lparr>cr_Type = CredentialJWK, cr_JWK = jwk, cr_X5C = []\<rparr>"

definition CredentialFromX5C :: "string list \<Rightarrow> Credential" where
  "CredentialFromX5C chain = \<lparr>cr_Type = CredentialX5C, cr_JWK = None, cr_X5C = chain\<rparr>"

datatype trust_error =
    NoJWK
  | NoChain
  | UnsupportedCredential string
  | MarshalRequest
  | BuildRequest
  | RequestFailed
  | PdpStatus nat
  | DecodeResponse

text \<open>An \<open>Evaluator\<close>: its \<open>Name\<close> and its \<open>Evaluate\<close>.\<close>

record Evaluator =
  ev_Name :: string
  ev_Evaluate :: "string \<Rightarrow> Credential \<Rightarrow> trust_error + Decision"

record authzenRequest =
  az_SubjectType :: string
  az_SubjectID :: string
  az_ResourceType :: string
  az_ResourceID :: string
  az_ResourceKey :: "json list"
  az_ActionName :: "string option"

text \<open>\<open>az_Context\<close> is the \<open>reason\<close> object of the context, \<open>None\<close> when there is no context; a missing \<open>reason\<close> is empty.\<close>

record authzenResponse =
  az_Decision :: bool
  az_Context :: "jobject option"

record http_lib =
  json_Marshal :: "authzenRequest \<Rightarrow> bytes option"
  http_NewRequest :: "string \<Rightarrow> bool"
  http_Do :: "string \<Rightarrow> bytes \<Rightarrow> (nat \<times> bytes) option"
  json_Decode :: "bytes \<Rightarrow> authzenResponse option"

record AuthZENEvaluator =
  ae_baseURL :: string
  ae_actionName :: string

definition maxAuthZENResponseBytes :: nat where "maxAuthZENResponseBytes = 2 ^ 20"

definition credentialKey :: "Credential \<Rightarrow> trust_error + json list" where
  "credentialKey cred =
     (if cr_Type cred = CredentialJWK then
        (case cr_JWK cred of None \<Rightarrow> Inl NoJWK | Some jwk \<Rightarrow> Inr [JObject jwk])
      else if cr_Type cred = CredentialX5C then
        (if cr_X5C cred = [] then Inl NoChain else Inr (map JString (cr_X5C cred)))
      else Inl (UnsupportedCredential (cr_Type cred)))"

definition authzen_request :: "AuthZENEvaluator \<Rightarrow> string \<Rightarrow> Credential \<Rightarrow> json list \<Rightarrow> authzenRequest" where
  "authzen_request e subjectID cred key =
     \<lparr>az_SubjectType = ''key'', az_SubjectID = subjectID, az_ResourceType = cr_Type cred, az_ResourceID = subjectID,
      az_ResourceKey = key, az_ActionName = (if ae_actionName e \<noteq> [] then Some (ae_actionName e) else None)\<rparr>"

definition authzen_reason :: "authzenResponse \<Rightarrow> string" where
  "authzen_reason parsed =
     (let reason = (case az_Context parsed of
            None \<Rightarrow> ''denied by policy''
          | Some r \<Rightarrow> (case map_of r ''message'' of Some (JString m) \<Rightarrow> m | _ \<Rightarrow> ''denied by policy''))
      in if az_Decision parsed then ''trusted by policy'' else reason)"

definition AuthZEN_Evaluate :: "http_lib \<Rightarrow> AuthZENEvaluator \<Rightarrow> string \<Rightarrow> Credential \<Rightarrow> trust_error + Decision" where
  "AuthZEN_Evaluate h e subjectID cred =
     (case credentialKey cred of
        Inl err \<Rightarrow> Inl err
      | Inr key \<Rightarrow>
          (case json_Marshal h (authzen_request e subjectID cred key) of
             None \<Rightarrow> Inl MarshalRequest
           | Some body \<Rightarrow>
               (let url = ae_baseURL e @ ''/evaluation''
                in if \<not> http_NewRequest h url then Inl BuildRequest
                   else case http_Do h url body of
                     None \<Rightarrow> Inl RequestFailed
                   | Some (statusCode, respBody) \<Rightarrow>
                       if statusCode \<noteq> 200 then Inl (PdpStatus statusCode)
                       else case json_Decode h (take maxAuthZENResponseBytes respBody) of
                         None \<Rightarrow> Inl DecodeResponse
                       | Some parsed \<Rightarrow> Inr \<lparr>dc_Trusted = az_Decision parsed, dc_Reason = authzen_reason parsed\<rparr>)))"

definition NewAuthZENEvaluator :: "http_lib \<Rightarrow> string \<Rightarrow> string \<Rightarrow> Evaluator" where
  "NewAuthZENEvaluator h baseURL actionName =
     \<lparr>ev_Name = ''authzen:'' @ baseURL,
      ev_Evaluate = AuthZEN_Evaluate h \<lparr>ae_baseURL = baseURL, ae_actionName = actionName\<rparr>\<rparr>"

definition AllowAllEvaluator :: Evaluator where
  "AllowAllEvaluator =
     \<lparr>ev_Name = ''allow-all'',
      ev_Evaluate = (\<lambda>subjectID cred. Inr \<lparr>dc_Trusted = True, dc_Reason = ''no trust PDP configured (fail-open default)''\<rparr>)\<rparr>"

section \<open>The contract of an evaluator\<close>

text \<open>
  What the authorization server relies on: a credential is either refused with a reason, or trusted, and
  \<open>approves\<close> is the authority behind a trusted answer.
\<close>

locale evaluator =
  fixes ev :: Evaluator
    and approves :: "string \<Rightarrow> Credential \<Rightarrow> bool"
  assumes trusted_approved: "ev_Evaluate ev subj cred = Inr d \<Longrightarrow> dc_Trusted d \<Longrightarrow> approves subj cred"
begin

lemma not_approved_not_trusted:
  "\<not> approves subj cred \<Longrightarrow> \<exists>r. ev_Evaluate ev subj cred = Inl r \<or> (\<exists>d. ev_Evaluate ev subj cred = Inr d \<and> \<not> dc_Trusted d)"
  by (cases "ev_Evaluate ev subj cred") (auto dest: trusted_approved)

end

text \<open>The answer of the decision point to the request for this subject and credential.\<close>

definition pdp_answer :: "http_lib \<Rightarrow> string \<Rightarrow> authzenRequest \<Rightarrow> authzenResponse option" where
  "pdp_answer h baseURL req =
     (case json_Marshal h req of
        Some body \<Rightarrow> (if http_NewRequest h (baseURL @ ''/evaluation'')
                    then (case http_Do h (baseURL @ ''/evaluation'') body of
                            Some (code, resp) \<Rightarrow> if code = 200 then json_Decode h (take maxAuthZENResponseBytes resp) else None
                          | None \<Rightarrow> None)
                    else None)
      | None \<Rightarrow> None)"

definition pdp_approves :: "http_lib \<Rightarrow> string \<Rightarrow> string \<Rightarrow> string \<Rightarrow> Credential \<Rightarrow> bool" where
  "pdp_approves h baseURL actionName subj cred \<longleftrightarrow>
     (\<exists>key resp. credentialKey cred = Inr key
        \<and> pdp_answer h baseURL (authzen_request \<lparr>ae_baseURL = baseURL, ae_actionName = actionName\<rparr> subj cred key) = Some resp
        \<and> az_Decision resp)"

lemma AuthZEN_Evaluate_answer:
  "AuthZEN_Evaluate h e subj cred =
     (case credentialKey cred of
        Inl err \<Rightarrow> Inl err
      | Inr key \<Rightarrow>
          (case pdp_answer h (ae_baseURL e) (authzen_request e subj cred key) of
             None \<Rightarrow> AuthZEN_Evaluate h e subj cred
           | Some resp \<Rightarrow> Inr \<lparr>dc_Trusted = az_Decision resp, dc_Reason = authzen_reason resp\<rparr>))"
  by (auto simp: AuthZEN_Evaluate_def pdp_answer_def Let_def split: sum.splits option.splits if_splits)

lemma AuthZEN_no_answer:
  assumes "credentialKey cred = Inr key" "pdp_answer h (ae_baseURL e) (authzen_request e subj cred key) = None"
  shows "\<exists>err. AuthZEN_Evaluate h e subj cred = Inl err"
  using assms by (auto simp: AuthZEN_Evaluate_def pdp_answer_def Let_def split: sum.splits option.splits if_splits)

lemma AuthZEN_trusted_iff:
  "(\<exists>d. AuthZEN_Evaluate h \<lparr>ae_baseURL = baseURL, ae_actionName = a\<rparr> subj cred = Inr d \<and> dc_Trusted d)
   \<longleftrightarrow> pdp_approves h baseURL a subj cred"
proof (cases "credentialKey cred")
  case (Inr key)
  let ?e = "\<lparr>ae_baseURL = baseURL, ae_actionName = a\<rparr>"
  show ?thesis
  proof (cases "pdp_answer h baseURL (authzen_request ?e subj cred key)")
    case None
    then show ?thesis using AuthZEN_no_answer[OF Inr, of h ?e subj] Inr by (auto simp: pdp_approves_def)
  next
    case (Some resp)
    then show ?thesis using Inr AuthZEN_Evaluate_answer[of h ?e subj cred] by (simp add: pdp_approves_def)
  qed
qed (simp add: AuthZEN_Evaluate_def pdp_approves_def)

interpretation authzen: evaluator "NewAuthZENEvaluator h baseURL a" "pdp_approves h baseURL a"
  for h baseURL a
  by unfold_locales (auto simp: NewAuthZENEvaluator_def AuthZEN_trusted_iff[symmetric])

interpretation allow_all: evaluator AllowAllEvaluator "\<lambda>_ _. True"
  by unfold_locales simp

section \<open>Properties\<close>

text \<open>
  C24. The evaluator that asks a decision point fails closed: it trusts a subject with a credential exactly
  when the decision point answered the request for this very subject and credential with status 200, a
  body whose first MiB decodes, and a positive decision; an unreachable decision point, any other status
  or an undecodable body is an error; and a credential that carries no key is never sent.
\<close>

theorem authzen_fails_closed:
  fixes h baseURL a
  defines "ev \<equiv> NewAuthZENEvaluator h baseURL a"
  shows "((\<exists>d. ev_Evaluate ev subj cred = Inr d \<and> dc_Trusted d) \<longleftrightarrow> pdp_approves h baseURL a subj cred)
    \<and> ((\<exists>d. ev_Evaluate ev subj cred = Inr d) \<longleftrightarrow> (\<exists>key resp. credentialKey cred = Inr key
        \<and> pdp_answer h baseURL (authzen_request \<lparr>ae_baseURL = baseURL, ae_actionName = a\<rparr> subj cred key) = Some resp))
    \<and> ((\<forall>url body. http_Do h url body = None) \<longrightarrow> (\<exists>err. ev_Evaluate ev subj cred = Inl err))"
proof -
  let ?e = "\<lparr>ae_baseURL = baseURL, ae_actionName = a\<rparr>"
  have ev: "ev_Evaluate ev = AuthZEN_Evaluate h ?e" by (simp add: ev_def NewAuthZENEvaluator_def)
  have ans: "(\<exists>d. AuthZEN_Evaluate h ?e subj cred = Inr d) \<longleftrightarrow> (\<exists>key resp. credentialKey cred = Inr key
        \<and> pdp_answer h baseURL (authzen_request ?e subj cred key) = Some resp)"
  proof (cases "credentialKey cred")
    case (Inr key)
    then show ?thesis
      using AuthZEN_Evaluate_answer[of h ?e subj cred] AuthZEN_no_answer[OF Inr, of h ?e subj]
      by (cases "pdp_answer h baseURL (authzen_request ?e subj cred key)") auto
  qed (simp add: AuthZEN_Evaluate_def)
  have "\<exists>err. AuthZEN_Evaluate h ?e subj cred = Inl err" if "\<forall>url body. http_Do h url body = None"
  proof -
    have "pdp_answer h baseURL req = None" for req
      using that by (auto simp: pdp_answer_def split: option.splits)
    then show ?thesis using ans by (cases "AuthZEN_Evaluate h ?e subj cred") auto
  qed
  with ans show ?thesis unfolding ev using AuthZEN_trusted_iff by blast
qed

definition demo_http :: "bool \<Rightarrow> http_lib" where
  "demo_http up = \<lparr>json_Marshal = (\<lambda>_. Some []), http_NewRequest = (\<lambda>_. True),
     http_Do = (\<lambda>_ _. if up then Some (200, [1]) else None),
     json_Decode = (\<lambda>_. Some \<lparr>az_Decision = True, az_Context = None\<rparr>)\<rparr>"

theorem authzen_fails_closed_witness:
  "\<exists>err. ev_Evaluate (NewAuthZENEvaluator (demo_http False) ''https://pdp'' []) ''alice'' (CredentialFromX5C [''c'']) = Inl err"
  using authzen_fails_closed[of "demo_http False" "''https://pdp''" "[]" "''alice''" "CredentialFromX5C [''c'']"]
  by (simp add: demo_http_def)

end
