(* ===== verification/Client_Assertion.thy ===== *)
theory Client_Assertion
  imports Trust Tokens
begin

text \<open>
  The client assertion an issuer presents to the authorization server,
  \<open>src/internal/clientassertion/verify.go\<close>: a token signed with the key its own header carries, as a bare
  JWK or as a certificate chain. The token and key libraries and the certificate parser are arguments:
  \<open>jwt_ParseUnverified\<close> yields the header, \<open>jwt_ParseWithClaims\<close> is called with the key, the accepted methods,
  the expected audience and the requirement of an expiry, and yields the claims.
\<close>

section \<open>Definitions\<close>

definition maxLifetime :: duration where "maxLifetime = 5 * Minute"

record Result =
  rs_IssuerID :: string
  rs_JWK :: "jobject option"
  rs_X5C :: "string list"

record RegisteredClaims =
  rc_Issuer :: string
  rc_Subject :: string
  rc_Audience :: "string list"
  rc_ExpiresAt :: "time option"
  rc_IssuedAt :: "time option"

datatype assertion_error =
    ParseFailed
  | BothProofs
  | NoProof
  | JwkNotObject
  | JwkMarshal
  | JwkDecode
  | OnlyECKeys
  | X5CNotArray
  | X5CNotString nat
  | X5CDecode
  | LeafParse
  | OnlyECLeaf
  | VerifyFailed
  | IssNotSub
  | LifetimeExceeded

record assertion_lib =
  jwt_ParseUnverified :: "string \<Rightarrow> jobject option"
  jwt_ParseWithClaims :: "string \<Rightarrow> pubkey \<Rightarrow> string list \<Rightarrow> string \<Rightarrow> bool \<Rightarrow> RegisteredClaims option"
  json_MarshalObject :: "jobject \<Rightarrow> bytes option"
  jose_UnmarshalJSON :: "bytes \<Rightarrow> pubkey option"
  x509_ParseCertificate :: "bytes \<Rightarrow> pubkey option"

definition resolveJWK :: "assertion_lib \<Rightarrow> json \<Rightarrow> assertion_error + pubkey \<times> jobject" where
  "resolveJWK lib raw =
     (case raw of
        JObject jwkMap \<Rightarrow>
          (case json_MarshalObject lib jwkMap of
             None \<Rightarrow> Inl JwkMarshal
           | Some jwkBytes \<Rightarrow>
               (case jose_UnmarshalJSON lib jwkBytes of
                  None \<Rightarrow> Inl JwkDecode
                | Some OtherKey \<Rightarrow> Inl OnlyECKeys
                | Some pubKey \<Rightarrow> Inr (pubKey, jwkMap)))
      | _ \<Rightarrow> Inl JwkNotObject)"

fun chain_from :: "nat \<Rightarrow> json list \<Rightarrow> assertion_error + string list" where
  "chain_from i [] = Inr []"
| "chain_from i (item # items) =
     (case item of
        JString s \<Rightarrow> (case chain_from (Suc i) items of Inl e \<Rightarrow> Inl e | Inr ss \<Rightarrow> Inr (s # ss))
      | _ \<Rightarrow> Inl (X5CNotString i))"

definition resolveX5C :: "assertion_lib \<Rightarrow> json \<Rightarrow> assertion_error + pubkey \<times> string list" where
  "resolveX5C lib raw =
     (case raw of
        JArray items \<Rightarrow>
          if items = [] then Inl X5CNotArray
          else (case chain_from 0 items of
            Inl e \<Rightarrow> Inl e
          | Inr chain \<Rightarrow>
              (case Std_Decode (hd chain) of
                 None \<Rightarrow> Inl X5CDecode
               | Some leafDER \<Rightarrow>
                   (case x509_ParseCertificate lib leafDER of
                      None \<Rightarrow> Inl LeafParse
                    | Some OtherKey \<Rightarrow> Inl OnlyECLeaf
                    | Some pubKey \<Rightarrow> Inr (pubKey, chain))))
      | _ \<Rightarrow> Inl X5CNotArray)"

definition resolveProofOfPossession ::
  "assertion_lib \<Rightarrow> jobject \<Rightarrow> assertion_error + pubkey \<times> jobject option \<times> string list" where
  "resolveProofOfPossession lib header =
     (case (map_of header ''jwk'', map_of header ''x5c'') of
        (Some _, Some _) \<Rightarrow> Inl BothProofs
      | (Some jwk, None) \<Rightarrow> (case resolveJWK lib jwk of Inl e \<Rightarrow> Inl e | Inr (k, m) \<Rightarrow> Inr (k, Some m, []))
      | (None, Some x5c) \<Rightarrow> (case resolveX5C lib x5c of Inl e \<Rightarrow> Inl e | Inr (k, c) \<Rightarrow> Inr (k, None, c))
      | (None, None) \<Rightarrow> Inl NoProof)"

definition Verify :: "assertion_lib \<Rightarrow> string \<Rightarrow> string \<Rightarrow> assertion_error + Result" where
  "Verify lib assertion expectedAudience =
     (case jwt_ParseUnverified lib assertion of
        None \<Rightarrow> Inl ParseFailed
      | Some header \<Rightarrow>
          (case resolveProofOfPossession lib header of
             Inl e \<Rightarrow> Inl e
           | Inr (pubKey, jwkMap, x5c) \<Rightarrow>
               (case jwt_ParseWithClaims lib assertion pubKey [''ES256''] expectedAudience True of
                  None \<Rightarrow> Inl VerifyFailed
                | Some claims \<Rightarrow>
                    if rc_Subject claims = [] \<or> rc_Issuer claims \<noteq> rc_Subject claims then Inl IssNotSub
                    else if (case (rc_IssuedAt claims, rc_ExpiresAt claims) of
                               (Some iat, Some expiry) \<Rightarrow> time_Sub expiry iat > maxLifetime
                             | _ \<Rightarrow> False)
                         then Inl LifetimeExceeded
                         else Inr \<lparr>rs_IssuerID = rc_Subject claims, rs_JWK = jwkMap, rs_X5C = x5c\<rparr>)))"

section \<open>Properties\<close>

text \<open>What the token library documents of \<open>ParseWithClaims\<close> with these options, at time \<open>now\<close>: \<open>valid_sig\<close> is a valid signature.\<close>

definition parse_law :: "(string \<Rightarrow> pubkey \<Rightarrow> string \<Rightarrow> bool) \<Rightarrow> time \<Rightarrow> assertion_lib \<Rightarrow> bool" where
  "parse_law valid_sig now lib \<longleftrightarrow>
     (\<forall>tok key ms aud req claims. jwt_ParseWithClaims lib tok key ms aud req = Some claims \<longrightarrow>
        (\<exists>alg\<in>set ms. valid_sig tok key alg) \<and> aud \<in> set (rc_Audience claims)
        \<and> (req \<longrightarrow> (\<exists>e. rc_ExpiresAt claims = Some e \<and> now < e)))"

definition key_of_proof :: "assertion_lib \<Rightarrow> Result \<Rightarrow> pubkey \<Rightarrow> bool" where
  "key_of_proof lib r key \<longleftrightarrow>
     (case rs_JWK r of
        Some m \<Rightarrow> rs_X5C r = [] \<and> Option.bind (json_MarshalObject lib m) (jose_UnmarshalJSON lib) = Some key
      | None \<Rightarrow> rs_X5C r \<noteq> [] \<and> Option.bind (Std_Decode (hd (rs_X5C r))) (x509_ParseCertificate lib) = Some key)"

lemma chain_from_length: "chain_from i items = Inr chain \<Longrightarrow> length chain = length items"
  by (induction items arbitrary: i chain) (auto split: json.splits sum.splits)

lemma resolve_key:
  assumes "resolveProofOfPossession lib header = Inr (key, jwk, x5c)"
  shows "key \<noteq> OtherKey \<and> key_of_proof lib \<lparr>rs_IssuerID = i, rs_JWK = jwk, rs_X5C = x5c\<rparr> key"
  using assms
  by (auto simp: resolveProofOfPossession_def resolveJWK_def resolveX5C_def key_of_proof_def
      split: option.splits sum.splits json.splits pubkey.splits if_splits dest: chain_from_length)


text \<open>
  The lifetime is only bounded for assertions that say when they were issued: an assertion without an
  \<open>iat\<close> claim is accepted whatever its expiry is, and so can be presented again until then.
\<close>

theorem no_iat_no_lifetime_bound:
  assumes "jwt_ParseUnverified lib assertion = Some header" "resolveProofOfPossession lib header = Inr (key, jwk, x5c)"
    "jwt_ParseWithClaims lib assertion key [''ES256''] aud True
       = Some \<lparr>rc_Issuer = i, rc_Subject = i, rc_Audience = auds, rc_ExpiresAt = Some e, rc_IssuedAt = None\<rparr>" "i \<noteq> []"
  shows "Verify lib assertion aud = Inr \<lparr>rs_IssuerID = i, rs_JWK = jwk, rs_X5C = x5c\<rparr>"
  using assms by (simp add: Verify_def)

section \<open>Witnesses\<close>

definition demo_assertion_lib :: "time option \<Rightarrow> time \<Rightarrow> assertion_lib" where
  "demo_assertion_lib iat e = \<lparr>jwt_ParseUnverified = (\<lambda>_. Some [(''alg'', JString ''ES256''), (''jwk'', JObject [(''kty'', JString ''EC'')])]),
     jwt_ParseWithClaims = (\<lambda>tok key ms aud req. if aud = ''https://as/token'' \<and> ''ES256'' \<in> set ms then
        Some \<lparr>rc_Issuer = ''alice'', rc_Subject = ''alice'', rc_Audience = [aud], rc_ExpiresAt = Some e, rc_IssuedAt = iat\<rparr> else None),
     json_MarshalObject = (\<lambda>_. Some [1]), jose_UnmarshalJSON = (\<lambda>_. Some (EcdsaKey 256 0)), x509_ParseCertificate = (\<lambda>_. None)\<rparr>"

lemma demo_resolve:
  "resolveProofOfPossession (demo_assertion_lib iat e) [(''alg'', JString ''ES256''), (''jwk'', JObject [(''kty'', JString ''EC'')])]
     = Inr (EcdsaKey 256 0, Some [(''kty'', JString ''EC'')], [])"
  by (simp add: resolveProofOfPossession_def resolveJWK_def demo_assertion_lib_def)


theorem no_iat_no_lifetime_bound_witness:
  "Verify (demo_assertion_lib None (10 ^ 20)) ''t'' ''https://as/token''
     = Inr \<lparr>rs_IssuerID = ''alice'', rs_JWK = Some [(''kty'', JString ''EC'')], rs_X5C = []\<rparr>"
  by (rule no_iat_no_lifetime_bound[OF _ demo_resolve]) (simp_all add: demo_assertion_lib_def)

end
