(* ===== verification/Access_Token.thy ===== *)
theory Access_Token
  imports Tokens Pg_Store
begin

text \<open>
  Access tokens, \<open>src/internal/accesstoken/keymanager.go\<close>: minting and the published key set. The token
  library is an argument: \<open>TAC_Validate\<close> the check of a permission string, \<open>NewNumericDate\<close> the claim value of
  a time, \<open>jose_NewSigner\<close> whether a signer for the algorithm, the key and the key id can be made, and
  \<open>jose_Serialize\<close> the signed compact form of the claims.
\<close>

section \<open>Definitions\<close>

record KeyManager =
  km_key :: signer
  km_keyID :: string

definition NewKeyManager :: "signer \<Rightarrow> string \<Rightarrow> KeyManager" where
  "NewKeyManager key keyID = \<lparr>km_key = key, km_keyID = keyID\<rparr>"

record IssueParams =
  ip_Issuer :: string
  ip_Audience :: string
  ip_Subject :: string
  ip_TenantID :: string
  ip_TAC :: string
  ip_TTL :: duration

record AccessTokenClaims =
  at_ID :: string
  at_Issuer :: string
  at_Subject :: string
  at_Audience :: "string list"
  at_IssuedAt :: int
  at_Expiry :: int
  at_TenantID :: string
  at_TAC :: string

record access_lib =
  TAC_Validate :: "string \<Rightarrow> bool"
  NewNumericDate :: "time \<Rightarrow> int"
  jose_NewSigner :: "string \<Rightarrow> signer \<Rightarrow> string \<Rightarrow> bool"
  jose_Serialize :: "signer \<Rightarrow> string \<Rightarrow> AccessTokenClaims \<Rightarrow> string option"

datatype issue_error = InvalidTAC | GenerateJTI | CreateSigner | SignFailed

definition randomID :: "('p world, err + string) state" where
  "randomID = do {
     r \<leftarrow> rand_read 16;
     ret (case r of Inl e \<Rightarrow> Inl e | Inr b \<Rightarrow> Inr (hex_encode b))
   }"

definition Issue :: "access_lib \<Rightarrow> KeyManager \<Rightarrow> IssueParams \<Rightarrow> ('p world, issue_error + string) state" where
  "Issue lib m p =
     (if \<not> TAC_Validate lib (ip_TAC p) then ret (Inl InvalidTAC)
      else do {
        rj \<leftarrow> randomID;
        (case rj of
           Inl _ \<Rightarrow> ret (Inl GenerateJTI)
         | Inr jti \<Rightarrow> do {
             now \<leftarrow> time_now;
             let claims = \<lparr>at_ID = jti, at_Issuer = ip_Issuer p, at_Subject = ip_Subject p, at_Audience = [ip_Audience p],
                  at_IssuedAt = NewNumericDate lib now, at_Expiry = NewNumericDate lib (now + ip_TTL p),
                  at_TenantID = ip_TenantID p, at_TAC = ip_TAC p\<rparr>;
             if \<not> jose_NewSigner lib ''ES256'' (km_key m) (km_keyID m) then ret (Inl CreateSigner)
             else (case jose_Serialize lib (km_key m) (km_keyID m) claims of
                     None \<Rightarrow> ret (Inl SignFailed)
                   | Some token \<Rightarrow> ret (Inr token))
           })
      })"

record JSONWebKey =
  wk_Key :: pubkey
  wk_KeyID :: string
  wk_Algorithm :: string
  wk_Use :: string

definition JWKS :: "(signer \<Rightarrow> pubkey) \<Rightarrow> KeyManager \<Rightarrow> JSONWebKey list" where
  "JWKS public m = [\<lparr>wk_Key = public (km_key m), wk_KeyID = km_keyID m, wk_Algorithm = ''ES256'', wk_Use = ''sig''\<rparr>]"

section \<open>Facts\<close>

lemma moves_randomID [moves_rules]: "moves world_leads randomID"
  unfolding randomID_def by (intro moves_rules)

lemma moves_Issue [moves_rules]: "moves world_leads (Issue lib m p)"
  unfolding Issue_def Let_def by (intro moves_rules)

lemma quiet_Issue: "quiet P (Issue lib m p) (\<lambda>_. P)"
  unfolding Issue_def randomID_def Let_def
  by (intro quiet_if quiet_bind[where Q = "\<lambda>_. P"] quiet_ret quiet_rand_read quiet_case_sum quiet_case_option quiet_time_now)

lemma run_rand_list: "\<exists>bs w'. run_state (rand_list n) w = (bs, w') \<and> st w' = st w \<and> length bs = n"
proof (induction n arbitrary: w)
  case (Suc n)
  obtain d v where d: "run_state next_draw w = (d, v)" "st v = st w"
    by (cases "draws w") (auto simp: next_draw_def)
  obtain bs v' where "run_state (rand_list n) v = (bs, v')" "st v' = st v" "length bs = n" using Suc.IH by blast
  with d show ?case by simp
qed simp

lemma run_randomID:
  "\<exists>r w'. run_state randomID w = (r, w') \<and> st w' = st w \<and> (\<forall>jti. r = Inr jti \<longrightarrow> length jti = 32)"
proof -
  obtain f v where f: "run_state next_fate w = (f, v)" "st v = st w" using run_next_fate by blast
  obtain bs v' where "run_state (rand_list 16) v = (bs, v')" "st v' = st v" "length bs = 16" using run_rand_list by blast
  with f show ?thesis by (auto simp: randomID_def rand_read_def)
qed

text \<open>
  What an access token says: a minted token is the serialization, under the manager's key and key
  id, of claims that name exactly the issuer, subject, audience, tenant and permissions asked for, with a
  fresh identifier of 32 hexadecimal digits, issued at an instant during the call and expiring the
  asked-for time later, and its permissions passed validation.
\<close>

lemma Issue_claims:
  assumes "run_state (Issue lib m p) w = (Inr token, w')"
  shows "\<exists>jti now. length jti = 32 \<and> clock (st w) \<le> now \<and> now \<le> clock (st w') \<and> TAC_Validate lib (ip_TAC p)
     \<and> jose_Serialize lib (km_key m) (km_keyID m)
         \<lparr>at_ID = jti, at_Issuer = ip_Issuer p, at_Subject = ip_Subject p, at_Audience = [ip_Audience p],
          at_IssuedAt = NewNumericDate lib now, at_Expiry = NewNumericDate lib (now + ip_TTL p),
          at_TenantID = ip_TenantID p, at_TAC = ip_TAC p\<rparr> = Some token"
proof -
  have tac: "TAC_Validate lib (ip_TAC p)" using assms by (auto simp: Issue_def split: if_splits)
  obtain r v where r: "run_state randomID w = (r, v)" "st v = st w" "\<forall>jti. r = Inr jti \<longrightarrow> length jti = 32"
    using run_randomID by blast
  then obtain jti where jti: "r = Inr jti" "length jti = 32" using assms tac by (auto simp: Issue_def split: sum.splits)
  obtain t v' where t: "leads (st v) t" "run_state time_now v = (clock t, v')" "st v' = t" by (rule run_time_now)
  have "clock (st w) \<le> clock t" using stableD[OF stable_clock order_refl t(1)] r(2) by simp
  then show ?thesis
    using assms tac r(1) jti t
    by (intro exI[of _ jti] exI[of _ "clock t"]) (auto simp: Issue_def Let_def split: if_splits option.splits)
qed

end
