(* ===== verification/Shards.thy ===== *)
theory Shards
  imports Tokens Pg_Store Lifecycle
begin

text \<open>
  Assignment of issuers to shards: \<open>src/internal/as/shard.go\<close>, over the table \<open>issuer_shard\<close>, and the
  operator's tool that moves issuers, \<open>src/tools/reassign-shard/main.go\<close>. SHA-256 is an argument; the
  tool's progress lines are values of the type \<open>progress\<close>.
\<close>

section \<open>Definitions\<close>

record ShardAssigner =
  sa_shards :: "string list"

datatype assigner_error = NoShards | ConnectPostgres | ApplySchema

text \<open>\<open>connect\<close> and \<open>schema\<close> say whether the connection pool and the schema could be set up.\<close>

definition NewShardAssigner :: "bool \<Rightarrow> bool \<Rightarrow> string list \<Rightarrow> assigner_error + ShardAssigner" where
  "NewShardAssigner connect schema shards =
     (if shards = [] then Inl NoShards
      else if \<not> connect then Inl ConnectPostgres
      else if \<not> schema then Inl ApplySchema
      else Inr \<lparr>sa_shards = shards\<rparr>)"

text \<open>The first eight bytes of the hash, big endian, modulo the number of shards.\<close>

definition hashIndex :: "(bytes \<Rightarrow> bytes) \<Rightarrow> string \<Rightarrow> nat \<Rightarrow> nat" where
  "hashIndex sha s n = set_bytes (take 8 (sha (string_bytes s))) mod n"

definition AssignOrLookup :: "(bytes \<Rightarrow> bytes) \<Rightarrow> ShardAssigner \<Rightarrow> string \<Rightarrow> ('p world, err + string) state" where
  "AssignOrLookup sha a issuerID = do {
     r \<leftarrow> pg_query (sql_select_shard issuerID);
     (case r of
        Inl e \<Rightarrow> ret (Inl e)
      | Inr (Some shardID) \<Rightarrow> ret (Inr shardID)
      | Inr None \<Rightarrow> do {
          let candidate = sa_shards a ! hashIndex sha issuerID (length (sa_shards a));
          e \<leftarrow> pg_exec (PgAssignShard issuerID candidate);
          (case e of
             Some err \<Rightarrow> ret (Inl err)
           | None \<Rightarrow> do {
               r2 \<leftarrow> pg_query (sql_select_shard issuerID);
               (case r2 of
                  Inl e \<Rightarrow> ret (Inl e)
                | Inr None \<Rightarrow> ret (Inl ErrDb)
                | Inr (Some shardID) \<Rightarrow> ret (Inr shardID))
             })
        })
   }"

definition Reassign :: "string \<Rightarrow> string \<Rightarrow> ('p world, err + string) state" where
  "Reassign issuerID newShard = do {
     r \<leftarrow> pg_query (sql_select_shard issuerID);
     (case r of
        Inl e \<Rightarrow> ret (Inl e)
      | Inr old \<Rightarrow> do {
          e \<leftarrow> pg_exec (PgReassignShard issuerID newShard);
          (case e of
             Some err \<Rightarrow> ret (Inl err)
           | None \<Rightarrow> ret (Inr (case old of None \<Rightarrow> [] | Some s \<Rightarrow> s)))
        })
   }"

definition ListIssuersOnShard :: "string \<Rightarrow> ('p world, err + string list) state" where
  "ListIssuersOnShard shard =
     pg_query (\<lambda>db. sort (map is_issuer_id (filter (\<lambda>r. is_shard_id r = shard) (issuer_shard db))))"

section \<open>The operator's tool\<close>

record reassign_config =
  rc_issuer :: string
  rc_from :: string
  rc_targets :: "string list"
  rc_dryRun :: bool

datatype flag_error = ExactlyOneOf | EmptyShardName | ToRequired

fun trim_targets :: "string list \<Rightarrow> string list option" where
  "trim_targets [] = Some []"
| "trim_targets (t # ts) =
     (if TrimSpace t = [] then None
      else case trim_targets ts of None \<Rightarrow> None | Some us \<Rightarrow> Some (TrimSpace t # us))"

definition newConfig :: "string \<Rightarrow> string \<Rightarrow> string \<Rightarrow> bool \<Rightarrow> flag_error + reassign_config" where
  "newConfig issuer from dest dryRun =
     (if (issuer = []) = (from = []) then Inl ExactlyOneOf
      else case trim_targets (str_split (CHR '','') dest) of
        None \<Rightarrow> Inl EmptyShardName
      | Some targets \<Rightarrow>
          if targets = [] \<or> hd targets = [] then Inl ToRequired
          else Inr \<lparr>rc_issuer = issuer, rc_from = from, rc_targets = targets, rc_dryRun = dryRun\<rparr>)"

definition displayShard :: "string \<Rightarrow> string" where
  "displayShard s = (if s = [] then ''(none '' @ [CHR 0xE2, CHR 0x80, CHR 0x94] @ '' first assignment)'' else s)"

datatype progress =
    NothingToDo string
  | ToReassign nat "string list"
  | DryRun
  | WouldMove string string
  | MovedTo string string string
  | Finished nat

text \<open>
  The loop: \<open>i\<close> is its index, \<open>moved\<close> its counter. It returns the counter, the lines written and the
  error, if one of the moves failed.
\<close>

fun reassign_from ::
  "reassign_config \<Rightarrow> nat \<Rightarrow> nat \<Rightarrow> string list \<Rightarrow> ('p world, nat \<times> progress list \<times> err option) state" where
  "reassign_from cfg i moved [] = ret (moved, if rc_dryRun cfg then [] else [Finished moved], None)"
| "reassign_from cfg i moved (issuer # issuers) = do {
     let target = rc_targets cfg ! (i mod length (rc_targets cfg));
     if rc_dryRun cfg then do {
       x \<leftarrow> reassign_from cfg (Suc i) moved issuers;
       (case x of (n, out, e) \<Rightarrow> ret (n, WouldMove issuer target # out, e))
     } else do {
       r \<leftarrow> Reassign issuer target;
       (case r of
          Inl e \<Rightarrow> ret (moved, [], Some e)
        | Inr oldShard \<Rightarrow> do {
            x \<leftarrow> reassign_from cfg (Suc i) (Suc moved) issuers;
            (case x of (n, out, e) \<Rightarrow> ret (n, MovedTo issuer (displayShard oldShard) target # out, e))
          })
     }
   }"

definition reassign_all :: "reassign_config \<Rightarrow> string list \<Rightarrow> ('p world, nat \<times> progress list \<times> err option) state" where
  "reassign_all cfg issuers = do {
     x \<leftarrow> reassign_from cfg 0 0 issuers;
     (case x of (n, out, e) \<Rightarrow>
        ret (n, ToReassign (length issuers) (rc_targets cfg) # (if rc_dryRun cfg then [DryRun] else []) @ out, e))
   }"

definition reassign :: "reassign_config \<Rightarrow> ('p world, nat \<times> progress list \<times> err option) state" where
  "reassign cfg =
     (if rc_issuer cfg \<noteq> [] then reassign_all cfg [rc_issuer cfg]
      else do {
        r \<leftarrow> ListIssuersOnShard (rc_from cfg);
        (case r of
           Inl e \<Rightarrow> ret (0, [], Some e)
         | Inr issuers \<Rightarrow>
             if issuers = [] then ret (0, [NothingToDo (rc_from cfg)], None)
             else reassign_all cfg issuers)
      })"

section \<open>Every operation performs permitted actions\<close>

lemma moves_AssignOrLookup [moves_rules]: "moves world_leads (AssignOrLookup sha a i)"
  unfolding AssignOrLookup_def Let_def by (intro moves_rules moves_pg_exec) simp

lemma moves_Reassign [moves_rules]: "moves world_leads (Reassign i sh)"
  unfolding Reassign_def by (intro moves_rules moves_pg_exec) simp

lemma moves_reassign_from [moves_rules]: "moves world_leads (reassign_from cfg i n is)"
  by (induction "is" arbitrary: i n) (auto intro!: moves_rules simp: Let_def)

lemma moves_reassign: "moves world_leads (reassign cfg)"
  unfolding reassign_def reassign_all_def ListIssuersOnShard_def by (intro moves_rules)

section \<open>Code that no reassignment disturbs\<close>

text \<open>
  \<open>undisturbed i P m Q\<close>: from a state with \<open>P\<close> the code ends with \<open>Q\<close>, whatever runs concurrently except a
  reassignment of the issuer \<open>i\<close>.
\<close>

abbreviation reassigns :: "string \<Rightarrow> act \<Rightarrow> bool" where
  "reassigns i a \<equiv> \<exists>sh. a = PgReassignShard i sh"

definition no_reassign :: "string \<Rightarrow> 'p world \<Rightarrow> bool" where
  "no_reassign i w \<longleftrightarrow> (\<forall>as\<in>set (sched w). \<forall>a\<in>set as. \<not> reassigns i a)"

definition lasting :: "string \<Rightarrow> (stores \<Rightarrow> bool) \<Rightarrow> bool" where
  "lasting i P \<longleftrightarrow> (\<forall>s a. P s \<longrightarrow> \<not> reassigns i a \<longrightarrow> P (act_step a s))"

definition undisturbed :: "string \<Rightarrow> (stores \<Rightarrow> bool) \<Rightarrow> ('p world, 'a) state \<Rightarrow> ('a \<Rightarrow> stores \<Rightarrow> bool) \<Rightarrow> bool" where
  "undisturbed i P m Q \<longleftrightarrow> (\<forall>w. no_reassign i w \<and> P (st w) \<longrightarrow>
     no_reassign i (after m w) \<and> Q (result m w) (st (after m w)))"

lemma undisturbedD:
  "undisturbed i P m Q \<Longrightarrow> no_reassign i w \<Longrightarrow> P (st w) \<Longrightarrow> run_state m w = (x, w') \<Longrightarrow> Q x (st w')"
  by (auto simp: undisturbed_def)

lemma undisturbed_ret: "(\<And>s. P s \<Longrightarrow> Q x s) \<Longrightarrow> undisturbed i P (ret x) Q"
  by (simp add: undisturbed_def)

lemma undisturbed_bind:
  fixes m :: "('p world, 'x) state"
  assumes "undisturbed i P m Q" "\<And>x. undisturbed i (Q x) (f x) R"
  shows "undisturbed i P (State_Monad.bind m f) R"
  unfolding undisturbed_def
proof (intro allI impI)
  fix w :: "'p world" assume w: "no_reassign i w \<and> P (st w)"
  obtain x v where m: "run_state m w = (x, v)" by fastforce
  then have "no_reassign i v" "Q x (st v)" using assms(1) w by (auto simp: undisturbed_def)
  then show "no_reassign i (after (State_Monad.bind m f) w)
      \<and> R (result (State_Monad.bind m f) w) (st (after (State_Monad.bind m f) w))"
    using assms(2)[of x] m by (auto simp: undisturbed_def)
qed

lemma lasting_fold: "lasting i P \<Longrightarrow> \<forall>a\<in>set as. \<not> reassigns i a \<Longrightarrow> P s \<Longrightarrow> P (fold act_step as s)"
  by (induction as arbitrary: s) (auto simp: lasting_def)

lemma undisturbed_interfere:
  assumes "lasting i P"
  shows "undisturbed i P interfere (\<lambda>_. P)"
  using assms by (auto simp: undisturbed_def interfere_def no_reassign_def intro: lasting_fold split: list.splits)

lemma undisturbed_remote:
  fixes g :: "stores \<Rightarrow> (err + 'x) \<times> stores"
  assumes "lasting i P" "\<And>s. P s \<Longrightarrow> Q (fst (g s)) (snd (g s))" "\<And>s. P s \<Longrightarrow> Q (Inl e) s"
    "\<And>s. P s \<Longrightarrow> Q (Inl e) (snd (g s))"
  shows "undisturbed i P (remote e g :: ('p world, err + 'x) state) Q"
proof -
  have fate: "undisturbed i P (next_fate :: ('p world, fate) state) (\<lambda>_. P)"
    by (auto simp: undisturbed_def next_fate_def no_reassign_def split: list.splits)
  have app: "undisturbed i P (apply_store g :: ('p world, err + 'x) state) (\<lambda>r s. Q r s \<and> Q (Inl e) s)"
    using assms(2,4) by (auto simp: undisturbed_def apply_store_def no_reassign_def split: prod.splits)
      (metis fst_conv snd_conv, metis snd_conv)
  have "undisturbed i P ((case f of Ok \<Rightarrow> apply_store g | Fail \<Rightarrow> ret (Inl e)
      | Lost \<Rightarrow> do { apply_store g; ret (Inl e) }) :: ('p world, err + 'x) state) Q" for f
    using app assms(3) undisturbed_bind[OF app undisturbed_ret[of _ Q "Inl e"]]
    by (cases f) (auto simp: undisturbed_def)
  then show ?thesis
    unfolding remote_def by (intro undisturbed_bind[OF undisturbed_interfere[OF assms(1)]] undisturbed_bind[OF fate])
qed

text \<open>An assignment lasts: only a reassignment of the same issuer changes it.\<close>

lemma find_append: "find P (xs @ ys) = (case find P xs of None \<Rightarrow> find P ys | Some x \<Rightarrow> Some x)"
  by (induction xs) auto

lemma sql_select_shard_assign:
  "sql_select_shard i (sql_assign_shard j sh now db) =
     (if i = j \<and> sql_select_shard i db = None then Some sh else sql_select_shard i db)"
  by (auto simp: sql_assign_shard_def sql_select_shard_def shard_insert_def find_append split: option.splits)

lemma find_map_update:
  "find (\<lambda>r. f r = i) (map (\<lambda>r. if f r = j then g r else r) rs) =
     map_option (\<lambda>r. if f r = j then g r else r) (find (\<lambda>r. f r = i) rs)" if "\<And>r. f (g r) = f r"
  using that by (induction rs) auto

lemma sql_select_shard_reassign:
  "sql_select_shard i (sql_reassign_shard j sh now db) = (if i = j then Some sh else sql_select_shard i db)"
proof -
  have "find (\<lambda>r. is_issuer_id r = i) rs = Some r \<Longrightarrow> is_issuer_id r = i" for r rs
    by (metis (mono_tags, lifting) find_Some_iff)
  then show ?thesis
    by (auto simp: sql_reassign_shard_def sql_select_shard_def shard_insert_def find_append find_map_update split: option.splits)
qed

lemma issuer_shard_exec:
  "(\<forall>j sh. a \<noteq> PgAssignShard j sh \<and> a \<noteq> PgReassignShard j sh) \<Longrightarrow> issuer_shard (pg (exec a s)) = issuer_shard (pg s)"
  by (cases a) (auto simp: on_pg_def on_kv_def or_same_def sql_insert_list_def sql_freeze_def sql_archive_def
      sql_mark_purged_def sql_update_lists_def sql_delete_list_def reserve_tx_def
      sql_reserve_cursor_def sql_bump_max_exp_def sql_insert_allocation_def split: sum.splits if_splits prod.splits option.splits)

lemma select_shard_exec:
  "\<not> reassigns i a \<Longrightarrow> sql_select_shard i (pg s) = Some sh \<Longrightarrow> sql_select_shard i (pg (exec a s)) = Some sh"
proof (cases "\<forall>j sh. a \<noteq> PgAssignShard j sh \<and> a \<noteq> PgReassignShard j sh")
  case True
  then show "sql_select_shard i (pg s) = Some sh \<Longrightarrow> ?thesis"
    using issuer_shard_exec[of a s] by (simp add: sql_select_shard_def)
qed (auto simp: on_pg_def sql_select_shard_assign sql_select_shard_reassign)

lemma lasting_assignment: "lasting i (\<lambda>s. sql_select_shard i (pg s) = Some sh)"
  by (auto simp: lasting_def act_step_def intro: select_shard_exec simp del: exec.simps)

lemma lasting_True: "lasting i (\<lambda>s. True)"
  by (simp add: lasting_def)

lemma undisturbed_query:
  "lasting i P \<Longrightarrow> undisturbed i P (pg_query f) (\<lambda>r s. P s \<and> (r = Inl ErrDb \<or> r = Inr (f (pg s))))"
  unfolding pg_query_def by (rule undisturbed_remote) auto

lemma undisturbed_post: "undisturbed i P m Q \<Longrightarrow> (\<And>x s. Q x s \<Longrightarrow> R x s) \<Longrightarrow> undisturbed i P m R"
  by (auto simp: undisturbed_def)

lemma undisturbed_pre: "undisturbed i P m Q \<Longrightarrow> (\<And>s. R s \<Longrightarrow> P s) \<Longrightarrow> undisturbed i R m Q"
  by (auto simp: undisturbed_def)

lemma undisturbed_select:
  "lasting i P \<Longrightarrow> undisturbed i P (do {
      r \<leftarrow> pg_query (sql_select_shard i);
      (case r of Inl e \<Rightarrow> ret (Inl e) | Inr None \<Rightarrow> m | Inr (Some shardID) \<Rightarrow> ret (Inr shardID)) })
    (\<lambda>r s. P s \<and> (\<forall>sh. r = Inr sh \<longrightarrow> sql_select_shard i (pg s) = Some sh))"
  if "undisturbed i P m (\<lambda>r s. P s \<and> (\<forall>sh. r = Inr sh \<longrightarrow> sql_select_shard i (pg s) = Some sh))"
  using that
  by (rule_tac undisturbed_bind[OF undisturbed_query])
     (auto split: sum.split option.split intro!: undisturbed_ret intro: undisturbed_pre)

lemma undisturbed_AssignOrLookup:
  assumes "lasting i P" "\<And>s sh. P s \<Longrightarrow> P (exec (PgAssignShard i sh) s)"
  shows "undisturbed i P (AssignOrLookup sha a i)
    (\<lambda>r s. P s \<and> (\<forall>sh. r = Inr sh \<longrightarrow> sql_select_shard i (pg s) = Some sh))"
proof -
  have ex: "undisturbed i P (pg_exec (PgAssignShard i c)) (\<lambda>_. P)" for c
    unfolding pg_exec_def call_act_def
    by (intro undisturbed_bind[OF undisturbed_remote[where Q = "\<lambda>_. P"]] undisturbed_ret assms(1))
       (auto simp del: exec.simps intro: assms(2))
  show ?thesis
    unfolding AssignOrLookup_def Let_def
    by (rule undisturbed_select[OF _ assms(1)], rule undisturbed_bind[OF ex])
       (auto split: option.split intro!: undisturbed_ret undisturbed_select assms(1))
qed

section \<open>Properties\<close>

text \<open>
  C17. Assignments are sticky: whatever runs concurrently, except a reassignment of the same issuer, a
  successful \<open>AssignOrLookup\<close> returns the shard recorded for the issuer, which is the one recorded
  before if there was one, even when concurrent first requests of the same issuer use different shard
  lists; and every later lookup, by any process and after any other activity, returns the same shard.
\<close>

theorem shard_assignment_sticky:
  assumes "no_reassign i w" "run_state (AssignOrLookup sha a i) w = (Inr sh, w')"
  shows "sql_select_shard i (pg (st w')) = Some sh
    \<and> (\<forall>sh0. sql_select_shard i (pg (st w)) = Some sh0 \<longrightarrow> sh = sh0)
    \<and> (\<forall>as w2 sha2 a2 sh2 w3. (\<forall>b\<in>set as. \<not> reassigns i b) \<and> no_reassign i w2 \<and> st w2 = fold act_step as (st w')
         \<and> run_state (AssignOrLookup sha2 a2 i) w2 = (Inr sh2, w3) \<longrightarrow> sh2 = sh)"
proof -
  have look: "sql_select_shard i (pg (st v')) = Some x \<and> (\<forall>x0. sql_select_shard i (pg (st v)) = Some x0 \<longrightarrow> x = x0)"
    if r: "no_reassign i v" "run_state (AssignOrLookup sha a i) v = (Inr x, v')" for sha a v v' x
  proof (intro conjI allI impI)
    show s: "sql_select_shard i (pg (st v')) = Some x"
      using undisturbedD[OF undisturbed_AssignOrLookup[OF lasting_True] r(1) _ r(2)] by simp
    fix x0 assume "sql_select_shard i (pg (st v)) = Some x0"
    then have "sql_select_shard i (pg (st v')) = Some x0"
      using undisturbedD[OF undisturbed_AssignOrLookup[OF lasting_assignment[of i x0]] r(1) _ r(2)]
      by (simp add: select_shard_exec del: exec.simps)
    with s show "x = x0" by simp
  qed
  have sel: "sql_select_shard i (pg (st w')) = Some sh" using look[OF assms] by simp
  have "sh2 = sh" if "\<forall>b\<in>set as. \<not> reassigns i b" "no_reassign i w2" "st w2 = fold act_step as (st w')"
      "run_state (AssignOrLookup sha2 a2 i) w2 = (Inr sh2, w3)" for as w2 sha2 a2 sh2 w3
    using lasting_fold[OF lasting_assignment[of i sh] that(1) sel] that(3) look[OF that(2,4)] by simp
  with look[OF assms] show ?thesis by blast
qed

lemma set_bytes_mod_less: "0 < n \<Longrightarrow> hashIndex sha s n < n"
  by (simp add: hashIndex_def)

text \<open>
  A new issuer always gets a configured shard: with no failing call and nothing else running,
  \<open>AssignOrLookup\<close> of an assigner that \<open>NewShardAssigner\<close> made returns the recorded shard of a known issuer
  without writing, and records for a new one the shard its hash selects, which is one of the list.
\<close>

theorem new_issuer_gets_configured_shard:
  assumes "sched w = []" "fates w = []" "NewShardAssigner c d shards = Inr a"
  shows "\<exists>sh. run_state (AssignOrLookup sha a i) w
     = (Inr sh, if sql_select_shard i (pg (st w)) = None then w\<lparr>st := exec (PgAssignShard i sh) (st w)\<rparr> else w)
     \<and> (case sql_select_shard i (pg (st w)) of
          None \<Rightarrow> sh = shards ! hashIndex sha i (length shards) \<and> sh \<in> set shards
            \<and> sql_select_shard i (pg (exec (PgAssignShard i sh) (st w))) = Some sh
        | Some sh0 \<Rightarrow> sh = sh0)"
proof -
  have a: "sa_shards a = shards" "shards \<noteq> []" using assms(3) by (auto simp: NewShardAssigner_def split: if_splits)
  have q: "run_state (pg_query f) (w\<lparr>st := t\<rparr>) = (Inr (f (pg t)), w\<lparr>st := t\<rparr>)" for f :: "pg \<Rightarrow> string option" and t
    using assms(1,2) by (simp add: pg_query_def remote_def interfere_def next_fate_def apply_store_def)
  have e: "run_state (pg_exec b) (w\<lparr>st := t\<rparr>) = (None, w\<lparr>st := exec b t\<rparr>)" for b t
    using assms(1,2) by (simp add: pg_exec_def call_act_def remote_def interfere_def next_fate_def apply_store_def del: exec.simps)
  show ?thesis
  proof (cases "sql_select_shard i (pg (st w))")
    case None
    let ?c = "shards ! hashIndex sha i (length shards)"
    have "?c \<in> set shards" using a(2) by (simp add: set_bytes_mod_less)
    moreover have sel: "sql_select_shard i (pg (exec (PgAssignShard i ?c) (st w))) = Some ?c"
      using None by (simp add: on_pg_def sql_select_shard_assign)
    ultimately show ?thesis
      using None q[of _ "st w"] q[of _ "exec (PgAssignShard i ?c) (st w)"] e[of _ "st w"]
      by (intro exI[of _ ?c]) (simp add: AssignOrLookup_def a(1) Let_def del: exec.simps)
  next
    case (Some sh0)
    then show ?thesis using q[of _ "st w"] by (simp add: AssignOrLookup_def)
  qed
qed

text \<open>The moves of a run over \<open>issuers\<close> from index \<open>i\<close>, and their effect.\<close>

definition moves_of :: "reassign_config \<Rightarrow> nat \<Rightarrow> string list \<Rightarrow> (string \<times> string) list" where
  "moves_of cfg i issuers =
     zip issuers (map (\<lambda>k. rc_targets cfg ! (k mod length (rc_targets cfg))) [i..<i + length issuers])"

definition apply_moves :: "(string \<times> string) list \<Rightarrow> stores \<Rightarrow> stores" where
  "apply_moves ms s = fold (\<lambda>(i, sh). exec (PgReassignShard i sh)) ms s"

lemma moves_of_Cons:
  "moves_of cfg i (x # xs) = (x, rc_targets cfg ! (i mod length (rc_targets cfg))) # moves_of cfg (Suc i) xs"
  unfolding moves_of_def by (simp add: upt_conv_Cons del: upt_Suc)

lemma map_fst_moves_of [simp]: "map fst (moves_of cfg i issuers) = issuers"
  by (simp add: moves_of_def)

lemma select_apply_moves:
  assumes "distinct (map fst ms)"
  shows "sql_select_shard i (pg (apply_moves ms s)) =
     (case map_of ms i of Some sh \<Rightarrow> Some sh | None \<Rightarrow> sql_select_shard i (pg s))"
  using assms
proof (induction ms arbitrary: s)
  case (Cons m ms)
  obtain j sh where m: "m = (j, sh)" by fastforce
  have "map_of ms j = None" using Cons.prems m by (simp add: map_of_eq_None_iff)
  then show ?case
    using Cons.IH[of "exec (PgReassignShard j sh) s"] Cons.prems m
    by (auto simp: apply_moves_def on_pg_def sql_select_shard_reassign split: option.splits)
qed (simp add: apply_moves_def)

lemma apply_moves_other:
  "lists (pg (apply_moves ms s)) = lists (pg s)" "allocations (pg (apply_moves ms s)) = allocations (pg s)"
  "kv (apply_moves ms s) = kv s" "clock (apply_moves ms s) = clock s"
  by (induction ms arbitrary: s)
     (auto simp: apply_moves_def on_pg_def sql_reassign_shard_def shard_insert_def)

lemma quiet_Reassign:
  "quiet (\<lambda>t. t = t0) (Reassign i sh) (\<lambda>r t. \<forall>old. r = Inr old \<longrightarrow> t = exec (PgReassignShard i sh) t0
     \<and> old = (case sql_select_shard i (pg t0) of None \<Rightarrow> [] | Some s \<Rightarrow> s))"
  (is "quiet _ _ ?Q")
proof -
  have ex: "quiet (\<lambda>t. t = t0) (pg_exec (PgReassignShard i sh)) (\<lambda>e t. e = None \<longrightarrow> t = exec (PgReassignShard i sh) t0)"
    unfolding pg_exec_def call_act_def
    by (rule quiet_bind[OF quiet_remote[where Q = "\<lambda>r t. r = Inr () \<longrightarrow> t = exec (PgReassignShard i sh) t0"]])
       (auto split: sum.split simp del: exec.simps intro!: quiet_ret)
  have q: "quiet (\<lambda>t. t = t0) (pg_query (sql_select_shard i)) (\<lambda>r t. (\<forall>x. r = Inr x \<longrightarrow> x = sql_select_shard i (pg t0)) \<and> t = t0)"
    unfolding pg_query_def by (rule quiet_remote) auto
  have "quiet (\<lambda>t. t = t0) (do { e \<leftarrow> pg_exec (PgReassignShard i sh);
      (case e of Some err \<Rightarrow> ret (Inl err)
       | None \<Rightarrow> ret (Inr (case sql_select_shard i (pg t0) of None \<Rightarrow> [] | Some s \<Rightarrow> s))) }) ?Q"
    by (rule quiet_bind[OF ex]) (auto split: option.split intro!: quiet_ret simp del: exec.simps)
  then show ?thesis
    unfolding Reassign_def
    by (intro quiet_bind[OF q] quiet_pure quiet_case_sum) (auto intro: quiet_ret)
qed

lemma quiet_reassign_from:
  assumes "\<not> rc_dryRun cfg"
  shows "quiet (\<lambda>t. t = t0) (reassign_from cfg i moved issuers :: ('p world, nat \<times> progress list \<times> err option) state)
     (\<lambda>(n, out, e) t. e = None \<longrightarrow> n = moved + length issuers \<and> t = apply_moves (moves_of cfg i issuers) t0)"
proof (induction issuers arbitrary: i moved t0)
  case Nil
  show ?case by (auto intro!: quiet_ret simp: moves_of_def apply_moves_def)
next
  case (Cons x xs)
  let ?tg = "rc_targets cfg ! (i mod length (rc_targets cfg))"
  have "quiet (\<lambda>t. t = exec (PgReassignShard x ?tg) t0) (do {
      y \<leftarrow> (reassign_from cfg (Suc i) (Suc moved) xs :: ('p world, nat \<times> progress list \<times> err option) state);
      (case y of (n, out, e) \<Rightarrow> ret (n, MovedTo x (displayShard old) ?tg # out, e)) })
    (\<lambda>(n, out, e) t. e = None \<longrightarrow> n = moved + length (x # xs) \<and> t = apply_moves (moves_of cfg i (x # xs)) t0)" for old
    by (rule quiet_bind[OF Cons.IH]) (auto split: prod.split intro!: quiet_ret simp: moves_of_Cons apply_moves_def)
  then show ?case
    using assms unfolding reassign_from.simps Let_def
    by simp (rule quiet_bind[OF quiet_Reassign], auto split: sum.split intro!: quiet_ret intro: quiet_pre)
qed

text \<open>The issuers of a shard.\<close>

definition on_shard :: "string \<Rightarrow> stores \<Rightarrow> string set" where
  "on_shard sh s = {i. sql_select_shard i (pg s) = Some sh}"

lemma on_shard_rows:
  assumes "wf_pg (pg s)"
  shows "on_shard sh s = is_issuer_id ` {r \<in> set (issuer_shard (pg s)). is_shard_id r = sh}"
proof -
  have d: "distinct (map is_issuer_id (issuer_shard (pg s)))" using assms by (simp add: wf_pg_def)
  have "find (\<lambda>r. is_issuer_id r = i) rs = Some r \<longleftrightarrow> r \<in> set rs \<and> is_issuer_id r = i" if "distinct (map is_issuer_id rs)" for i r rs
    using that by (induction rs) auto
  from this[OF d] show ?thesis by (auto simp: on_shard_def sql_select_shard_def)
qed

lemma card_less_nth:
  fixes xs :: "'a :: linorder list"
  assumes "sorted xs" "distinct xs" "k < length xs"
  shows "card {x \<in> set xs. x < xs ! k} = k"
proof -
  have lt: "xs ! j < xs ! k \<longleftrightarrow> j < k" if "j < length xs" for j
    using assms that strict_sorted_iff[of xs] sorted_wrt_nth_less[of "(<)" xs] by (metis linorder_neqE_nat order_less_asym order_less_irrefl)
  have "{x \<in> set xs. x < xs ! k} = (!) xs ` {..<k}"
    using lt assms(3) by (auto simp: in_set_conv_nth image_iff) (use order_less_trans in blast)+
  moreover have "inj_on ((!) xs) {..<k}" using assms(2,3) by (auto intro!: inj_on_nth)
  ultimately show ?thesis by (simp add: card_image)
qed

lemma map_of_moves_of:
  assumes "sorted issuers" "distinct issuers"
  shows "map_of (moves_of cfg 0 issuers) i = (if i \<in> set issuers
     then Some (rc_targets cfg ! (card {j \<in> set issuers. j < i} mod length (rc_targets cfg))) else None)"
proof (cases "i \<in> set issuers")
  case True
  then obtain k where k: "k < length issuers" "issuers ! k = i" by (auto simp: in_set_conv_nth)
  have "(i, rc_targets cfg ! (k mod length (rc_targets cfg))) \<in> set (moves_of cfg 0 issuers)"
    using k by (auto simp: moves_of_def set_zip intro!: exI[of _ k])
  moreover have "distinct (map fst (moves_of cfg 0 issuers))" using assms(2) by simp
  ultimately show ?thesis using True k card_less_nth[OF assms k(1)] by simp
next
  case False
  then show ?thesis using map_fst_moves_of[of cfg 0 issuers] by (metis (no_types) list.set_map map_of_eq_None_iff)
qed

text \<open>
  Emptying a shard: when nothing else runs and the tool reports no error, every issuer of the shard, in
  the order of their names, has moved to the targets in turn, so that the shard is empty unless it is a
  target itself; the number reported is the number of its issuers; issuers of other shards, and every
  list, allocation and bitmap stay as they were.
\<close>

theorem bulk_reassign_empties_shard:
  fixes w :: "'p world"
  assumes "wf_pg (pg (st w))" "sched w = []" "from \<noteq> []" "newConfig [] from dest False = Inr cfg"
    "run_state (reassign cfg) w = ((n, out, None), w')"
  shows "n = card (on_shard from (st w))
    \<and> (\<forall>i. sql_select_shard i (pg (st w')) =
         (if i \<in> on_shard from (st w)
          then Some (rc_targets cfg ! (card {j \<in> on_shard from (st w). j < i} mod length (rc_targets cfg)))
          else sql_select_shard i (pg (st w))))
    \<and> (from \<notin> set (rc_targets cfg) \<longrightarrow> on_shard from (st w') = {})
    \<and> lists (pg (st w')) = lists (pg (st w)) \<and> allocations (pg (st w')) = allocations (pg (st w)) \<and> kv (st w') = kv (st w)"
proof -
  define L where "L = sort (map is_issuer_id (filter (\<lambda>r. is_shard_id r = from) (issuer_shard (pg (st w)))))"
  have cfg: "rc_issuer cfg = []" "rc_from cfg = from" "\<not> rc_dryRun cfg" "rc_targets cfg \<noteq> []"
    using assms(4) by (auto simp: newConfig_def split: if_splits option.splits)
  have sorted: "sorted L" by (simp add: L_def)
  have L: "set L = on_shard from (st w)" "distinct L"
    using on_shard_rows[OF assms(1)] assms(1) by (auto simp: L_def wf_pg_def distinct_map inj_on_def)
  let ?Q = "\<lambda>(n, out, e) t. e = None \<longrightarrow> n = length L \<and> t = apply_moves (moves_of cfg 0 L) (st w)"
  have all: "quiet (\<lambda>t. t = st w) (reassign_all cfg L) ?Q"
    unfolding reassign_all_def
    by (rule quiet_bind[OF quiet_reassign_from[OF cfg(3)]]) (auto split: prod.split intro!: quiet_ret)
  have none: "quiet (\<lambda>t. t = st w) (ret (0, [NothingToDo from], None)) ?Q" if "L = []"
    using that by (auto intro!: quiet_ret simp: moves_of_def apply_moves_def)
  have q: "quiet (\<lambda>t. t = st w) (ListIssuersOnShard from) (\<lambda>r t. (\<forall>x. r = Inr x \<longrightarrow> x = L) \<and> t = st w)"
    unfolding ListIssuersOnShard_def pg_query_def L_def by (rule quiet_remote) auto
  have "quiet (\<lambda>t. t = st w) (if issuers = [] then ret (0, [NothingToDo from], None) else reassign_all cfg issuers) ?Q"
    if "issuers = L" for issuers
    using all none that by auto
  then have "quiet (\<lambda>t. t = st w) (reassign cfg :: ('p world, nat \<times> progress list \<times> err option) state) ?Q"
    unfolding reassign_def cfg if_not_P[OF not_not[THEN iffD2, OF refl]]
    by (intro quiet_bind[OF q] quiet_pure quiet_case_sum) (auto intro: quiet_ret)
  then have r: "n = length L" "st w' = apply_moves (moves_of cfg 0 L) (st w)"
    using quietD[OF _ assms(2), of "\<lambda>t. t = st w" "reassign cfg" ?Q] assms(5) by auto
  have sel: "sql_select_shard i (pg (st w')) =
         (if i \<in> on_shard from (st w)
          then Some (rc_targets cfg ! (card {j \<in> on_shard from (st w). j < i} mod length (rc_targets cfg)))
          else sql_select_shard i (pg (st w)))" for i
    using select_apply_moves[of "moves_of cfg 0 L" i "st w"] map_of_moves_of[OF sorted L(2), of cfg i] L r(2) by simp
  have "on_shard from (st w') = {}" if "from \<notin> set (rc_targets cfg)"
  proof -
    have "rc_targets cfg ! (k mod length (rc_targets cfg)) \<noteq> from" for k
      using that cfg(4) by (metis length_greater_0_conv mod_less_divisor nth_mem)
    then show ?thesis using sel by (auto simp: on_shard_def)
  qed
  moreover have "n = card (on_shard from (st w))" using r(1) L distinct_card[of L] by simp
  ultimately show ?thesis using sel r(2) apply_moves_other by simp
qed

section \<open>Witnesses\<close>

text \<open>A first request of an issuer whom another process assigns to another shard in between; and two issuers on a shard to be emptied.\<close>

definition demo_race :: "unit world" where
  "demo_race = \<lparr>st = initial, sched = [[], [PgAssignShard ''alice'' ''b'']], fates = [], draws = [], proc = ()\<rparr>"

definition demo_issuers :: "unit world" where
  "demo_issuers = \<lparr>st = initial\<lparr>pg := empty_pg\<lparr>issuer_shard :=
      [\<lparr>is_issuer_id = ''y'', is_shard_id = ''a'', is_created_at = 0\<rparr>, \<lparr>is_issuer_id = ''x'', is_shard_id = ''a'', is_created_at = 0\<rparr>]\<rparr>\<rparr>,
     sched = [], fates = [], draws = [], proc = ()\<rparr>"

lemmas run_shards = pg_query_def pg_exec_def call_act_def remote_def interfere_def next_fate_def apply_store_def

lemma demo_race_lost:
  "\<exists>w'. run_state (AssignOrLookup (\<lambda>_. []) \<lparr>sa_shards = [''a'']\<rparr> ''alice'') demo_race = (Inr ''b'', w')"
  by (simp add: AssignOrLookup_def run_shards demo_race_def initial_def empty_pg_def act_step_def permitted_def
      on_pg_def sql_select_shard_def sql_assign_shard_def shard_insert_def hashIndex_def set_bytes_def Let_def)

theorem shard_assignment_sticky_witness:
  "\<exists>w'. run_state (AssignOrLookup (\<lambda>_. []) \<lparr>sa_shards = [''a'']\<rparr> ''alice'') demo_race = (Inr ''b'', w')
     \<and> sql_select_shard ''alice'' (pg (st w')) = Some ''b''"
proof -
  have "no_reassign ''alice'' demo_race" by (simp add: no_reassign_def demo_race_def)
  with demo_race_lost shard_assignment_sticky show ?thesis by metis
qed

theorem new_issuer_gets_configured_shard_witness:
  "\<exists>sh w'. run_state (AssignOrLookup (\<lambda>_. [1, 2]) \<lparr>sa_shards = [''a'', ''b'']\<rparr> ''alice'') (demo_race\<lparr>sched := []\<rparr>) = (Inr sh, w')
     \<and> sh \<in> {''a'', ''b''}"
proof -
  have "NewShardAssigner True True [''a'', ''b''] = Inr \<lparr>sa_shards = [''a'', ''b'']\<rparr>" by (simp add: NewShardAssigner_def)
  from new_issuer_gets_configured_shard[OF _ _ this, of "demo_race\<lparr>sched := []\<rparr>" "\<lambda>_. [1, 2]" "''alice''"] show ?thesis
    by (auto simp: demo_race_def initial_def empty_pg_def sql_select_shard_def simp del: exec.simps)
qed

lemma demo_reassign_config:
  "newConfig [] ''a'' ''b,c'' False = Inr \<lparr>rc_issuer = [], rc_from = ''a'', rc_targets = [''b'', ''c''], rc_dryRun = False\<rparr>"
  by (simp add: newConfig_def TrimSpace_def str_trim_def is_space_def)

lemma demo_reassign:
  "\<exists>out w'. run_state (reassign \<lparr>rc_issuer = [], rc_from = ''a'', rc_targets = [''b'', ''c''], rc_dryRun = False\<rparr>) demo_issuers
     = ((2, out, None), w')"
  by (simp add: reassign_def ListIssuersOnShard_def reassign_all_def Reassign_def run_shards demo_issuers_def empty_pg_def
      on_pg_def Let_def less_char_def)

theorem bulk_reassign_empties_shard_witness:
  "\<exists>out w'. run_state (reassign \<lparr>rc_issuer = [], rc_from = ''a'', rc_targets = [''b'', ''c''], rc_dryRun = False\<rparr>) demo_issuers
     = ((2, out, None), w') \<and> on_shard ''a'' (st w') = {}"
proof -
  obtain out w' where r: "run_state (reassign \<lparr>rc_issuer = [], rc_from = ''a'', rc_targets = [''b'', ''c''], rc_dryRun = False\<rparr>) demo_issuers
     = ((2, out, None), w')" using demo_reassign by blast
  have "wf_pg (pg (st demo_issuers))" by (simp add: demo_issuers_def wf_pg_def empty_pg_def wf_lists_def wf_allocs_def wf_usage_def)
  from bulk_reassign_empties_shard[OF this _ _ demo_reassign_config r] r show ?thesis by (simp add: demo_issuers_def)
qed

end
