(* ===== verification/Auth_Server.thy ===== *)
theory Auth_Server
  imports Client_Assertion Access_Token Shards Config
begin

text \<open>
  The authorization server, \<open>src/internal/as/handlers.go\<close> and \<open>server.go\<close>, and the choice of its trust
  evaluator in \<open>src/cmd/as/main.go\<close>: the client-credentials grant with a client assertion. Every answer of the
  token endpoint comes with the label of the counter \<open>ASTokenIssuanceTotal\<close> it increments. An absent form
  field is the empty string.
\<close>

section \<open>Definitions\<close>

abbreviation (input) grantTypeClientCredentials :: string where
  "grantTypeClientCredentials \<equiv> ''client_credentials''"

abbreviation (input) clientAssertionTypeJWTBearer :: string where
  "clientAssertionTypeJWTBearer \<equiv> ''urn:ietf:params:oauth:client-assertion-type:jwt-bearer''"

record ASServer =
  as_cfg :: ASConfig
  as_km :: KeyManager
  as_evaluator :: Evaluator
  as_shards :: ShardAssigner

record token_form =
  fm_grant_type :: string
  fm_client_assertion_type :: string
  fm_client_assertion :: string

datatype as_response =
    OAuthError nat string "string option"
  | TokenResponse string string int
  | ASHealthz
  | ASKeys "JSONWebKey list"
  | ASMetrics
  | ASNoRoute

record as_lib =
  al_assertion :: assertion_lib
  al_access :: access_lib
  al_sha256 :: "bytes \<Rightarrow> bytes"
  al_Public :: "signer \<Rightarrow> pubkey"

text \<open>\<open>int64(d.Seconds())\<close> cuts the fraction of a second off, towards zero.\<close>

definition whole_seconds :: "duration \<Rightarrow> int" where
  "whole_seconds d = sgn d * (\<bar>d\<bar> div Second)"

definition credential_of :: "Result \<Rightarrow> Credential option" where
  "credential_of r =
     (if rs_JWK r \<noteq> None then Some (CredentialFromJWK (rs_JWK r))
      else if length (rs_X5C r) > 0 then Some (CredentialFromX5C (rs_X5C r))
      else None)"

definition token_params_of :: "ASServer \<Rightarrow> Result \<Rightarrow> string \<Rightarrow> IssueParams" where
  "token_params_of s r shardID =
     \<lparr>ip_Issuer = ac_BaseURL (as_cfg s), ip_Audience = ac_AccessTokenAudience (as_cfg s), ip_Subject = rs_IssuerID r,
      ip_TenantID = shardID, ip_TAC = ''riw'', ip_TTL = ac_AccessTokenTTL (as_cfg s)\<rparr>"

definition handleToken :: "as_lib \<Rightarrow> ASServer \<Rightarrow> token_form \<Rightarrow> ('p world, string \<times> as_response) state" where
  "handleToken lib s c =
     (if fm_grant_type c \<noteq> grantTypeClientCredentials then
        ret (''unsupported_grant_type'', OAuthError 400 ''unsupported_grant_type'' None)
      else if fm_client_assertion_type c \<noteq> clientAssertionTypeJWTBearer then
        ret (''invalid_request'', OAuthError 400 ''invalid_request''
               (Some (''client_assertion_type must be '' @ clientAssertionTypeJWTBearer)))
      else if fm_client_assertion c = [] then
        ret (''invalid_request'', OAuthError 400 ''invalid_request'' (Some ''client_assertion is required''))
      else case Verify (al_assertion lib) (fm_client_assertion c) (ac_BaseURL (as_cfg s) @ ''/token'') of
        Inl _ \<Rightarrow> ret (''invalid_client'', OAuthError 401 ''invalid_client'' (Some ''client assertion did not verify''))
      | Inr r \<Rightarrow>
          (case credential_of r of
             None \<Rightarrow> ret (''invalid_client'', OAuthError 401 ''invalid_client''
                       (Some ''client assertion carried no usable proof of possession''))
           | Some cred \<Rightarrow>
               (case ev_Evaluate (as_evaluator s) (rs_IssuerID r) cred of
                  Inl _ \<Rightarrow> ret (''server_error'', OAuthError 500 ''server_error'' (Some ''trust evaluation failed''))
                | Inr decision \<Rightarrow>
                    if \<not> dc_Trusted decision then
                      ret (''invalid_client'', OAuthError 401 ''invalid_client'' (Some (''key is not trusted: '' @ dc_Reason decision)))
                    else do {
                      rsh \<leftarrow> AssignOrLookup (al_sha256 lib) (as_shards s) (rs_IssuerID r);
                      (case rsh of
                         Inl _ \<Rightarrow> ret (''server_error'', OAuthError 500 ''server_error'' (Some ''shard assignment failed''))
                       | Inr shardID \<Rightarrow> do {
                           rt \<leftarrow> Issue (al_access lib) (as_km s) (token_params_of s r shardID);
                           (case rt of
                              Inl _ \<Rightarrow> ret (''server_error'', OAuthError 500 ''server_error'' (Some ''could not mint token''))
                            | Inr token \<Rightarrow>
                                ret (''success'', TokenResponse token ''Bearer'' (whole_seconds (ac_AccessTokenTTL (as_cfg s)))))
                         })
                    })))"

datatype as_request = ASGetHealthz | ASGetJWKS | ASPostToken token_form | ASGetMetrics | ASOther

definition AS_Router :: "as_lib \<Rightarrow> ASServer \<Rightarrow> as_request \<Rightarrow> ('p world, as_response) state" where
  "AS_Router lib s req =
     (case req of
        ASGetHealthz \<Rightarrow> ret ASHealthz
      | ASGetJWKS \<Rightarrow> ret (ASKeys (JWKS (al_Public lib) (as_km s)))
      | ASPostToken form \<Rightarrow> do { r \<leftarrow> handleToken lib s form; ret (snd r) }
      | ASGetMetrics \<Rightarrow> ret ASMetrics
      | ASOther \<Rightarrow> ret ASNoRoute)"

definition choose_evaluator :: "http_lib \<Rightarrow> ASConfig \<Rightarrow> Evaluator" where
  "choose_evaluator h cfg =
     (if ac_TrustPDPURL cfg \<noteq> [] then NewAuthZENEvaluator h (ac_TrustPDPURL cfg) (ac_TrustActionName cfg)
      else AllowAllEvaluator)"

text \<open>The set-up of the server: \<open>connect\<close> and \<open>schema\<close> are those of the shard assigner.\<close>

definition as_setup :: "http_lib \<Rightarrow> bool \<Rightarrow> bool \<Rightarrow> ASConfig \<Rightarrow> assigner_error + ASServer" where
  "as_setup h connect schema cfg =
     (case NewShardAssigner connect schema (ac_Shards cfg) of
        Inl e \<Rightarrow> Inl e
      | Inr shards \<Rightarrow> Inr \<lparr>as_cfg = cfg, as_km = NewKeyManager (ac_SigningKey cfg) (ac_SigningKeyID cfg),
          as_evaluator = choose_evaluator h cfg, as_shards = shards\<rparr>)"

section \<open>Facts\<close>

lemma moves_handleToken [moves_rules]: "moves world_leads (handleToken lib s c)"
  unfolding handleToken_def by (intro moves_rules)

lemma moves_AS_Router: "moves world_leads (AS_Router lib s req)"
  unfolding AS_Router_def by (cases req) (auto intro!: moves_rules)

text \<open>What precedes the assignment of a shard.\<close>

definition admitted :: "as_lib \<Rightarrow> ASServer \<Rightarrow> token_form \<Rightarrow> Result \<Rightarrow> Credential \<Rightarrow> bool" where
  "admitted lib s c r cred \<longleftrightarrow>
     fm_grant_type c = grantTypeClientCredentials \<and> fm_client_assertion_type c = clientAssertionTypeJWTBearer
     \<and> fm_client_assertion c \<noteq> []
     \<and> Verify (al_assertion lib) (fm_client_assertion c) (ac_BaseURL (as_cfg s) @ ''/token'') = Inr r
     \<and> credential_of r = Some cred
     \<and> (\<exists>d. ev_Evaluate (as_evaluator s) (rs_IssuerID r) cred = Inr d \<and> dc_Trusted d)"

lemma handleToken_cases:
  obtains (refused) resp where "handleToken lib s c = (ret resp :: ('p world, string \<times> as_response) state)" "fst resp \<noteq> ''success''"
      "\<nexists>r cred. admitted lib s c r cred"
      "\<exists>code e d. snd resp = OAuthError code e d"
  | (admitted) r cred where "admitted lib s c r cred"
      "handleToken lib s c = (do {
         rsh \<leftarrow> AssignOrLookup (al_sha256 lib) (as_shards s) (rs_IssuerID r);
         (case rsh of
            Inl _ \<Rightarrow> ret (''server_error'', OAuthError 500 ''server_error'' (Some ''shard assignment failed''))
          | Inr shardID \<Rightarrow> do {
              rt \<leftarrow> Issue (al_access lib) (as_km s) (token_params_of s r shardID);
              (case rt of
                 Inl _ \<Rightarrow> ret (''server_error'', OAuthError 500 ''server_error'' (Some ''could not mint token''))
               | Inr token \<Rightarrow>
                   ret (''success'', TokenResponse token ''Bearer'' (whole_seconds (ac_AccessTokenTTL (as_cfg s)))))
            })
       } :: ('p world, string \<times> as_response) state)"
proof -
  consider (form) "fm_grant_type c \<noteq> grantTypeClientCredentials \<or> fm_client_assertion_type c \<noteq> clientAssertionTypeJWTBearer
      \<or> fm_client_assertion c = []"
    | (ok) "fm_grant_type c = grantTypeClientCredentials" "fm_client_assertion_type c = clientAssertionTypeJWTBearer"
        "fm_client_assertion c \<noteq> []" by blast
  then show thesis
  proof cases
    case form
    then show thesis
      by (intro refused[of "if fm_grant_type c \<noteq> grantTypeClientCredentials
           then (''unsupported_grant_type'', OAuthError 400 ''unsupported_grant_type'' None)
           else if fm_client_assertion_type c \<noteq> clientAssertionTypeJWTBearer
           then (''invalid_request'', OAuthError 400 ''invalid_request''
               (Some (''client_assertion_type must be '' @ clientAssertionTypeJWTBearer)))
           else (''invalid_request'', OAuthError 400 ''invalid_request'' (Some ''client_assertion is required''))"])
         (auto simp: handleToken_def admitted_def)
  next
    case ok
    let ?v = "Verify (al_assertion lib) (fm_client_assertion c) (ac_BaseURL (as_cfg s) @ ''/token'')"
    consider (v) e where "?v = Inl e" | (p) r where "?v = Inr r" "credential_of r = None"
      | (e) r cred e where "?v = Inr r" "credential_of r = Some cred" "ev_Evaluate (as_evaluator s) (rs_IssuerID r) cred = Inl e"
      | (d) r cred d where "?v = Inr r" "credential_of r = Some cred" "ev_Evaluate (as_evaluator s) (rs_IssuerID r) cred = Inr d" "\<not> dc_Trusted d"
      | (a) r cred d where "?v = Inr r" "credential_of r = Some cred" "ev_Evaluate (as_evaluator s) (rs_IssuerID r) cred = Inr d" "dc_Trusted d"
      by (metis not_None_eq obj_sumE)
    then show thesis
    proof cases
      case v
      then show thesis by (intro refused[OF _ _ _ exI]) (auto simp: handleToken_def ok admitted_def)
    next
      case p
      then show thesis by (intro refused) (auto simp: handleToken_def ok admitted_def)
    next
      case e
      then show thesis by (intro refused) (auto simp: handleToken_def ok admitted_def)
    next
      case d
      then show thesis by (intro refused) (auto simp: handleToken_def ok admitted_def)
    next
      case a
      show thesis
        by (rule admitted[of r cred]) (use ok a in \<open>simp_all add: handleToken_def admitted_def\<close>)
    qed
  qed
qed

lemma spec_AssignOrLookup:
  "spec (\<lambda>_. True) (AssignOrLookup sha a i) (\<lambda>r s. \<forall>sh. r = Inr sh \<longrightarrow> sql_select_shard i (pg s) = Some sh)"
  (is "spec _ _ ?Q")
proof -
  have q: "spec (\<lambda>_. True) (pg_query (sql_select_shard i)) (\<lambda>r s. \<forall>x. r = Inr (Some x) \<longrightarrow> sql_select_shard i (pg s) = Some x)"
    by (rule spec_post[OF spec_pg_query]) (auto dest: sym)
  have ex: "spec (\<lambda>_. True) (pg_exec (PgAssignShard i c)) (\<lambda>_ _. True)" for c
    by (rule moves_imp_spec[OF moves_pg_exec]) auto
  have "spec (\<lambda>_. True) (do { r \<leftarrow> pg_query (sql_select_shard i);
      (case r of Inl e \<Rightarrow> ret (Inl e) | Inr None \<Rightarrow> m | Inr (Some x) \<Rightarrow> ret (Inr x)) }) ?Q"
    if "spec (\<lambda>_. True) m ?Q" for m
    by (rule spec_bind[OF q]) (auto split: sum.split option.split intro!: spec_ret intro: spec_pre[OF that])
  note sel = this
  show ?thesis
    unfolding AssignOrLookup_def Let_def
    by (rule sel, rule spec_bind[OF ex]) (auto split: option.split intro!: spec_ret sel)
qed

lemma handleToken_success:
  fixes w :: "'p world"
  assumes "run_state (handleToken lib s c) w = ((l, TokenResponse token ty secs), w')"
  shows "\<exists>r cred sh w1. admitted lib s c r cred
     \<and> run_state (AssignOrLookup (al_sha256 lib) (as_shards s) (rs_IssuerID r)) w = (Inr sh, w1)
     \<and> run_state (Issue (al_access lib) (as_km s) (token_params_of s r sh)) w1 = (Inr token, w')
     \<and> secs = whole_seconds (ac_AccessTokenTTL (as_cfg s)) \<and> ty = ''Bearer''"
proof (cases rule: handleToken_cases[of lib s c, where 'p = 'p])
  case (refused resp)
  then show ?thesis using assms by auto
next
  case (admitted r cred)
  then show ?thesis
    using assms by (auto split: prod.splits sum.splits)
qed

context evaluator
begin

lemma issued_approved:
  assumes "as_evaluator s = ev" "run_state (handleToken lib s c) w = ((l, TokenResponse token ty secs), w')"
  shows "\<exists>r cred. admitted lib s c r cred \<and> approves (rs_IssuerID r) cred"
  using handleToken_success[OF assms(2)] trusted_approved assms(1) by (fastforce simp: admitted_def)

end

section \<open>Properties\<close>

text \<open>
  C7. The token endpoint mints a token only for an issuer who proved possession of a trusted key: whatever
  runs concurrently, a token response of a server that was set up with a decision point means that the
  assertion verified for this endpoint and that the decision point approved the issuer with the proof the
  assertion carried; the token is the serialization of claims that name this issuer as subject, grant
  \<open>riw\<close>, expire the configured time later, and carry as tenant the shard that was recorded for the issuer at
  a moment before the token was made.
\<close>

theorem token_only_for_trusted_issuer:
  assumes "as_setup h connect schema cfg = Inr s" "ac_TrustPDPURL cfg \<noteq> []"
    "run_state (handleToken lib s c) w = ((l, TokenResponse token ty secs), w')"
  shows "\<exists>r cred sh t jti now.
     Verify (al_assertion lib) (fm_client_assertion c) (ac_BaseURL cfg @ ''/token'') = Inr r \<and> credential_of r = Some cred
     \<and> pdp_approves h (ac_TrustPDPURL cfg) (ac_TrustActionName cfg) (rs_IssuerID r) cred
     \<and> leads (st w) t \<and> leads t (st w') \<and> sql_select_shard (rs_IssuerID r) (pg t) = Some sh
     \<and> clock t \<le> now \<and> now \<le> clock (st w')
     \<and> jose_Serialize (al_access lib) (ac_SigningKey cfg) (ac_SigningKeyID cfg)
         \<lparr>at_ID = jti, at_Issuer = ac_BaseURL cfg, at_Subject = rs_IssuerID r, at_Audience = [ac_AccessTokenAudience cfg],
          at_IssuedAt = NewNumericDate (al_access lib) now,
          at_Expiry = NewNumericDate (al_access lib) (now + ac_AccessTokenTTL cfg), at_TenantID = sh, at_TAC = ''riw''\<rparr> = Some token"
proof -
  have s: "as_cfg s = cfg" "as_km s = NewKeyManager (ac_SigningKey cfg) (ac_SigningKeyID cfg)"
    "as_evaluator s = NewAuthZENEvaluator h (ac_TrustPDPURL cfg) (ac_TrustActionName cfg)"
    using assms(1,2) by (auto simp: as_setup_def choose_evaluator_def split: sum.splits)
  obtain r cred sh w1 where r: "admitted lib s c r cred"
      "run_state (AssignOrLookup (al_sha256 lib) (as_shards s) (rs_IssuerID r)) w = (Inr sh, w1)"
      "run_state (Issue (al_access lib) (as_km s) (token_params_of s r sh)) w1 = (Inr token, w')"
    using handleToken_success[OF assms(3)] by blast
  obtain r' cred' where "admitted lib s c r' cred'"
      "pdp_approves h (ac_TrustPDPURL cfg) (ac_TrustActionName cfg) (rs_IssuerID r') cred'"
    using authzen.issued_approved[OF s(3) assms(3)] by blast
  with r(1) have ap: "pdp_approves h (ac_TrustPDPURL cfg) (ac_TrustActionName cfg) (rs_IssuerID r) cred"
    by (simp add: admitted_def)
  have l1: "leads (st w) (st w1)" "sql_select_shard (rs_IssuerID r) (pg (st w1)) = Some sh"
    using spec_AssignOrLookup[of "al_sha256 lib" "as_shards s" "rs_IssuerID r"] r(2) unfolding spec_def by (metis fst_conv snd_conv)+
  have l2: "leads (st w1) (st w')" using moves_world_leads_D[OF moves_Issue, of w1] r(3) by (metis snd_conv)
  obtain jti now where "clock (st w1) \<le> now" "now \<le> clock (st w')"
      "jose_Serialize (al_access lib) (ac_SigningKey cfg) (ac_SigningKeyID cfg)
         \<lparr>at_ID = jti, at_Issuer = ac_BaseURL cfg, at_Subject = rs_IssuerID r, at_Audience = [ac_AccessTokenAudience cfg],
          at_IssuedAt = NewNumericDate (al_access lib) now,
          at_Expiry = NewNumericDate (al_access lib) (now + ac_AccessTokenTTL cfg), at_TenantID = sh, at_TAC = ''riw''\<rparr> = Some token"
    using Issue_claims[OF r(3)] by (auto simp: s NewKeyManager_def token_params_of_def)
  then show ?thesis using r(1) ap l1 l2 s(1) by (simp add: admitted_def) blast
qed

text \<open>
  C27. A refused request has no effect: unless the form is complete, the assertion verifies, and the trust
  evaluation approves, the answer is an OAuth error, no shard is assigned, and nothing at all has changed.
\<close>

theorem refused_request_no_effect:
  fixes w :: "'p world"
  assumes "\<nexists>r cred. admitted lib s c r cred"
  shows "\<exists>l code e d. run_state (handleToken lib s c) w = ((l, OAuthError code e d), w) \<and> l \<noteq> ''success''"
proof (cases rule: handleToken_cases[of lib s c, where 'p = 'p])
  case (refused resp)
  then show ?thesis by (cases resp) auto
next
  case (admitted r cred)
  then show ?thesis using assms by blast
qed

section \<open>Witnesses\<close>

definition demo_as_cfg :: ASConfig where
  "demo_as_cfg = \<lparr>ac_HTTPAddr = [], ac_BaseURL = ''https://as'', ac_PostgresDSN = [], ac_SigningKey = 0, ac_SigningKeyID = ''k'',
     ac_AccessTokenTTL = 3600 * Second, ac_AccessTokenAudience = ''aud'', ac_Shards = [''a''], ac_TrustPDPURL = ''https://pdp'',
     ac_TrustActionName = []\<rparr>"

definition demo_as_lib :: as_lib where
  "demo_as_lib = \<lparr>al_assertion = demo_assertion_lib (Some 100) 200,
     al_access = \<lparr>TAC_Validate = (\<lambda>_. True), NewNumericDate = (\<lambda>t. t div Second), jose_NewSigner = (\<lambda>_ _ _. True),
       jose_Serialize = (\<lambda>_ _ c. if at_Subject c = ''alice'' \<and> at_TAC c = ''riw'' then Some (''tok-'' @ at_TenantID c) else None)\<rparr>,
     al_sha256 = (\<lambda>_. []), al_Public = (\<lambda>_. OtherKey)\<rparr>"

definition demo_as :: ASServer where
  "demo_as = \<lparr>as_cfg = demo_as_cfg, as_km = NewKeyManager 0 ''k'',
     as_evaluator = NewAuthZENEvaluator (demo_http True) ''https://pdp'' [], as_shards = \<lparr>sa_shards = [''a'']\<rparr>\<rparr>"

definition demo_form :: token_form where
  "demo_form = \<lparr>fm_grant_type = grantTypeClientCredentials, fm_client_assertion_type = clientAssertionTypeJWTBearer,
     fm_client_assertion = ''t''\<rparr>"

lemma demo_as_setup: "as_setup (demo_http True) True True demo_as_cfg = Inr demo_as"
  by (simp add: as_setup_def NewShardAssigner_def demo_as_cfg_def demo_as_def choose_evaluator_def)

lemma demo_verify:
  "Verify (demo_assertion_lib (Some 100) 200) ''t'' ''https://as/token''
     = Inr \<lparr>rs_IssuerID = ''alice'', rs_JWK = Some [(''kty'', JString ''EC'')], rs_X5C = []\<rparr>"
  using demo_resolve[of "Some 100" 200]
  by (simp add: Verify_def demo_assertion_lib_def maxLifetime_def Minute_def Second_def time_Sub_def)

lemma demo_token: "\<exists>l token ty secs w'. run_state (handleToken demo_as_lib demo_as demo_form) demo_race = ((l, TokenResponse token ty secs), w')"
proof -
  obtain w1 where a: "run_state (AssignOrLookup (\<lambda>_. []) \<lparr>sa_shards = [''a'']\<rparr> ''alice'') demo_race = (Inr ''b'', w1)"
      "draws w1 = []" "fates w1 = []"
    by (simp add: AssignOrLookup_def run_shards demo_race_def initial_def empty_pg_def act_step_def permitted_def
      on_pg_def sql_select_shard_def sql_assign_shard_def shard_insert_def hashIndex_def set_bytes_def Let_def)
  obtain bs w2 where "run_state (rand_list 16) w1 = (bs, w2)" using run_rand_list by blast
  then have i: "\<exists>token w'. run_state (Issue (al_access demo_as_lib) km p) w1 = (Inr token, w')"
    if "ip_Subject p = ''alice''" "ip_TAC p = ''riw''" for km p
    using that a(3) by (auto simp: Issue_def demo_as_lib_def randomID_def rand_read_def next_fate_def Let_def split: prod.splits)
  have e: "ev_Evaluate (as_evaluator demo_as) i (CredentialFromJWK (Some j)) = Inr \<lparr>dc_Trusted = True, dc_Reason = ''trusted by policy''\<rparr>" for i j
    by (simp add: demo_as_def NewAuthZENEvaluator_def AuthZEN_Evaluate_def credentialKey_def CredentialFromJWK_def
        demo_http_def authzen_reason_def)
  have cfg: "al_assertion demo_as_lib = demo_assertion_lib (Some 100) 200" "al_sha256 demo_as_lib = (\<lambda>_. [])"
    "ac_BaseURL (as_cfg demo_as) @ ''/token'' = ''https://as/token''" "as_shards demo_as = \<lparr>sa_shards = [''a'']\<rparr>"
    by (simp_all add: demo_as_lib_def demo_as_def demo_as_cfg_def)
  obtain token w' where "run_state (Issue (al_access demo_as_lib) (as_km demo_as)
      (token_params_of demo_as \<lparr>rs_IssuerID = ''alice'', rs_JWK = Some [(''kty'', JString ''EC'')], rs_X5C = []\<rparr> ''b'')) w1 = (Inr token, w')"
    using i by (metis IssueParams.select_convs(3,5) Result.select_convs(1) token_params_of_def)
  then show ?thesis
    unfolding handleToken_def cfg demo_form_def
    by (simp add: demo_verify credential_of_def e a(1))
qed

theorem token_only_for_trusted_issuer_witness:
  "\<exists>token w' t. (\<exists>l ty secs. run_state (handleToken demo_as_lib demo_as demo_form) demo_race = ((l, TokenResponse token ty secs), w'))
     \<and> leads (st demo_race) t \<and> (\<exists>sh. sql_select_shard ''alice'' (pg t) = Some sh)"
proof -
  obtain l token ty secs w' where r: "run_state (handleToken demo_as_lib demo_as demo_form) demo_race = ((l, TokenResponse token ty secs), w')"
    using demo_token by blast
  have "ac_TrustPDPURL demo_as_cfg \<noteq> []" by (simp add: demo_as_cfg_def)
  from token_only_for_trusted_issuer[OF demo_as_setup this r] obtain rr sh t where t:
    "Verify (al_assertion demo_as_lib) (fm_client_assertion demo_form) (ac_BaseURL demo_as_cfg @ ''/token'') = Inr rr"
    "leads (st demo_race) t" "sql_select_shard (rs_IssuerID rr) (pg t) = Some sh" by blast
  have "rs_IssuerID rr = ''alice''"
    using t(1) demo_verify by (auto simp: demo_as_lib_def demo_form_def demo_as_cfg_def)
  then show ?thesis using r t by auto
qed

theorem refused_request_no_effect_witness:
  "\<exists>l code e d. run_state (handleToken demo_as_lib demo_as (demo_form\<lparr>fm_client_assertion := []\<rparr>)) demo_race
     = ((l, OAuthError code e d), demo_race)"
proof -
  have "\<nexists>r cred. admitted demo_as_lib demo_as (demo_form\<lparr>fm_client_assertion := []\<rparr>) r cred" by (simp add: admitted_def)
  from refused_request_no_effect[OF this, of demo_race] show ?thesis by blast
qed

end
