(* ===== verification/Services.thy ===== *)
theory Services
  imports Signing Ingress Verifier Decoy Auth_Server
begin

text \<open>
  The entry points, \<open>src/cmd\<close>: how the ingestion, verifier and ingress services are put together from their
  configuration (the authorization server is in \<open>Auth_Server\<close>), and the multiplexer of the router. A \<open>start\<close>
  is the part of \<open>run\<close> up to the listener: it fails with the first error, after the deferred closers ran, or
  it yields the parts of the running service. The listener and what follows are in \<open>Runtime\<close>, the polling of
  the pool statistics in \<open>Metrics\<close>; the log lines are left out.
\<close>

section \<open>Definitions\<close>

record validator_config =
  va_JWKSURL :: string
  va_JWKSRefresh :: duration
  va_Issuer :: string
  va_Audiences :: "string list"

text \<open>
  What the entry points call and the sources do not contain: the Redis client (its options are of type
  \<open>'o\<close>), whether Postgres accepts the connection and the schema, the PKCS#11 library of the build, the
  token library of the publisher, and go-tokenauth with the key set it fetches.
\<close>

record ('o, 'pool) platform =
  pf_config :: config_lib
  redis_ParseURL :: "string \<Rightarrow> string + 'o"
  redis_Addr :: "string \<Rightarrow> 'o"
  redis_Ping :: "'o \<Rightarrow> bool"
  pf_NewMetaStore :: "string \<Rightarrow> bool"
  pf_pkcs11 :: "'pool pkcs11_lib option"
  pf_token :: token_lib
  pf_tokengin :: "validator_config \<Rightarrow> tokengin"
  pf_validator :: "validator_config \<Rightarrow> string \<Rightarrow> validate_error + auth_result"

datatype 'e start_error =
    BadConfig config_error
  | BadRedisURL string
  | RedisUnreachable
  | PostgresFailed
  | SigningFailed sign_error
  | PublisherFailed token_error
  | BadBackend 'e

definition redisOptions :: "('o, 'pool) platform \<Rightarrow> string \<Rightarrow> string \<Rightarrow> string + 'o" where
  "redisOptions pf redisURL redisAddr =
     (if redisURL \<noteq> [] then redis_ParseURL pf redisURL else Inr (redis_Addr pf redisAddr))"

text \<open>The parts of a running ingestion service. Its \<open>BitmapStore\<close> is the Redis of its own shard.\<close>

record 'pool ingestion_service =
  is_srv :: Server
  is_pub :: Publisher
  is_sweeper :: Sweeper
  is_noiser :: Noiser
  is_tokengin :: tokengin
  is_closer :: "'pool closer"

definition ingestion_start ::
  "('o, 'pool) platform \<Rightarrow> env \<Rightarrow> ('pool list, unit start_error + 'pool ingestion_service \<times> pub_state) state" where
  "ingestion_start pf env =
     (case LoadIngestion (pf_config pf) env of
        Inl e \<Rightarrow> ret (Inl (BadConfig e))
      | Inr cfg \<Rightarrow>
          (case redisOptions pf (ic_RedisURL cfg) (ic_RedisAddr cfg) of
             Inl e \<Rightarrow> ret (Inl (BadRedisURL e))
           | Inr opts \<Rightarrow>
               if \<not> redis_Ping pf opts then ret (Inl RedisUnreachable)
               else if \<not> pf_NewMetaStore pf (ic_PostgresDSN cfg) then ret (Inl PostgresFailed)
               else do {
                 let validator = pf_tokengin pf \<lparr>va_JWKSURL = ic_ASJWKSURL cfg, va_JWKSRefresh = ic_JWKSRefreshInterval cfg,
                       va_Issuer = ic_AccessTokenIssuer cfg, va_Audiences = [ic_AccessTokenAudience cfg]\<rparr>;
                 rs \<leftarrow> NewSigner (pf_pkcs11 pf) (ic_Signing cfg);
                 (case rs of
                    Inl e \<Rightarrow> ret (Inl (SigningFailed e))
                  | Inr (signer, signerCloser) \<Rightarrow>
                      (case Publisher_New (pf_token pf) [ic_ShardID cfg] signer (ic_SigningKeyID cfg) (ic_BaseURL cfg) (ic_SigningCertChain cfg) of
                         Inl e \<Rightarrow> do { Close signerCloser; ret (Inl (PublisherFailed e)) }
                       | Inr (pub, ps) \<Rightarrow>
                           (let pm = NewManager (ic_ShardID cfg) (ic_PoolWidth cfg) (ic_ListCapacity cfg) (ic_ListBits cfg) (ic_RotationMaxAge cfg);
                                sweeper = NewSweeper (ic_ShardID cfg) (ic_GCGracePeriod cfg) (ic_GCRetentionPeriod cfg) (ic_DBRetentionPeriod cfg);
                                noiser = NewNoiser (ic_ShardID cfg) (ic_DecoyNoiseRate cfg) (ic_DefaultTTLSeconds cfg)
                            in ret (Inr (\<lparr>is_srv = Ingestion_New cfg pm, is_pub = pub, is_sweeper = sweeper, is_noiser = noiser,
                                          is_tokengin = validator, is_closer = signerCloser\<rparr>, ps)))))
               }))"

text \<open>The loop over the shards of the verifier, in the order the iteration of the map happens to take.\<close>

fun connect_shards :: "('o, 'pool) platform \<Rightarrow> (string \<times> string) list \<Rightarrow> string list \<Rightarrow> unit start_error + string list" where
  "connect_shards pf [] shards = Inr shards"
| "connect_shards pf ((shardID, url) # rest) shards =
     (case redis_ParseURL pf url of
        Inl e \<Rightarrow> Inl (BadRedisURL e)
      | Inr opts \<Rightarrow>
          if \<not> redis_Ping pf opts then Inl RedisUnreachable else connect_shards pf rest (shards @ [shardID]))"

definition verifier_start ::
  "('o, 'pool) platform \<Rightarrow> env \<Rightarrow> ('pool list, unit start_error + (VerifierServer \<times> 'pool closer) \<times> pub_state) state" where
  "verifier_start pf env =
     (case LoadVerifier (pf_config pf) env of
        Inl e \<Rightarrow> ret (Inl (BadConfig e))
      | Inr cfg \<Rightarrow>
          (case connect_shards pf (vc_ShardRedisURLs cfg) [] of
             Inl e \<Rightarrow> ret (Inl e)
           | Inr shards \<Rightarrow>
               if \<not> pf_NewMetaStore pf (vc_PostgresDSN cfg) then ret (Inl PostgresFailed)
               else do {
                 rs \<leftarrow> NewSigner (pf_pkcs11 pf) (vc_Signing cfg);
                 (case rs of
                    Inl e \<Rightarrow> ret (Inl (SigningFailed e))
                  | Inr (signer, signerCloser) \<Rightarrow>
                      (case Publisher_New (pf_token pf) shards signer (vc_SigningKeyID cfg) (vc_BaseURL cfg) (vc_SigningCertChain cfg) of
                         Inl e \<Rightarrow> do { Close signerCloser; ret (Inl (PublisherFailed e)) }
                       | Inr (pub, ps) \<Rightarrow> ret (Inr ((Verifier_New cfg pub, signerCloser), ps))))
               }))"

definition ingress_start :: "('o, 'pool) platform \<Rightarrow> (string \<Rightarrow> 'e + 'u) \<Rightarrow> env \<Rightarrow> 'e start_error + 'u Router" where
  "ingress_start pf url_Parse env =
     (case LoadIngress (pf_config pf) env of
        Inl e \<Rightarrow> Inl (BadConfig e)
      | Inr cfg \<Rightarrow>
          (case Router_New url_Parse
                  (pf_validator pf \<lparr>va_JWKSURL = gc_ASJWKSURL cfg, va_JWKSRefresh = gc_JWKSRefreshInterval cfg,
                     va_Issuer = gc_AccessTokenIssuer cfg, va_Audiences = [gc_AccessTokenAudience cfg]\<rparr>)
                  (gc_ShardBackends cfg) of
             Inl e \<Rightarrow> Inl (BadBackend e)
           | Inr router \<Rightarrow> Inr router))"

text \<open>
  \<open>http.ServeMux\<close>: the escaped path of the request is cleaned as by \<open>path.Clean\<close>, keeping a trailing
  slash; a request whose path is not clean is redirected to the clean one.
\<close>

fun clean_segments :: "string list \<Rightarrow> string list \<Rightarrow> string list" where
  "clean_segments out [] = rev out"
| "clean_segments out (s # ss) =
     (if s = [] \<or> s = ''.'' then clean_segments out ss
      else if s = ''..'' then clean_segments (tl out) ss
      else clean_segments (s # out) ss)"

definition cleanPath :: "string \<Rightarrow> string" where
  "cleanPath p =
     (if p = [] then ''/''
      else let np = CHR ''/'' # str_join (CHR ''/'') (clean_segments [] (str_split (CHR ''/'') p))
           in if last p = CHR ''/'' \<and> np \<noteq> ''/'' then np @ ''/'' else np)"

datatype 'u mux_response = MuxHealthz | MuxMetrics | MuxRedirect string | MuxRouter "(string \<times> string) \<times> 'u ingress_response"

definition ingress_mux :: "'u Router \<Rightarrow> string \<Rightarrow> http_request \<Rightarrow> 'u mux_response" where
  "ingress_mux router escapedPath req =
     (if cleanPath escapedPath \<noteq> escapedPath then MuxRedirect (cleanPath escapedPath)
      else if escapedPath = ''/healthz'' then MuxHealthz
      else if escapedPath = ''/metrics'' then MuxMetrics
      else MuxRouter (ServeHTTP router req))"

section \<open>A redirect of the multiplexer settles at once\<close>

definition clean_segment :: "string \<Rightarrow> bool" where
  "clean_segment s \<longleftrightarrow> s \<noteq> [] \<and> s \<noteq> ''.'' \<and> s \<noteq> ''..'' \<and> CHR ''/'' \<notin> set s"

lemma clean_segments_clean:
  "\<forall>s\<in>set ss. CHR ''/'' \<notin> set s \<Longrightarrow> \<forall>s\<in>set out. clean_segment s \<Longrightarrow> \<forall>s\<in>set (clean_segments out ss). clean_segment s"
proof (induction ss arbitrary: out)
  case (Cons s ss)
  have tl: "\<forall>s\<in>set (tl out). clean_segment s" using Cons.prems(2) by (cases out) simp_all
  have ss: "\<forall>s\<in>set ss. CHR ''/'' \<notin> set s" using Cons.prems(1) by simp
  consider "s = [] \<or> s = ''.''" | "s = ''..''" | "clean_segment s" using Cons.prems(1) unfolding clean_segment_def by auto
  then show ?case
  proof cases
    case 1
    then show ?thesis using Cons.IH[OF ss Cons.prems(2)] by simp
  next
    case 2
    then show ?thesis using Cons.IH[OF ss tl] by simp
  next
    case 3
    have "\<forall>s\<in>set (s # out). clean_segment s" using 3 Cons.prems(2) by simp
    from Cons.IH[OF ss this] show ?thesis using 3 by (simp add: clean_segment_def)
  qed
qed simp

lemma clean_segments_id: "\<forall>s\<in>set ss. s = [] \<or> clean_segment s \<Longrightarrow> clean_segments out ss = rev out @ filter (\<lambda>s. s \<noteq> []) ss"
  by (induction ss arbitrary: out) (auto simp: clean_segment_def)

lemma str_split_join: "ss \<noteq> [] \<Longrightarrow> \<forall>s\<in>set ss. c \<notin> set s \<Longrightarrow> str_split c (str_join c ss) = ss"
proof (induction c ss rule: str_join.induct)
  case (3 c x y ys)
  then show ?case using str_split_append[of c x "str_join c (y # ys)"] by simp
qed (simp_all add: str_split_no_sep)

lemma str_join_snoc: "ss \<noteq> [] \<Longrightarrow> str_join c ss @ [c] = str_join c (ss @ [[]])"
  by (induction c ss rule: str_join.induct) auto

lemma last_str_join: "ss \<noteq> [] \<Longrightarrow> last ss \<noteq> [] \<Longrightarrow> last (str_join c ss) = last (last ss) \<and> str_join c ss \<noteq> []"
  by (induction c ss rule: str_join.induct) auto

lemma cleanPath_segments:
  assumes "\<forall>s\<in>set ss. clean_segment s"
  shows "cleanPath (CHR ''/'' # str_join (CHR ''/'') ss) = CHR ''/'' # str_join (CHR ''/'') ss"
    and "ss \<noteq> [] \<Longrightarrow> cleanPath (CHR ''/'' # str_join (CHR ''/'') ss @ ''/'') = CHR ''/'' # str_join (CHR ''/'') ss @ ''/''"
proof -
  let ?j = "str_join (CHR ''/'') ss"
  have f: "filter (\<lambda>s. s \<noteq> []) ss = ss" using assms by (auto simp: clean_segment_def filter_id_conv)
  have sep: "\<forall>s\<in>set ss. CHR ''/'' \<notin> set s" using assms by (simp add: clean_segment_def)
  have j: "?j \<noteq> [] \<and> last ?j \<noteq> CHR ''/''" if "ss \<noteq> []"
    using last_str_join[OF that, of "CHR ''/''"] assms last_in_set[OF that] by (metis clean_segment_def last_in_set)
  have "clean_segments [] (str_split (CHR ''/'') (CHR ''/'' # ?j)) = ss"
    using clean_segments_id[of ss "[]"] assms f str_split_join[OF _ sep] by (cases "ss = []") auto
  then show "cleanPath (CHR ''/'' # ?j) = CHR ''/'' # ?j"
    using j by (cases "ss = []") (auto simp: cleanPath_def Let_def)
  assume ne: "ss \<noteq> []"
  have "clean_segments [] (str_split (CHR ''/'') (CHR ''/'' # ?j @ ''/'')) = ss"
    using clean_segments_id[of "ss @ [[]]" "[]"] assms f str_split_join[of "ss @ [[]]" "CHR ''/''"] sep str_join_snoc[OF ne, of "CHR ''/''"] by auto
  then show "cleanPath (CHR ''/'' # ?j @ ''/'') = CHR ''/'' # ?j @ ''/''"
    using j[OF ne] by (auto simp: cleanPath_def Let_def)
qed

text \<open>A request that was redirected to the clean path is not redirected again.\<close>

theorem redirect_settles: "cleanPath (cleanPath p) = cleanPath p"
proof (cases "p = []")
  case False
  let ?ss = "clean_segments [] (str_split (CHR ''/'') p)" and ?np = "CHR ''/'' # str_join (CHR ''/'') (clean_segments [] (str_split (CHR ''/'') p))"
  have ss: "\<forall>s\<in>set ?ss. clean_segment s" using clean_segments_clean[of "str_split (CHR ''/'') p" "[]"] str_split_segment by auto
  show ?thesis
  proof (cases "last p = CHR ''/'' \<and> ?np \<noteq> ''/''")
    case True
    then have "?ss \<noteq> []" by auto
    then show ?thesis using True False cleanPath_segments(2)[OF ss] by (simp add: cleanPath_def[of p] Let_def)
  next
    case np: False
    then have "cleanPath p = ?np" using False unfolding cleanPath_def Let_def by auto
    then show ?thesis using cleanPath_segments(1)[OF ss] by simp
  qed
qed (simp add: cleanPath_def Let_def)

lemma status_path_clean:
  assumes "clean_segment l" "clean_segment i"
  shows "cleanPath (status_path l i) = status_path l i"
  using cleanPath_segments(1)[of "[''status'', l, i]"] assms by (simp add: clean_segment_def)

section \<open>What a start leaves behind\<close>

lemma Publisher_New_Inr:
  assumes "Publisher_New lib shards key keyID url chain = Inr (pub, ps)"
  shows "pb_shards pub = shards \<and> pb_key pub = key \<and> pb_baseURL pub = url
    \<and> ps = \<lparr>cache = (\<lambda>_. None), debounce = newLeadingDebouncer, tasks = []\<rparr>"
  using assms by (auto simp: Publisher_New_def and_then_Inr split: pubkey.splits)

lemma ingestion_start_parts:
  assumes "run_state (ingestion_start pf env) ps = (r, qs)"
  shows "case r of
      Inl e \<Rightarrow> qs = ps
    | Inr (svc, p) \<Rightarrow> run_state (Close (is_closer svc)) qs = ((), ps)
        \<and> p = \<lparr>cache = (\<lambda>_. None), debounce = newLeadingDebouncer, tasks = []\<rparr>
        \<and> (\<exists>cfg. LoadIngestion (pf_config pf) env = Inr cfg \<and> sv_cfg (is_srv svc) = cfg
            \<and> mg_ShardID (sv_pool (is_srv svc)) = ic_ShardID cfg \<and> sw_shard (is_sweeper svc) = ic_ShardID cfg
            \<and> nz_shardID (is_noiser svc) = ic_ShardID cfg \<and> pb_shards (is_pub svc) = [ic_ShardID cfg]
            \<and> nz_DefaultTTLSeconds (is_noiser svc) = ic_DefaultTTLSeconds cfg \<and> sw_Grace (is_sweeper svc) = ic_GCGracePeriod cfg
            \<and> pb_baseURL (is_pub svc) = ic_BaseURL cfg
            \<and> run_state (NewSigner (pf_pkcs11 pf) (ic_Signing cfg)) ps = (Inr (pb_key (is_pub svc), is_closer svc), qs))"
proof (cases "LoadIngestion (pf_config pf) env")
  case (Inl e)
  then show ?thesis using assms by (auto simp: ingestion_start_def)
next
  case (Inr cfg)
  show ?thesis
  proof (cases "\<exists>opts. redisOptions pf (ic_RedisURL cfg) (ic_RedisAddr cfg) = Inr opts \<and> redis_Ping pf opts \<and> pf_NewMetaStore pf (ic_PostgresDSN cfg)")
    case True
    then obtain opts where o: "redisOptions pf (ic_RedisURL cfg) (ic_RedisAddr cfg) = Inr opts" "redis_Ping pf opts" "pf_NewMetaStore pf (ic_PostgresDSN cfg)"
      by blast
    obtain rs q where n: "run_state (NewSigner (pf_pkcs11 pf) (ic_Signing cfg)) ps = (rs, q)" by fastforce
    from n show ?thesis
    proof (cases rule: NewSigner_pools)
      case (1 e)
      then show ?thesis using assms n by (auto simp: ingestion_start_def Inr o)
    next
      case (2 signer c)
      then show ?thesis
        using assms n
        by (cases "Publisher_New (pf_token pf) [ic_ShardID cfg] signer (ic_SigningKeyID cfg) (ic_BaseURL cfg) (ic_SigningCertChain cfg)")
          (auto dest!: Publisher_New_Inr simp: ingestion_start_def Inr o Let_def Ingestion_New_def NewManager_def
            NewSweeper_def NewNoiser_def)
    qed
  next
    case False
    then show ?thesis using assms Inr by (auto simp: ingestion_start_def split: sum.splits if_splits)
  qed
qed

section \<open>Properties\<close>

text \<open>
  C25. An ingestion service that starts is wired to one shard: its handlers, its pool, its sweeper, its noiser
  and its publisher all have the configured shard and no other, the noiser and the handlers have the same
  time to live, the publisher signs with the key of the configured source and starts with an empty cache, and
  closing the service closes every PKCS#11 session it opened. A start that fails leaves no session open.
\<close>

theorem ingestion_start_wiring:
  assumes "run_state (ingestion_start pf env) ps = (r, qs)"
  shows "case r of
      Inl e \<Rightarrow> qs = ps
    | Inr (svc, p) \<Rightarrow> run_state (Close (is_closer svc)) qs = ((), ps)
        \<and> p = \<lparr>cache = (\<lambda>_. None), debounce = newLeadingDebouncer, tasks = []\<rparr>
        \<and> (\<exists>cfg. LoadIngestion (pf_config pf) env = Inr cfg \<and> sv_cfg (is_srv svc) = cfg
            \<and> mg_ShardID (sv_pool (is_srv svc)) = ic_ShardID cfg \<and> sw_shard (is_sweeper svc) = ic_ShardID cfg
            \<and> nz_shardID (is_noiser svc) = ic_ShardID cfg \<and> pb_shards (is_pub svc) = [ic_ShardID cfg]
            \<and> nz_DefaultTTLSeconds (is_noiser svc) = ic_DefaultTTLSeconds cfg \<and> sw_Grace (is_sweeper svc) = ic_GCGracePeriod cfg
            \<and> pb_baseURL (is_pub svc) = ic_BaseURL cfg
            \<and> run_state (NewSigner (pf_pkcs11 pf) (ic_Signing cfg)) ps = (Inr (pb_key (is_pub svc), is_closer svc), qs))"
  using assms by (rule ingestion_start_parts)

definition demo_platform :: "(string, unit) platform" where
  "demo_platform = \<lparr>pf_config = demo_config_lib, redis_ParseURL = Inr, redis_Addr = id, redis_Ping = (\<lambda>_. True),
     pf_NewMetaStore = (\<lambda>_. True), pf_pkcs11 = Some \<lparr>pkcs11pool_New = (\<lambda>_. Inr ()), pkcs11pool_NewSigner = (\<lambda>_ _. Inl [])\<rparr>,
     pf_token = demo_lib, pf_tokengin = (\<lambda>_. demo_tokengin), pf_validator = (\<lambda>_. demo_validator)\<rparr>"

lemma demo_LoadIngestion: "\<exists>c. LoadIngestion demo_config_lib demo_env = Inr c \<and> ic_Signing c = KeySource 7 \<and> ic_ShardID c = ''default''"
proof -
  have "loadSigningSource demo_config_lib demo_env ''SIGNING_KEY_PEM'' = Inr (KeySource 7)"
    using demo_key by (simp add: loadSigningSource_def) (simp add: demo_env_def)
  moreover have "demo_env k = []" if "k \<notin> {''SIGNING_KEY_PEM'', ''AS_JWKS_URL'', ''ACCESS_TOKEN_ISSUER''}" for k
    using that by (simp add: demo_env_def)
  moreover have "demo_env ''AS_JWKS_URL'' \<noteq> []" "demo_env ''ACCESS_TOKEN_ISSUER'' \<noteq> []" by (simp_all add: demo_env_def)
  ultimately show ?thesis by (simp add: LoadIngestion_def env_defs parse_env_unset optionalCertChainEnv_def getEnv_def)
qed

theorem ingestion_start_wiring_witness:
  "\<exists>svc p. run_state (ingestion_start demo_platform demo_env) [] = (Inr (svc, p), []) \<and> sw_shard (is_sweeper svc) = ''default''
     \<and> pb_shards (is_pub svc) = [''default''] \<and> pb_key (is_pub svc) = 7"
proof -
  obtain cfg where cfg: "LoadIngestion demo_config_lib demo_env = Inr cfg" "ic_Signing cfg = KeySource 7" "ic_ShardID cfg = ''default''"
    using demo_LoadIngestion by blast
  have pub: "\<exists>pub p. Publisher_New demo_lib shards 7 kid url chain = Inr (pub, p)" for shards kid url chain
    by (simp add: Publisher_New_def JWKFromPublicKey_def demo_lib_def)
  obtain pub p where p: "Publisher_New demo_lib [ic_ShardID cfg] 7 (ic_SigningKeyID cfg) (ic_BaseURL cfg) (ic_SigningCertChain cfg) = Inr (pub, p)"
    using pub by blast
  have "\<exists>svc. run_state (ingestion_start demo_platform demo_env) [] = (Inr (svc, p), [])"
    using p by (simp add: ingestion_start_def demo_platform_def cfg(1) redisOptions_def cfg(2) NewSigner_key Let_def)
  then obtain svc where r: "run_state (ingestion_start demo_platform demo_env) [] = (Inr (svc, p), [])" by blast
  have "LoadIngestion (pf_config demo_platform) demo_env = Inr cfg" using cfg by (simp add: demo_platform_def)
  then have "sw_shard (is_sweeper svc) = ''default'' \<and> pb_shards (is_pub svc) = [''default''] \<and> pb_key (is_pub svc) = 7"
    using ingestion_start_wiring[OF r] cfg by (auto simp: NewSigner_key)
  then show ?thesis using r by blast
qed

end
