(* ===== verification/Deployment.thy ===== *)
theory Deployment
  imports Services
begin

text \<open>
  A whole deployment over time: any number of ingestion services, verifiers and authorization servers over
  one Postgres and one Redis per shard, with their requests, their tickers (\<open>Run\<close> of the pool, the sweeper,
  the noiser and the publisher, started in \<open>src/cmd/ingestion-service/main.go\<close>), the tasks the debouncer
  scheduled, the reassignment tool, the passing of time and restarts, in any order. Every operation runs
  with some schedule of the others' actions in between, some fates of its calls and some draws; within one
  process, the operations on the cache and the debouncer of its publisher take effect one request at a time.
\<close>

section \<open>Definitions\<close>

record 'pool deployment =
  dp_token :: token_lib
  dp_hmac :: "bytes \<Rightarrow> bytes \<Rightarrow> bytes"
  dp_as_lib :: as_lib
  dp_ingestion :: "'pool ingestion_service list"
  dp_verifiers :: "VerifierServer list"
  dp_as :: "ASServer list"

text \<open>The stores, and the publisher's state of each ingestion service and each verifier.\<close>

record system =
  sy_st :: stores
  sy_ingestion :: "pub_state list"
  sy_verifiers :: "pub_state list"

definition fresh_proc :: pub_state where
  "fresh_proc = \<lparr>cache = (\<lambda>_. None), debounce = newLeadingDebouncer, tasks = []\<rparr>"

datatype job = Serve request | PoolTick | SweepTick | NoiseTick | PublishTick

definition ingestion_job ::
  "'pool deployment \<Rightarrow> 'pool ingestion_service \<Rightarrow> job \<Rightarrow> (pub_state world, unit) state" where
  "ingestion_job d svc j =
     (case j of
        Serve req \<Rightarrow> do { Ingestion_Router (is_tokengin svc) (dp_hmac d) (is_srv svc) req; ret () }
      | PoolTick \<Rightarrow> do { EnsureHealthy (sv_pool (is_srv svc)); ret () }
      | SweepTick \<Rightarrow> do { Sweep (is_sweeper svc); ret () }
      | NoiseTick \<Rightarrow> do { Noiser_Sweep (dp_hmac d) (is_noiser svc); ret () }
      | PublishTick \<Rightarrow> publish_tick (dp_token d) (is_pub svc) (ListsForPublishing (is_srv svc)))"

fun task_due :: "task \<Rightarrow> time \<Rightarrow> bool" where
  "task_due (FireTask l ttl) now \<longleftrightarrow> True"
| "task_due (TimerTask due l ttl) now \<longleftrightarrow> due \<le> now"

inductive step :: "'pool deployment \<Rightarrow> system \<Rightarrow> system \<Rightarrow> bool" for d where
  step_job: "i < length (dp_ingestion d) \<Longrightarrow> st w = sy_st s \<Longrightarrow> proc w = sy_ingestion s ! i
    \<Longrightarrow> w' = after (ingestion_job d (dp_ingestion d ! i) j) w
    \<Longrightarrow> step d s (s\<lparr>sy_st := st w', sy_ingestion := (sy_ingestion s)[i := proc w']\<rparr>)"
| step_task: "i < length (dp_ingestion d) \<Longrightarrow> st w = sy_st s \<Longrightarrow> t \<in> set (tasks (sy_ingestion s ! i)) \<Longrightarrow> task_due t (clock (sy_st s))
    \<Longrightarrow> proc w = (sy_ingestion s ! i)\<lparr>tasks := remove1 t (tasks (sy_ingestion s ! i))\<rparr>
    \<Longrightarrow> w' = after (run_task (dp_token d) (is_pub (dp_ingestion d ! i)) t) w
    \<Longrightarrow> step d s (s\<lparr>sy_st := st w', sy_ingestion := (sy_ingestion s)[i := proc w']\<rparr>)"
| step_fetch: "i < length (dp_verifiers d) \<Longrightarrow> st w = sy_st s \<Longrightarrow> proc w = sy_verifiers s ! i
    \<Longrightarrow> w' = after (Verifier_Router (dp_token d) (dp_verifiers d ! i) req) w
    \<Longrightarrow> step d s (s\<lparr>sy_st := st w', sy_verifiers := (sy_verifiers s)[i := proc w']\<rparr>)"
| step_token: "a \<in> set (dp_as d) \<Longrightarrow> st (w :: unit world) = sy_st s
    \<Longrightarrow> w' = after (AS_Router (dp_as_lib d) a areq) w \<Longrightarrow> step d s (s\<lparr>sy_st := st w'\<rparr>)"
| step_reassign: "st (w :: unit world) = sy_st s \<Longrightarrow> w' = after (reassign cfg) w \<Longrightarrow> step d s (s\<lparr>sy_st := st w'\<rparr>)"
| step_time: "step d s (s\<lparr>sy_st := exec (Tick n) (sy_st s)\<rparr>)"
| step_restart: "step d s (s\<lparr>sy_ingestion := (sy_ingestion s)[i := fresh_proc]\<rparr>)"
| step_restart_verifier: "step d s (s\<lparr>sy_verifiers := (sy_verifiers s)[i := fresh_proc]\<rparr>)"

definition boot :: "'pool deployment \<Rightarrow> system" where
  "boot d = \<lparr>sy_st = initial, sy_ingestion = replicate (length (dp_ingestion d)) fresh_proc,
     sy_verifiers = replicate (length (dp_verifiers d)) fresh_proc\<rparr>"

definition reachable :: "'pool deployment \<Rightarrow> system \<Rightarrow> bool" where
  "reachable d s \<longleftrightarrow> (step d)\<^sup>*\<^sup>* (boot d) s"

section \<open>Code that leaves the state of its process alone\<close>

definition same_proc :: "'p world \<Rightarrow> 'p world \<Rightarrow> bool" where
  "same_proc w w' \<longleftrightarrow> proc w' = proc w"

lemma reflp_same_proc [moves_rules]: "reflp same_proc"
  by (simp add: reflp_def same_proc_def)

lemma transp_same_proc [moves_rules]: "transp same_proc"
  by (simp add: transp_def same_proc_def)

lemma same_proc_remote [moves_rules]: "moves same_proc (remote e g)"
proof (rule movesI)
  fix w show "same_proc w (after (remote e g) w)"
    by (rule run_remote[of w e g]) (auto simp: same_proc_def)
qed

lemma same_proc_time_now [moves_rules]: "moves same_proc time_now"
proof (rule movesI)
  fix w :: "'p world" show "same_proc w (after time_now w)"
    by (rule run_time_now[of w]) (auto simp: same_proc_def)
qed

lemma same_proc_draws [moves_rules]: "moves same_proc next_draw" "moves same_proc next_fate"
  by (rule movesI; simp add: next_draw_def next_fate_def same_proc_def split: list.splits)+

lemma same_proc_rand [moves_rules]:
  "moves same_proc (rand_below n)" "moves same_proc (rand_list n)" "moves same_proc (rand_read n)"
proof -
  show l: "moves same_proc (rand_list n :: ('p world, bytes) state)" for n by (induction n) (auto intro!: moves_rules)
  show "moves same_proc (rand_below n)" "moves same_proc (rand_read n)"
    unfolding rand_below_def rand_read_def by (intro moves_rules l)+
qed

lemma same_proc_pg [moves_rules]: "moves same_proc (pg_query f)" "moves same_proc (call_act e a g)" "moves same_proc (pg_exec a)"
  unfolding pg_query_def call_act_def pg_exec_def by (intro moves_rules)+

lemma same_proc_meta [moves_rules]:
  "moves same_proc (CreateList l b n k sh)" "moves same_proc (queryLists P)" "moves same_proc (ActiveLists sh)"
  "moves same_proc (LiveLists sh)" "moves same_proc (NoiseLists sh)" "moves same_proc (GetList l)" "moves same_proc (Freeze l)"
  "moves same_proc (FrozenListsPastGrace c)" "moves same_proc (Archive l)" "moves same_proc (ArchivedListsPastRetention c)"
  "moves same_proc (MarkPurged l)" "moves same_proc (PurgedListsPastDBRetention c)" "moves same_proc (DeleteList l)"
  "moves same_proc (ReserveCursorAndRecord l i sh e f)" "moves same_proc (IsAllocated l ix)"
  "moves same_proc (CheckOwnership l ix i)" "moves same_proc (GetUsage i)"
  unfolding CreateList_def queryLists_def ActiveLists_def LiveLists_def NoiseLists_def GetList_def Freeze_def FrozenListsPastGrace_def
    Archive_def ArchivedListsPastRetention_def MarkPurged_def PurgedListsPastDBRetention_def DeleteList_def
    ReserveCursorAndRecord_def IsAllocated_def CheckOwnership_def GetUsage_def
  by (intro moves_rules)+

lemma same_proc_bitmaps [moves_rules]:
  "moves same_proc (Init sh l n)" "moves same_proc (SetStatus sh l q off bits v)" "moves same_proc (Snapshot sh l n)"
  "moves same_proc (Version sh l)" "moves same_proc (Purge sh l)"
  unfolding Init_def SetStatus_def Snapshot_def Version_def Purge_def Let_def by (intro moves_rules)+

lemma same_proc_createList [moves_rules]: "moves same_proc (createList m)"
  unfolding createList_def ListID_New_def NewKey_def by (auto intro!: moves_rules split: listid_error.split)

lemma same_proc_freeze_aged [moves_rules]: "moves same_proc (freeze_aged m rem lms)"
  by (induction m rem lms rule: freeze_aged.induct) (auto intro!: moves_rules)

lemma same_proc_top_up [moves_rules]: "moves same_proc (top_up m k rem)"
  by (induction m k rem rule: top_up.induct) (auto intro!: moves_rules)

lemma same_proc_EnsureHealthy [moves_rules]: "moves same_proc (EnsureHealthy m)"
  unfolding EnsureHealthy_def by (intro moves_rules)

lemma same_proc_PickForAllocation [moves_rules]: "moves same_proc (PickForAllocation m)"
  unfolding PickForAllocation_def ChooseByPowerOfTwo_def Let_def by (intro moves_rules) (auto intro!: moves_rules split: list.split)

lemma same_proc_Sweep [moves_rules]: "moves same_proc (Sweep sw)"
  unfolding Sweep_def sweep_purge_def sweep_delete_def by (intro moves_rules)

lemma same_proc_decoy [moves_rules]: "moves same_proc (decoy_flips hmac n lm alloc bm dirty k)"
proof (induction k arbitrary: dirty)
  case 0
  show ?case by (simp add: moves_ret reflp_same_proc)
next
  case (Suc k)
  show ?case unfolding decoy_flips.simps nextDecoyStatus_def by (intro moves_rules Suc)
qed

section \<open>The invariant of a process\<close>

text \<open>
  \<open>known lm s\<close>: a row of the lists table read as \<open>lm\<close> at some moment of the deployment's history.
  \<open>genuine lib p s l pd\<close>: \<open>pd\<close> was built and signed by the publisher \<open>p\<close> for such a list \<open>l\<close> of one of its shards,
  from the bytes of the bitmap at a moment that is not before the one at which the list had its version.
\<close>

definition known :: "ListMeta \<Rightarrow> stores \<Rightarrow> bool" where
  "known lm s \<longleftrightarrow> (\<exists>s0. leads initial s0 \<and> leads s0 s \<and> lm \<in> scanListMeta ` set (lists (pg s0)))"

definition genuine :: "token_lib \<Rightarrow> Publisher \<Rightarrow> stores \<Rightarrow> string \<Rightarrow> Published \<Rightarrow> bool" where
  "genuine lib p s l pd \<longleftrightarrow> (\<exists>lm s1 s2 bm now. known lm s \<and> lm_ID lm = l \<and> lm_ShardID lm \<in> set (pb_shards p)
     \<and> leads initial s1 \<and> leads s1 s2 \<and> leads s2 s \<and> clock s2 \<le> now \<and> now \<le> clock s
     \<and> pd_Version pd = live_version (lm_ShardID lm) l s1 \<and> pd_Bits pd = lm_Bits lm
     \<and> WrapBitmap (stored_bytes lm s2) (lm_Size lm) (lm_Bits lm) = Inr bm
     \<and> BuildToken lib (pb_key p) (token_params p lm (pd_TTL pd) bm now) = Inr (pd_Token pd)
     \<and> BuildCWTToken lib (pb_key p) (token_params p lm (pd_TTL pd) bm now) = Inr (pd_CWT pd))"

text \<open>The instants at which the timers of list \<open>l\<close> are due.\<close>

fun timer_of :: "string \<Rightarrow> task \<Rightarrow> time list" where
  "timer_of l (FireTask l' ttl) = []"
| "timer_of l (TimerTask due l' ttl) = (if l' = l then [due] else [])"

definition timers :: "string \<Rightarrow> task list \<Rightarrow> time list" where
  "timers l ts = concat (map (timer_of l) ts)"

definition debounced :: "duration \<Rightarrow> time \<Rightarrow> pub_state \<Rightarrow> bool" where
  "debounced F now ps \<longleftrightarrow> (\<forall>l. \<exists>fires. dinv l F \<lparr>dd = debounce ps, dnow = now, dtimers = timers l (tasks ps), dfires = fires\<rparr>)"

definition proc_inv :: "token_lib \<Rightarrow> Publisher \<Rightarrow> duration \<Rightarrow> stores \<Rightarrow> pub_state \<Rightarrow> bool" where
  "proc_inv lib p F s ps \<longleftrightarrow> (\<forall>l pd. cache ps l = Some pd \<longrightarrow> genuine lib p s l pd) \<and> debounced F (clock s) ps"

text \<open>The invariant while an operation of the process runs, knowing the lists \<open>K\<close>.\<close>

definition winv :: "token_lib \<Rightarrow> Publisher \<Rightarrow> duration \<Rightarrow> ListMeta set \<Rightarrow> pub_state world \<Rightarrow> bool" where
  "winv lib p F K w \<longleftrightarrow> leads initial (st w) \<and> proc_inv lib p F (st w) (proc w) \<and> (\<forall>lm\<in>K. known lm (st w))"

lemma known_later: "known lm s \<Longrightarrow> leads s t \<Longrightarrow> known lm t"
  unfolding known_def by (blast intro: leads_trans)

lemma leads_clock: "leads s t \<Longrightarrow> clock s \<le> clock t"
  using stableD[OF stable_clock order_refl] .

lemma leads_clock_nonneg: "leads initial s \<Longrightarrow> 0 \<le> clock s"
  using leads_clock[of initial s] by (simp add: initial_def)

lemma genuine_later: "genuine lib p s l pd \<Longrightarrow> leads s t \<Longrightarrow> genuine lib p t l pd"
  unfolding genuine_def using leads_clock[of s t] by (blast intro: leads_trans known_later order_trans)

lemma dinv_later: "dinv l F \<lparr>dd = x, dnow = n, dtimers = ts, dfires = fs\<rparr> \<Longrightarrow> n \<le> m
  \<Longrightarrow> dinv l F \<lparr>dd = x, dnow = m, dtimers = ts, dfires = fs\<rparr>"
  unfolding dinv_def by (force intro: order_trans)

lemma dinv_agree:
  assumes "dinv k F \<lparr>dd = x, dnow = n, dtimers = ts, dfires = fs\<rparr>" "lastFired y k = lastFired x k" "pending y k = pending x k"
  shows "dinv k F \<lparr>dd = y, dnow = n, dtimers = ts, dfires = fs\<rparr>"
  using assms dinv_other[of y k "\<lparr>dd = x, dnow = n, dtimers = ts, dfires = fs\<rparr>" F] by simp

lemma debounced_later: "debounced F n ps \<Longrightarrow> n \<le> m \<Longrightarrow> debounced F m ps"
  unfolding debounced_def using dinv_later by blast

lemma proc_inv_later: "proc_inv lib p F s ps \<Longrightarrow> leads s t \<Longrightarrow> proc_inv lib p F t ps"
  unfolding proc_inv_def using genuine_later debounced_later leads_clock by metis

lemma proc_inv_fresh: "leads initial s \<Longrightarrow> proc_inv lib p F s fresh_proc"
  by (simp add: proc_inv_def fresh_proc_def debounced_def timers_def dinv_def newLeadingDebouncer_def leads_clock_nonneg
      exI[of _ "[]"])

lemma winv_later:
  assumes "winv lib p F K w" "leads (st w) (st w')" "proc w' = proc w"
  shows "winv lib p F K w'"
  using assms known_later proc_inv_later unfolding winv_def by (metis leads_trans)

lemma winv_mono: "winv lib p F K w \<Longrightarrow> L \<subseteq> K \<Longrightarrow> winv lib p F L w"
  unfolding winv_def by blast

lemma kept_store:
  assumes "moves world_leads m" "moves same_proc m"
  shows "moves (kept (winv lib p F K)) m"
  by (rule keptI, erule winv_later)
     (use movesD[OF assms(1)] movesD[OF assms(2)] in \<open>auto simp: world_leads_def same_proc_def\<close>)

lemma kept_stores [moves_rules]:
  "moves (kept (winv lib p F K)) time_now"
  "moves (kept (winv lib p F K)) (GetList l)" "moves (kept (winv lib p F K)) (GetUsage i)" "moves (kept (winv lib p F K)) (NoiseLists sh)"
  "moves (kept (winv lib p F K)) (CheckOwnership l ix i)" "moves (kept (winv lib p F K)) (ReserveCursorAndRecord l i sh e f)"
  "moves (kept (winv lib p F K)) (SetStatus sh l q off bits v)" "moves (kept (winv lib p F K)) (Snapshot sh l n)"
  "moves (kept (winv lib p F K)) (PickForAllocation m)" "moves (kept (winv lib p F K)) (EnsureHealthy m)"
  "moves (kept (winv lib p F K)) (decoy_flips hmac nz lm alloc bm dirty k)" "moves (kept (winv lib p F K)) rand_Float64"
  by (rule kept_store; (rule moves_rules | simp add: rand_Float64_def moves_rules))+

lemma kept_Sweep [moves_rules]:
  assumes "0 \<le> sw_Grace sw"
  shows "moves (kept (winv lib p F K)) (Sweep sw)"
proof (rule keptI)
  fix w assume w: "winv lib p F K w"
  then have "store_inv (st w)" using stableD[OF stable_store_inv store_inv_initial] by (simp add: winv_def)
  moreover have "spec store_inv (Sweep sw :: (pub_state world, err option) state) (\<lambda>_. store_inv)" by (rule spec_Sweep[OF assms])
  ultimately have "leads (st w) (st (after (Sweep sw) w))" by (simp add: spec_def)
  then show "winv lib p F K (after (Sweep sw) w)"
    using w movesD[OF same_proc_Sweep, of w sw] by (auto simp: same_proc_def intro: winv_later)
qed

section \<open>The publisher keeps the invariant\<close>

lemma timers_append [simp]: "timers l (ts @ us) = timers l ts @ timers l us"
  by (simp add: timers_def)

lemma timers_Nil [simp]: "timers l [] = []"
  by (simp add: timers_def)

lemma timers_Cons [simp]: "timers l (t # ts) = timer_of l t @ timers l ts"
  by (simp add: timers_def)

lemma timers_remove1_other: "timer_of l t = [] \<Longrightarrow> timers l (remove1 t ts) = timers l ts"
  by (induction ts) auto

lemma timers_remove1: "TimerTask due l ttl \<in> set ts \<Longrightarrow> timers l ts = [x] \<Longrightarrow> timers l (remove1 (TimerTask due l ttl) ts) = [] \<and> x = due"
proof (induction ts)
  case (Cons t ts)
  show ?case
  proof (cases "t = TimerTask due l ttl")
    case False
    then have "TimerTask due l ttl \<in> set ts" using Cons.prems(1) by auto
    then have "due \<in> set (timers l ts)" by (auto simp: timers_def intro!: bexI[of _ "TimerTask due l ttl"])
    then have "timer_of l t = []" "timers l ts = [x]" using Cons.prems(2) by (cases "timer_of l t"; auto)+
    then show ?thesis using Cons.IH Cons.prems(1) False by auto
  qed (use Cons.prems in simp)
qed simp

lemma debounced_trigger:
  assumes "debounced F n ps" "F < 2 ^ 63" "n \<le> n1" "n1 \<le> n2" "Trigger l F n1 n2 (debounce ps) = (out, d)"
  shows "debounced F n2 (ps\<lparr>debounce := d, tasks := tasks ps @ (case out of Covered \<Rightarrow> [] | FireNow \<Rightarrow> [FireTask l ttl]
      | FireAfter delay \<Rightarrow> [TimerTask (n2 + delay) l ttl])\<rparr>)"
  unfolding debounced_def
proof
  fix k
  let ?ps = "ps\<lparr>debounce := d, tasks := tasks ps @ (case out of Covered \<Rightarrow> [] | FireNow \<Rightarrow> [FireTask l ttl]
      | FireAfter delay \<Rightarrow> [TimerTask (n2 + delay) l ttl])\<rparr>"
  obtain fires where f: "dinv k F \<lparr>dd = debounce ps, dnow = n, dtimers = timers k (tasks ps), dfires = fires\<rparr>"
    using assms(1) unfolding debounced_def by blast
  show "\<exists>fires. dinv k F \<lparr>dd = debounce ?ps, dnow = n2, dtimers = timers k (tasks ?ps), dfires = fires\<rparr>"
  proof (cases "k = l")
    case True
    have "dinv l F (\<lparr>dd = debounce ps, dnow = n, dtimers = timers l (tasks ps), dfires = fires\<rparr>
        \<lparr>dd := d, dnow := n2, dtimers := timers l (tasks ps) @ (case out of FireAfter delay \<Rightarrow> [n2 + delay] | _ \<Rightarrow> []),
         dfires := (case out of FireNow \<Rightarrow> n2 # fires | _ \<Rightarrow> fires)\<rparr>)"
      using dinv_trigger[OF f[unfolded True] assms(2), of n1 n2 out d] assms(3-5) by (cases out) simp_all
    then show ?thesis using True by (cases out) auto
  next
    case False
    then have "lastFired d k = lastFired (debounce ps) k" "pending d k = pending (debounce ps) k"
      using assms(5) by (auto simp: Trigger_def Let_def split: if_splits)
    then have "dinv k F \<lparr>dd = d, dnow = n, dtimers = timers k (tasks ps), dfires = fires\<rparr>"
      by (rule dinv_agree[OF f])
    then have "dinv k F \<lparr>dd = d, dnow = n2, dtimers = timers k (tasks ps), dfires = fires\<rparr>"
      using dinv_later assms(3,4) by (meson order_trans)
    then show ?thesis using False by (cases out) auto
  qed
qed

lemma debounced_timer:
  assumes "debounced F n ps" "TimerTask due l ttl \<in> set (tasks ps)" "due \<le> n" "n \<le> m"
  shows "debounced F m (ps\<lparr>tasks := remove1 (TimerTask due l ttl) (tasks ps), debounce := timer_fired l m (debounce ps)\<rparr>)"
  unfolding debounced_def
proof
  fix k
  let ?t = "TimerTask due l ttl" and ?ps = "ps\<lparr>tasks := remove1 (TimerTask due l ttl) (tasks ps), debounce := timer_fired l m (debounce ps)\<rparr>"
  obtain fires where f: "dinv k F \<lparr>dd = debounce ps, dnow = n, dtimers = timers k (tasks ps), dfires = fires\<rparr>"
    using assms(1) unfolding debounced_def by blast
  show "\<exists>fires. dinv k F \<lparr>dd = debounce ?ps, dnow = m, dtimers = timers k (tasks ?ps), dfires = fires\<rparr>"
  proof (cases "k = l")
    case True
    have "due \<in> set (timers l (tasks ps))" using assms(2) by (force simp: timers_def)
    then have p: "pending (debounce ps) l" using f True by (auto simp: dinv_def split: if_splits)
    then obtain x t where x: "timers l (tasks ps) = [x]" "lastFired (debounce ps) l = Some t" "t + F \<le> x"
      using f True by (cases fires) (auto simp: dinv_def)
    with timers_remove1[OF assms(2)] have "timers l (remove1 ?t (tasks ps)) = []" "x = due" by blast+
    then have "dinv l F \<lparr>dd = debounce ?ps, dnow = m, dtimers = timers l (tasks ?ps), dfires = m # fires\<rparr>"
      using f True p x assms(3,4) unfolding dinv_def by (cases fires) (auto simp: timer_fired_def)
    then show ?thesis using True by blast
  next
    case False
    then have "timers k (tasks ?ps) = timers k (tasks ps)" by (simp add: timers_remove1_other)
    moreover have "dinv k F \<lparr>dd = timer_fired l m (debounce ps), dnow = m, dtimers = timers k (tasks ps), dfires = fires\<rparr>"
      by (rule dinv_agree[OF dinv_later[OF f assms(4)]]) (use False in \<open>simp_all add: timer_fired_def\<close>)
    ultimately show ?thesis by (auto intro!: exI[of _ fires])
  qed
qed

lemma kept_MarkDirty:
  assumes "F = wrap64 (ttl * Second)"
  shows "moves (kept (winv lib p F K)) (MarkDirty l ttl)"
proof (rule keptI)
  fix w assume w: "winv lib p F K w"
  obtain s1 w1 where 1: "leads (st w) s1" "proc w1 = proc w" "run_state time_now w = (clock s1, w1)" "st w1 = s1" by (rule run_time_now)
  obtain s2 w2 where 2: "leads (st w1) s2" "proc w2 = proc w1" "run_state time_now w1 = (clock s2, w2)" "st w2 = s2" by (rule run_time_now)
  have F: "F < 2 ^ 63" using assms by (simp add: wrap64_def)
  have c: "clock (st w) \<le> clock s1" "clock s1 \<le> clock s2" using leads_clock 1 2 by blast+
  obtain out d where t: "Trigger l F (clock s1) (clock s2) (debounce (proc w)) = (out, d)" by fastforce
  let ?ps = "(proc w)\<lparr>debounce := d, tasks := tasks (proc w) @ (case out of Covered \<Rightarrow> [] | FireNow \<Rightarrow> [FireTask l ttl]
      | FireAfter delay \<Rightarrow> [TimerTask (clock s2 + delay) l ttl])\<rparr>"
  have a: "after (MarkDirty l ttl) w = w2\<lparr>proc := ?ps\<rparr>"
    using 1 2 t assms by (simp add: MarkDirty_def modify_proc_def Let_def)
  have w2: "winv lib p F K w2" using winv_later[OF w, of w2] 1 2 leads_trans by metis
  have "debounced F (clock (st w)) (proc w)" using w by (simp add: winv_def proc_inv_def)
  from debounced_trigger[OF this F c t, of ttl] have "debounced F (clock s2) ?ps" .
  then show "winv lib p F K (after (MarkDirty l ttl) w)"
    using w2 1 2 unfolding a winv_def proc_inv_def by simp
qed

text \<open>A publish that fails leaves the cache as it was.\<close>

definition fails_clean :: "(pub_state world, 'e + 'a) state \<Rightarrow> bool" where
  "fails_clean m \<longleftrightarrow> (\<forall>w e w'. run_state m w = (Inl e, w') \<longrightarrow> proc w' = proc w)"

lemma fails_clean_bind: "moves same_proc m \<Longrightarrow> (\<And>x. fails_clean (f x)) \<Longrightarrow> fails_clean (State_Monad.bind m f)"
  unfolding fails_clean_def moves_def same_proc_def by (auto split: prod.splits) (metis snd_conv)

lemma fails_clean_ret: "fails_clean (ret x)" "fails_clean (do { modify_proc f; ret (Inr y) })"
  by (simp_all add: fails_clean_def split: prod.splits)

lemma fails_clean_cases:
  "fails_clean m \<Longrightarrow> fails_clean n \<Longrightarrow> fails_clean (if b then m else n)"
  "(\<And>e. fails_clean (f e)) \<Longrightarrow> (\<And>x. fails_clean (g x)) \<Longrightarrow> fails_clean (case r of Inl e \<Rightarrow> f e | Inr x \<Rightarrow> g x)"
  "fails_clean m' \<Longrightarrow> (\<And>x. fails_clean (h x)) \<Longrightarrow> fails_clean (case q of None \<Rightarrow> m' | Some x \<Rightarrow> h x)"
  by (auto split: sum.splits option.splits)

lemma same_proc_get_proc: "moves same_proc get_proc"
  by (rule movesI) (simp add: get_proc_def same_proc_def)

lemma PublishIfStale_fails_clean: "fails_clean (PublishIfStale lib p lm ttl)"
  unfolding PublishIfStale_def Let_def
  by (intro fails_clean_cases fails_clean_ret fails_clean_bind same_proc_get_proc same_proc_bitmaps same_proc_time_now)

lemma kept_PublishIfStale:
  assumes "lm \<in> K"
  shows "moves (kept (winv lib p F K)) (PublishIfStale lib p lm ttl)"
proof (rule keptI)
  fix w assume w: "winv lib p F K w"
  obtain r w' where r: "run_state (PublishIfStale lib p lm ttl) w = (r, w')" by fastforce
  have l: "leads (st w) (st w')" using moves_world_leads_D[OF moves_PublishIfStale, of w lib p lm ttl] r by simp
  have later: "winv lib p F K (w'\<lparr>proc := proc w\<rparr>)" using winv_later[OF w, of "w'\<lparr>proc := proc w\<rparr>"] l by simp
  have "winv lib p F K w'"
  proof (cases "proc w' = proc w")
    case True
    then show ?thesis using winv_later[OF w l] by simp
  next
    case False
    then obtain pd where pd: "r = Inr pd"
      using PublishIfStale_fails_clean r unfolding fails_clean_def by (cases r) blast+
    have sh: "lm_ShardID lm \<in> set (pb_shards p)" using r pd by (auto simp: PublishIfStale_def split: if_splits)
    obtain s1 s2 bm now where g: "leads (st w) s1" "leads s1 s2" "leads s2 (st w')" "clock s2 \<le> now" "now \<le> clock (st w')"
        "pd_Version pd = live_version (lm_ShardID lm) (lm_ID lm) s1" "pd_TTL pd = ttl" "pd_Bits pd = lm_Bits lm"
        "WrapBitmap (stored_bytes lm s2) (lm_Size lm) (lm_Bits lm) = Inr bm"
        "BuildToken lib (pb_key p) (token_params p lm ttl bm now) = Inr (pd_Token pd)"
        "BuildCWTToken lib (pb_key p) (token_params p lm ttl bm now) = Inr (pd_CWT pd)"
        "proc w' = (proc w)\<lparr>cache := (cache (proc w))(lm_ID lm := Some pd)\<rparr>"
      using PublishIfStale_contents r[unfolded pd] False unfolding stored_bytes_def by metis
    have "leads initial s1" using w g(1) leads_trans unfolding winv_def by blast
    moreover have "known lm (st w')" using later assms by (simp add: winv_def)
    ultimately have "genuine lib p (st w') (lm_ID lm) pd"
      using g sh unfolding genuine_def by blast
    then show ?thesis using later g(12) unfolding winv_def proc_inv_def debounced_def by auto
  qed
  then show "winv lib p F K (after (PublishIfStale lib p lm ttl) w)" using r by simp
qed

text \<open>The lists that a query returned are known from then on.\<close>

lemma kept_query_bind:
  assumes "\<And>db. L (f db) \<subseteq> scanListMeta ` set (lists db)"
    "\<And>x. moves (kept (winv lib p F (K \<union> L x))) (g (Inr x))" "\<And>e. moves (kept (winv lib p F K)) (g (Inl e))"
  shows "moves (kept (winv lib p F K)) (State_Monad.bind (pg_query f) g)"
proof (rule keptI)
  fix w assume w: "winv lib p F K w"
  obtain s w1 y where q: "run_state (pg_query f) w = (y, w1)" "leads (st w) s" "st w1 = s" "proc w1 = proc w"
      "y = Inl ErrDb \<or> y = Inr (f (pg s))"
    unfolding pg_query_def by (rule run_read[where f = "\<lambda>s. f (pg s)"])
  have w1: "winv lib p F K w1" using winv_later[OF w] q by blast
  show "winv lib p F K (after (State_Monad.bind (pg_query f) g) w)"
  proof (cases "y = Inl ErrDb")
    case True
    then show ?thesis using keptD[OF assms(3) w1] q by simp
  next
    case False
    then have y: "y = Inr (f (pg s))" using q by blast
    have "\<forall>lm\<in>L (f (pg s)). known lm (st w1)"
      using assms(1) w1 q(3) leads_refl unfolding known_def winv_def by blast
    then have "winv lib p F (K \<union> L (f (pg s))) w1" using w1 by (auto simp: winv_def)
    from keptD[OF assms(2) this] show ?thesis using q y by (auto intro: winv_mono)
  qed
qed

lemma kept_GetList_bind:
  assumes "\<And>lm. moves (kept (winv lib p F (insert lm K))) (g (Inr (Some lm)))"
    "moves (kept (winv lib p F K)) (g (Inr None))" "\<And>e. moves (kept (winv lib p F K)) (g (Inl e))"
  shows "moves (kept (winv lib p F K)) (State_Monad.bind (GetList l) g)"
  unfolding GetList_def
proof (rule kept_query_bind[where L = set_option])
  show "moves (kept (winv lib p F (K \<union> set_option x))) (g (Inr x))" for x using assms(1,2) by (cases x) simp_all
qed (use assms(3) in \<open>auto simp: sql_select_list_def dest: find_SomeD\<close>)

lemma kept_dirty_publish [moves_rules]: "moves (kept (winv lib p F K)) (dirty_publish lib p l ttl)"
  unfolding dirty_publish_def
  by (rule kept_GetList_bind) (simp_all only: sum.case option.case, (intro moves_rules kept_PublishIfStale insertI1)+)

lemma kept_for_each:
  assumes "\<And>x. x \<in> set xs \<Longrightarrow> moves (kept I) (f x)"
  shows "moves (kept I) (for_each f xs)"
  using assms by (induction xs) (auto intro!: moves_rules)

lemma kept_publish_tick: "moves (kept (winv lib p F K)) (publish_tick lib p (ListsForPublishing s))"
  unfolding publish_tick_def ListsForPublishing_def LiveLists_def queryLists_def bind_assoc
proof (rule kept_query_bind[where L = set], goal_cases)
  case (2 lms)
  have "moves (kept (winv lib p F (K \<union> set lms)))
      (for_each (\<lambda>lm. do { PublishIfStale lib p lm (ic_DefaultTTLSeconds (sv_cfg s)); ret (None :: unit option) }) lms)"
    by (intro kept_for_each moves_rules kept_PublishIfStale UnI2)
  then show ?case by (auto intro!: moves_rules)
qed (auto simp: sql_select_lists_def intro!: moves_rules)

lemma run_task_inv:
  assumes "leads initial (st w)" "proc_inv lib p F (st w) ps" "t \<in> set (tasks ps)" "task_due t (clock (st w))"
    "proc w = ps\<lparr>tasks := remove1 t (tasks ps)\<rparr>"
  shows "winv lib p F {} (after (run_task lib p t) w)"
proof (cases t)
  case (FireTask l ttl)
  have "timers k (remove1 t (tasks ps)) = timers k (tasks ps)" for k using FireTask by (simp add: timers_remove1_other)
  then have "winv lib p F {} w" using assms(1,2,5) by (auto simp: winv_def proc_inv_def debounced_def)
  then show ?thesis using keptD[OF kept_dirty_publish] FireTask by (simp add: run_task_def)
next
  case (TimerTask due l ttl)
  obtain s1 w1 where 1: "leads (st w) s1" "proc w1 = proc w" "run_state time_now w = (clock s1, w1)" "st w1 = s1" by (rule run_time_now)
  let ?w = "w1\<lparr>proc := (proc w1)\<lparr>debounce := timer_fired l (clock s1) (debounce (proc w1))\<rparr>\<rparr>"
  have "debounced F (clock s1) (proc ?w)"
    using debounced_timer[of F "clock (st w)" ps due l ttl "clock s1"] assms(2-5) TimerTask 1(2) leads_clock[OF 1(1)]
    by (simp add: proc_inv_def)
  moreover have "\<forall>l pd. cache ps l = Some pd \<longrightarrow> genuine lib p s1 l pd"
    using assms(2) genuine_later 1(1) unfolding proc_inv_def by blast
  ultimately have "winv lib p F {} ?w" using assms(1,5) 1 leads_trans[OF 1(1)] by (simp add: winv_def proc_inv_def)
  then show ?thesis using keptD[OF kept_dirty_publish] TimerTask 1 by (simp add: run_task_def modify_proc_def)
qed

section \<open>Every step of a deployment keeps the invariant\<close>

text \<open>
  What is relied on of an ingestion service: its grace period is not negative, and its noiser has the same
  time to live as its handlers, as \<open>ingestion_start\<close> sets it up. The floor of the debouncer is that time.
\<close>

definition svc_ttl :: "'pool ingestion_service \<Rightarrow> int" where
  "svc_ttl svc = ic_DefaultTTLSeconds (sv_cfg (is_srv svc))"

definition svc_floor :: "'pool ingestion_service \<Rightarrow> duration" where
  "svc_floor svc = wrap64 (svc_ttl svc * Second)"

definition wf_service :: "'pool ingestion_service \<Rightarrow> bool" where
  "wf_service svc \<longleftrightarrow> 0 \<le> sw_Grace (is_sweeper svc) \<and> nz_DefaultTTLSeconds (is_noiser svc) = svc_ttl svc"

text \<open>Every service that \<open>ingestion_start\<close> brings up with a grace period that is not negative is of this kind.\<close>

lemma started_service_wf:
  assumes "run_state (ingestion_start pf env) ps = (Inr (svc, p), qs)" "0 \<le> ic_GCGracePeriod (sv_cfg (is_srv svc))"
  shows "wf_service svc \<and> p = fresh_proc"
  using ingestion_start_parts[OF assms(1)] assms(2) by (auto simp: wf_service_def svc_ttl_def fresh_proc_def)

lemma kept_allocate_attempts:
  "moves (kept (winv lib p (wrap64 (ic_DefaultTTLSeconds (sv_cfg s) * Second)) K)) (allocate_attempts hmac s i e k)"
proof (induction k)
  case 0
  show ?case by (simp add: moves_ret reflp_kept)
next
  case (Suc k)
  show ?case unfolding allocate_attempts.simps by (intro moves_rules kept_MarkDirty refl Suc)
qed

lemma kept_Router:
  "moves (kept (winv lib p (wrap64 (ic_DefaultTTLSeconds (sv_cfg s) * Second)) K)) (Ingestion_Router tg hmac s req)"
  unfolding Ingestion_Router_def authed_def handleAllocate_def handleSetStatus_def handleAccountingMe_def Let_def
  by (cases req) (auto intro!: moves_rules kept_MarkDirty kept_allocate_attempts split: body.split)

lemma kept_Noiser_Sweep:
  "moves (kept (winv lib p (wrap64 (nz_DefaultTTLSeconds n * Second)) K)) (Noiser_Sweep hmac n)"
  unfolding Noiser_Sweep_def sweepList_def Let_def by (intro moves_rules kept_MarkDirty refl)

lemma kept_job:
  assumes "wf_service svc"
  shows "moves (kept (winv (dp_token d) (is_pub svc) (svc_floor svc) {})) (ingestion_job d svc j)"
proof (cases j)
  case (Serve req)
  then show ?thesis unfolding ingestion_job_def svc_floor_def svc_ttl_def by (simp, intro moves_rules kept_Router)
next
  case NoiseTick
  then show ?thesis
    using kept_Noiser_Sweep[of "dp_token d" "is_pub svc" "is_noiser svc" "{}" "dp_hmac d"] assms
    by (auto simp: ingestion_job_def svc_floor_def wf_service_def intro!: moves_rules)
qed (use assms in \<open>auto simp: ingestion_job_def wf_service_def intro!: moves_rules kept_publish_tick\<close>)

lemma kept_handleGetList [moves_rules]: "moves (kept (winv lib (vs_pub v) F K)) (handleGetList lib v l a m)"
  unfolding handleGetList_def Let_def
  by (rule kept_GetList_bind) (simp_all only: sum.case option.case, (intro moves_rules kept_PublishIfStale insertI1)+)

lemma kept_Verifier_Router: "moves (kept (winv lib (vs_pub v) F K)) (Verifier_Router lib v req)"
  unfolding Verifier_Router_def by (cases req) (auto intro!: moves_rules)

lemma job_leads:
  assumes "wf_service svc" "leads initial (st w)"
  shows "leads (st w) (st (after (ingestion_job d svc j) w))"
proof (cases j)
  case SweepTick
  have "spec store_inv (Sweep (is_sweeper svc) :: (pub_state world, err option) state) (\<lambda>_. store_inv)"
    using assms(1) by (intro spec_Sweep) (simp add: wf_service_def)
  then show ?thesis
    using SweepTick stableD[OF stable_store_inv store_inv_initial assms(2)] by (auto simp: ingestion_job_def spec_def split: prod.splits)
next
  case (Serve req)
  show ?thesis by (rule moves_world_leads_D) (auto simp: Serve ingestion_job_def intro!: moves_rules moves_Router)
next
  case PoolTick
  show ?thesis by (rule moves_world_leads_D) (auto simp: PoolTick ingestion_job_def intro!: moves_rules)
next
  case NoiseTick
  show ?thesis by (rule moves_world_leads_D) (auto simp: NoiseTick ingestion_job_def intro!: moves_rules moves_Noiser_Sweep)
next
  case PublishTick
  show ?thesis by (rule moves_world_leads_D) (auto simp: PublishTick ingestion_job_def intro!: moves_publish_tick moves_ListsForPublishing)
qed

definition wf_deployment :: "'pool deployment \<Rightarrow> bool" where
  "wf_deployment d \<longleftrightarrow> (\<forall>svc\<in>set (dp_ingestion d). wf_service svc)"

definition ingestion_inv :: "'pool deployment \<Rightarrow> stores \<Rightarrow> nat \<Rightarrow> pub_state \<Rightarrow> bool" where
  "ingestion_inv d s i ps \<longleftrightarrow> proc_inv (dp_token d) (is_pub (dp_ingestion d ! i)) (svc_floor (dp_ingestion d ! i)) s ps"

definition verifier_inv :: "'pool deployment \<Rightarrow> stores \<Rightarrow> nat \<Rightarrow> pub_state \<Rightarrow> bool" where
  "verifier_inv d s i ps \<longleftrightarrow> proc_inv (dp_token d) (vs_pub (dp_verifiers d ! i)) 0 s ps"

definition sys_inv :: "'pool deployment \<Rightarrow> system \<Rightarrow> bool" where
  "sys_inv d s \<longleftrightarrow> leads initial (sy_st s)
     \<and> length (sy_ingestion s) = length (dp_ingestion d) \<and> length (sy_verifiers s) = length (dp_verifiers d)
     \<and> (\<forall>i<length (dp_ingestion d). ingestion_inv d (sy_st s) i (sy_ingestion s ! i))
     \<and> (\<forall>i<length (dp_verifiers d). verifier_inv d (sy_st s) i (sy_verifiers s ! i))"

lemma nth_update: "k < length xs \<Longrightarrow> xs[i := p] ! k = (if k = i then p else xs ! k)"
  by simp

lemma sys_inv_move: "sys_inv d s \<Longrightarrow> leads (sy_st s) t \<Longrightarrow> sys_inv d (s\<lparr>sy_st := t\<rparr>)"
  using leads_trans[of "sy_st s" t initial] proc_inv_later[of _ _ _ "sy_st s" _ t]
  by (simp add: sys_inv_def ingestion_inv_def verifier_inv_def)

lemma sys_inv_ingestion:
  assumes "sys_inv d s" "leads (sy_st s) t" "ingestion_inv d t i p"
  shows "sys_inv d (s\<lparr>sy_st := t, sy_ingestion := (sy_ingestion s)[i := p]\<rparr>)"
  using sys_inv_move[OF assms(1,2)] assms(3) by (auto simp: sys_inv_def nth_update)

lemma sys_inv_verifier:
  assumes "sys_inv d s" "leads (sy_st s) t" "verifier_inv d t i p"
  shows "sys_inv d (s\<lparr>sy_st := t, sy_verifiers := (sy_verifiers s)[i := p]\<rparr>)"
  using sys_inv_move[OF assms(1,2)] assms(3) by (auto simp: sys_inv_def nth_update)

lemma sys_inv_step:
  assumes "step d s s'" "wf_deployment d" "sys_inv d s"
  shows "sys_inv d s'"
  using assms(1)
proof cases
  case (step_job i w w' j)
  let ?svc = "dp_ingestion d ! i"
  have wf: "wf_service ?svc" using assms(2) step_job by (simp add: wf_deployment_def)
  have w: "winv (dp_token d) (is_pub ?svc) (svc_floor ?svc) {} w" using assms(3) step_job by (simp add: winv_def sys_inv_def ingestion_inv_def)
  have "winv (dp_token d) (is_pub ?svc) (svc_floor ?svc) {} w'" using keptD[OF kept_job[OF wf] w] step_job by blast
  moreover have "leads (sy_st s) (st w')" using job_leads[OF wf, of w d j] w step_job by (simp add: winv_def)
  ultimately show ?thesis using sys_inv_ingestion[OF assms(3)] step_job by (simp add: winv_def ingestion_inv_def)
next
  case (step_task i w t w')
  let ?svc = "dp_ingestion d ! i"
  have "winv (dp_token d) (is_pub ?svc) (svc_floor ?svc) {} w'"
    using run_task_inv[of w "dp_token d" "is_pub ?svc" "svc_floor ?svc" "sy_ingestion s ! i" t] assms(3) step_task
    by (simp add: sys_inv_def ingestion_inv_def)
  moreover have "leads (sy_st s) (st w')" using moves_world_leads_D[OF moves_run_task, of w] step_task by simp
  ultimately show ?thesis using sys_inv_ingestion[OF assms(3)] step_task by (simp add: winv_def ingestion_inv_def)
next
  case (step_fetch i w w' req)
  let ?v = "dp_verifiers d ! i"
  have "winv (dp_token d) (vs_pub ?v) 0 {} w" using assms(3) step_fetch by (simp add: winv_def sys_inv_def verifier_inv_def)
  from keptD[OF kept_Verifier_Router this] have "winv (dp_token d) (vs_pub ?v) 0 {} w'" using step_fetch by blast
  moreover have "moves world_leads (Verifier_Router (dp_token d) ?v req)"
    unfolding Verifier_Router_def by (cases req) (auto intro!: moves_rules)
  then have "leads (sy_st s) (st w')" using moves_world_leads_D[of _ w] step_fetch by metis
  ultimately show ?thesis using sys_inv_verifier[OF assms(3)] step_fetch by (simp add: winv_def verifier_inv_def)
next
  case (step_token a w w' areq)
  have "leads (sy_st s) (st w')" using moves_world_leads_D[OF moves_AS_Router, of w] step_token by simp
  then show ?thesis using sys_inv_move[OF assms(3)] step_token by simp
next
  case (step_reassign w w' cfg)
  have "leads (sy_st s) (st w')" using moves_world_leads_D[OF moves_reassign, of w] step_reassign by simp
  then show ?thesis using sys_inv_move[OF assms(3)] step_reassign by simp
next
  case (step_time n)
  have "leads (sy_st s) (exec (Tick n) (sy_st s))" by (rule leads_exec) (simp add: permitted_def)
  then show ?thesis using sys_inv_move[OF assms(3)] step_time by simp
next
  case (step_restart i)
  then show ?thesis using sys_inv_ingestion[OF assms(3) leads_refl, of i fresh_proc] assms(3)
    by (simp add: sys_inv_def ingestion_inv_def proc_inv_fresh)
next
  case (step_restart_verifier i)
  then show ?thesis using sys_inv_verifier[OF assms(3) leads_refl, of i fresh_proc] assms(3)
    by (simp add: sys_inv_def verifier_inv_def proc_inv_fresh)
qed

lemma reachable_sys_inv: "reachable d s \<Longrightarrow> wf_deployment d \<Longrightarrow> sys_inv d s"
  unfolding reachable_def
proof (induction rule: rtranclp_induct)
  case base
  then show ?case
    by (simp add: sys_inv_def boot_def ingestion_inv_def verifier_inv_def proc_inv_fresh leads_refl)
qed (use sys_inv_step in blast)

section \<open>Properties\<close>

text \<open>
  C11. A deployment, started on empty stores, whatever its services do and in whichever order, with every
  failure, restart and delay: the stores are in a state the permitted actions reach and their invariant
  holds; every token in the cache of any ingestion service or verifier is genuine, that is, built and signed
  by its publisher for a list the database held, from the bytes of the bitmap at a moment not before the one
  at which the list had the token's version; and every pending publish of an ingestion service has exactly
  one timer, due within one floor of the present, while a list without a pending publish has none.
\<close>

theorem deployment_invariant:
  assumes "wf_deployment d" "reachable d s"
  shows "leads initial (sy_st s) \<and> store_inv (sy_st s)
    \<and> (\<forall>i<length (dp_ingestion d). \<forall>l pd. cache (sy_ingestion s ! i) l = Some pd
         \<longrightarrow> genuine (dp_token d) (is_pub (dp_ingestion d ! i)) (sy_st s) l pd)
    \<and> (\<forall>i<length (dp_verifiers d). \<forall>l pd. cache (sy_verifiers s ! i) l = Some pd
         \<longrightarrow> genuine (dp_token d) (vs_pub (dp_verifiers d ! i)) (sy_st s) l pd)
    \<and> (\<forall>i<length (dp_ingestion d). \<forall>l. if pending (debounce (sy_ingestion s ! i)) l
         then \<exists>due. timers l (tasks (sy_ingestion s ! i)) = [due] \<and> due \<le> clock (sy_st s) + svc_floor (dp_ingestion d ! i)
         else timers l (tasks (sy_ingestion s ! i)) = [])"
proof -
  note inv = reachable_sys_inv[OF assms(2,1)]
  have "if pending (debounce (sy_ingestion s ! i)) l
      then \<exists>due. timers l (tasks (sy_ingestion s ! i)) = [due] \<and> due \<le> clock (sy_st s) + svc_floor (dp_ingestion d ! i)
      else timers l (tasks (sy_ingestion s ! i)) = []" if i: "i < length (dp_ingestion d)" for i l
  proof -
    obtain fires where "dinv l (svc_floor (dp_ingestion d ! i)) \<lparr>dd = debounce (sy_ingestion s ! i), dnow = clock (sy_st s),
        dtimers = timers l (tasks (sy_ingestion s ! i)), dfires = fires\<rparr>"
      using inv i unfolding sys_inv_def ingestion_inv_def proc_inv_def debounced_def by blast
    then show ?thesis by (auto simp: dinv_def)
  qed
  moreover have "store_inv (sy_st s)" using inv stableD[OF stable_store_inv store_inv_initial] by (simp add: sys_inv_def)
  ultimately show ?thesis using inv by (simp add: sys_inv_def ingestion_inv_def verifier_inv_def proc_inv_def)
qed

definition demo_service :: "unit ingestion_service" where
  "demo_service = \<lparr>is_srv = demo_server, is_pub = demo_publisher, is_sweeper = NewSweeper ''a'' 0 0 0,
     is_noiser = NewNoiser ''a'' 0 60, is_tokengin = \<lparr>TokenAuth = (\<lambda>_. Inl 401), MustHaveTAC = (\<lambda>_ _. None)\<rparr>,
     is_closer = noopCloser\<rparr>"

definition demo_deployment :: "unit deployment" where
  "demo_deployment = \<lparr>dp_token = demo_lib, dp_hmac = demo_hmac, dp_as_lib = demo_as_lib, dp_ingestion = [demo_service],
     dp_verifiers = [demo_verifier], dp_as = [demo_as]\<rparr>"

text \<open>While the publisher's tick asks for the lists, another process creates one with two entries set.\<close>

definition tick_acts :: "act list" where
  "tick_acts = [Tick (7 * 10 ^ 9 + 5), PgCreateList ''a.1'' 2 6 [7] ''a'', KvInit ''a'' ''a.1'' [0x24, 0x01]]"

definition tick_stores :: stores where
  "tick_stores = fold act_step tick_acts initial"

definition tick_world :: "pub_state world" where
  "tick_world = (quiet_world initial fresh_proc)\<lparr>sched := [tick_acts]\<rparr>"

lemma tick_stores:
  "lists (pg tick_stores) = [\<lparr>lr_id = ''a.1'', lr_bits = 2, lr_size = 6, lr_cursor = 0, lr_fpe_key = [7], lr_max_exp = None,
     lr_state = ACTIVE, lr_created_at = pgtz (7 * Second + 5), lr_archived_at = None, lr_purged = False, lr_shard_id = ''a'', lr_purged_at = None\<rparr>]"
  "kv tick_stores ''a'' = \<lparr>ks_strings = [bitmapKey ''a.1'' \<mapsto> [0x24, 0x01]], ks_counters = Map.empty\<rparr>" "clock tick_stores = 7 * Second + 5"
  by (simp_all add: tick_stores_def tick_acts_def act_step_def permitted_def initial_def empty_pg_def sql_insert_list_def on_kv_def
      or_same_def kv_setnx_def empty_keyspace_def int64_of_u64_def Second_def)

lemma tick_run:
  "\<exists>pd. run_state (publish_tick demo_lib demo_publisher (ListsForPublishing demo_server)) tick_world
     = ((), quiet_world tick_stores (fresh_proc\<lparr>cache := [''a.1'' \<mapsto> pd]\<rparr>))"
proof -
  let ?lm = "scanListMeta (hd (lists (pg tick_stores)))"
  have lm: "lm_ShardID ?lm = ''a''" "lm_ID ?lm = ''a.1''" "lm_Size ?lm = 6" "lm_Bits ?lm = 2"
    by (simp_all add: scanListMeta_def tick_stores u64_of_int_def)
  have bl: "byte_len 6 2 = 2" "int64_of_u64 2 = 2" by (simp_all add: byte_len_def u64_of_int_def int64_of_u64_def)
  have wrap: "WrapBitmap [0x24, 0x01] 6 2 = Inr demo_bitmap"
    by (simp add: WrapBitmap_def demo_bitmap_def ValidBitWidth_def byte_len_def u64_of_int_def)
  have p: "pb_shards demo_publisher = [''a'']" "pb_key demo_publisher = 0" by (simp_all add: demo_publisher_def)
  have tp: "token_params demo_publisher ?lm 60 demo_bitmap (clock tick_stores) = demo_params"
    by (simp add: tick_stores(3) token_params_def demo_publisher_def lm demo_params_def)
  have live: "run_state (LiveLists ''a'') tick_world = (Inr [?lm], quiet_world tick_stores fresh_proc)"
    by (simp add: LiveLists_def queryLists_def pg_query_def run_world_defs tick_world_def flip: tick_stores_def)
       (simp add: sql_select_lists_def tick_stores)
  have "\<exists>pd. run_state (PublishIfStale demo_lib demo_publisher ?lm 60) (quiet_world tick_stores fresh_proc)
      = (Inr pd, quiet_world tick_stores (fresh_proc\<lparr>cache := [''a.1'' \<mapsto> pd]\<rparr>))"
    using demo_builds
    by (simp add: PublishIfStale_def Version_def Snapshot_def run_world_defs get_proc_def fresh_proc_def lm bl p wrap tp
        tick_stores(2) snapshot_of_def Let_def)
  then obtain pd where pd: "run_state (PublishIfStale demo_lib demo_publisher ?lm 60) (quiet_world tick_stores fresh_proc)
      = (Inr pd, quiet_world tick_stores (fresh_proc\<lparr>cache := [''a.1'' \<mapsto> pd]\<rparr>))" by blast
  have sv: "sv_shard demo_server = ''a''" "ic_DefaultTTLSeconds (sv_cfg demo_server) = 60"
    by (simp_all add: demo_server_def demo_cfg_def)
  show ?thesis using pd by (intro exI[of _ pd]) (simp add: publish_tick_def ListsForPublishing_def sv live)
qed

theorem deployment_invariant_witness:
  "\<exists>s pd. reachable demo_deployment s \<and> cache (sy_ingestion s ! 0) ''a.1'' = Some pd
     \<and> genuine demo_lib demo_publisher (sy_st s) ''a.1'' pd"
proof -
  obtain pd where r: "run_state (publish_tick demo_lib demo_publisher (ListsForPublishing demo_server)) tick_world
      = ((), quiet_world tick_stores (fresh_proc\<lparr>cache := [''a.1'' \<mapsto> pd]\<rparr>))" using tick_run by blast
  let ?w = "quiet_world tick_stores (fresh_proc\<lparr>cache := [''a.1'' \<mapsto> pd]\<rparr>)"
  let ?s = "(boot demo_deployment)\<lparr>sy_st := st ?w, sy_ingestion := (sy_ingestion (boot demo_deployment))[0 := proc ?w]\<rparr>"
  have d: "dp_ingestion demo_deployment = [demo_service]" "dp_token demo_deployment = demo_lib" "is_pub demo_service = demo_publisher"
    "is_srv demo_service = demo_server" by (simp_all add: demo_deployment_def demo_service_def)
  have "step demo_deployment (boot demo_deployment) ?s"
    by (rule step_job[where w = tick_world and j = PublishTick])
       (simp add: d, simp add: boot_def tick_world_def quiet_world_def, simp add: d boot_def tick_world_def quiet_world_def,
        simp add: d r ingestion_job_def)
  then have re: "reachable demo_deployment ?s" by (simp add: reachable_def)
  have wf: "wf_deployment demo_deployment"
    by (simp add: wf_deployment_def wf_service_def d svc_ttl_def) (simp add: demo_service_def NewSweeper_def NewNoiser_def demo_server_def demo_cfg_def)
  have c: "cache (sy_ingestion ?s ! 0) ''a.1'' = Some pd" by (simp add: boot_def d quiet_world_def)
  have "genuine (dp_token demo_deployment) (is_pub (dp_ingestion demo_deployment ! 0)) (sy_st ?s) ''a.1'' pd"
    using deployment_invariant[OF wf re] c by (simp add: d)
  then show ?thesis using re c by (intro exI[of _ ?s] exI[of _ pd]) (simp add: d)
qed

end
