(* ===== verification/Schema.thy ===== *)
theory Schema
  imports Main
begin

text \<open>
  Application of the schema at start-up, \<open>src/internal/pgutil/schema.go\<close>: any number of processes run
  \<open>ApplySchema\<close> at the same time against one Postgres, each on a connection of its own. An advisory lock
  belongs to a session of the server; a session ends some time after its connection broke, and only then are
  its lock and its statement gone. A call can fail in the server (the session lives on), or its connection
  can break before or after the server executed it, or the context can be cancelled, which closes the
  connection. The hash of the lock key (\<open>hashtext\<close>) is an argument.
\<close>

section \<open>Definitions\<close>

datatype schema_error = AcquireConnection | AcquireLock | ApplyDDL

text \<open>
  Where a process is in \<open>ApplySchema\<close>: before \<open>pool.Acquire\<close>, waiting for the lock, holding it, running the
  statements, in the deferred unlock, in the deferred release with the result it will return, returned.
\<close>

datatype phase =
    Starting
  | Waiting
  | Holding
  | Running
  | Unlocking "schema_error option"
  | Releasing "schema_error option"
  | Returned "schema_error option"

record 'p schema_state =
  phases :: "'p \<Rightarrow> phase"
  holder :: "int \<Rightarrow> 'p option"
  executing :: "'p set"
  broken :: "'p set"
  unlock_failed :: "'p set"
  applied :: "'p set"

text \<open>\<open>executing\<close>: sessions in the midst of the statements; \<open>applied\<close>: processes whose statements went through.\<close>

definition move :: "'p \<Rightarrow> phase \<Rightarrow> 'p schema_state \<Rightarrow> 'p schema_state" where
  "move p ph s = s\<lparr>phases := (phases s)(p := ph)\<rparr>"

definition no_schema :: "'p schema_state" where
  "no_schema = \<lparr>phases = (\<lambda>_. Starting), holder = (\<lambda>_. None), executing = {}, broken = {}, unlock_failed = {}, applied = {}\<rparr>"

inductive schema_step :: "('p \<Rightarrow> int) \<Rightarrow> 'p schema_state \<Rightarrow> 'p schema_state \<Rightarrow> bool" for h where
  acquire: "phases s p = Starting \<Longrightarrow> schema_step h s (move p Waiting s)"
| acquire_failed: "phases s p = Starting \<Longrightarrow> schema_step h s (move p (Returned (Some AcquireConnection)) s)"
| lock: "phases s p = Waiting \<Longrightarrow> p \<notin> broken s \<Longrightarrow> holder s (h p) = None
    \<Longrightarrow> schema_step h s (move p Holding (s\<lparr>holder := (holder s)(h p := Some p)\<rparr>))"
| lock_failed: "phases s p = Waiting \<Longrightarrow> schema_step h s (move p (Releasing (Some AcquireLock)) s)"
| lock_broken: "phases s p = Waiting \<Longrightarrow> schema_step h s (move p (Releasing (Some AcquireLock)) (s\<lparr>broken := insert p (broken s)\<rparr>))"
| lock_lost: "phases s p = Waiting \<Longrightarrow> holder s (h p) = None
    \<Longrightarrow> schema_step h s (move p (Releasing (Some AcquireLock)) (s\<lparr>holder := (holder s)(h p := Some p), broken := insert p (broken s)\<rparr>))"
| ddl_begin: "phases s p = Holding \<Longrightarrow> p \<notin> broken s
    \<Longrightarrow> schema_step h s (move p Running (s\<lparr>executing := insert p (executing s)\<rparr>))"
| ddl_unsent: "phases s p = Holding \<Longrightarrow> schema_step h s (move p (Unlocking (Some ApplyDDL)) (s\<lparr>broken := insert p (broken s)\<rparr>))"
| ddl_done: "phases s p = Running \<Longrightarrow> p \<in> executing s
    \<Longrightarrow> schema_step h s (move p (Unlocking None) (s\<lparr>executing := executing s - {p}, applied := insert p (applied s)\<rparr>))"
| ddl_failed: "phases s p = Running \<Longrightarrow> p \<in> executing s
    \<Longrightarrow> schema_step h s (move p (Unlocking (Some ApplyDDL)) (s\<lparr>executing := executing s - {p}\<rparr>))"
| ddl_lost: "phases s p = Running \<Longrightarrow> schema_step h s (move p (Unlocking (Some ApplyDDL)) (s\<lparr>broken := insert p (broken s)\<rparr>))"
| unlock: "phases s p = Unlocking r \<Longrightarrow> p \<notin> broken s
    \<Longrightarrow> schema_step h s (move p (Releasing r) (s\<lparr>holder := (holder s)(h p := None)\<rparr>))"
| unlock_refused: "phases s p = Unlocking r
    \<Longrightarrow> schema_step h s (move p (Releasing r) (s\<lparr>unlock_failed := insert p (unlock_failed s)\<rparr>))"
| unlock_broken: "phases s p = Unlocking r \<Longrightarrow> schema_step h s (move p (Releasing r) (s\<lparr>broken := insert p (broken s)\<rparr>))"
| release: "phases s p = Releasing r \<Longrightarrow> schema_step h s (move p (Returned r) s)"
| session_end: "p \<in> broken s
    \<Longrightarrow> schema_step h s (s\<lparr>executing := executing s - {p}, holder := (\<lambda>k. if holder s k = Some p then None else holder s k)\<rparr>)"

inductive_cases schema_stepE: "schema_step h s t"

definition schema_reachable :: "('p \<Rightarrow> int) \<Rightarrow> 'p schema_state \<Rightarrow> bool" where
  "schema_reachable h s \<longleftrightarrow> (schema_step h)\<^sup>*\<^sup>* no_schema s"

text \<open>
  \<open>NewMetaStore\<close> of \<open>src/internal/store/postgres.go\<close>, with whether its connection pool is open afterwards: it is
  closed again when the schema cannot be applied. \<open>connect\<close> says whether the pool could be made, \<open>apply_schema\<close> what
  \<open>ApplySchema\<close> returned under the lock key of the stores.
\<close>

datatype store_error = ConnectPostgres | StoreSchema schema_error

record MetaStore = ms_dsn :: string

definition store_schema_key :: string where "store_schema_key = ''siros-status-service:store-schema''"

definition NewMetaStore :: "(string \<Rightarrow> bool) \<Rightarrow> (string \<Rightarrow> string \<Rightarrow> schema_error option) \<Rightarrow> string \<Rightarrow> (store_error + MetaStore) \<times> bool" where
  "NewMetaStore connect apply_schema dsn =
     (if \<not> connect dsn then (Inl ConnectPostgres, False)
      else case apply_schema dsn store_schema_key of
             Some e \<Rightarrow> (Inl (StoreSchema e), False)
           | None \<Rightarrow> (Inr \<lparr>ms_dsn = dsn\<rparr>, True))"

section \<open>The invariant\<close>

definition may_hold :: "phase \<Rightarrow> bool" where
  "may_hold ph \<longleftrightarrow> (case ph of Holding \<Rightarrow> True | Running \<Rightarrow> True | Unlocking _ \<Rightarrow> True | _ \<Rightarrow> False)"

text \<open>
  A session executes only with the lock; a lock belongs to a process that uses that key and is within its
  locked section, or whose connection broke, or whose unlock was refused; a process within its locked section
  has the lock, and executes while it waits for its statements, as long as its connection is up.
\<close>

definition schema_inv :: "('p \<Rightarrow> int) \<Rightarrow> 'p schema_state \<Rightarrow> bool" where
  "schema_inv h s \<longleftrightarrow>
     (\<forall>p\<in>executing s. holder s (h p) = Some p \<and> (phases s p = Running \<or> p \<in> broken s))
   \<and> (\<forall>k p. holder s k = Some p \<longrightarrow> k = h p \<and> (may_hold (phases s p) \<or> p \<in> broken s \<or> p \<in> unlock_failed s))
   \<and> (\<forall>p. may_hold (phases s p) \<and> p \<notin> broken s \<longrightarrow> holder s (h p) = Some p \<and> (phases s p = Running \<longrightarrow> p \<in> executing s))
   \<and> (\<forall>p. phases s p \<in> {Unlocking None, Releasing None, Returned None} \<longrightarrow> p \<in> applied s)"

lemma may_hold_simps [simp]:
  "\<not> may_hold Starting" "\<not> may_hold Waiting" "may_hold Holding" "may_hold Running" "may_hold (Unlocking r)"
  "\<not> may_hold (Releasing r)" "\<not> may_hold (Returned r)"
  by (simp_all add: may_hold_def)

lemma schema_inv_step:
  assumes "schema_step h s t" "schema_inv h s"
  shows "schema_inv h t"
proof -
  have e: "holder s (h p) = Some p" "phases s p = Running \<or> p \<in> broken s" if "p \<in> executing s" for p
    using assms(2) that by (auto simp: schema_inv_def)
  have o: "k = h p" "may_hold (phases s p) \<or> p \<in> broken s \<or> p \<in> unlock_failed s" if "holder s k = Some p" for k p
    using assms(2) that by (auto simp: schema_inv_def)
  have m: "holder s (h p) = Some p" "phases s p = Running \<Longrightarrow> p \<in> executing s" if "may_hold (phases s p)" "p \<notin> broken s" for p
    using assms(2) that by (auto simp: schema_inv_def)
  have a: "p \<in> applied s" if "phases s p \<in> {Unlocking None, Releasing None, Returned None}" for p
    using assms(2) that by (auto simp: schema_inv_def)
  have "holder t (h p) = Some p \<and> (phases t p = Running \<or> p \<in> broken t)" if "p \<in> executing t" for p
    using assms(1) that by cases (auto simp: move_def m split: if_splits dest: e m)
  moreover have "k = h p \<and> (may_hold (phases t p) \<or> p \<in> broken t \<or> p \<in> unlock_failed t)" if "holder t k = Some p" for k p
    using assms(1) that by cases (use o in \<open>fastforce simp: move_def split: if_splits\<close>)+
  moreover have "holder t (h p) = Some p \<and> (phases t p = Running \<longrightarrow> p \<in> executing t)" if "may_hold (phases t p)" "p \<notin> broken t" for p
    using assms(1) that
    by cases (auto simp: move_def m(1) split: if_splits dest: m o)
  moreover have "p \<in> applied t" if "phases t p \<in> {Unlocking None, Releasing None, Returned None}" for p
    using assms(1) that by cases (use a in \<open>fastforce simp: move_def split: if_splits\<close>)+
  ultimately show ?thesis unfolding schema_inv_def by blast
qed

lemma schema_inv_reachable: "schema_reachable h s \<Longrightarrow> schema_inv h s"
  unfolding schema_reachable_def
proof (induction rule: rtranclp_induct)
  case base
  show ?case by (simp add: schema_inv_def no_schema_def)
qed (rule schema_inv_step)

section \<open>Properties\<close>

text \<open>A store is handed out exactly when its pool stays open, and then the schema was applied.\<close>

lemma NewMetaStore_pool:
  "snd (NewMetaStore connect apply_schema dsn) \<longleftrightarrow> (\<exists>m. fst (NewMetaStore connect apply_schema dsn) = Inr m)"
  "fst (NewMetaStore connect apply_schema dsn) = Inr m \<Longrightarrow> apply_schema dsn store_schema_key = None \<and> ms_dsn m = dsn"
  by (auto simp: NewMetaStore_def split: option.splits if_splits)


text \<open>
  Nobody waits for ever on a process that is still at work: from every reachable state, steps of the holder
  alone free the lock, unless its unlock was refused.
\<close>

theorem lock_is_freed:
  assumes "schema_reachable h s" "holder s k = Some p" "p \<notin> unlock_failed s"
  shows "\<exists>t. (schema_step h)\<^sup>*\<^sup>* s t \<and> holder t k = None"
proof (cases "p \<in> broken s")
  case True
  let ?t = "s\<lparr>executing := executing s - {p}, holder := (\<lambda>k. if holder s k = Some p then None else holder s k)\<rparr>"
  have "schema_step h s ?t" using True by (rule session_end)
  moreover have "holder ?t k = None" using assms(2) by simp
  ultimately show ?thesis by blast
next
  case up: False
  note inv = schema_inv_reachable[OF assms(1), unfolded schema_inv_def]
  have k: "k = h p" "may_hold (phases s p)" using inv assms(2,3) up by blast+
  have free: "\<exists>t. (schema_step h)\<^sup>*\<^sup>* u t \<and> holder t k = None" if "phases u p = Unlocking r" "p \<notin> broken u" for u r
    using unlock[of u p r h] that k(1)
    by (intro exI[of _ "move p (Releasing r) (u\<lparr>holder := (holder u)(h p := None)\<rparr>)"]) (auto simp: move_def)
  have ddl: "\<exists>t. (schema_step h)\<^sup>*\<^sup>* u t \<and> holder t k = None" if u: "phases u p = Running" "p \<in> executing u" "p \<notin> broken u" for u
  proof -
    let ?v = "move p (Unlocking None) (u\<lparr>executing := executing u - {p}, applied := insert p (applied u)\<rparr>)"
    have "schema_step h u ?v" using u by (intro ddl_done)
    moreover have "phases ?v p = Unlocking None" "p \<notin> broken ?v" using u by (simp_all add: move_def)
    ultimately show ?thesis using free converse_rtranclp_into_rtranclp by metis
  qed
  consider "phases s p = Holding" | "phases s p = Running" | r where "phases s p = Unlocking r"
    using k(2) by (cases "phases s p") auto
  then show ?thesis
  proof cases
    case 1
    let ?u = "move p Running (s\<lparr>executing := insert p (executing s)\<rparr>)"
    have "schema_step h s ?u" using 1 up by (intro ddl_begin)
    moreover have "phases ?u p = Running" "p \<in> executing ?u" "p \<notin> broken ?u" using up by (simp_all add: move_def)
    ultimately show ?thesis using ddl converse_rtranclp_into_rtranclp by metis
  next
    case 2
    then have "p \<in> executing s" using inv up by auto
    then show ?thesis using ddl 2 up by blast
  next
    case 3
    then show ?thesis using free up by blast
  qed
qed


end
