(* ===== verification/Runtime.thy ===== *)
theory Runtime
  imports Services
begin

text \<open>
  The services as processes, \<open>src/cmd\<close>: the tickers behind the background loops (\<open>Run\<close> of the pool, the sweeper, the
  noiser and the publisher), and the life of a process from the listener to its exit: the signal, \<open>http.Server\<close> with
  its shutdown, and the deferred closers of \<open>run\<close>.
\<close>

section \<open>Background loops\<close>

text \<open>
  What \<open>select\<close> picked, in order: a tick, or the end of the context. \<open>time.NewTicker\<close> panics on an interval that is not
  positive, and a panic in a goroutine ends the process. A loop whose events run out is still waiting.
\<close>

datatype wake = Ticked | Done

datatype loop_end = LoopPanicked | LoopReturned | LoopWaiting

fun ticker_loop :: "('s, unit) state \<Rightarrow> wake list \<Rightarrow> ('s, loop_end) state" where
  "ticker_loop body [] = ret LoopWaiting"
| "ticker_loop body (Done # ws) = ret LoopReturned"
| "ticker_loop body (Ticked # ws) = do { body; ticker_loop body ws }"

definition with_ticker :: "duration \<Rightarrow> ('s, unit) state \<Rightarrow> wake list \<Rightarrow> ('s, loop_end) state" where
  "with_ticker interval body ws = (if interval \<le> 0 then ret LoopPanicked else ticker_loop body ws)"

definition Pool_Run :: "Manager \<Rightarrow> duration \<Rightarrow> wake list \<Rightarrow> (pub_state world, loop_end) state" where
  "Pool_Run m interval = with_ticker interval (do { EnsureHealthy m; ret () })"

definition GC_Run :: "Sweeper \<Rightarrow> duration \<Rightarrow> wake list \<Rightarrow> (pub_state world, loop_end) state" where
  "GC_Run s interval = with_ticker interval (do { Sweep s; ret () })"

definition Decoy_Run :: "(bytes \<Rightarrow> bytes \<Rightarrow> bytes) \<Rightarrow> Noiser \<Rightarrow> duration \<Rightarrow> wake list \<Rightarrow> (pub_state world, loop_end) state" where
  "Decoy_Run hmac n interval = with_ticker interval (do { Noiser_Sweep hmac n; ret () })"

definition Publisher_Run ::
  "token_lib \<Rightarrow> Publisher \<Rightarrow> duration \<Rightarrow> (pub_state world, err + ListMeta list \<times> int) state \<Rightarrow> wake list \<Rightarrow> (pub_state world, loop_end) state" where
  "Publisher_Run lib p interval listIDs = with_ticker interval (publish_tick lib p listIDs)"

text \<open>The four loops of an ingestion service, as \<open>run\<close> starts them.\<close>

definition ingestion_loops ::
  "token_lib \<Rightarrow> (bytes \<Rightarrow> bytes \<Rightarrow> bytes) \<Rightarrow> 'pool ingestion_service \<Rightarrow> IngestionConfig \<Rightarrow> (wake list \<Rightarrow> (pub_state world, loop_end) state) list" where
  "ingestion_loops lib hmac svc cfg =
     [Publisher_Run lib (is_pub svc) (ic_PublishInterval cfg) (ListsForPublishing (is_srv svc)),
      Pool_Run (sv_pool (is_srv svc)) (ic_PoolCheckInterval cfg),
      GC_Run (is_sweeper svc) (ic_GCCheckInterval cfg),
      Decoy_Run hmac (is_noiser svc) (ic_DecoyCheckInterval cfg)]"

section \<open>The process\<close>

text \<open>
  \<open>closers\<close> are the deferred calls, the last one deferred first. \<open>ListenAndServe\<close> returns an error when it cannot bind or
  accept, and \<open>ErrServerClosed\<close>, at once, when \<open>Shutdown\<close> was called, even before it began to listen. \<open>Shutdown\<close> waits until no
  request is in flight or its ten seconds have passed. When \<open>main\<close> returns, or exits, every goroutine ends with it.
\<close>

datatype main_phase =
    Binding
  | Serving
  | Closing "string option" "string list"
  | Exited nat

datatype shutdown_phase = AwaitingSignal | Draining | Drained | GaveUp

record 'r process =
  pr_main :: main_phase
  pr_shutdown :: shutdown_phase
  pr_signalled :: bool
  pr_inflight :: "'r set"
  pr_accepted :: "'r set"
  pr_answered :: "'r set"
  pr_closed :: "string list"

definition exit_code :: "string option \<Rightarrow> nat" where
  "exit_code r = (case r of None \<Rightarrow> 0 | Some _ \<Rightarrow> 1)"

definition started :: "'r process" where
  "started = \<lparr>pr_main = Binding, pr_shutdown = AwaitingSignal, pr_signalled = False, pr_inflight = {}, pr_accepted = {},
     pr_answered = {}, pr_closed = []\<rparr>"

fun exited :: "main_phase \<Rightarrow> bool" where
  "exited (Exited _) = True"
| "exited _ = False"

inductive process_step :: "string list \<Rightarrow> 'r process \<Rightarrow> 'r process \<Rightarrow> bool" for closers where
  bound: "pr_main s = Binding \<Longrightarrow> pr_shutdown s = AwaitingSignal \<Longrightarrow> process_step closers s (s\<lparr>pr_main := Serving\<rparr>)"
| bind_failed: "pr_main s = Binding \<Longrightarrow> process_step closers s (s\<lparr>pr_main := Closing (Some e) closers\<rparr>)"
| accept: "pr_main s = Serving \<Longrightarrow> pr_shutdown s = AwaitingSignal \<Longrightarrow> r \<notin> pr_accepted s
    \<Longrightarrow> process_step closers s (s\<lparr>pr_inflight := insert r (pr_inflight s), pr_accepted := insert r (pr_accepted s)\<rparr>)"
| accept_failed: "pr_main s = Serving \<Longrightarrow> process_step closers s (s\<lparr>pr_main := Closing (Some e) closers\<rparr>)"
| answer: "\<not> exited (pr_main s) \<Longrightarrow> r \<in> pr_inflight s
    \<Longrightarrow> process_step closers s (s\<lparr>pr_inflight := pr_inflight s - {r}, pr_answered := insert r (pr_answered s)\<rparr>)"
| signal: "\<not> exited (pr_main s) \<Longrightarrow> process_step closers s (s\<lparr>pr_signalled := True\<rparr>)"
| shutdown: "\<not> exited (pr_main s) \<Longrightarrow> pr_signalled s \<Longrightarrow> pr_shutdown s = AwaitingSignal
    \<Longrightarrow> process_step closers s (s\<lparr>pr_shutdown := Draining\<rparr>)"
| drained: "\<not> exited (pr_main s) \<Longrightarrow> pr_shutdown s = Draining \<Longrightarrow> pr_inflight s = {}
    \<Longrightarrow> process_step closers s (s\<lparr>pr_shutdown := Drained\<rparr>)"
| gave_up: "\<not> exited (pr_main s) \<Longrightarrow> pr_shutdown s = Draining \<Longrightarrow> process_step closers s (s\<lparr>pr_shutdown := GaveUp\<rparr>)"
| server_closed: "pr_main s = Binding \<or> pr_main s = Serving \<Longrightarrow> pr_shutdown s \<noteq> AwaitingSignal
    \<Longrightarrow> process_step closers s (s\<lparr>pr_main := Closing None closers\<rparr>)"
| close: "pr_main s = Closing r (c # cs) \<Longrightarrow> process_step closers s (s\<lparr>pr_main := Closing r cs, pr_closed := pr_closed s @ [c]\<rparr>)"
| exit: "pr_main s = Closing r [] \<Longrightarrow> process_step closers s (s\<lparr>pr_main := Exited (exit_code r)\<rparr>)"

inductive_cases process_stepE: "process_step closers s t"

definition process_reachable :: "string list \<Rightarrow> 'r process \<Rightarrow> bool" where
  "process_reachable closers s \<longleftrightarrow> (process_step closers)\<^sup>*\<^sup>* started s"

text \<open>The deferred calls of each service, in the order in which they run.\<close>

definition ingestion_closers :: "string list" where
  "ingestion_closers = [''signerCloser'', ''meta'', ''rdb'', ''stop'']"

definition verifier_closers :: "string list \<Rightarrow> string list" where
  "verifier_closers shards = [''signerCloser'', ''meta''] @ rev (map (\<lambda>shard. ''rdb '' @ shard) shards) @ [''stop'']"

definition as_closers :: "string list" where
  "as_closers = [''shards'', ''stop'']"

definition ingress_closers :: "string list" where
  "ingress_closers = [''stop'']"

text \<open>The tail of \<open>run\<close> in each \<open>main.go\<close>.\<close>

definition ingestion_process :: "'r process \<Rightarrow> 'r process \<Rightarrow> bool" where
  "ingestion_process = process_step ingestion_closers"

definition verifier_process :: "string list \<Rightarrow> 'r process \<Rightarrow> 'r process \<Rightarrow> bool" where
  "verifier_process shards = process_step (verifier_closers shards)"

definition as_process :: "'r process \<Rightarrow> 'r process \<Rightarrow> bool" where
  "as_process = process_step as_closers"

definition ingress_process :: "'r process \<Rightarrow> 'r process \<Rightarrow> bool" where
  "ingress_process = process_step ingress_closers"

section \<open>Loops\<close>

text \<open>A loop goes on after an error of its body, and ends with the context.\<close>

fun repeated :: "nat \<Rightarrow> ('s, unit) state \<Rightarrow> ('s, unit) state" where
  "repeated 0 body = ret ()"
| "repeated (Suc n) body = do { body; repeated n body }"

lemma ticker_loop_repeats:
  "after (ticker_loop body (replicate n Ticked @ Done # ws)) s = after (repeated n body) s"
  "result (ticker_loop body (replicate n Ticked @ Done # ws)) s = LoopReturned"
  by (induction n arbitrary: s) (simp_all split: prod.split)

section \<open>Shutting down\<close>

definition process_inv :: "string list \<Rightarrow> 'r process \<Rightarrow> bool" where
  "process_inv closers s \<longleftrightarrow>
     pr_accepted s = pr_inflight s \<union> pr_answered s
   \<and> (pr_shutdown s \<noteq> AwaitingSignal \<longrightarrow> pr_signalled s)
   \<and> (case pr_main s of
        Binding \<Rightarrow> pr_closed s = []
      | Serving \<Rightarrow> pr_closed s = []
      | Closing r cs \<Rightarrow> closers = pr_closed s @ cs \<and> (r = None \<longrightarrow> pr_shutdown s \<noteq> AwaitingSignal)
      | Exited code \<Rightarrow> pr_closed s = closers \<and> (code = 0 \<longrightarrow> pr_shutdown s \<noteq> AwaitingSignal))"

lemma process_inv_step: "process_step closers s t \<Longrightarrow> process_inv closers s \<Longrightarrow> process_inv closers t"
  by (induction rule: process_step.induct) (auto simp: process_inv_def exit_code_def split: main_phase.splits option.splits)

lemma process_inv_reachable: "process_reachable closers s \<Longrightarrow> process_inv closers s"
  unfolding process_reachable_def
proof (induction rule: rtranclp_induct)
  case base
  show ?case by (simp add: process_inv_def started_def)
qed (rule process_inv_step)


text \<open>
  A process that has exited ran every deferred closer exactly once, the last acquired first, and it reports success
  only when it was told to stop; and from the call of \<open>Shutdown\<close> on, no further request is accepted.
\<close>

theorem exit_closes_everything:
  assumes "process_reachable closers s" "pr_main s = Exited code"
  shows "pr_closed s = closers \<and> (code = 0 \<longrightarrow> pr_signalled s)"
  using process_inv_reachable[OF assms(1)] assms(2) by (auto simp: process_inv_def)

theorem no_request_after_shutdown:
  assumes "(process_step closers)\<^sup>*\<^sup>* s t" "pr_shutdown s \<noteq> AwaitingSignal"
  shows "pr_accepted t = pr_accepted s"
proof -
  have keep: "process_step closers u v \<Longrightarrow> pr_shutdown u \<noteq> AwaitingSignal \<Longrightarrow> pr_shutdown v \<noteq> AwaitingSignal \<and> pr_accepted v = pr_accepted u"
    for u v :: "'a process"
    by (induction rule: process_step.induct) auto
  have "pr_shutdown t \<noteq> AwaitingSignal \<and> pr_accepted t = pr_accepted s"
    using assms
  proof (induction rule: rtranclp_induct)
    case (step u v)
    then show ?case using keep[of u v] by simp
  qed simp
  then show ?thesis ..
qed

text \<open>Steps of the process alone bring a signalled process to its exit, with success unless its listener had failed before.\<close>

lemma closing_exits:
  "pr_main s = Closing r cs \<Longrightarrow> \<exists>t. (process_step closers)\<^sup>*\<^sup>* s t \<and> pr_main t = Exited (exit_code r)
     \<and> pr_inflight t = pr_inflight s \<and> pr_answered t = pr_answered s \<and> pr_shutdown t = pr_shutdown s \<and> pr_closed t = pr_closed s @ cs"
proof (induction cs arbitrary: s)
  case Nil
  have "process_step closers s (s\<lparr>pr_main := Exited (exit_code r)\<rparr>)" using Nil by (rule process_step.exit)
  then show ?case by (intro exI[of _ "s\<lparr>pr_main := Exited (exit_code r)\<rparr>"]) auto
next
  case (Cons c cs)
  let ?s = "s\<lparr>pr_main := Closing r cs, pr_closed := pr_closed s @ [c]\<rparr>"
  have "process_step closers s ?s" using Cons.prems by (rule process_step.close)
  moreover obtain t where t: "(process_step closers)\<^sup>*\<^sup>* ?s t" "pr_main t = Exited (exit_code r)"
      "pr_inflight t = pr_inflight ?s" "pr_answered t = pr_answered ?s" "pr_shutdown t = pr_shutdown ?s" "pr_closed t = pr_closed ?s @ cs"
    using Cons.IH[of ?s] by auto
  ultimately have "(process_step closers)\<^sup>*\<^sup>* s t" by (meson converse_rtranclp_into_rtranclp)
  with t(2-6) show ?case by auto
qed

lemma serving_exits:
  assumes "pr_main s = Binding \<or> pr_main s = Serving" "pr_shutdown s \<noteq> AwaitingSignal"
  shows "\<exists>t. (process_step closers)\<^sup>*\<^sup>* s t \<and> pr_main t = Exited 0 \<and> pr_inflight t = pr_inflight s
     \<and> pr_answered t = pr_answered s \<and> pr_shutdown t = pr_shutdown s \<and> pr_closed t = pr_closed s @ closers"
proof -
  let ?s = "s\<lparr>pr_main := Closing None closers\<rparr>"
  have "process_step closers s ?s" using assms by (rule process_step.server_closed)
  moreover obtain t where "(process_step closers)\<^sup>*\<^sup>* ?s t" "pr_main t = Exited (exit_code None)"
      "pr_inflight t = pr_inflight ?s" "pr_answered t = pr_answered ?s" "pr_shutdown t = pr_shutdown ?s" "pr_closed t = pr_closed ?s @ closers"
    using closing_exits[of ?s None closers closers] by auto
  ultimately show ?thesis by (auto simp: exit_code_def intro: converse_rtranclp_into_rtranclp)
qed

theorem signalled_process_can_exit:
  assumes "process_reachable closers s" "pr_signalled s" "\<not> exited (pr_main s)"
  shows "\<exists>t code. (process_step closers)\<^sup>*\<^sup>* s t \<and> pr_main t = Exited code \<and> (pr_main s = Serving \<longrightarrow> code = 0)"
proof (cases "pr_main s = Binding \<or> pr_main s = Serving")
  case True
  obtain u where u: "(process_step closers)\<^sup>*\<^sup>* s u" "pr_main u = pr_main s" "pr_shutdown u \<noteq> AwaitingSignal"
  proof (cases "pr_shutdown s = AwaitingSignal")
    case True
    show thesis by (rule that[of "s\<lparr>pr_shutdown := Draining\<rparr>"]) (use True assms(2,3) in \<open>auto intro: process_step.shutdown\<close>)
  qed (use that in blast)
  then obtain t where "(process_step closers)\<^sup>*\<^sup>* u t" "pr_main t = Exited 0"
    using serving_exits[of u closers] True by auto
  then show ?thesis using rtranclp_trans[OF u(1)] by (intro exI[of _ t] exI[of _ 0]) auto
next
  case False
  then obtain r cs where "pr_main s = Closing r cs" using assms(3) by (cases "pr_main s") auto
  from closing_exits[OF this, of closers] False show ?thesis by blast
qed

lemma shutdown_abandons:
  "\<exists>s. process_reachable closers s \<and> pr_main s = Exited 0 \<and> pr_shutdown s = Draining
     \<and> r \<in> pr_inflight s \<and> r \<notin> pr_answered s \<and> pr_closed s = closers"
proof -
  let ?s1 = "started\<lparr>pr_main := Serving\<rparr>"
  let ?s2 = "?s1\<lparr>pr_inflight := insert r (pr_inflight ?s1), pr_accepted := insert r (pr_accepted ?s1)\<rparr>"
  let ?s3 = "?s2\<lparr>pr_signalled := True\<rparr>"
  let ?s4 = "?s3\<lparr>pr_shutdown := Draining\<rparr>"
  have p1: "process_step closers started ?s1" by (rule process_step.bound) (simp_all add: started_def)
  have p2: "process_step closers ?s1 ?s2" by (rule process_step.accept) (simp_all add: started_def)
  have p3: "process_step closers ?s2 ?s3" by (rule process_step.signal) simp
  have p4: "process_step closers ?s3 ?s4" by (rule process_step.shutdown) (simp_all add: started_def)
  have r4: "process_reachable closers ?s4"
    unfolding process_reachable_def
    by (rule rtranclp.rtrancl_into_rtrancl[OF rtranclp.rtrancl_into_rtrancl[OF rtranclp.rtrancl_into_rtrancl[OF r_into_rtranclp[of "process_step closers", OF p1] p2] p3] p4])
  obtain t where t: "(process_step closers)\<^sup>*\<^sup>* ?s4 t" "pr_main t = Exited 0" "pr_inflight t = pr_inflight ?s4" "pr_answered t = pr_answered ?s4"
      "pr_shutdown t = pr_shutdown ?s4" "pr_closed t = pr_closed ?s4 @ closers"
    using serving_exits[of ?s4 closers] by auto
  have "process_reachable closers t" using r4 t(1) unfolding process_reachable_def by (rule rtranclp_trans)
  with t(2-6) show ?thesis by (auto simp: started_def)
qed



section \<open>Intervals\<close>

text \<open>
  The loader takes any duration that parses. An interval of zero, which other settings use to switch something off,
  panics in the goroutine of its loop and with it the service, after a start without any error.
\<close>

lemma loaded_interval:
  assumes "LoadIngestion lib env = Inr cfg" "ParseDuration lib v = Some d" "v \<noteq> []"
  shows "env ''PUBLISH_INTERVAL'' = v \<Longrightarrow> ic_PublishInterval cfg = d" "env ''POOL_CHECK_INTERVAL'' = v \<Longrightarrow> ic_PoolCheckInterval cfg = d"
    "env ''GC_CHECK_INTERVAL'' = v \<Longrightarrow> ic_GCCheckInterval cfg = d" "env ''DECOY_CHECK_INTERVAL'' = v \<Longrightarrow> ic_DecoyCheckInterval cfg = d"
proof -
  have get: "getDurationEnv lib env k def = Inr d" if "env k = v" for k def
    using assms(2,3) that by (simp add: getDurationEnv_def parse_env_def)
  have load: "\<exists>def1 def2 def3 def4. getDurationEnv lib env ''PUBLISH_INTERVAL'' def1 = Inr (ic_PublishInterval cfg)
      \<and> getDurationEnv lib env ''POOL_CHECK_INTERVAL'' def2 = Inr (ic_PoolCheckInterval cfg)
      \<and> getDurationEnv lib env ''GC_CHECK_INTERVAL'' def3 = Inr (ic_GCCheckInterval cfg)
      \<and> getDurationEnv lib env ''DECOY_CHECK_INTERVAL'' def4 = Inr (ic_DecoyCheckInterval cfg)"
    using assms(1) unfolding LoadIngestion_def and_then_Inr
    by (elim exE conjE) (simp split: if_split_asm, clarify, simp, intro conjI exI, assumption+)
  then show "env ''PUBLISH_INTERVAL'' = v \<Longrightarrow> ic_PublishInterval cfg = d" "env ''POOL_CHECK_INTERVAL'' = v \<Longrightarrow> ic_PoolCheckInterval cfg = d"
    "env ''GC_CHECK_INTERVAL'' = v \<Longrightarrow> ic_GCCheckInterval cfg = d" "env ''DECOY_CHECK_INTERVAL'' = v \<Longrightarrow> ic_DecoyCheckInterval cfg = d"
    using get by auto
qed

theorem interval_not_positive_panics:
  assumes "LoadIngestion lib env = Inr cfg" "ParseDuration lib v = Some d" "v \<noteq> []" "d \<le> 0"
    "k \<in> {''PUBLISH_INTERVAL'', ''POOL_CHECK_INTERVAL'', ''GC_CHECK_INTERVAL'', ''DECOY_CHECK_INTERVAL''}" "env k = v"
  shows "\<exists>loop\<in>set (ingestion_loops tlib hmac svc cfg). \<forall>ws w. run_state (loop ws) w = (LoopPanicked, w)"
  using assms(4-6) loaded_interval[OF assms(1-3)]
  by (auto simp: ingestion_loops_def Pool_Run_def GC_Run_def Decoy_Run_def Publisher_Run_def with_ticker_def)

lemma zero_interval_loads:
  fixes svc :: "unit ingestion_service"
  shows "\<exists>cfg. LoadIngestion (demo_config_lib\<lparr>ParseDuration := (\<lambda>s. if s = ''0s'' then Some 0 else None)\<rparr>) (demo_env(''GC_CHECK_INTERVAL'' := ''0s'')) = Inr cfg
     \<and> (\<exists>loop\<in>set (ingestion_loops tlib hmac svc cfg). \<forall>ws w. run_state (loop ws) w = (LoopPanicked, w))"
proof -
  let ?lib = "demo_config_lib\<lparr>ParseDuration := (\<lambda>s. if s = ''0s'' then Some 0 else None)\<rparr>" and ?env = "demo_env(''GC_CHECK_INTERVAL'' := ''0s'')"
  have "loadSigningSource ?lib ?env ''SIGNING_KEY_PEM'' = Inr (KeySource 7)"
    by (simp add: loadSigningSource_def demo_env_def requireECKeyEnv_def demo_config_lib_def)
  moreover have "getDurationEnv ?lib ?env ''GC_CHECK_INTERVAL'' Hour = Inr 0" by (simp add: getDurationEnv_def parse_env_def)
  moreover have "?env k = []" if "k \<notin> {''SIGNING_KEY_PEM'', ''AS_JWKS_URL'', ''ACCESS_TOKEN_ISSUER'', ''GC_CHECK_INTERVAL''}" for k
    using that by (simp add: demo_env_def)
  moreover have "?env ''AS_JWKS_URL'' \<noteq> []" "?env ''ACCESS_TOKEN_ISSUER'' \<noteq> []" by (simp_all add: demo_env_def)
  ultimately have "\<exists>c. LoadIngestion ?lib ?env = Inr c"
    by (simp add: LoadIngestion_def getUint64Env_def getInt64Env_def getFloat64Env_def getIntEnv_def getDurationEnv_def
        parse_env_unset optionalCertChainEnv_def)
  then obtain cfg where "LoadIngestion ?lib ?env = Inr cfg" by blast
  with interval_not_positive_panics[OF this, where v = "''0s''" and d = 0 and k = "''GC_CHECK_INTERVAL''"] show ?thesis by auto
qed

end
