(* ===== verification/Go_Regexp.thy ===== *)
theory Go_Regexp
  imports Go_Strings
begin

text \<open>
  What the configuration documentation tool uses of Go's \<open>regexp\<close> package: repetition of character
  classes (greedy, and the lazy \<open>+?\<close>), sequence, alternation, optional parts, numbered groups, and the
  anchors of the text and of a line. A match is found leftmost-first: at the first position where the
  expression matches, the alternative a backtracking search would try first. \<open>rx_match\<close> lists the
  matches at a position in that order, and \<open>matches\<close> says which they are without an order. Texts
  are UTF-8 bytes; every class the tool repeats holds for all bytes above \<open>127\<close> or for none, so that
  working on bytes and on code points gives the same matches.
\<close>

section \<open>Character classes\<close>

text \<open>\<open>\w\<close>, \<open>\s\<close>, \<open>[A-Z0-9_]\<close> and the dot.\<close>

definition in_range :: "nat \<Rightarrow> nat \<Rightarrow> char \<Rightarrow> bool" where
  "in_range lo hi c \<longleftrightarrow> lo \<le> of_char c \<and> of_char c \<le> hi"

definition is_word :: "char \<Rightarrow> bool" where
  "is_word c \<longleftrightarrow> in_range 97 122 c \<or> in_range 65 90 c \<or> is_digit c \<or> c = CHR ''_''"

definition is_rx_space :: "char \<Rightarrow> bool" where
  "is_rx_space c \<longleftrightarrow> c = CHR '' '' \<or> c = CHR 0x09 \<or> c = CHR 0x0A \<or> c = CHR 0x0C \<or> c = CHR 0x0D"

definition is_env_char :: "char \<Rightarrow> bool" where
  "is_env_char c \<longleftrightarrow> in_range 65 90 c \<or> is_digit c \<or> c = CHR ''_''"

definition not_newline :: "char \<Rightarrow> bool" where
  "not_newline c \<longleftrightarrow> c \<noteq> CHR 0x0A"

text \<open>The classes read off the bits of a character, for evaluation.\<close>

lemma is_digit_bits [code]:
  "is_digit (Char b0 b1 b2 b3 b4 b5 b6 b7) = (if b7 \<or> b6 then False else b5 \<and> b4 \<and> \<not> (b3 \<and> (b2 \<or> b1)))"
  by (cases b0; cases b1; cases b2; cases b3; cases b4; cases b5; cases b6; cases b7)
     (simp_all add: is_digit_def of_char_def horner_sum_simps)

lemma upper_bits:
  "in_range 65 90 (Char b0 b1 b2 b3 b4 b5 b6 b7) =
     (\<not> b7 \<and> b6 \<and> \<not> b5 \<and> (if b4 then \<not> (b3 \<and> (b2 \<or> (b1 \<and> b0))) else b3 \<or> b2 \<or> b1 \<or> b0))"
  by (cases b0; cases b1; cases b2; cases b3; cases b4; cases b5; cases b6; cases b7)
     (simp_all add: in_range_def of_char_def horner_sum_simps)

lemma lower_bits:
  "in_range 97 122 (Char b0 b1 b2 b3 b4 b5 b6 b7) =
     (\<not> b7 \<and> b6 \<and> b5 \<and> (if b4 then \<not> (b3 \<and> (b2 \<or> (b1 \<and> b0))) else b3 \<or> b2 \<or> b1 \<or> b0))"
  by (cases b0; cases b1; cases b2; cases b3; cases b4; cases b5; cases b6; cases b7)
     (simp_all add: in_range_def of_char_def horner_sum_simps)

lemma is_env_char_bits [code]:
  "is_env_char (Char b0 b1 b2 b3 b4 b5 b6 b7) =
     (if b7 \<or> (b6 = b5) then False
      else if b6 then (if b4 then \<not> (b3 \<and> (b2 \<or> (b1 \<and> b0))) \<or> (b3 \<and> b2 \<and> b1 \<and> b0) else b3 \<or> b2 \<or> b1 \<or> b0)
      else b4 \<and> \<not> (b3 \<and> (b2 \<or> b1)))"
  by (simp add: is_env_char_def upper_bits is_digit_bits) blast

lemma is_word_bits [code]:
  "is_word (Char b0 b1 b2 b3 b4 b5 b6 b7) =
     (if b7 then False
      else if b6 then (if b4 then \<not> (b3 \<and> (b2 \<or> (b1 \<and> b0))) \<or> (\<not> b5 \<and> b3 \<and> b2 \<and> b1 \<and> b0) else b3 \<or> b2 \<or> b1 \<or> b0)
      else b5 \<and> b4 \<and> \<not> (b3 \<and> (b2 \<or> b1)))"
  by (simp add: is_word_def upper_bits lower_bits is_digit_bits) blast

section \<open>Expressions and matching\<close>

datatype rx =
    RLit string
  | RCls "char \<Rightarrow> bool"
  | RStar "char \<Rightarrow> bool"
  | RPlus "char \<Rightarrow> bool"
  | RLazy "char \<Rightarrow> bool"
  | RSeq rx rx
  | RAlt rx rx
  | RMaybe rx
  | RGroup nat rx
  | RBol
  | REol
  | RBegin
  | REnd

text \<open>A position is the character before it, if any, and the text after it; groups are named by number.\<close>

type_synonym cursor = "char option \<times> string"
type_synonym captures = "(nat \<times> string) list"

abbreviation text_start :: "string \<Rightarrow> cursor" where
  "text_start s \<equiv> (None, s)"

fun take_lit :: "string \<Rightarrow> cursor \<Rightarrow> cursor list" where
  "take_lit [] cur = [cur]"
| "take_lit (x # xs) (p, []) = []"
| "take_lit (x # xs) (p, c # s) = (if c = x then take_lit xs (Some c, s) else [])"

text \<open>All ways to pass over characters of a class, the longest first.\<close>

fun star_ends :: "(char \<Rightarrow> bool) \<Rightarrow> cursor \<Rightarrow> cursor list" where
  "star_ends P (p, []) = [(p, [])]"
| "star_ends P (p, c # s) = (if P c then star_ends P (Some c, s) @ [(p, c # s)] else [(p, c # s)])"

fun plus_ends :: "(char \<Rightarrow> bool) \<Rightarrow> cursor \<Rightarrow> cursor list" where
  "plus_ends P (p, []) = []"
| "plus_ends P (p, c # s) = (if P c then star_ends P (Some c, s) else [])"

primrec rx_match :: "rx \<Rightarrow> cursor \<times> captures \<Rightarrow> (cursor \<times> captures) list" where
  "rx_match (RLit l) m = map (\<lambda>cur. (cur, snd m)) (take_lit l (fst m))"
| "rx_match (RCls P) m =
     (case fst m of (p, []) \<Rightarrow> [] | (p, c # s) \<Rightarrow> if P c then [((Some c, s), snd m)] else [])"
| "rx_match (RStar P) m = map (\<lambda>cur. (cur, snd m)) (star_ends P (fst m))"
| "rx_match (RPlus P) m = map (\<lambda>cur. (cur, snd m)) (plus_ends P (fst m))"
| "rx_match (RLazy P) m = map (\<lambda>cur. (cur, snd m)) (rev (plus_ends P (fst m)))"
| "rx_match (RSeq a b) m = concat (map (rx_match b) (rx_match a m))"
| "rx_match (RAlt a b) m = rx_match a m @ rx_match b m"
| "rx_match (RMaybe a) m = rx_match a m @ [m]"
| "rx_match (RGroup n a) m =
     map (\<lambda>(cur, caps). (cur, (n, take (length (snd (fst m)) - length (snd cur)) (snd (fst m))) # caps)) (rx_match a m)"
| "rx_match RBol m = (case fst m of (p, s) \<Rightarrow> if p = None \<or> p = Some (CHR 0x0A) then [m] else [])"
| "rx_match REol m = (case fst m of (p, []) \<Rightarrow> [m] | (p, c # s) \<Rightarrow> if c = CHR 0x0A then [m] else [])"
| "rx_match RBegin m = (if fst (fst m) = None then [m] else [])"
| "rx_match REnd m = (if snd (fst m) = [] then [m] else [])"

fun rx_seq :: "rx list \<Rightarrow> rx" where
  "rx_seq [] = RLit []"
| "rx_seq [r] = r"
| "rx_seq (r # rs) = RSeq r (rx_seq rs)"

text \<open>The text of a group, empty when the group took no part in the match.\<close>

definition submatch :: "captures \<Rightarrow> nat \<Rightarrow> string" where
  "submatch caps n = (case map_of caps n of None \<Rightarrow> [] | Some s \<Rightarrow> s)"

text \<open>The leftmost position with a match, and the first match there.\<close>

fun rx_find :: "rx \<Rightarrow> char option \<Rightarrow> string \<Rightarrow> (cursor \<times> captures) option" where
  "rx_find r p [] = (case rx_match r ((p, []), []) of [] \<Rightarrow> None | m # _ \<Rightarrow> Some m)"
| "rx_find r p (c # s) =
     (case rx_match r ((p, c # s), []) of [] \<Rightarrow> rx_find r (Some c) s | m # _ \<Rightarrow> Some m)"

definition FindStringSubmatch :: "rx \<Rightarrow> string \<Rightarrow> captures option" where
  "FindStringSubmatch r s = map_option snd (rx_find r None s)"

definition MatchString :: "rx \<Rightarrow> string \<Rightarrow> bool" where
  "MatchString r s \<longleftrightarrow> rx_find r None s \<noteq> None"

subsection \<open>Which matches there are\<close>

text \<open>
  The reference definition: \<open>matches r p t s caps\<close> when \<open>r\<close> can match the text \<open>t\<close> that follows the
  character \<open>p\<close> and precedes the text \<open>s\<close>, with the groups \<open>caps\<close>.
\<close>

definition last_of :: "char option \<Rightarrow> string \<Rightarrow> char option" where
  "last_of p t = (if t = [] then p else Some (last t))"

inductive matches :: "rx \<Rightarrow> char option \<Rightarrow> string \<Rightarrow> string \<Rightarrow> captures \<Rightarrow> captures \<Rightarrow> bool" where
  m_lit: "matches (RLit l) p l s caps caps"
| m_cls: "P c \<Longrightarrow> matches (RCls P) p [c] s caps caps"
| m_star: "list_all P t \<Longrightarrow> matches (RStar P) p t s caps caps"
| m_plus: "list_all P t \<Longrightarrow> t \<noteq> [] \<Longrightarrow> matches (RPlus P) p t s caps caps"
| m_lazy: "list_all P t \<Longrightarrow> t \<noteq> [] \<Longrightarrow> matches (RLazy P) p t s caps caps"
| m_seq: "matches a p t (u @ s) caps caps' \<Longrightarrow> matches b (last_of p t) u s caps' caps'' \<Longrightarrow>
    matches (RSeq a b) p (t @ u) s caps caps''"
| m_left: "matches a p t s caps caps' \<Longrightarrow> matches (RAlt a b) p t s caps caps'"
| m_right: "matches b p t s caps caps' \<Longrightarrow> matches (RAlt a b) p t s caps caps'"
| m_some: "matches a p t s caps caps' \<Longrightarrow> matches (RMaybe a) p t s caps caps'"
| m_none: "matches (RMaybe a) p [] s caps caps"
| m_group: "matches a p t s caps caps' \<Longrightarrow> matches (RGroup n a) p t s caps ((n, t) # caps')"
| m_bol: "p = None \<or> p = Some (CHR 0x0A) \<Longrightarrow> matches RBol p [] s caps caps"
| m_eol: "s = [] \<or> hd s = CHR 0x0A \<Longrightarrow> matches REol p [] s caps caps"
| m_begin: "matches RBegin None [] s caps caps"
| m_end: "matches REnd p [] [] caps caps"

inductive_simps matches_simps:
  "matches (RLit l) p t s caps caps'"
  "matches (RCls P) p t s caps caps'"
  "matches (RStar P) p t s caps caps'"
  "matches (RPlus P) p t s caps caps'"
  "matches (RLazy P) p t s caps caps'"
  "matches (RSeq a b) p t s caps caps'"
  "matches (RAlt a b) p t s caps caps'"
  "matches (RMaybe a) p t s caps caps'"
  "matches (RGroup n a) p t s caps caps'"
  "matches RBol p t s caps caps'"
  "matches REol p t s caps caps'"
  "matches RBegin p t s caps caps'"
  "matches REnd p t s caps caps'"

lemma last_of_simps [simp]: "last_of p [] = p" "last_of p (c # t) = last_of (Some c) t"
  "last_of p (t @ u) = last_of (last_of p t) u"
  by (auto simp: last_of_def)

lemma take_lit_iff: "(p', s') \<in> set (take_lit l (p, s)) \<longleftrightarrow> s = l @ s' \<and> p' = last_of p l"
  by (induction l "(p, s)" arbitrary: p s rule: take_lit.induct) auto

lemma star_ends_iff:
  "(p', s') \<in> set (star_ends P (p, s)) \<longleftrightarrow> (\<exists>t. s = t @ s' \<and> list_all P t \<and> p' = last_of p t)"
proof (induction P "(p, s)" arbitrary: p s rule: star_ends.induct)
  case (2 P p c s)
  have "(\<exists>t. c # s = t @ s' \<and> list_all P t \<and> p' = last_of p t)
    \<longleftrightarrow> (s' = c # s \<and> p' = p) \<or> (P c \<and> (\<exists>t. s = t @ s' \<and> list_all P t \<and> p' = last_of (Some c) t))"
    by (auto simp: Cons_eq_append_conv)
  with 2 show ?case by auto
qed auto

lemma plus_ends_iff:
  "(p', s') \<in> set (plus_ends P (p, s)) \<longleftrightarrow> (\<exists>t. t \<noteq> [] \<and> s = t @ s' \<and> list_all P t \<and> p' = last_of p t)"
proof (cases s)
  case (Cons c u)
  have "(\<exists>t. t \<noteq> [] \<and> c # u = t @ s' \<and> list_all P t \<and> p' = last_of p t)
    \<longleftrightarrow> P c \<and> (\<exists>t. u = t @ s' \<and> list_all P t \<and> p' = last_of (Some c) t)"
    by (auto simp: Cons_eq_append_conv)
  with Cons show ?thesis by (simp add: star_ends_iff)
qed simp

text \<open>The matcher is sound and complete: it lists exactly the matches of the reference definition.\<close>

lemma rx_match_iff:
  "((p', s'), caps') \<in> set (rx_match r ((p, s), caps))
   \<longleftrightarrow> (\<exists>t. s = t @ s' \<and> p' = last_of p t \<and> matches r p t s' caps caps')"
proof (induction r arbitrary: p s caps p' s' caps')
  case (RLit l)
  then show ?case by (auto simp: matches_simps image_iff take_lit_iff)
next
  case (RCls P)
  then show ?case by (cases s) (auto simp: matches_simps)
next
  case (RStar P)
  then show ?case by (auto simp: matches_simps image_iff star_ends_iff)
next
  case (RPlus P)
  then show ?case by (auto simp: matches_simps image_iff plus_ends_iff)
next
  case (RLazy P)
  then show ?case by (auto simp: matches_simps image_iff plus_ends_iff)
next
  case (RSeq a b)
  have "((p', s'), caps') \<in> set (rx_match (RSeq a b) ((p, s), caps)) \<longleftrightarrow>
    (\<exists>p1 s1 caps1. ((p1, s1), caps1) \<in> set (rx_match a ((p, s), caps))
       \<and> ((p', s'), caps') \<in> set (rx_match b ((p1, s1), caps1)))"
    by (simp add: Bex_def)
  also have "\<dots> \<longleftrightarrow> (\<exists>t u caps1. s = t @ u @ s' \<and> p' = last_of (last_of p t) u
       \<and> matches a p t (u @ s') caps caps1 \<and> matches b (last_of p t) u s' caps1 caps')"
    unfolding RSeq by blast
  also have "\<dots> \<longleftrightarrow> (\<exists>t. s = t @ s' \<and> p' = last_of p t \<and> matches (RSeq a b) p t s' caps caps')"
    by (auto simp: matches_simps) blast+
  finally show ?case .
next
  case (RAlt a b)
  then show ?case by (auto simp: matches_simps)
next
  case (RMaybe a)
  then show ?case by (auto simp: matches_simps)
next
  case (RGroup n a)
  have "((p', s'), caps') \<in> set (rx_match (RGroup n a) ((p, s), caps)) \<longleftrightarrow>
    (\<exists>caps1. ((p', s'), caps1) \<in> set (rx_match a ((p, s), caps)) \<and> caps' = (n, take (length s - length s') s) # caps1)"
    by (auto simp: image_iff Bex_def)
  also have "\<dots> \<longleftrightarrow> (\<exists>t. s = t @ s' \<and> p' = last_of p t \<and> matches (RGroup n a) p t s' caps caps')"
    unfolding RGroup by (auto simp: matches_simps)
  finally show ?case .
next
  case REol
  then show ?case by (cases s) (auto simp: matches_simps)
qed (auto simp: matches_simps)

text \<open>
  The search: it fails exactly when the text has no match anywhere, and otherwise stops at the first
  position that has one.
\<close>

lemma rx_find_None:
  "rx_find r p s = None \<longleftrightarrow> (\<forall>u t v caps. s = u @ t @ v \<longrightarrow> \<not> matches r (last_of p u) t v [] caps)"
proof (induction s arbitrary: p)
  case Nil
  have "rx_find r p [] = None \<longleftrightarrow> rx_match r ((p, []), []) = []" by (simp split: list.split)
  also have "\<dots> \<longleftrightarrow> (\<forall>p' s' caps. ((p', s'), caps) \<notin> set (rx_match r ((p, []), [])))"
    by (metis empty_iff list.set(1) list.set_intros(1) neq_Nil_conv prod.exhaust)
  finally show ?case by (auto simp: rx_match_iff)
next
  case (Cons c s)
  have here: "rx_match r ((p, c # s), []) = [] \<longleftrightarrow> (\<forall>t v caps. c # s = t @ v \<longrightarrow> \<not> matches r p t v [] caps)"
  proof -
    have "rx_match r ((p, c # s), []) = [] \<longleftrightarrow> (\<forall>p' s' caps. ((p', s'), caps) \<notin> set (rx_match r ((p, c # s), [])))"
      by (metis empty_iff list.set(1) list.set_intros(1) neq_Nil_conv prod.exhaust)
    then show ?thesis by (auto simp: rx_match_iff)
  qed
  have "rx_find r p (c # s) = None \<longleftrightarrow> rx_match r ((p, c # s), []) = [] \<and> rx_find r (Some c) s = None"
    by (simp split: list.split)
  also have "\<dots> \<longleftrightarrow> (\<forall>u t v caps. c # s = u @ t @ v \<longrightarrow> \<not> matches r (last_of p u) t v [] caps)" (is "_ \<longleftrightarrow> ?all")
  proof
    assume none: "rx_match r ((p, c # s), []) = [] \<and> rx_find r (Some c) s = None"
    show ?all
    proof (intro allI impI)
      fix u t v caps assume "c # s = u @ t @ v"
      with none show "\<not> matches r (last_of p u) t v [] caps"
        unfolding here Cons.IH by (cases u) auto
    qed
  next
    assume none: ?all
    show "rx_match r ((p, c # s), []) = [] \<and> rx_find r (Some c) s = None"
      unfolding here Cons.IH using none[rule_format, of "[]"] none[rule_format, of "c # _"] by simp
  qed
  finally show ?case .
qed

lemma rx_find_Some:
  assumes "rx_find r p s = Some ((p', s'), caps)"
  obtains u t where "s = u @ t @ s'" "p' = last_of p (u @ t)" "matches r (last_of p u) t s' [] caps"
    "\<And>u' t' v caps'. length u' < length u \<Longrightarrow> s = u' @ t' @ v \<Longrightarrow> \<not> matches r (last_of p u') t' v [] caps'"
  using assms
proof (induction s arbitrary: p thesis)
  case Nil
  then have "((p', s'), caps) \<in> set (rx_match r ((p, []), []))" by (auto split: list.splits)
  with Nil.prems(1)[of "[]"] show ?case by (auto simp: rx_match_iff)
next
  case (Cons c s)
  show ?case
  proof (cases "rx_match r ((p, c # s), [])")
    case (Cons m ms)
    with \<open>rx_find r p (c # s) = Some ((p', s'), caps)\<close>
    have "((p', s'), caps) \<in> set (rx_match r ((p, c # s), []))" by simp
    then obtain t where "c # s = t @ s'" "p' = last_of p t" "matches r p t s' [] caps"
      unfolding rx_match_iff by blast
    then show ?thesis using Cons.prems(1)[of "[]" t] by simp
  next
    case Nil
    with \<open>rx_find r p (c # s) = Some ((p', s'), caps)\<close> have "rx_find r (Some c) s = Some ((p', s'), caps)" by simp
    then obtain u t where ut: "s = u @ t @ s'" "p' = last_of (Some c) (u @ t)" "matches r (last_of (Some c) u) t s' [] caps"
      and first: "\<And>u' t' v caps'. length u' < length u \<Longrightarrow> s = u' @ t' @ v \<Longrightarrow> \<not> matches r (last_of (Some c) u') t' v [] caps'"
      by (rule Cons.IH[rotated]) blast
    have none: "\<not> matches r p t v [] caps'" if "c # s = t @ v" for t v caps'
      using that rx_match_iff[of "last_of p t" v caps' r p "c # s" "[]"] Nil by auto
    show ?thesis
    proof (rule Cons.prems(1)[of "c # u" t])
      fix u' t' v caps'
      assume len: "length u' < length (c # u)" and eq: "c # s = u' @ t' @ v"
      show "\<not> matches r (last_of p u') t' v [] caps'"
        using none first len eq by (cases u') auto
    qed (use ut in auto)
  qed
qed

text \<open>An expression that never matches the empty text; successive matches then always make progress.\<close>

primrec nonempty_rx :: "rx \<Rightarrow> bool" where
  "nonempty_rx (RLit l) = (l \<noteq> [])"
| "nonempty_rx (RCls P) = True"
| "nonempty_rx (RStar P) = False"
| "nonempty_rx (RPlus P) = True"
| "nonempty_rx (RLazy P) = True"
| "nonempty_rx (RSeq a b) = (nonempty_rx a \<or> nonempty_rx b)"
| "nonempty_rx (RAlt a b) = (nonempty_rx a \<and> nonempty_rx b)"
| "nonempty_rx (RMaybe a) = False"
| "nonempty_rx (RGroup n a) = nonempty_rx a"
| "nonempty_rx RBol = False"
| "nonempty_rx REol = False"
| "nonempty_rx RBegin = False"
| "nonempty_rx REnd = False"

lemma nonempty_rx_matches: "matches r p t s caps caps' \<Longrightarrow> nonempty_rx r \<Longrightarrow> t \<noteq> []"
  by (induction rule: matches.induct) auto

text \<open>
  \<open>FindAllStringSubmatch(s, -1)\<close>: the successive matches, each search starting where the last match
  ended. (Go's rule for empty matches is left out: no expression the tool searches with has one.)
\<close>

lemma rx_find_suffix: "rx_find r p s = Some ((p', s'), caps) \<Longrightarrow> s' \<noteq> s \<Longrightarrow> length s' < length s"
  by (erule rx_find_Some) (auto simp: less_Suc_eq)

function find_all :: "rx \<Rightarrow> char option \<Rightarrow> string \<Rightarrow> captures list" where
  "find_all r p s =
     (case rx_find r p s of
        None \<Rightarrow> []
      | Some ((p', s'), caps) \<Rightarrow> caps # (if s' = s then [] else find_all r p' s'))"
  by pat_completeness auto
termination
  by (relation "measure (\<lambda>(r, p, s). length s)") (auto dest!: rx_find_suffix)

declare find_all.simps [simp del]

definition FindAllStringSubmatch :: "rx \<Rightarrow> string \<Rightarrow> captures list" where
  "FindAllStringSubmatch r s = find_all r None s"

lemma find_all_matches:
  "caps \<in> set (find_all r p s) \<Longrightarrow> \<exists>u t v. s = u @ t @ v \<and> matches r (last_of p u) t v [] caps"
proof (induction r p s rule: find_all.induct)
  case (1 r p s)
  show ?case
  proof (cases "rx_find r p s")
    case (Some m)
    then obtain p' s' c where f: "rx_find r p s = Some ((p', s'), c)" by (metis prod.exhaust)
    then obtain u t where ut: "s = u @ t @ s'" "p' = last_of p (u @ t)" "matches r (last_of p u) t s' [] c"
      by (rule rx_find_Some)
    from "1.prems" f have "caps = c \<or> (s' \<noteq> s \<and> caps \<in> set (find_all r p' s'))"
      by (subst (asm) find_all.simps) (auto split: if_splits)
    then show ?thesis
    proof
      assume "caps = c"
      with ut show ?thesis by blast
    next
      assume "s' \<noteq> s \<and> caps \<in> set (find_all r p' s')"
      then obtain u' t' v where "s' = u' @ t' @ v" "matches r (last_of p' u') t' v [] caps"
        using "1.IH"[OF f refl refl] by blast
      then show ?thesis using ut by (intro exI[of _ "u @ t @ u'"] exI[of _ t'] exI[of _ v]) simp
    qed
  qed (use "1.prems" in \<open>simp add: find_all.simps\<close>)
qed

end
