(* ===== verification/Go_Duration.thy ===== *)
theory Go_Duration
  imports Go_Strings
begin

text \<open>
  What the sources use of Go's \<open>time.Duration\<close> as text: \<open>Duration.String\<close>, which the configuration
  documentation tool prints defaults with, and \<open>time.ParseDuration\<close>, which the configuration loaders
  read durations with. Fractions are taken exactly: for a fraction of \<open>k\<close> digits and a unit divisible
  by \<open>10^k\<close> the \<open>float64\<close> product of the library is that number, and every string that
  \<open>Duration.String\<close> prints is of this kind. The result is that the second reads back what the first
  prints, over the whole range of \<open>int64\<close>.
\<close>

section \<open>Printing\<close>

text \<open>
  \<open>fmtFrac(buf, v, prec)\<close>: the fraction of \<open>v / 10^prec\<close> with trailing zeros dropped, the point dropped
  with the last of them, and the integer part left to print.
\<close>

fun fmtFrac_loop :: "nat \<Rightarrow> nat \<Rightarrow> bool \<Rightarrow> string \<Rightarrow> string \<times> nat" where
  "fmtFrac_loop 0 v pr acc = (if pr then (CHR ''.'' # acc, v) else (acc, v))"
| "fmtFrac_loop (Suc prec) v pr acc =
     (let d = v mod 10; pr' = (pr \<or> d \<noteq> 0)
      in fmtFrac_loop prec (v div 10) pr' (if pr' then digit_char d # acc else acc))"

definition fmtFrac :: "nat \<Rightarrow> nat \<Rightarrow> string \<times> nat" where
  "fmtFrac v prec = fmtFrac_loop prec v False []"

definition micro_s :: string where "micro_s = [CHR 0xC2, CHR 0xB5, CHR ''s'']"

definition Microsecond :: nat where "Microsecond = 1000"
definition Millisecond :: nat where "Millisecond = 1000000"
definition Second_ns :: nat where "Second_ns = 1000000000"

definition format_duration :: "nat \<Rightarrow> string" where
  "format_duration u =
     (if u < Second_ns then
        if u = 0 then ''0s''
        else let (prec, unit) = (if u < Microsecond then (0, ''ns'') else if u < Millisecond then (3, micro_s) else (6, ''ms''));
                 (frac, w) = fmtFrac u prec
             in show_nat w @ frac @ unit
      else let (frac, secs) = fmtFrac u 9; mins = secs div 60; hours = mins div 60
           in (if 0 < mins then (if 0 < hours then show_nat hours @ ''h'' else []) @ show_nat (mins mod 60) @ ''m'' else [])
              @ show_nat (secs mod 60) @ frac @ ''s'')"

definition Duration_String :: "duration \<Rightarrow> string" where
  "Duration_String d = (if d < 0 then CHR ''-'' # format_duration (nat (- d)) else format_duration (nat d))"

section \<open>Parsing\<close>

text \<open>\<open>leadingInt\<close> fails when the number exceeds \<open>2^63\<close>.\<close>

fun leadingInt :: "nat \<Rightarrow> string \<Rightarrow> (nat \<times> string) option" where
  "leadingInt x [] = Some (x, [])"
| "leadingInt x (c # s) =
     (if \<not> is_digit c then Some (x, c # s)
      else if x > 2 ^ 63 div 10 then None
      else let y = 10 * x + (of_char c - 48) in if y > 2 ^ 63 then None else leadingInt y s)"

text \<open>\<open>leadingFraction\<close> ignores the digits after an overflow.\<close>

fun leadingFraction :: "nat \<Rightarrow> nat \<Rightarrow> bool \<Rightarrow> string \<Rightarrow> nat \<times> nat \<times> string" where
  "leadingFraction x scale over [] = (x, scale, [])"
| "leadingFraction x scale over (c # s) =
     (if \<not> is_digit c then (x, scale, c # s)
      else if over \<or> x > (2 ^ 63 - 1) div 10 then leadingFraction x scale True s
      else let y = 10 * x + (of_char c - 48)
           in if y > 2 ^ 63 then leadingFraction x scale True s else leadingFraction y (10 * scale) False s)"

definition unit_char :: "char \<Rightarrow> bool" where
  "unit_char c \<longleftrightarrow> c \<noteq> CHR ''.'' \<and> \<not> is_digit c"

definition unitMap :: "string \<Rightarrow> nat option" where
  "unitMap = map_of [(''ns'', 1), (''us'', Microsecond), (micro_s, Microsecond),
     ([CHR 0xCE, CHR 0xBC, CHR ''s''], Microsecond), (''ms'', Millisecond), (''s'', Second_ns),
     (''m'', 60 * Second_ns), (''h'', 3600 * Second_ns)]"

text \<open>One number with its unit: the nanoseconds it stands for, and what follows it.\<close>

definition parse_part :: "string \<Rightarrow> (nat \<times> string) option" where
  "parse_part s =
     (if s = [] \<or> \<not> (hd s = CHR ''.'' \<or> is_digit (hd s)) then None
      else case leadingInt 0 s of
        None \<Rightarrow> None
      | Some (v, s1) \<Rightarrow>
          let pre = (s1 \<noteq> s);
              (f, scale, s2) = (if s1 \<noteq> [] \<and> hd s1 = CHR ''.'' then leadingFraction 0 1 False (tl s1) else (0, 1, s1));
              post = (s1 \<noteq> [] \<and> hd s1 = CHR ''.'' \<and> s2 \<noteq> tl s1);
              u = takeWhile unit_char s2
          in if \<not> pre \<and> \<not> post then None
             else if u = [] then None
             else case unitMap u of
               None \<Rightarrow> None
             | Some unit \<Rightarrow>
                 if v > 2 ^ 63 div unit then None
                 else let w = v * unit + (if 0 < f then f * unit div scale else 0)
                      in if w > 2 ^ 63 then None else Some (w, dropWhile unit_char s2))"

text \<open>Every part takes at least one character of the unit, so that the length of the text bounds the loop.\<close>

fun parse_parts :: "nat \<Rightarrow> nat \<Rightarrow> string \<Rightarrow> nat option" where
  "parse_parts 0 d s = (if s = [] then Some d else None)"
| "parse_parts (Suc n) d s =
     (if s = [] then Some d
      else case parse_part s of
        None \<Rightarrow> None
      | Some (v, s') \<Rightarrow> if d + v > 2 ^ 63 then None else parse_parts n (d + v) s')"

definition time_ParseDuration :: "string \<Rightarrow> duration option" where
  "time_ParseDuration s =
     (let neg = (s \<noteq> [] \<and> hd s = CHR ''-'');
          s' = (if s \<noteq> [] \<and> (hd s = CHR ''-'' \<or> hd s = CHR ''+'') then tl s else s)
      in if s' = ''0'' then Some 0
         else if s' = [] then None
         else case parse_parts (length s') 0 s' of
                None \<Rightarrow> None
              | Some d \<Rightarrow> if neg then Some (- int d) else if d > 2 ^ 63 - 1 then None else Some (int d))"

section \<open>Reading back what was printed\<close>

lemma read_digits_mono: "read_digits x ds = Some n \<Longrightarrow> x \<le> n"
  by (induction x ds arbitrary: n rule: read_digits.induct) (auto split: if_splits)

lemma read_digits_all: "read_digits x ds = Some n \<Longrightarrow> list_all is_digit ds"
  by (induction x ds arbitrary: n rule: read_digits.induct) (auto split: if_splits)

definition stops :: "(char \<Rightarrow> bool) \<Rightarrow> string \<Rightarrow> bool" where
  "stops P rest \<longleftrightarrow> rest = [] \<or> \<not> P (hd rest)"

lemma leadingInt_read:
  "read_digits x ds = Some n \<Longrightarrow> n \<le> 2 ^ 63 \<Longrightarrow> stops is_digit rest \<Longrightarrow> leadingInt x (ds @ rest) = Some (n, rest)"
proof (induction ds arbitrary: x)
  case Nil
  then show ?case by (cases rest) (auto simp: stops_def)
next
  case (Cons c ds)
  let ?y = "10 * x + (of_char c - 48)"
  from Cons.prems(1) have d: "is_digit c" "read_digits ?y ds = Some n" by (auto split: if_splits)
  then have "?y \<le> n" by (blast dest: read_digits_mono)
  then have "?y \<le> 2 ^ 63" "x \<le> 2 ^ 63 div 10" using Cons.prems(2) by linarith+
  with d Cons show ?case by (simp add: Let_def)
qed

lemma leadingFraction_read:
  "read_digits x ds = Some n \<Longrightarrow> n < 2 ^ 63 \<Longrightarrow> stops is_digit rest \<Longrightarrow>
   leadingFraction x sc False (ds @ rest) = (n, sc * 10 ^ length ds, rest)"
proof (induction ds arbitrary: x sc)
  case Nil
  then show ?case by (cases rest) (auto simp: stops_def)
next
  case (Cons c ds)
  let ?y = "10 * x + (of_char c - 48)"
  from Cons.prems(1) have d: "is_digit c" "read_digits ?y ds = Some n" by (auto split: if_splits)
  then have "?y \<le> n" by (blast dest: read_digits_mono)
  then have "\<not> ?y > 2 ^ 63" "\<not> x > (2 ^ 63 - 1) div 10" using Cons.prems(2) by linarith+
  with d Cons show ?case by (simp add: Let_def)
qed

text \<open>The digits of a fraction, with leading zeros.\<close>

fun pad_digits :: "nat \<Rightarrow> nat \<Rightarrow> string" where
  "pad_digits 0 v = []"
| "pad_digits (Suc k) v = pad_digits k (v div 10) @ [digit_char (v mod 10)]"

lemma length_pad_digits [simp]: "length (pad_digits k v) = k"
  by (induction k arbitrary: v) auto

lemma mod_pow_Suc: "v mod 10 ^ Suc k = 10 * (v div 10 mod 10 ^ k) + v mod (10::nat)"
  using mod_mult2_eq[of v 10 "10 ^ k"] by simp

lemma read_pad_digits: "read_digits 0 (pad_digits k v) = Some (v mod 10 ^ k)"
proof (induction k arbitrary: v)
  case (Suc k)
  have "v mod 10 < 10" by simp
  with Suc show ?case
    by (simp only: pad_digits.simps read_digits_append option.case read_digits.simps mod_pow_Suc)
       (simp add: is_digit_def of_char_digit_char)
qed simp

lemma fmtFrac_loop_True: "fmtFrac_loop k v True acc = (CHR ''.'' # pad_digits k v @ acc, v div 10 ^ k)"
  by (induction k arbitrary: v acc) (auto simp: div_mult2_eq)

lemma fmtFrac_cases:
  "(v mod 10 ^ k = 0 \<and> fmtFrac_loop k v False [] = ([], v div 10 ^ k))
   \<or> (\<exists>j<k. v mod 10 ^ j = 0 \<and> v mod 10 ^ k \<noteq> 0
        \<and> fmtFrac_loop k v False [] = (CHR ''.'' # pad_digits (k - j) (v div 10 ^ j), v div 10 ^ k))"
proof (induction k arbitrary: v)
  case (Suc k)
  show ?case
  proof (cases "v mod 10 = 0")
    case False
    then have "v mod 10 ^ Suc k \<noteq> 0" by (simp add: mod_pow_Suc del: power_Suc)
    with False show ?thesis by (intro disjI2 exI[of _ 0]) (simp add: fmtFrac_loop_True div_mult2_eq)
  next
    case True
    then have step: "fmtFrac_loop (Suc k) v False [] = fmtFrac_loop k (v div 10) False []" by simp
    have low: "v mod 10 ^ Suc j = 10 * (v div 10 mod 10 ^ j)" for j using True mod_pow_Suc[of v j] by simp
    from Suc[of "v div 10"] show ?thesis
    proof
      assume "v div 10 mod 10 ^ k = 0 \<and> fmtFrac_loop k (v div 10) False [] = ([], v div 10 div 10 ^ k)"
      then show ?thesis using step low[of k] by (simp add: div_mult2_eq)
    next
      assume "\<exists>j<k. v div 10 mod 10 ^ j = 0 \<and> v div 10 mod 10 ^ k \<noteq> 0
        \<and> fmtFrac_loop k (v div 10) False [] = (CHR ''.'' # pad_digits (k - j) (v div 10 div 10 ^ j), v div 10 div 10 ^ k)"
      then obtain j where "j < k" "v div 10 mod 10 ^ j = 0" "v div 10 mod 10 ^ k \<noteq> 0"
        "fmtFrac_loop k (v div 10) False [] = (CHR ''.'' # pad_digits (k - j) (v div 10 div 10 ^ j), v div 10 div 10 ^ k)"
        by (elim exE conjE) (rule that)
      moreover have "v mod 10 ^ Suc i = 0 \<longleftrightarrow> v div 10 mod 10 ^ i = 0" for i using low[of i] by simp
      moreover have "v div 10 ^ Suc i = v div 10 div 10 ^ i" for i by (simp add: div_mult2_eq)
      ultimately show ?thesis using step
        by (intro disjI2 exI[of _ "Suc j"]) (simp del: power_Suc fmtFrac_loop.simps)
    qed
  qed
qed simp

text \<open>One printed number with its unit, read back.\<close>

lemma take_unit:
  "list_all unit_char u \<Longrightarrow> stops unit_char rest \<Longrightarrow> takeWhile unit_char (u @ rest) = u \<and> dropWhile unit_char (u @ rest) = rest"
  by (cases rest) (auto simp: stops_def list_all_iff)

lemma unit_stops: "list_all unit_char u \<Longrightarrow> u \<noteq> [] \<Longrightarrow> stops is_digit (u @ rest) \<and> hd (u @ rest) \<noteq> CHR ''.''"
  by (cases u) (auto simp: stops_def unit_char_def)

lemma frac_value:
  assumes "v mod 10 ^ j = (0::nat)" "j \<le> k"
  shows "v div 10 ^ j mod 10 ^ (k - j) * 10 ^ j = v mod 10 ^ k"
proof -
  have "v mod 10 ^ k = 10 ^ j * (v div 10 ^ j mod 10 ^ (k - j)) + v mod 10 ^ j"
    using mod_mult2_eq[of v "10 ^ j" "10 ^ (k - j)"] assms(2) by (simp flip: power_add)
  then show ?thesis using assms(1) by (simp add: mult.commute)
qed

lemma parse_part_print:
  assumes unit: "unitMap u = Some (10 ^ k * m)" "u \<noteq> []" "list_all unit_char u" and k: "k \<le> 9" and m: "0 < m"
    and rest: "stops unit_char rest" and range: "w * (10 ^ k * m) + v mod 10 ^ k * m \<le> 2 ^ 63"
    and frac: "fst (fmtFrac v k) = frac"
  shows "parse_part (show_nat w @ frac @ u @ rest) = Some (w * (10 ^ k * m) + v mod 10 ^ k * m, rest)"
proof -
  let ?unit = "10 ^ k * m" and ?s = "show_nat w @ frac @ u @ rest"
  have hd: "?s \<noteq> [] \<and> is_digit (hd ?s)"
    using show_nat_nonempty[of w] show_nat_digits[of "hd (show_nat w)" w] by simp
  have w: "w * ?unit \<le> 2 ^ 63" "\<not> w > 2 ^ 63 div ?unit" using range m
    by (linarith, metis add_leD1 div_le_mono div_mult_self_is_m leD nat_0_less_mult_iff zero_less_numeral zero_less_power)
  have w63: "w \<le> 2 ^ 63" using w(1) m by (metis le_trans mult_le_mono2 nat_0_less_mult_iff Suc_leI nat_mult_1_right One_nat_def zero_less_numeral zero_less_power)
  have un: "takeWhile unit_char (u @ rest) = u" "dropWhile unit_char (u @ rest) = rest"
    using take_unit[OF unit(3) rest] by simp_all
  have us: "stops is_digit (u @ rest)" "hd (u @ rest) \<noteq> CHR ''.''" using unit_stops[OF unit(3,2)] by simp_all
  from fmtFrac_cases[of v k] show ?thesis
  proof
    assume "v mod 10 ^ k = 0 \<and> fmtFrac_loop k v False [] = ([], v div 10 ^ k)"
    then have f: "frac = []" "v mod 10 ^ k = 0" using frac by (auto simp: fmtFrac_def)
    have "leadingInt 0 ?s = Some (w, u @ rest)" using leadingInt_read[OF read_show_nat w63 us(1)] f by simp
    then show ?thesis using hd f us un unit w by (simp add: parse_part_def Let_def show_nat_nonempty)
  next
    assume "\<exists>j<k. v mod 10 ^ j = 0 \<and> v mod 10 ^ k \<noteq> 0
        \<and> fmtFrac_loop k v False [] = (CHR ''.'' # pad_digits (k - j) (v div 10 ^ j), v div 10 ^ k)"
    then obtain j where j: "j < k" "v mod 10 ^ j = 0" "v mod 10 ^ k \<noteq> 0"
      and f: "frac = CHR ''.'' # pad_digits (k - j) (v div 10 ^ j)" using frac by (auto simp: fmtFrac_def)
    let ?f = "v div 10 ^ j mod 10 ^ (k - j)"
    have "leadingInt 0 ?s = Some (w, frac @ u @ rest)"
      using leadingInt_read[OF read_show_nat w63, of "frac @ u @ rest"] f by (simp add: stops_def is_digit_def)
    moreover have "leadingFraction 0 1 False (tl (frac @ u @ rest)) = (?f, 10 ^ (k - j), u @ rest)"
    proof -
      have "?f < 10 ^ (k - j)" by simp
      also have "(10::nat) ^ (k - j) \<le> 10 ^ 9" using k by (intro power_increasing) auto
      also have "\<dots> < (2::nat) ^ 63" by simp
      finally show ?thesis using leadingFraction_read[OF read_pad_digits _ us(1)] f by simp
    qed
    moreover have "0 < ?f" using frac_value[OF j(2), of k] j(1,3) by (metis gr0I less_imp_le mult_0)
    moreover have "?f * ?unit div 10 ^ (k - j) = v mod 10 ^ k * m"
    proof -
      have "?f * ?unit = v mod 10 ^ k * m * 10 ^ (k - j)"
        using frac_value[OF j(2), of k] j(1) power_add[of "10::nat" j "k - j"] by (simp add: algebra_simps)
      then show ?thesis by (metis nonzero_mult_div_cancel_right power_not_zero zero_neq_numeral)
    qed
    moreover have "u @ rest \<noteq> tl (frac @ u @ rest)" using f j(1) by (auto simp: append_eq_append_conv2 dest: arg_cong[of _ _ length])
    ultimately show ?thesis using hd f us un unit w range
      by (simp add: parse_part_def Let_def show_nat_nonempty)
  qed
qed

lemma unit_facts:
  "unitMap ''ns'' = Some (10 ^ 0 * 1)" "unitMap micro_s = Some (10 ^ 3 * 1)" "unitMap ''ms'' = Some (10 ^ 6 * 1)"
  "unitMap ''s'' = Some (10 ^ 9 * 1)" "unitMap ''m'' = Some (10 ^ 0 * 60000000000)" "unitMap ''h'' = Some (10 ^ 0 * 3600000000000)"
  "list_all unit_char ''ns''" "list_all unit_char micro_s" "list_all unit_char ''ms''" "list_all unit_char ''s''"
  "list_all unit_char ''m''" "list_all unit_char ''h''"
  by (simp_all add: unitMap_def micro_s_def Microsecond_def Millisecond_def Second_ns_def unit_char_def is_digit_def)

lemma stops_digits: "stops unit_char (show_nat n @ s)"
  using show_nat_nonempty[of n] show_nat_digits[of "hd (show_nat n)" n] by (simp add: stops_def unit_char_def)

lemma stops_Nil: "stops P []"
  by (simp add: stops_def)

lemma fmtFrac_0 [simp]: "fmtFrac v 0 = ([], v)"
  by (simp add: fmtFrac_def)

lemma parse_parts_fuel: "parse_parts n d s = Some r \<Longrightarrow> n \<le> n' \<Longrightarrow> parse_parts n' d s = Some r"
proof (induction n d s arbitrary: n' rule: parse_parts.induct)
  case (1 d s)
  then show ?case by (cases n') (auto split: if_splits)
next
  case (2 n d s)
  then obtain k where "n' = Suc k" "n \<le> k" by (cases n') auto
  with 2 show ?case by (auto split: if_splits option.splits)
qed

text \<open>Every part is shorter than the text it starts, so that the length of the text is enough.\<close>

lemma leadingInt_length: "leadingInt x s = Some (v, s') \<Longrightarrow> length s' \<le> length s"
  by (induction x s arbitrary: v s' rule: leadingInt.induct) (fastforce simp: Let_def split: if_splits)+

lemma leadingFraction_length: "length (snd (snd (leadingFraction x sc ov s))) \<le> length s"
  by (induction s arbitrary: x sc ov) (auto simp: Let_def intro: le_SucI)

lemma parse_part_length:
  assumes "parse_part s = Some (v, s')"
  shows "length s' < length s"
proof -
  obtain w s1 where s1: "leadingInt 0 s = Some (w, s1)" using assms by (auto simp: parse_part_def split: if_splits option.splits)
  define s2 where "s2 = (if s1 \<noteq> [] \<and> hd s1 = CHR ''.'' then snd (snd (leadingFraction 0 1 False (tl s1))) else s1)"
  have s': "s' = dropWhile unit_char s2 \<and> takeWhile unit_char s2 \<noteq> []"
    using assms s1 by (auto simp: parse_part_def s2_def Let_def split: if_splits option.splits prod.splits)
  have "length s2 \<le> length s1" using leadingFraction_length[of 0 1 False "tl s1"] by (auto simp: s2_def)
  moreover have "length s' < length s2"
    using s' arg_cong[OF takeWhile_dropWhile_id[of unit_char s2], of length] by (cases "takeWhile unit_char s2") auto
  ultimately show ?thesis using leadingInt_length[OF s1] by linarith
qed

lemma parse_parts_enough: "length s \<le> n \<Longrightarrow> parse_parts n d s = parse_parts (length s) d s"
proof (induction "length s" arbitrary: s n d rule: less_induct)
  case less
  show ?case
  proof (cases s)
    case Nil
    then show ?thesis by (cases n) simp_all
  next
    case (Cons c t)
    then obtain k where n: "n = Suc k" "length t \<le> k" using less.prems by (cases n) auto
    have "parse_parts k d' s' = parse_parts (length t) d' s'" if "parse_part s = Some (v, s')" for d' v s'
    proof -
      have "length s' \<le> length t" using parse_part_length[OF that] Cons by simp
      then show ?thesis using less.hyps[of s' k d'] less.hyps[of s' "length t" d'] n Cons by simp
    qed
    then show ?thesis using Cons n by (auto split: option.splits)
  qed
qed

text \<open>The parts of a printed duration of a second or more: hours, minutes, and seconds with a fraction.\<close>

lemma parse_seconds:
  assumes "u \<le> 2 ^ 63"
  shows "parse_part (show_nat (u div 10 ^ 9 mod 60) @ fst (fmtFrac u 9) @ ''s'')
       = Some (u div 10 ^ 9 mod 60 * 10 ^ 9 + u mod 10 ^ 9, [])"
proof -
  have "u div 10 ^ 9 mod 60 * 10 ^ 9 + u mod 10 ^ 9 \<le> 2 ^ 63" by simp
  then show ?thesis
    using parse_part_print[OF unit_facts(4) _ unit_facts(10) _ _ stops_Nil _ refl, of "u div 10 ^ 9 mod 60" u] by simp
qed

lemma parse_unit_part:
  assumes "unitMap u = Some (10 ^ 0 * m)" "list_all unit_char u" "u \<noteq> []" "0 < m" "w * m \<le> 2 ^ 63" "stops unit_char rest"
  shows "parse_part (show_nat w @ u @ rest) = Some (w * m, rest)"
  using parse_part_print[OF assms(1,3,2) _ assms(4,6), of w 0 "[]"] assms(5) by simp

lemma fmtFrac_snd: "snd (fmtFrac v k) = v div 10 ^ k"
  using fmtFrac_cases[of v k] by (auto simp: fmtFrac_def)

lemma parse_format_long:
  assumes u: "Second_ns \<le> u" "u \<le> 2 ^ 63"
  shows "parse_parts 3 0 (format_duration u) = Some u"
proof -
  define secs where "secs = u div 10 ^ 9"
  define S where "S = show_nat (secs mod 60) @ fst (fmtFrac u 9) @ ''s''"
  have S: "parse_part S = Some (secs mod 60 * 10 ^ 9 + u mod 10 ^ 9, [])" "S \<noteq> []" "stops unit_char S"
    using parse_seconds[OF u(2)] by (simp_all add: S_def secs_def stops_digits)
  have usplit: "u = secs * 1000000000 + u mod 1000000000" by (simp add: secs_def)
  have secs: "secs * 1000000000 \<le> 2 ^ 63" using u(2) usplit by linarith
  have parts: "secs = secs div 60 div 60 * 3600 + secs div 60 mod 60 * 60 + secs mod 60"
    using div_mult_mod_eq[of secs 60] div_mult_mod_eq[of "secs div 60" 60] by linarith
  have fmt: "format_duration u = (if 0 < secs div 60
      then (if 0 < secs div 60 div 60 then show_nat (secs div 60 div 60) @ ''h'' else []) @ show_nat (secs div 60 mod 60) @ ''m'' else []) @ S"
    using u(1) fmtFrac_snd[of u 9] by (auto simp: format_duration_def S_def secs_def Let_def split: prod.splits)
  have M: "parse_part (show_nat (secs div 60 mod 60) @ ''m'' @ S) = Some (secs div 60 mod 60 * 60000000000, S)"
    using secs parts by (intro parse_unit_part unit_facts S) auto
  have H: "parse_part (show_nat (secs div 60 div 60) @ ''h'' @ show_nat (secs div 60 mod 60) @ ''m'' @ S)
      = Some (secs div 60 div 60 * 3600000000000, show_nat (secs div 60 mod 60) @ ''m'' @ S)"
    using secs parts by (intro parse_unit_part unit_facts stops_digits) auto
  have total2: "secs div 60 * 60000000000 + (secs mod 60 * 1000000000 + u mod 1000000000) = u"
    using usplit div_mult_mod_eq[of secs 60] by linarith
  have total3: "secs div 60 div 60 * 3600000000000 + secs div 60 mod 60 * 60000000000 + (secs mod 60 * 1000000000 + u mod 1000000000) = u"
    using usplit parts by linarith
  have lim: "\<not> 2 ^ 63 < u" "\<not> 2 ^ 63 < secs div 60 * 60000000000"
    "\<not> 2 ^ 63 < secs div 60 div 60 * 3600000000000 + secs div 60 mod 60 * 60000000000"
    "\<not> 2 ^ 63 < secs div 60 div 60 * 3600000000000"
    using u(2) total2 total3 by linarith+
  consider "secs div 60 = 0" | "0 < secs div 60" "secs div 60 div 60 = 0" | "0 < secs div 60 div 60" by linarith
  then show ?thesis
  proof cases
    case 1
    then show ?thesis using S usplit u(2) parts by (simp add: fmt numeral_3_eq_3)
  next
    case 2
    then have "secs div 60 mod 60 = secs div 60" by (simp add: mod_less div_eq_0_iff)
    with 2 S M total2 lim(1,2) show ?thesis
      by (simp add: fmt numeral_3_eq_3 show_nat_nonempty del: mod_div_trivial)
  next
    case 3
    then have "0 < secs div 60" by (metis div_0 gr0I less_numeral_extra(3))
    with 3 S M H total3 lim(1,3,4) show ?thesis
      by (simp add: fmt numeral_3_eq_3 show_nat_nonempty)
  qed
qed

lemma zero_string: "show_nat 0 = ''0''"
  by code_simp

lemma parse_format_short:
  assumes u: "u < Second_ns"
  shows "parse_parts 1 0 (format_duration u) = Some u"
proof (cases "u = 0")
  case True
  have "fst (fmtFrac 0 9) = []" using fmtFrac_cases[of 0 9] by (auto simp: fmtFrac_def)
  then have "parse_part (show_nat 0 @ ''s'') = Some (0, [])"
    using parse_part_print[OF unit_facts(4) _ unit_facts(10) _ _ stops_Nil, of 0 0 "[]"] by simp
  then show ?thesis using True by (simp add: format_duration_def zero_string Second_ns_def)
next
  case False
  have one: "parse_parts 1 0 (show_nat w @ frac @ unit) = Some u"
    if "fmtFrac u k = (frac, w)" "unitMap unit = Some (10 ^ k * 1)" "unit \<noteq> []" "list_all unit_char unit" "k \<le> 9" for k frac w unit
  proof -
    have w: "w = u div 10 ^ k" using fmtFrac_snd[of u k] that(1) by simp
    then have "w * (10 ^ k * 1) + u mod 10 ^ k * 1 = u" using div_mult_mod_eq[of u "10 ^ k"] by simp
    then have "parse_part (show_nat w @ frac @ unit) = Some (u, [])"
      using parse_part_print[OF that(2-5) _ stops_Nil, of w u frac] that(1) u by (simp add: Second_ns_def)
    then show ?thesis using u by (simp add: Second_ns_def show_nat_nonempty)
  qed
  from False u show ?thesis
    using one[OF _ unit_facts(1) _ unit_facts(7)] one[OF _ unit_facts(2) _ unit_facts(8)] one[OF _ unit_facts(3) _ unit_facts(9)]
    by (auto simp: format_duration_def Let_def micro_s_def split: prod.splits)
qed

lemma parse_format_duration:
  assumes "u \<le> 2 ^ 63"
  shows "parse_parts (length (format_duration u)) 0 (format_duration u) = Some u"
proof -
  have "\<exists>n. parse_parts n 0 (format_duration u) = Some u"
  proof (cases "u < Second_ns")
    case True
    from parse_format_short[OF this] show ?thesis by (rule exI)
  next
    case False
    then have "Second_ns \<le> u" by simp
    from parse_format_long[OF this assms] show ?thesis by (rule exI)
  qed
  then obtain n where "parse_parts n 0 (format_duration u) = Some u" by blast
  then have "parse_parts (n + length (format_duration u)) 0 (format_duration u) = Some u"
    by (rule parse_parts_fuel) simp
  then show ?thesis
    using parse_parts_enough[of "format_duration u" "n + length (format_duration u)" 0] by simp
qed

lemma format_duration_shape: "\<exists>w r. format_duration u = show_nat w @ r \<and> r \<noteq> []"
proof -
  have zero: "''0s'' = show_nat 0 @ ''s''" by (simp add: zero_string)
  show ?thesis
    unfolding format_duration_def zero micro_s_def Let_def by (auto split: prod.splits)
qed

lemma format_duration_head:
  "format_duration u \<noteq> [] \<and> is_digit (hd (format_duration u)) \<and> format_duration u \<noteq> ''0''"
proof -
  obtain w r where f: "format_duration u = show_nat w @ r" "r \<noteq> []" using format_duration_shape by blast
  then have "hd (format_duration u) \<in> set (show_nat w)" by (simp add: show_nat_nonempty)
  moreover have "length (format_duration u) \<noteq> 1" using f show_nat_nonempty[of w] by (cases r; cases "show_nat w") auto
  moreover have "format_duration u \<noteq> []" using f by simp
  ultimately show ?thesis using show_nat_digits[of "hd (format_duration u)" w] by auto
qed

text \<open>The round trip, for every duration.\<close>

lemma ParseDuration_String:
  assumes "- (2 ^ 63) \<le> d" "d < 2 ^ 63"
  shows "time_ParseDuration (Duration_String d) = Some d"
proof -
  have h: "format_duration u \<noteq> []" "hd (format_duration u) \<noteq> CHR ''-''" "hd (format_duration u) \<noteq> CHR ''+''"
    "format_duration u \<noteq> ''0''" for u
    using format_duration_head[of u] by (auto simp: is_digit_def)
  show ?thesis
  proof (cases "d < 0")
    case True
    then have "nat (- d) \<le> 2 ^ 63" using assms(1) by simp
    from parse_format_duration[OF this] True h show ?thesis
      by (simp add: time_ParseDuration_def Duration_String_def Let_def)
  next
    case False
    then have "nat d \<le> 2 ^ 63" "\<not> nat d > 2 ^ 63 - 1" using assms(2) by simp_all
    with parse_format_duration[OF this(1)] False h show ?thesis
      by (simp add: time_ParseDuration_def Duration_String_def Let_def)
  qed
qed

end
