(* ===== verification/Config_Docs.thy ===== *)
theory Config_Docs
  imports Go_Regexp Go_Duration
begin

text \<open>
  The configuration reference generator, \<open>src/tools/gen-config-docs/main.go\<close>. It reads the struct
  declarations, string constants and loader bodies of \<open>config.go\<close> and writes a table of fields,
  environment variables and defaults. The declarations are what \<open>go/parser\<close> returns, as far as the
  tool looks at them; the loader bodies are texts, searched with the tool's own regular expressions.
  Go's maps are partial functions: the tool never depends on their order.
\<close>

section \<open>Definitions\<close>

subsection \<open>Declarations\<close>

text \<open>A comment group is the list of the texts of its comments; no group is \<open>None\<close>.\<close>

type_synonym comment_group = "string list option"

record ast_field =
  Names :: "string list"
  Doc :: comment_group
  Comment :: comment_group

datatype ast_type = StructType "ast_field list" | OtherType
datatype lit_kind = STRING | OtherKind
datatype ast_expr = BasicLit lit_kind string | OtherExpr
datatype ast_spec = TypeSpec string ast_type | ValueSpec "string list" "ast_expr list" | ImportSpec
datatype gen_tok = TYPE_TOK | CONST_TOK | VAR_TOK | IMPORT_TOK

text \<open>A function declaration has the byte offsets of its body, if it has one.\<close>

datatype ast_decl = GenDecl gen_tok "ast_spec list" | FuncDecl string "(nat \<times> nat) option"

record doc_field =
  fname :: string
  fdoc :: string

record structInfo =
  sname :: string
  sfields :: "doc_field list"
  sorder :: "string \<rightharpoonup> nat"

record envBinding =
  envVar :: string
  defValue :: string
  required :: bool
  bnote :: string

subsection \<open>Strings\<close>

definition TrimPrefix :: "string \<Rightarrow> string \<Rightarrow> string" where
  "TrimPrefix s p = fst (CutPrefix s p)"

definition ReplaceAll_char :: "string \<Rightarrow> char \<Rightarrow> string \<Rightarrow> string" where
  "ReplaceAll_char s c new = concat (map (\<lambda>x. if x = c then new else [x]) s)"

definition ToLower :: "string \<Rightarrow> string" where
  "ToLower = map (\<lambda>c. if in_range 65 90 c then char_of (of_char c + 32 :: nat) else c)"

definition quote_char :: char where "quote_char = CHR 0x22"
definition backslash :: char where "backslash = CHR 0x5C"
definition newline :: char where "newline = CHR 0x0A"

text \<open>\<open>strconv.Unquote\<close> on the literals of kind \<open>STRING\<close>: interpreted and raw strings.\<close>

definition hex_value :: "char \<Rightarrow> nat option" where
  "hex_value c = (if is_digit c then Some (of_char c - 48) else if in_range 97 102 c then Some (of_char c - 87)
     else if in_range 65 70 c then Some (of_char c - 55) else None)"

fun read_base :: "nat \<Rightarrow> nat \<Rightarrow> string \<Rightarrow> nat option" where
  "read_base b acc [] = Some acc"
| "read_base b acc (c # s) =
     (case hex_value c of None \<Rightarrow> None | Some v \<Rightarrow> if v < b then read_base b (b * acc + v) s else None)"

definition utf8 :: "nat \<Rightarrow> string option" where
  "utf8 n =
     (if n < 128 then Some [char_of n]
      else if n < 2048 then Some [char_of (192 + n div 64), char_of (128 + n mod 64)]
      else if 55296 \<le> n \<and> n < 57344 then None
      else if n < 65536 then Some [char_of (224 + n div 4096), char_of (128 + n div 64 mod 64), char_of (128 + n mod 64)]
      else if n < 1114112 then Some [char_of (240 + n div 262144), char_of (128 + n div 4096 mod 64),
             char_of (128 + n div 64 mod 64), char_of (128 + n mod 64)]
      else None)"

definition simple_escapes :: "char \<Rightarrow> char option" where
  "simple_escapes = map_of [(CHR ''a'', CHR 0x07), (CHR ''b'', CHR 0x08), (CHR ''f'', CHR 0x0C), (CHR ''n'', CHR 0x0A),
     (CHR ''r'', CHR 0x0D), (CHR ''t'', CHR 0x09), (CHR ''v'', CHR 0x0B), (backslash, backslash), (quote_char, quote_char)]"

text \<open>The escape after a backslash: the bytes it stands for, and what follows it.\<close>

definition unescape :: "string \<Rightarrow> (string \<times> string) option" where
  "unescape s =
     (case s of
        [] \<Rightarrow> None
      | e # t \<Rightarrow>
          (case simple_escapes e of
             Some c \<Rightarrow> Some ([c], t)
           | None \<Rightarrow>
               let digits = (\<lambda>b n u. if length u < n then None else map_option (\<lambda>v. (v, drop n u)) (read_base b 0 (take n u)))
               in if e = CHR ''x'' then map_option (\<lambda>(v, u). ([char_of v], u)) (digits 16 2 t)
                  else if e = CHR ''u'' then Option.bind (digits 16 4 t) (\<lambda>(v, u). map_option (\<lambda>c. (c, u)) (utf8 v))
                  else if e = CHR ''U'' then Option.bind (digits 16 8 t) (\<lambda>(v, u). map_option (\<lambda>c. (c, u)) (utf8 v))
                  else Option.bind (digits 8 3 s) (\<lambda>(v, u). if v < 256 then Some ([char_of v], u) else None)))"

fun unquote_body :: "nat \<Rightarrow> string \<Rightarrow> string option" where
  "unquote_body 0 s = (if s = [] then Some [] else None)"
| "unquote_body (Suc n) s =
     (case s of
        [] \<Rightarrow> Some []
      | c # t \<Rightarrow>
          if c = backslash then Option.bind (unescape t) (\<lambda>(x, u). map_option (\<lambda>r. x @ r) (unquote_body n u))
          else if c = quote_char \<or> c = newline then None
          else map_option (\<lambda>r. c # r) (unquote_body n t))"

definition Unquote :: "string \<Rightarrow> string option" where
  "Unquote s =
     (if length s < 2 \<or> hd s \<noteq> last s then None
      else let body = butlast (tl s)
           in if hd s = CHR 0x60 then
                (if CHR 0x60 \<in> set body then None else Some (filter (\<lambda>c. c \<noteq> CHR 0x0D) body))
              else if hd s = quote_char then unquote_body (length body) body
              else None)"

subsection \<open>Reading the declarations\<close>

definition cleanComment :: "comment_group \<Rightarrow> string" where
  "cleanComment cg =
     (case cg of
        None \<Rightarrow> []
      | Some texts \<Rightarrow> TrimSpace (str_join (CHR '' '') (map (\<lambda>c. TrimSpace (TrimPrefix c ''//'')) texts)))"

definition IsExported :: "string \<Rightarrow> bool" where
  "IsExported name \<longleftrightarrow> name \<noteq> [] \<and> in_range 65 90 (hd name)"

definition add_field :: "structInfo \<Rightarrow> ast_field \<Rightarrow> structInfo" where
  "add_field si f =
     (case Names f of
        [] \<Rightarrow> si
      | name # _ \<Rightarrow>
          if \<not> IsExported name then si
          else let doc = cleanComment (Doc f); doc' = (if doc = [] then cleanComment (Comment f) else doc)
               in si\<lparr>sorder := (sorder si)(name \<mapsto> length (sfields si)),
                     sfields := sfields si @ [\<lparr>fname = name, fdoc = doc'\<rparr>]\<rparr>)"

definition add_struct :: "(string \<rightharpoonup> structInfo) \<Rightarrow> ast_spec \<Rightarrow> (string \<rightharpoonup> structInfo)" where
  "add_struct out spec =
     (case spec of
        TypeSpec name (StructType fs) \<Rightarrow>
          (let si = foldl add_field \<lparr>sname = name, sfields = [], sorder = Map.empty\<rparr> fs in out(sname si \<mapsto> si))
      | _ \<Rightarrow> out)"

definition parseStructs :: "ast_decl list \<Rightarrow> (string \<rightharpoonup> structInfo)" where
  "parseStructs decls =
     foldl (\<lambda>out d. case d of GenDecl TYPE_TOK specs \<Rightarrow> foldl add_struct out specs | _ \<Rightarrow> out) Map.empty decls"

definition add_const :: "(string \<rightharpoonup> string) \<Rightarrow> ast_spec \<Rightarrow> (string \<rightharpoonup> string)" where
  "add_const out spec =
     (case spec of
        ValueSpec [name] [BasicLit STRING v] \<Rightarrow> (case Unquote v of None \<Rightarrow> out | Some s \<Rightarrow> out(name \<mapsto> s))
      | _ \<Rightarrow> out)"

definition parseConsts :: "ast_decl list \<Rightarrow> (string \<rightharpoonup> string)" where
  "parseConsts decls =
     foldl (\<lambda>out d. case d of GenDecl CONST_TOK specs \<Rightarrow> foldl add_const out specs | _ \<Rightarrow> out) Map.empty decls"

fun funcBodyText :: "ast_decl list \<Rightarrow> string \<Rightarrow> string \<Rightarrow> string" where
  "funcBodyText [] src fnName = []"
| "funcBodyText (d # decls) src fnName =
     (case d of
        FuncDecl name (Some (start, stop)) \<Rightarrow>
          if name = fnName then take (stop - start) (drop start src) else funcBodyText decls src fnName
      | _ \<Rightarrow> funcBodyText decls src fnName)"

subsection \<open>The regular expressions\<close>

fun rx_alts :: "string list \<Rightarrow> rx" where
  "rx_alts [] = RLit []"
| "rx_alts [s] = RLit s"
| "rx_alts (s # ss) = RAlt (RLit s) (rx_alts ss)"

definition word_group :: "nat \<Rightarrow> rx" where
  "word_group n = RGroup n (RPlus is_word)"

text \<open>A quoted environment variable name, the first argument of every getter.\<close>

definition env_arg :: "nat \<Rightarrow> rx" where
  "env_arg n = rx_seq [RLit ''(\"'', RGroup n (RPlus is_env_char), RLit ''\"'']"

text \<open>The second argument and the closing parenthesis.\<close>

definition default_arg :: "nat \<Rightarrow> rx" where
  "default_arg n = rx_seq [RLit '','', RStar is_rx_space, RGroup n (RStar (\<lambda>c. c \<noteq> CHR 0x29)), RLit '')'']"

definition reCompositeGetEnv :: rx where
  "reCompositeGetEnv = rx_seq [word_group 1, RLit '':'', RStar is_rx_space, RLit ''get'',
     rx_alts [''Env'', ''IntEnv'', ''Int64Env'', ''Uint64Env'', ''Float64Env'', ''DurationEnv''], env_arg 2, default_arg 3]"

definition reCompositeOsGetenv :: rx where
  "reCompositeOsGetenv = rx_seq [word_group 1, RLit '':'', RStar is_rx_space, RLit ''os.Getenv'', env_arg 2, RLit '')'']"

definition reCompositeLiteral :: rx where
  "reCompositeLiteral = rx_seq [RBol, RStar is_rx_space, word_group 1, RLit '':'', RStar is_rx_space,
     RGroup 2 (RLazy not_newline), RLit '','', RStar is_rx_space, RMaybe (RSeq (RLit ''//'') (RStar not_newline)), REol]"

definition reIfGetEnv :: rx where
  "reIfGetEnv = rx_seq [RLit ''if c.'', word_group 1, RLit '', err = get'',
     rx_alts [''IntEnv'', ''Int64Env'', ''Uint64Env'', ''Float64Env'', ''DurationEnv''], env_arg 2, default_arg 3, RLit '';'']"

definition reIfRequireKey :: rx where
  "reIfRequireKey = rx_seq [RLit ''if c.'', word_group 1, RLit '', err = requireECKeyEnv'', env_arg 2, RLit '');'']"

definition reBareOsGetenv :: rx where
  "reBareOsGetenv = rx_seq [RBol, RStar is_rx_space, RLit ''c.'', word_group 1, RLit '' = os.Getenv'', env_arg 2, RLit '')'',
     RStar is_rx_space, REol]"

definition reRequiredCheck :: rx where
  "reRequiredCheck = rx_seq [RLit ''if '', RAlt (RSeq (RLit ''c.'') (word_group 1)) (word_group 2), RLit '' == \"\" {'']"

definition reLocalGetEnv :: rx where
  "reLocalGetEnv = rx_seq [word_group 1, RLit '' := getEnv'', env_arg 2, RLit '','', RStar is_rx_space,
     RLit ''\"'', RGroup 3 (RStar (\<lambda>c. c \<noteq> quote_char)), RLit ''\")'']"

definition reLocalOsGetenv :: rx where
  "reLocalOsGetenv = rx_seq [word_group 1, RLit '' := os.Getenv'', env_arg 2, RLit '')'']"

definition reJSONUnmarshal :: rx where
  "reJSONUnmarshal = rx_seq [RLit ''json.Unmarshal([]byte('', word_group 1, RLit ''), &c.'', word_group 2, RLit '')'']"

definition reStringsSplit :: rx where
  "reStringsSplit = rx_seq [RLit ''c.'', word_group 1, RLit '' = strings.Split('', word_group 2, RLit '','']"

definition times_op :: rx where
  "times_op = rx_seq [RStar is_rx_space, RLit ''*'', RStar is_rx_space]"

definition reDurTriple :: rx where
  "reDurTriple = rx_seq [RBegin, RGroup 1 (RPlus is_digit), times_op, RGroup 2 (RPlus is_digit), times_op,
     RLit ''time.'', word_group 3, REnd]"

definition reDurDouble :: rx where
  "reDurDouble = rx_seq [RBegin, RGroup 1 (RPlus is_digit), times_op, RLit ''time.'', word_group 2, REnd]"

definition reDurBare :: rx where
  "reDurBare = rx_seq [RBegin, RLit ''time.'', word_group 1, REnd]"

definition reDigits :: rx where
  "reDigits = rx_seq [RBegin, RCls is_digit, RStar (\<lambda>c. is_digit c \<or> c = CHR ''_''), REnd]"

subsection \<open>Defaults\<close>

definition timeUnits :: "string \<Rightarrow> duration option" where
  "timeUnits = map_of [(''Nanosecond'', 1), (''Microsecond'', 1000), (''Millisecond'', 1000000),
     (''Second'', Second), (''Minute'', Minute), (''Hour'', Hour)]"

text \<open>\<open>strconv.Atoi\<close> with its error dropped, on digits: the largest \<open>int\<close> when the number is too large.\<close>

definition Atoi_value :: "string \<Rightarrow> int" where
  "Atoi_value s = (case ParseInt s of Some n \<Rightarrow> n | None \<Rightarrow> 2 ^ 63 - 1)"

text \<open>The three shapes of a duration, tried in the order of the source; arithmetic is in \<open>int64\<close>.\<close>

definition triple_duration :: "string \<Rightarrow> duration option" where
  "triple_duration raw = Option.bind (FindStringSubmatch reDurTriple raw) (\<lambda>m.
     map_option (\<lambda>unit. wrap64 (wrap64 (Atoi_value (submatch m 1) * Atoi_value (submatch m 2)) * unit)) (timeUnits (submatch m 3)))"

definition double_duration :: "string \<Rightarrow> duration option" where
  "double_duration raw = Option.bind (FindStringSubmatch reDurDouble raw) (\<lambda>m.
     map_option (\<lambda>unit. wrap64 (Atoi_value (submatch m 1) * unit)) (timeUnits (submatch m 2)))"

definition bare_duration :: "string \<Rightarrow> duration option" where
  "bare_duration raw = Option.bind (FindStringSubmatch reDurBare raw) (\<lambda>m. timeUnits (submatch m 1))"

definition renderDefault :: "string \<Rightarrow> (string \<rightharpoonup> string) \<Rightarrow> string" where
  "renderDefault raw0 consts =
     (let raw = TrimSpace raw0
      in case consts raw of
           Some v \<Rightarrow> v
         | None \<Rightarrow>
           (case triple_duration raw of
              Some d \<Rightarrow> Duration_String d
            | None \<Rightarrow>
              (case double_duration raw of
                 Some d \<Rightarrow> Duration_String d
               | None \<Rightarrow>
                 (case bare_duration raw of
                    Some d \<Rightarrow> Duration_String d
                  | None \<Rightarrow>
                    if MatchString reDigits raw then ReplaceAll_char raw (CHR ''_'') []
                    else str_trim (\<lambda>c. c = quote_char) raw))))"

subsection \<open>Bindings\<close>

type_synonym bindings = "string \<rightharpoonup> envBinding"

definition binding :: "string \<Rightarrow> string \<Rightarrow> envBinding" where
  "binding v d = \<lparr>envVar = v, defValue = d, required = False, bnote = []\<rparr>"

definition make_required :: "envBinding \<Rightarrow> envBinding" where
  "make_required b = b\<lparr>required := True, defValue := []\<rparr>"

text \<open>One pass: what a loop over the matches of an expression does to the bindings.\<close>

definition pass :: "rx \<Rightarrow> string \<Rightarrow> (captures \<Rightarrow> 'm \<Rightarrow> 'm) \<Rightarrow> 'm \<Rightarrow> 'm" where
  "pass r body f = fold f (FindAllStringSubmatch r body)"

definition plain_literals :: "string \<Rightarrow> (string \<rightharpoonup> string)" where
  "plain_literals body = pass reCompositeLiteral body (\<lambda>m pl. pl(submatch m 1 \<mapsto> TrimSpace (submatch m 2))) Map.empty"

definition bind_composite :: "string \<Rightarrow> (string \<rightharpoonup> string) \<Rightarrow> bindings \<Rightarrow> bindings" where
  "bind_composite body consts =
     pass reCompositeGetEnv body (\<lambda>m bs. bs(submatch m 1 \<mapsto> binding (submatch m 2) (renderDefault (submatch m 3) consts)))"

definition bind_composite_os :: "string \<Rightarrow> bindings \<Rightarrow> bindings" where
  "bind_composite_os body = pass reCompositeOsGetenv body (\<lambda>m bs. bs(submatch m 1 \<mapsto> binding (submatch m 2) []))"

definition bind_if_getenv :: "string \<Rightarrow> (string \<rightharpoonup> string) \<Rightarrow> (string \<rightharpoonup> string) \<Rightarrow> bindings \<Rightarrow> bindings" where
  "bind_if_getenv body consts plain =
     pass reIfGetEnv body (\<lambda>m bs.
       let field = submatch m 1; arg3 = TrimSpace (submatch m 3);
           def = (if arg3 = ''c.'' @ field then (case plain field of None \<Rightarrow> [] | Some s \<Rightarrow> s) else arg3)
       in bs(field \<mapsto> binding (submatch m 2) (renderDefault def consts)))"

definition bind_require_key :: "string \<Rightarrow> bindings \<Rightarrow> bindings" where
  "bind_require_key body = pass reIfRequireKey body (\<lambda>m bs.
     bs(submatch m 1 \<mapsto> \<lparr>envVar = submatch m 2, defValue = [], required = True, bnote = ''PEM-encoded EC private key''\<rparr>))"

definition bind_bare_os :: "string \<Rightarrow> bindings \<Rightarrow> bindings" where
  "bind_bare_os body = pass reBareOsGetenv body (\<lambda>m bs. bs(submatch m 1 \<mapsto> binding (submatch m 2) []))"

definition local_bindings :: "string \<Rightarrow> bindings" where
  "local_bindings body =
     pass reLocalOsGetenv body (\<lambda>m ls. ls(submatch m 1 \<mapsto> binding (submatch m 2) []))
       (pass reLocalGetEnv body (\<lambda>m ls. ls(submatch m 1 \<mapsto> binding (submatch m 2) (submatch m 3))) Map.empty)"

text \<open>A field fed from a local variable gets the variable's binding, with a note.\<close>

definition attribute :: "bindings \<Rightarrow> string \<Rightarrow> string \<Rightarrow> string \<Rightarrow> bindings \<Rightarrow> bindings" where
  "attribute locals field local n bs =
     (case locals local of None \<Rightarrow> bs | Some b \<Rightarrow> bs(field \<mapsto> b\<lparr>bnote := n\<rparr>))"

definition bind_split :: "string \<Rightarrow> bindings \<Rightarrow> bindings \<Rightarrow> bindings" where
  "bind_split body locals = pass reStringsSplit body (\<lambda>m. attribute locals (submatch m 1) (submatch m 2) ''comma-separated list'')"

definition bind_json :: "string \<Rightarrow> bindings \<Rightarrow> bindings \<Rightarrow> bindings" where
  "bind_json body locals = pass reJSONUnmarshal body (\<lambda>m. attribute locals (submatch m 2) (submatch m 1) ''JSON object'')"

text \<open>
  A required check on a field marks the field; one on a local variable marks the variable and every
  field bound to the same environment variable.
\<close>

definition require_one :: "captures \<Rightarrow> bindings \<times> bindings \<Rightarrow> bindings \<times> bindings" where
  "require_one m = (\<lambda>(bs, locals).
     (let field = submatch m 1; local = submatch m 2
      in if field \<noteq> [] then
           (case bs field of None \<Rightarrow> (bs, locals) | Some b \<Rightarrow> (bs(field \<mapsto> make_required b), locals))
         else case locals local of
                None \<Rightarrow> (bs, locals)
              | Some l \<Rightarrow> ((\<lambda>f. map_option (\<lambda>b. if envVar b = envVar l then make_required b else b) (bs f)),
                           locals(local \<mapsto> make_required l))))"

definition bind_required :: "string \<Rightarrow> bindings \<Rightarrow> bindings \<Rightarrow> bindings" where
  "bind_required body locals bs = fst (pass reRequiredCheck body require_one (bs, locals))"

definition bindEnvVars :: "string \<Rightarrow> (string \<rightharpoonup> string) \<Rightarrow> bindings" where
  "bindEnvVars body consts =
     (let plain = plain_literals body;
          bs = bind_bare_os body (bind_require_key body (bind_if_getenv body consts plain
                 (bind_composite_os body (bind_composite body consts Map.empty))));
          locals = local_bindings body
      in bind_required body locals (bind_json body locals (bind_split body locals bs)))"

subsection \<open>The document\<close>

definition em_dash :: string where "em_dash = [CHR 0xE2, CHR 0x80, CHR 0x94]"
definition section_sign :: string where "section_sign = [CHR 0xC2, CHR 0xA7]"
definition backquoted :: "string \<Rightarrow> string" where "backquoted s = CHR 0x60 # s @ [CHR 0x60]"

definition default_cell :: "envBinding \<Rightarrow> string" where
  "default_cell eb =
     (let def = (if required eb then ''*(required)*'' else if defValue eb \<noteq> [] then backquoted (defValue eb) else em_dash)
      in if bnote eb \<noteq> [] then def @ '' ('' @ bnote eb @ '')'' else def)"

definition description :: "string \<Rightarrow> string" where
  "description doc = ReplaceAll_char (ReplaceAll_char doc (CHR ''|'') [backslash, CHR ''|'']) newline '' ''"

definition table_row :: "bindings \<Rightarrow> doc_field \<Rightarrow> string" where
  "table_row bs f =
     (let (env, def) = (case bs (fname f) of None \<Rightarrow> (em_dash, em_dash) | Some eb \<Rightarrow> (backquoted (envVar eb), default_cell eb))
      in ''| '' @ backquoted (fname f) @ '' | '' @ env @ '' | '' @ def @ '' | '' @ description (fdoc f) @ '' |'' @ [newline])"

definition services :: "(string \<times> string \<times> string) list" where
  "services = [(''cmd/as'', ''ASConfig'', ''LoadAS''),
     (''cmd/ingestion-service'', ''IngestionConfig'', ''LoadIngestion''),
     (''cmd/verifier-service'', ''VerifierConfig'', ''LoadVerifier''),
     (''cmd/ingress-router'', ''IngressConfig'', ''LoadIngress'')]"

definition doc_preamble :: string where
  "doc_preamble = ''<!-- Regenerate with: go run ./tools/gen-config-docs -->'' @ [newline, newline]
     @ ''# Configuration Reference'' @ [newline, newline]
     @ ''Every field is set purely from environment variables (docs/design.md '' @ section_sign @ ''12) '' @ em_dash @ '' ''
     @ ''no YAML/config-file convention at this scale. '' @ backquoted ''Required'' @ '' fields with no default ''
     @ ''make the binary refuse to start rather than run with a guessed value.'' @ [newline, newline]
     @ ''## Table of Contents'' @ [newline, newline]"

definition toc_entry :: "string \<Rightarrow> string" where
  "toc_entry binary = ''- ['' @ binary @ ''](#'' @ ToLower (ReplaceAll_char binary (CHR 0x2F) []) @ '')'' @ [newline]"

definition service_section :: "string \<Rightarrow> string \<Rightarrow> structInfo \<Rightarrow> bindings \<Rightarrow> string" where
  "service_section binary structName si bs =
     ''## '' @ binary @ [newline, newline]
     @ ''Config struct: '' @ backquoted (''internal/config.'' @ structName) @ [newline, newline]
     @ ''| Field | Env Variable | Default | Description |'' @ [newline]
     @ ''|-------|-------------|---------|-------------|'' @ [newline]
     @ concat (map (table_row bs) (sfields si)) @ [newline]"

datatype docs_error =
    ReadingSource
  | ParsingSource
  | FunctionNotFound string
  | StructNotFound string
  | CreatingOutputDir
  | WritingOutput

fun bind_services :: "ast_decl list \<Rightarrow> string \<Rightarrow> (string \<rightharpoonup> string) \<Rightarrow> (string \<times> string \<times> string) list
    \<Rightarrow> docs_error + (string \<times> string \<times> bindings) list" where
  "bind_services decls src consts [] = Inr []"
| "bind_services decls src consts ((binary, structName, load) # svcs) =
     (let body = funcBodyText decls src load
      in if body = [] then Inl (FunctionNotFound load)
         else and_then (bind_services decls src consts svcs) (\<lambda>rest. Inr ((binary, structName, bindEnvVars body consts) # rest)))"

fun service_sections :: "(string \<rightharpoonup> structInfo) \<Rightarrow> (string \<times> string \<times> bindings) list \<Rightarrow> docs_error + string" where
  "service_sections structs [] = Inr []"
| "service_sections structs ((binary, structName, bs) # svcs) =
     (case structs structName of
        None \<Rightarrow> Inl (StructNotFound structName)
      | Some si \<Rightarrow> and_then (service_sections structs svcs) (\<lambda>rest. Inr (service_section binary structName si bs @ rest)))"

text \<open>
  \<open>main\<close>: from what reading and parsing the source gave, and whether the output could be written, to
  the document written or the failure it stops with.
\<close>

definition gen_config_docs :: "string option \<Rightarrow> (string \<Rightarrow> ast_decl list option) \<Rightarrow> bool \<Rightarrow> bool \<Rightarrow> docs_error + string" where
  "gen_config_docs read parse mkdir_ok write_ok =
     (case read of
        None \<Rightarrow> Inl ReadingSource
      | Some src \<Rightarrow>
          (case parse src of
             None \<Rightarrow> Inl ParsingSource
           | Some decls \<Rightarrow>
               and_then (bind_services decls src (parseConsts decls) services) (\<lambda>svcs.
               and_then (service_sections (parseStructs decls) svcs) (\<lambda>body.
                 if \<not> mkdir_ok then Inl CreatingOutputDir
                 else if \<not> write_ok then Inl WritingOutput
                 else Inr (doc_preamble @ concat (map (\<lambda>(binary, _, _). toc_entry binary) services)
                        @ [newline] @ ''---'' @ [newline, newline] @ body)))))"

end
