(* ===== verification/Docs_Agreement.thy ===== *)
theory Docs_Agreement
  imports Config_Docs Config
begin

text \<open>
  What the generated configuration reference says of the loaders. The variables and required marks it
  shows are ones the loader's text has; a field the text checks for emptiness is shown as required;
  and a documented duration, typed into its variable, is read back by the loader as the default it
  documents.
\<close>

section \<open>Durations\<close>

lemma find_whole:
  assumes "matches r None s [] [] caps"
  obtains p' t v caps' where "rx_find r None s = Some ((p', v), caps')" "s = t @ v" "matches r None t v [] caps'"
proof -
  have "rx_find r None s \<noteq> None"
    using assms unfolding rx_find_None by (metis append_Nil append_Nil2 last_of_simps(1))
  then obtain p' v caps' where f: "rx_find r None s = Some ((p', v), caps')" by fastforce
  then show thesis
  proof (rule rx_find_Some)
    fix u t assume a: "s = u @ t @ v" "matches r (last_of None u) t v [] caps'"
      "\<And>u' t' v caps'. length u' < length u \<Longrightarrow> s = u' @ t' @ v \<Longrightarrow> \<not> matches r (last_of None u') t' v [] caps'"
    have "u = []" using a(3)[of "[]" s "[]" caps] assms by auto
    with a(1,2) f show thesis by (intro that[of p' v caps' t]) simp_all
  qed
qed

text \<open>The three shapes of a duration expression, by what their matches look like.\<close>

lemma reDurDouble_matches:
  "matches reDurDouble p t v [] caps \<longleftrightarrow> p = None \<and> v = [] \<and>
     (\<exists>d s1 s2 w. t = d @ s1 @ ''*'' @ s2 @ ''time.'' @ w \<and> list_all is_digit d \<and> d \<noteq> [] \<and> list_all is_rx_space s1
        \<and> list_all is_rx_space s2 \<and> list_all is_word w \<and> w \<noteq> [] \<and> caps = [(2, w), (1, d)])"
  by (auto simp: reDurDouble_def times_op_def word_group_def matches_simps) (metis append_assoc append_Cons append_Nil)+

lemma reDurTriple_matches:
  "matches reDurTriple p t v [] caps \<longleftrightarrow> p = None \<and> v = [] \<and>
     (\<exists>d s1 s2 e s3 s4 w. t = d @ s1 @ ''*'' @ s2 @ e @ s3 @ ''*'' @ s4 @ ''time.'' @ w
        \<and> list_all is_digit d \<and> d \<noteq> [] \<and> list_all is_rx_space s1 \<and> list_all is_rx_space s2 \<and> list_all is_digit e \<and> e \<noteq> []
        \<and> list_all is_rx_space s3 \<and> list_all is_rx_space s4 \<and> list_all is_word w \<and> w \<noteq> [] \<and> caps = [(3, w), (2, e), (1, d)])"
  by (auto simp: reDurTriple_def times_op_def word_group_def matches_simps) (metis append_assoc append_Cons append_Nil)+

lemma reDurBare_matches:
  "matches reDurBare p t v [] caps \<longleftrightarrow> p = None \<and> v = [] \<and>
     (\<exists>w. t = ''time.'' @ w \<and> list_all is_word w \<and> w \<noteq> [] \<and> caps = [(1, w)])"
  by (auto simp: reDurBare_def word_group_def matches_simps)

lemma span_unique:
  assumes "d @ r = d' @ r'" "list_all P d" "list_all P d'" "stops P r" "stops P r'"
  shows "d = d' \<and> r = r'"
proof -
  have "takeWhile P (x @ y) = x" if "list_all P x" "stops P y" for x y
    using that by (cases y) (auto simp: stops_def list_all_iff)
  then have "d = d'" using assms by metis
  with assms(1) show ?thesis by simp
qed

lemma space_stops: "list_all is_rx_space s \<Longrightarrow> \<not> P (CHR 0x09) \<Longrightarrow> \<not> P (CHR 0x0A) \<Longrightarrow> \<not> P (CHR 0x0C) \<Longrightarrow> \<not> P (CHR 0x0D)
    \<Longrightarrow> \<not> P (CHR '' '') \<Longrightarrow> \<not> P c \<Longrightarrow> stops P (s @ c # r)"
  by (cases s) (auto simp: stops_def is_rx_space_def)

lemma digits_then:
  assumes "d @ s @ c # r = d' @ s' @ c' # r'" "list_all is_digit d" "list_all is_digit d'"
    "list_all is_rx_space s" "list_all is_rx_space s'" "c = CHR ''*''" "c' = CHR ''*''"
  shows "d = d' \<and> s = s' \<and> r = r'"
proof -
  have "stops is_digit (x @ CHR ''*'' # y)" "stops is_rx_space (CHR ''*'' # y)" if "list_all is_rx_space x" for x y
    using that by (auto intro!: space_stops simp: is_digit_def) (simp add: stops_def is_rx_space_def)
  then show ?thesis using assms span_unique[of d "s @ c # r" d' "s' @ c' # r'" is_digit]
      span_unique[of s "c # r" s' "c' # r'" is_rx_space] by auto
qed

lemma space_then:
  assumes "s @ c # r = s' @ c' # r'" "list_all is_rx_space s" "list_all is_rx_space s'" "\<not> is_rx_space c" "\<not> is_rx_space c'"
  shows "s = s' \<and> c = c' \<and> r = r'"
  using span_unique[of s "c # r" s' "c' # r'" is_rx_space] assms by (auto simp: stops_def)

lemma digit_not_space: "is_digit x \<Longrightarrow> \<not> is_rx_space x"
  by (auto simp: is_digit_def is_rx_space_def)

lemma show_nat_is_digits: "list_all is_digit (show_nat n)"
  by (auto simp: list_all_iff show_nat_digits)

lemma unit_name_word: "timeUnits U = Some unit \<Longrightarrow> U \<noteq> [] \<and> list_all is_word U \<and> 0 < unit"
  by (auto simp: timeUnits_def is_word_def in_range_def Second_def Minute_def Hour_def split: if_splits)

lemma Atoi_show: "int n < 2 ^ 63 \<Longrightarrow> Atoi_value (show_nat n) = int n"
  using ParseInt_FormatInt[of "int n"] by (simp add: Atoi_value_def FormatInt_def)

lemma wrap64_id: "- (2 ^ 63) \<le> x \<Longrightarrow> x < 2 ^ 63 \<Longrightarrow> wrap64 x = x"
  by (simp add: wrap64_def)

lemma double_no_triple:
  "triple_duration (show_nat n @ '' * time.'' @ U) = None"
proof -
  have "\<not> matches reDurTriple q t v [] caps" if eq: "show_nat n @ '' * time.'' @ U = u @ t @ v" "q = last_of None u" for q t u v caps
  proof
    assume m: "matches reDurTriple q t v [] caps"
    then have "u = []" "v = []" using that(2) by (auto simp: reDurTriple_matches last_of_def split: if_splits)
    with m obtain d s1 s2 e r where t: "show_nat n @ '' '' @ CHR ''*'' # '' time.'' @ U = d @ s1 @ CHR ''*'' # s2 @ e @ r"
      "list_all is_digit d" "list_all is_rx_space s1" "list_all is_rx_space s2" "list_all is_digit e" "e \<noteq> []"
      using eq(1) by (auto simp: reDurTriple_matches)
    then have "'' time.'' @ U = s2 @ e @ r"
      using digits_then[OF t(1) show_nat_is_digits t(2)] by (simp add: is_rx_space_def)
    moreover obtain x e' where "e = x # e'" "is_digit x" using t(5,6) by (cases e) auto
    ultimately have "'' '' @ CHR ''t'' # ''ime.'' @ U = s2 @ x # e' @ r" by simp
    from space_then[OF this _ t(4) _ digit_not_space[OF \<open>is_digit x\<close>]] show False
      using \<open>is_digit x\<close> by (auto simp: is_rx_space_def is_digit_def)
  qed
  then have "rx_find reDurTriple None (show_nat n @ '' * time.'' @ U) = None"
    unfolding rx_find_None by blast
  then show ?thesis by (simp add: triple_duration_def FindStringSubmatch_def)
qed

lemma double_value:
  assumes U: "timeUnits U = Some unit" and range: "int n * unit < 2 ^ 63"
  shows "double_duration (show_nat n @ '' * time.'' @ U) = Some (int n * unit)"
proof -
  let ?s = "show_nat n @ '' * time.'' @ U"
  note u = unit_name_word[OF U]
  have "matches reDurDouble None ?s [] [] [(2, U), (1, show_nat n)]"
    unfolding reDurDouble_matches
    by (intro conjI refl exI[of _ "show_nat n"] exI[of _ "'' ''"] exI[of _ U])
       (use u in \<open>simp_all add: show_nat_is_digits show_nat_nonempty is_rx_space_def\<close>)
  then obtain p' t' v' caps where f: "rx_find reDurDouble None ?s = Some ((p', v'), caps)" "?s = t' @ v'"
    "matches reDurDouble None t' v' [] caps"
    by (rule find_whole)
  then obtain d s1 s2 w where w: "show_nat n @ '' '' @ CHR ''*'' # '' time.'' @ U = d @ s1 @ CHR ''*'' # s2 @ ''time.'' @ w"
    "list_all is_digit d" "list_all is_rx_space s1" "list_all is_rx_space s2" "caps = [(2, w), (1, d)]"
    by (auto simp: reDurDouble_matches)
  then have "d = show_nat n" and "'' '' @ CHR ''t'' # ''ime.'' @ U = s2 @ CHR ''t'' # ''ime.'' @ w"
    using digits_then[OF w(1) show_nat_is_digits w(2)] by (auto simp: is_rx_space_def)
  moreover from space_then[OF this(2) _ w(4)] have "w = U" by (simp add: is_rx_space_def)
  moreover have "int n \<le> int n * unit" using u mult_left_mono[of 1 unit "int n"] by simp
  ultimately show ?thesis
    using f(1) w(5) U range u Atoi_show[of n] by (simp add: double_duration_def FindStringSubmatch_def submatch_def wrap64_id)
qed

lemma triple_value:
  assumes U: "timeUnits U = Some unit" and range: "int a < 2 ^ 63" "int b < 2 ^ 63" "int a * int b * unit < 2 ^ 63"
  shows "triple_duration (show_nat a @ '' * '' @ show_nat b @ '' * time.'' @ U) = Some (int a * int b * unit)"
proof -
  let ?s = "show_nat a @ '' * '' @ show_nat b @ '' * time.'' @ U"
  note u = unit_name_word[OF U]
  have "matches reDurTriple None ?s [] [] [(3, U), (2, show_nat b), (1, show_nat a)]"
    unfolding reDurTriple_matches
    by (intro conjI refl exI[of _ "show_nat a"] exI[of _ "show_nat b"] exI[of _ "'' ''"] exI[of _ U])
       (use u in \<open>simp_all add: show_nat_is_digits show_nat_nonempty is_rx_space_def\<close>)
  then obtain p' t' v' caps where f: "rx_find reDurTriple None ?s = Some ((p', v'), caps)" "?s = t' @ v'"
    "matches reDurTriple None t' v' [] caps"
    by (rule find_whole)
  then obtain d s1 s2 e s3 s4 w where w: "show_nat a @ '' '' @ CHR ''*'' # '' '' @ show_nat b @ '' * time.'' @ U
      = d @ s1 @ CHR ''*'' # s2 @ e @ s3 @ CHR ''*'' # s4 @ ''time.'' @ w"
    "list_all is_digit d" "list_all is_rx_space s1" "list_all is_rx_space s2" "list_all is_digit e" "e \<noteq> []"
    "list_all is_rx_space s3" "list_all is_rx_space s4" "caps = [(3, w), (2, e), (1, d)]"
    by (auto simp: reDurTriple_matches)
  have d: "d = show_nat a" "'' '' @ show_nat b @ '' * time.'' @ U = s2 @ e @ s3 @ CHR ''*'' # s4 @ ''time.'' @ w"
    using digits_then[OF w(1) show_nat_is_digits w(2)] w(3) by (auto simp: is_rx_space_def)
  have "stops is_rx_space (x @ y)" if "list_all is_digit x" "x \<noteq> []" for x y
    using that digit_not_space by (cases x) (auto simp: stops_def)
  then have st: "stops is_rx_space (show_nat b @ '' * time.'' @ U)" "stops is_rx_space (e @ s3 @ CHR ''*'' # s4 @ ''time.'' @ w)"
    using w(5,6) show_nat_is_digits show_nat_nonempty by blast+
  have e: "show_nat b @ '' '' @ CHR ''*'' # '' time.'' @ U = e @ s3 @ CHR ''*'' # s4 @ ''time.'' @ w"
    using conjunct2[OF span_unique[OF d(2) _ w(4) st]] by (simp add: is_rx_space_def)
  have e': "e = show_nat b" "'' '' @ CHR ''t'' # ''ime.'' @ U = s4 @ CHR ''t'' # ''ime.'' @ w"
    using digits_then[OF e show_nat_is_digits w(5)] w(7) by (auto simp: is_rx_space_def)
  from space_then[OF this(2) _ w(8)] have wU: "w = U" by (simp add: is_rx_space_def)
  have "int a * int b \<le> int a * int b * unit" using u mult_left_mono[of 1 unit "int a * int b"] by simp
  moreover have prod: "0 \<le> int a * int b" "0 \<le> int a * int b * unit" using u by simp_all
  ultimately have "wrap64 (int a * int b) = int a * int b" "wrap64 (int a * int b * unit) = int a * int b * unit"
    using range(3) prod u by (intro wrap64_id; simp; linarith)+
  then show ?thesis
    using f(1) w(9) d(1) e'(1) wU U Atoi_show[OF range(1)] Atoi_show[OF range(2)]
    by (simp add: triple_duration_def FindStringSubmatch_def submatch_def)
qed

lemma bare_value:
  assumes U: "timeUnits U = Some unit"
  shows "triple_duration (''time.'' @ U) = None \<and> double_duration (''time.'' @ U) = None \<and> bare_duration (''time.'' @ U) = Some unit"
proof (intro conjI)
  let ?s = "''time.'' @ U"
  note u = unit_name_word[OF U]
  have no: "u @ t @ v = ?s \<Longrightarrow> last_of None u = None \<Longrightarrow> d @ r = t @ v \<Longrightarrow> list_all is_digit d \<Longrightarrow> d = []" for u t v d r
    by (cases d; cases u) (auto simp: last_of_def is_digit_def split: if_splits)
  have "rx_find reDurTriple None ?s = None"
    unfolding rx_find_None reDurTriple_matches using no by (metis append_assoc)
  then show "triple_duration ?s = None" by (simp add: triple_duration_def FindStringSubmatch_def)
  have "rx_find reDurDouble None ?s = None"
    unfolding rx_find_None reDurDouble_matches using no by (metis append_assoc)
  then show "double_duration ?s = None" by (simp add: double_duration_def FindStringSubmatch_def)
  have "matches reDurBare None ?s [] [] [(1, U)]" using u by (simp add: reDurBare_matches)
  then obtain p' t v caps where f: "rx_find reDurBare None ?s = Some ((p', v), caps)" "?s = t @ v" "matches reDurBare None t v [] caps"
    by (rule find_whole)
  then have "caps = [(1, U)]" by (auto simp: reDurBare_matches)
  then show "bare_duration ?s = Some unit" using f(1) U by (simp add: bare_duration_def FindStringSubmatch_def submatch_def)
qed

lemma TrimSpace_expr:
  assumes "timeUnits U = Some unit" "s \<noteq> []" "\<not> is_space (hd s)"
  shows "TrimSpace (s @ ''time.'' @ U) = s @ ''time.'' @ U"
proof -
  have "\<not> is_space (last U)" "U \<noteq> []" using assms(1) by (auto simp: timeUnits_def is_space_def split: if_splits)
  then show ?thesis using assms(2,3) unfolding TrimSpace_def by (intro str_trim_id) auto
qed

text \<open>
  A duration as \<open>config.go\<close> writes it, with the value the Go expression has: a unit, a number of units,
  or a product of two numbers of units.
\<close>

inductive duration_expr :: "string \<Rightarrow> duration \<Rightarrow> bool" where
  bare: "timeUnits U = Some unit \<Longrightarrow> duration_expr (''time.'' @ U) unit"
| double: "timeUnits U = Some unit \<Longrightarrow> int n * unit < 2 ^ 63 \<Longrightarrow>
    duration_expr (show_nat n @ '' * time.'' @ U) (int n * unit)"
| triple: "timeUnits U = Some unit \<Longrightarrow> int a < 2 ^ 63 \<Longrightarrow> int b < 2 ^ 63 \<Longrightarrow> int a * int b * unit < 2 ^ 63 \<Longrightarrow>
    duration_expr (show_nat a @ '' * '' @ show_nat b @ '' * time.'' @ U) (int a * int b * unit)"

lemma digits_head: "show_nat n \<noteq> [] \<and> \<not> is_space (hd (show_nat n))"
  using show_nat_digits[of "hd (show_nat n)" n] show_nat_nonempty[of n] by (auto simp: is_digit_def is_space_def)

lemma timeUnits_range: "timeUnits U = Some unit \<Longrightarrow> 0 < unit \<and> unit < 2 ^ 63"
  by (auto simp: timeUnits_def Second_def Minute_def Hour_def split: if_splits)

lemma renderDefault_duration:
  assumes "duration_expr raw d" "consts raw = None"
  shows "renderDefault raw consts = Duration_String d \<and> 0 \<le> d \<and> d < 2 ^ 63"
  using assms
proof (induction rule: duration_expr.induct)
  case (bare U unit)
  have "TrimSpace (''time.'' @ U) = ''time.'' @ U"
  proof -
    have "\<not> is_space (last U)" "U \<noteq> []" using bare(1) by (auto simp: timeUnits_def is_space_def split: if_splits)
    then show ?thesis unfolding TrimSpace_def by (intro str_trim_id) (auto simp: is_space_def)
  qed
  then show ?case using bare bare_value[OF bare(1)] timeUnits_range[OF bare(1)] by (simp add: renderDefault_def)
next
  case (double U unit n)
  have "TrimSpace (show_nat n @ '' * time.'' @ U) = show_nat n @ '' * time.'' @ U"
    using TrimSpace_expr[OF double(1), of "show_nat n @ '' * ''"] digits_head[of n] by simp
  then show ?case
    using double double_no_triple[of n U] double_value[OF double(1,2)] timeUnits_range[OF double(1)] by (simp add: renderDefault_def)
next
  case (triple U unit a b)
  have "TrimSpace (show_nat a @ '' * '' @ show_nat b @ '' * time.'' @ U) = show_nat a @ '' * '' @ show_nat b @ '' * time.'' @ U"
    using TrimSpace_expr[OF triple(1), of "show_nat a @ '' * '' @ show_nat b @ '' * ''"] digits_head[of a] by simp
  then show ?case
    using triple triple_value[OF triple(1-4)] timeUnits_range[OF triple(1)] by (simp add: renderDefault_def)
qed

text \<open>
  C35. A documented duration is the default: when a loader's default is written as a unit, a number of
  units or a product of two numbers of units, typing the text the reference shows for it into the
  variable makes the loader read exactly that duration.
\<close>

theorem documented_duration_is_default:
  assumes "duration_expr raw d" "consts raw = None" "ParseDuration lib = time_ParseDuration"
    "env key = renderDefault raw consts"
  shows "getDurationEnv lib env key def = Inr d"
proof -
  have r: "env key = Duration_String d" "0 \<le> d" "d < 2 ^ 63"
    using renderDefault_duration[of raw d "consts", OF assms(1,2)] assms(4) by simp_all
  then have "time_ParseDuration (env key) = Some d" by (simp add: ParseDuration_String)
  moreover have "env key \<noteq> []" using r format_duration_head[of "nat d"] by (simp add: Duration_String_def)
  ultimately show ?thesis using assms(3) by (simp add: getDurationEnv_def parse_env_def)
qed

lemma documented_duration_is_default_witness:
  "getDurationEnv (demo_config_lib\<lparr>ParseDuration := time_ParseDuration\<rparr>)
     (\<lambda>_. renderDefault ''30 * 24 * time.Hour'' Map.empty) ''GC_RETENTION_PERIOD'' 0 = Inr (30 * 24 * Hour)"
proof -
  have n: "show_nat 30 = ''30''" "show_nat 24 = ''24''" by code_simp+
  have "timeUnits ''Hour'' = Some Hour" by (simp add: timeUnits_def)
  from triple[OF this, of 30 24] have "duration_expr ''30 * 24 * time.Hour'' (30 * 24 * Hour)"
    by (simp add: n Hour_def Minute_def Second_def)
  from documented_duration_is_default[OF this, of Map.empty "demo_config_lib\<lparr>ParseDuration := time_ParseDuration\<rparr>"
      "\<lambda>_. renderDefault ''30 * 24 * time.Hour'' Map.empty"]
  show ?thesis by simp
qed

section \<open>Variables and required marks\<close>

text \<open>What a match of one of the searched expressions says of the text around it.\<close>

definition env_name :: "string \<Rightarrow> bool" where
  "env_name v \<longleftrightarrow> v \<noteq> [] \<and> list_all is_env_char v"

definition quoted_in :: "string \<Rightarrow> string \<Rightarrow> bool" where
  "quoted_in v text \<longleftrightarrow> env_name v \<and> sublist (''(\"'' @ v @ ''\"'') text"

lemma sublist_right: "sublist x s \<Longrightarrow> sublist x (c # s)"
  by (simp add: sublist_Cons_right)

lemmas sublist_intros = sublist_right sublist_append_leftI sublist_append_rightI

lemma quoted_here: "env_name v \<Longrightarrow> quoted_in v (CHR ''('' # quote_char # v @ quote_char # s)"
  using sublist_append_rightI[of "''(\"'' @ v @ ''\"''" s] by (simp add: quoted_in_def quote_char_def)

lemma quoted_skip: "c \<noteq> CHR ''('' \<Longrightarrow> quoted_in v (c # s) \<longleftrightarrow> quoted_in v s"
  by (simp add: quoted_in_def sublist_Cons_right)

lemma quoted_later: "quoted_in v s \<Longrightarrow> quoted_in v (t @ s)"
  using sublist_append_leftI[of s t] sublist_order.order.trans by (auto simp: quoted_in_def)

lemma env_arg_matches:
  "matches (env_arg n) p t s caps caps' \<longleftrightarrow> (\<exists>v. env_name v \<and> t = CHR ''('' # quote_char # v @ [quote_char] \<and> caps' = (n, v) # caps)"
  by (auto simp: env_arg_def env_name_def quote_char_def matches_simps)

lemma default_arg_matches:
  "matches (default_arg n) p t s caps caps' \<Longrightarrow> \<exists>u v. t = CHR '','' # u @ v @ '')'' \<and> caps' = (n, v) # caps"
  by (auto simp: default_arg_def matches_simps)

lemmas reads_simps = word_group_def matches_simps env_arg_matches submatch_def

lemma getenv_matches:
  "matches reCompositeGetEnv p t s [] caps \<Longrightarrow> quoted_in (submatch caps 2) t"
  "matches reIfGetEnv p t s [] caps \<Longrightarrow> quoted_in (submatch caps 2) t"
  by (auto simp: reCompositeGetEnv_def reIfGetEnv_def reads_simps quoted_skip dest!: default_arg_matches intro!: quoted_here quoted_later)

lemma osgetenv_matches:
  "matches reCompositeOsGetenv p t s [] caps \<Longrightarrow> quoted_in (submatch caps 2) t"
  "matches reBareOsGetenv p t s [] caps \<Longrightarrow> quoted_in (submatch caps 2) t"
  "matches reLocalOsGetenv p t s [] caps \<Longrightarrow> quoted_in (submatch caps 2) t"
  "matches reLocalGetEnv p t s [] caps \<Longrightarrow> quoted_in (submatch caps 2) t"
  by (auto simp: reCompositeOsGetenv_def reBareOsGetenv_def reLocalOsGetenv_def reLocalGetEnv_def reads_simps quoted_skip intro!: quoted_here quoted_later)

definition key_read :: "string \<Rightarrow> string \<Rightarrow> bool" where
  "key_read body v \<longleftrightarrow> sublist (''requireECKeyEnv(\"'' @ v @ ''\")'') body"

definition checked :: "string \<Rightarrow> string \<Rightarrow> bool" where
  "checked body x \<longleftrightarrow> sublist (''if '' @ x @ '' == \"\" {'') body"

definition local_reads :: "string \<Rightarrow> string \<Rightarrow> string \<Rightarrow> bool" where
  "local_reads body l v \<longleftrightarrow> sublist (l @ '' := os.Getenv(\"'' @ v @ ''\")'') body \<or> sublist (l @ '' := getEnv(\"'' @ v @ ''\",'') body"

lemma sublist_cong_append: "sublist x s \<Longrightarrow> sublist x (t @ s)"
  using sublist_append_leftI sublist_order.order.trans by blast

lemma require_key_matches:
  assumes "matches reIfRequireKey p t s [] caps"
  shows "quoted_in (submatch caps 2) t \<and> key_read t (submatch caps 2)"
proof -
  obtain w v where t: "t = ''if c.'' @ w @ '', err = '' @ ''requireECKeyEnv(\"'' @ v @ ''\")'' @ '';''" and v: "env_name v" "submatch caps 2 = v"
    using assms by (auto simp: reIfRequireKey_def reads_simps quote_char_def)
  have "key_read t v" unfolding key_read_def t
    using sublist_appendI[of "''requireECKeyEnv(\"'' @ v @ ''\")''" "''if c.'' @ w @ '', err = ''" "'';''"] by simp
  moreover have "quoted_in v t" unfolding t using v(1)
    by (auto simp: quoted_skip quote_char_def intro!: quoted_later quoted_here[unfolded quote_char_def])
  ultimately show ?thesis using v by simp
qed

lemma local_matches:
  "matches reLocalOsGetenv p t s [] caps \<Longrightarrow> local_reads t (submatch caps 1) (submatch caps 2)"
  "matches reLocalGetEnv p t s [] caps \<Longrightarrow> local_reads t (submatch caps 1) (submatch caps 2)"
proof -
  assume "matches reLocalOsGetenv p t s [] caps"
  then show "local_reads t (submatch caps 1) (submatch caps 2)"
    by (auto simp: reLocalOsGetenv_def local_reads_def quote_char_def reads_simps)
next
  assume "matches reLocalGetEnv p t s [] caps"
  then obtain w v u x where "t = (w @ '' := getEnv(\"'' @ v @ ''\",'') @ u @ ''\"'' @ x @ ''\")''" "submatch caps 1 = w" "submatch caps 2 = v"
    by (auto simp: reLocalGetEnv_def quote_char_def reads_simps)
  then show "local_reads t (submatch caps 1) (submatch caps 2)"
    unfolding local_reads_def by (metis sublist_append_rightI)
qed

lemma check_matches:
  "matches reRequiredCheck p t s [] caps \<longleftrightarrow>
     (\<exists>w. w \<noteq> [] \<and> list_all is_word w \<and> ((t = ''if c.'' @ w @ '' == \"\" {'' \<and> caps = [(1, w)])
        \<or> (t = ''if '' @ w @ '' == \"\" {'' \<and> caps = [(2, w)])))"
  by (auto simp: reRequiredCheck_def word_group_def matches_simps)

text \<open>A match among those listed is a match in the text.\<close>

lemma match_in:
  assumes "m \<in> set (FindAllStringSubmatch r body)"
  obtains p t v where "matches r p t v [] m" "sublist t body"
  using assms find_all_matches[of m r None body] by (auto simp: FindAllStringSubmatch_def)

lemma pass_inv:
  assumes "\<And>m s. m \<in> set (FindAllStringSubmatch r body) \<Longrightarrow> I s \<Longrightarrow> I (f m s)" "I s"
  shows "I (pass r body f s)"
proof -
  have "I (fold f ms s)" if "set ms \<subseteq> set (FindAllStringSubmatch r body)" "I s" for ms s
    using that assms(1) by (induction ms arbitrary: s) auto
  then show ?thesis using assms(2) by (simp add: pass_def)
qed

text \<open>What every binding, and every binding of a local variable, has in the text.\<close>

definition shown_required :: "string \<Rightarrow> string \<Rightarrow> string \<Rightarrow> bool" where
  "shown_required body f v \<longleftrightarrow>
     key_read body v \<or> checked body (''c.'' @ f) \<or> (\<exists>l. local_reads body l v \<and> checked body l)"

definition sound_binding :: "string \<Rightarrow> string \<Rightarrow> envBinding \<Rightarrow> bool" where
  "sound_binding body f b \<longleftrightarrow> quoted_in (envVar b) body
     \<and> (required b \<longrightarrow> defValue b = [] \<and> shown_required body f (envVar b))"

definition sound_local :: "string \<Rightarrow> string \<Rightarrow> envBinding \<Rightarrow> bool" where
  "sound_local body l b \<longleftrightarrow> quoted_in (envVar b) body \<and> local_reads body l (envVar b)
     \<and> (required b \<longrightarrow> defValue b = [] \<and> checked body l)"

definition all_bindings :: "(string \<Rightarrow> envBinding \<Rightarrow> bool) \<Rightarrow> bindings \<Rightarrow> bool" where
  "all_bindings P bs \<longleftrightarrow> (\<forall>f b. bs f = Some b \<longrightarrow> P f b)"

lemma all_bindings_upd: "all_bindings P bs \<Longrightarrow> P f b \<Longrightarrow> all_bindings P (bs(f \<mapsto> b))"
  by (simp add: all_bindings_def)

lemma all_bindings_empty: "all_bindings P Map.empty"
  by (simp add: all_bindings_def)

lemma in_body: "sublist t body \<Longrightarrow> quoted_in v t \<Longrightarrow> quoted_in v body"
  "sublist t body \<Longrightarrow> key_read t v \<Longrightarrow> key_read body v"
  "sublist t body \<Longrightarrow> local_reads t l v \<Longrightarrow> local_reads body l v"
  unfolding quoted_in_def key_read_def local_reads_def by (blast intro: sublist_order.order.trans)+

lemma sound_plain: "quoted_in v body \<Longrightarrow> sound_binding body f (binding v d)"
  by (simp add: sound_binding_def binding_def)

lemma find_reads:
  assumes "m \<in> set (FindAllStringSubmatch r body)" "\<And>p t v. matches r p t v [] m \<Longrightarrow> quoted_in (submatch m 2) t"
  shows "quoted_in (submatch m 2) body"
  using match_in[OF assms(1)] assms(2) in_body(1) by metis

lemma plain_upd:
  assumes "m \<in> set (FindAllStringSubmatch r body)" "\<And>p t v. matches r p t v [] m \<Longrightarrow> quoted_in (submatch m 2) t"
    "all_bindings (sound_binding body) bs"
  shows "all_bindings (sound_binding body) (bs(f \<mapsto> binding (submatch m 2) d))"
  using all_bindings_upd[of "sound_binding body", OF assms(3) sound_plain[OF find_reads[OF assms(1,2)]]] .

lemma read_passes:
  assumes "all_bindings (sound_binding body) bs"
  shows "all_bindings (sound_binding body) (bind_composite body c bs)"
    "all_bindings (sound_binding body) (bind_composite_os body bs)"
    "all_bindings (sound_binding body) (bind_if_getenv body c pl bs)"
    "all_bindings (sound_binding body) (bind_bare_os body bs)"
    "all_bindings (sound_binding body) (bind_require_key body bs)"
proof -
  note by_pass = pass_inv[where I = "all_bindings (sound_binding body)", OF _ assms]
  show "all_bindings (sound_binding body) (bind_composite body c bs)"
    unfolding bind_composite_def by (rule by_pass, rule plain_upd) (auto dest: getenv_matches)
  show "all_bindings (sound_binding body) (bind_composite_os body bs)"
    unfolding bind_composite_os_def by (rule by_pass, rule plain_upd) (auto dest: osgetenv_matches)
  show "all_bindings (sound_binding body) (bind_if_getenv body c pl bs)"
    unfolding bind_if_getenv_def Let_def by (rule by_pass, rule plain_upd) (auto dest: getenv_matches)
  show "all_bindings (sound_binding body) (bind_bare_os body bs)"
    unfolding bind_bare_os_def by (rule by_pass, rule plain_upd) (auto dest: osgetenv_matches)
  show "all_bindings (sound_binding body) (bind_require_key body bs)"
    unfolding bind_require_key_def
  proof (rule by_pass, rule all_bindings_upd)
    fix m assume "m \<in> set (FindAllStringSubmatch reIfRequireKey body)"
    then obtain p t v where "matches reIfRequireKey p t v [] m" and t: "sublist t body" by (rule match_in)
    then have "quoted_in (submatch m 2) body" "key_read body (submatch m 2)"
      using require_key_matches in_body(1,2)[OF t] by blast+
    then show "sound_binding body (submatch m 1)
       \<lparr>envVar = submatch m 2, defValue = [], required = True, bnote = ''PEM-encoded EC private key''\<rparr>"
      by (simp add: sound_binding_def shown_required_def)
  qed
qed

lemma local_bindings_sound:
  "all_bindings (\<lambda>l b. sound_local body l b \<and> \<not> required b) (local_bindings body)"
proof -
  let ?I = "all_bindings (\<lambda>l b. sound_local body l b \<and> \<not> required b)"
  have upd: "?I (ls(submatch m 1 \<mapsto> binding (submatch m 2) d))"
    if mem: "m \<in> set (FindAllStringSubmatch r body)" and ls: "?I ls" and r: "r = reLocalOsGetenv \<or> r = reLocalGetEnv" for m r ls d
  proof -
    obtain p t v where m: "matches r p t v [] m" and t: "sublist t body" using mem by (rule match_in)
    have "quoted_in (submatch m 2) t" "local_reads t (submatch m 1) (submatch m 2)"
      using m r osgetenv_matches(3,4) local_matches by blast+
    then have "sound_local body (submatch m 1) (binding (submatch m 2) d)"
      using in_body(1,3)[OF t] by (simp add: sound_local_def binding_def)
    then show ?thesis using ls by (intro all_bindings_upd) (simp_all add: binding_def)
  qed
  show ?thesis unfolding local_bindings_def
    by (intro pass_inv[where I = ?I] all_bindings_empty upd) auto
qed

lemma attribute_sound:
  assumes "all_bindings (sound_binding body) bs" "all_bindings (\<lambda>l b. sound_local body l b \<and> \<not> required b) ls"
  shows "all_bindings (sound_binding body) (attribute ls f l n bs)"
  using assms by (auto simp: attribute_def all_bindings_def sound_local_def sound_binding_def split: option.splits)

lemma local_passes:
  assumes "all_bindings (sound_binding body) bs" "all_bindings (\<lambda>l b. sound_local body l b \<and> \<not> required b) ls"
  shows "all_bindings (sound_binding body) (bind_split body ls bs)" "all_bindings (sound_binding body) (bind_json body ls bs)"
  unfolding bind_split_def bind_json_def
  by (intro pass_inv[where I = "all_bindings (sound_binding body)"] attribute_sound assms; assumption)+

lemma require_one_sound:
  assumes m: "m \<in> set (FindAllStringSubmatch reRequiredCheck body)"
    and I: "all_bindings (sound_binding body) bs" "all_bindings (sound_local body) ls"
  shows "all_bindings (sound_binding body) (fst (require_one m (bs, ls))) \<and> all_bindings (sound_local body) (snd (require_one m (bs, ls)))"
proof -
  obtain p t v where "matches reRequiredCheck p t v [] m" and t: "sublist t body" using m by (rule match_in)
  then obtain w where w: "w \<noteq> []" "(submatch m 1 = w \<and> checked body (''c.'' @ w)) \<or> (submatch m 1 = [] \<and> submatch m 2 = w \<and> checked body w)"
    by (auto simp: check_matches checked_def submatch_def)
  show ?thesis
  proof (cases "submatch m 1 = []")
    case False
    then show ?thesis using w I
      by (auto simp: require_one_def all_bindings_def sound_binding_def shown_required_def make_required_def Let_def split: option.splits)
  next
    case True
    then have c: "checked body (submatch m 2)" using w by auto
    show ?thesis
    proof (cases "ls (submatch m 2)")
      case None
      then show ?thesis using True I by (simp add: require_one_def Let_def)
    next
      case (Some l)
      then have l: "sound_local body (submatch m 2) l" using I(2) by (simp add: all_bindings_def)
      then show ?thesis using True Some I c
        by (auto simp: require_one_def all_bindings_def sound_binding_def sound_local_def shown_required_def make_required_def Let_def; blast)
    qed
  qed
qed

text \<open>
  C36. The reference invents nothing: a variable shown for a field is the quoted argument of a call in
  the loader's text, made of the characters of a variable name; and a field shown as required has no
  default beside it, and the text either reads its key with \<open>requireECKeyEnv\<close>, or compares the field
  with the empty string, or compares a local variable that was read from that same variable.
\<close>

theorem documented_bindings_are_in_the_loader:
  assumes "bindEnvVars body consts f = Some b"
  shows "env_name (envVar b) \<and> sublist (''(\"'' @ envVar b @ ''\"'') body
    \<and> (required b \<longrightarrow> defValue b = [] \<and> (key_read body (envVar b) \<or> checked body (''c.'' @ f)
        \<or> (\<exists>l. local_reads body l (envVar b) \<and> checked body l)))"
proof -
  have "all_bindings (sound_binding body) bs \<Longrightarrow> all_bindings (sound_local body) ls \<Longrightarrow>
      all_bindings (sound_binding body) (bind_required body ls bs)" for bs ls
    unfolding bind_required_def
    using pass_inv[of reRequiredCheck body "\<lambda>(bs, ls). all_bindings (sound_binding body) bs \<and> all_bindings (sound_local body) ls"
        require_one "(bs, ls)"] require_one_sound[of _ body]
    by (fastforce split: prod.splits)
  moreover have "all_bindings (sound_local body) (local_bindings body)"
    using local_bindings_sound[of body] by (simp add: all_bindings_def)
  moreover have "all_bindings (sound_binding body) (bind_json body ls (bind_split body ls (bind_bare_os body (bind_require_key body
      (bind_if_getenv body consts pl (bind_composite_os body (bind_composite body consts Map.empty)))))))"
    if "ls = local_bindings body" for ls pl
    unfolding that by (intro local_passes read_passes all_bindings_empty local_bindings_sound)
  ultimately have "all_bindings (sound_binding body) (bindEnvVars body consts)"
    unfolding bindEnvVars_def Let_def by blast
  then show ?thesis using assms by (simp add: all_bindings_def sound_binding_def shown_required_def quoted_in_def)
qed

subsection \<open>No check is overlooked\<close>

text \<open>
  Successive matches cannot skip a match that does not overlap an earlier one; and two required checks
  never overlap.
\<close>

definition apart :: "rx \<Rightarrow> bool" where
  "apart r \<longleftrightarrow> (\<forall>p u t v caps k t' v' caps'. t @ v = k @ t' @ v' \<longrightarrow> matches r (last_of p u) t v [] caps \<longrightarrow>
     matches r (last_of p (u @ k)) t' v' [] caps' \<longrightarrow> k \<noteq> [] \<longrightarrow> length t \<le> length k)"

lemma append_split_le:
  assumes "a @ x = b @ y" "length a \<le> length b"
  obtains k where "b = a @ k" "x = k @ y"
proof -
  have "a = take (length a) (b @ y)" "x = drop (length a) (b @ y)" using assms(1) by (metis append_eq_conv_conj)+
  then show thesis using assms(2) that[of "drop (length a) b"] by (simp, metis append_take_drop_id)
qed

lemma find_all_complete:
  "apart r \<Longrightarrow> nonempty_rx r \<Longrightarrow> s = u @ t @ v \<Longrightarrow> matches r (last_of p u) t v [] caps \<Longrightarrow>
    \<exists>caps'\<in>set (find_all r p s). \<exists>t' v'. t @ v = t' @ v' \<and> matches r (last_of p u) t' v' [] caps'"
proof (induction r p s arbitrary: u rule: find_all.induct)
  case (1 r p s)
  from "1.prems" have "rx_find r p s \<noteq> None" unfolding rx_find_None by blast
  then obtain p' s' c where f: "rx_find r p s = Some ((p', s'), c)" by fastforce
  then show ?case
  proof (rule rx_find_Some)
    fix u0 t0
    assume m0: "s = u0 @ t0 @ s'" "p' = last_of p (u0 @ t0)" "matches r (last_of p u0) t0 s' [] c"
      and first: "\<And>u' t' v caps'. length u' < length u0 \<Longrightarrow> s = u' @ t' @ v \<Longrightarrow> \<not> matches r (last_of p u') t' v [] caps'"
    have le: "length u0 \<le> length u" using first[of u t v caps] "1.prems"(3,4) by (meson not_le)
    have found: "find_all r p s = c # (if s' = s then [] else find_all r p' s')"
      using f by (subst find_all.simps) simp
    obtain k where k: "u = u0 @ k" "t0 @ s' = k @ t @ v"
      using append_split_le[OF _ le, of "t0 @ s'" "t @ v"] m0(1) "1.prems"(3) by metis
    show ?case
    proof (cases "k = []")
      case True
      then have "t @ v = t0 @ s'" "matches r (last_of p u) t0 s' [] c" using k m0(3) by simp_all
      moreover have "c \<in> set (find_all r p s)" by (simp add: found)
      ultimately show ?thesis by blast
    next
      case False
      have "length t0 \<le> length k"
        using "1.prems"(1)[unfolded apart_def, rule_format, OF k(2) m0(3) _ False] "1.prems"(4) k(1) by simp
      with k(2) obtain k' where k': "k = t0 @ k'" "s' = k' @ t @ v" by (rule append_split_le)
      have "s' \<noteq> s" using m0(1) nonempty_rx_matches[OF m0(3) "1.prems"(2)] by auto
      moreover have "last_of p' k' = last_of p u" using m0(2) k(1) k'(1) by simp
      ultimately show ?thesis
        using "1.IH"[OF f refl refl _ "1.prems"(1,2) k'(2)] "1.prems"(4) found by auto
    qed
  qed
qed

lemma word_no: "list_all is_word w \<Longrightarrow> CHR '' '' \<notin> set w \<and> CHR ''='' \<notin> set w \<and> CHR ''.'' \<notin> set w"
  by (auto simp: list_all_iff is_word_def in_range_def is_digit_def)

lemma check_apart: "apart reRequiredCheck"
  unfolding apart_def
proof (intro allI impI)
  fix p :: "char option" and u t v caps k t' v' caps'
  assume eq: "t @ v = k @ t' @ v'" and m: "matches reRequiredCheck (last_of p u) t v [] caps"
    and m': "matches reRequiredCheck (last_of p (u @ k)) t' v' [] caps'" and k: "k \<noteq> []"
  let ?T = "'' == \"\" {''"
  obtain x where t: "t = ''if '' @ x @ ?T" and x: "CHR '' '' \<notin> set x"
  proof -
    from m obtain w where "list_all is_word w" "t = ''if '' @ (''c.'' @ w) @ ?T \<or> t = ''if '' @ w @ ?T"
      by (auto simp: check_matches)
    then show thesis using that[of "''c.'' @ w"] that[of w] word_no[of w] by auto
  qed
  obtain x' y where t': "t' = ''if '' @ y # x' @ ?T" and y: "y \<noteq> CHR ''=''"
  proof -
    from m' obtain w where w: "w \<noteq> []" "list_all is_word w" "t' = ''if '' @ (CHR ''c'' # ''.'' @ w) @ ?T \<or> t' = ''if '' @ w @ ?T"
      by (auto simp: check_matches)
    moreover obtain a w' where "w = a # w'" "a \<noteq> CHR ''=''"
      using w(1,2) word_no[of w] by (cases w) auto
    ultimately show thesis using that[of "CHR ''c''" "''.'' @ w"] that[of a w'] by auto
  qed
  show "length t \<le> length k"
  proof (rule ccontr)
    assume "\<not> length t \<le> length k"
    then have "length k \<le> length t" "length k \<noteq> length t" by simp_all
    with eq[symmetric] obtain r where r: "t = k @ r" "r \<noteq> []" "t' @ v' = r @ v"
      using append_split_le[of k "t' @ v'" t v] by (metis append_Nil2)
    then have head: "hd r = CHR ''i''" using t' by (metis append_Cons hd_append2 list.sel(1))
    from k r(1) t obtain k1 where "''f '' @ x @ ?T = k1 @ r" by (cases k) auto
    then obtain k2 where "'' '' @ x @ ?T = k2 @ r" using head by (cases k1) auto
    then obtain k3 where k3: "x @ ?T = k3 @ r" using head by (cases k2) auto
    have no_i: "CHR ''i'' \<notin> set ?T" by simp
    have "length k3 \<le> length x"
    proof (rule ccontr)
      assume "\<not> length k3 \<le> length x"
      then obtain q where "?T = q @ r" using append_split_le[OF k3] by (metis nat_le_linear)
      then have "set r \<subseteq> set ?T" by (metis Un_upper2 set_append)
      then show False using head r(2) no_i hd_in_set[of r] by auto
    qed
    with k3[symmetric] obtain z where z: "x = k3 @ z" "r = z @ ?T" by (rule append_split_le)
    then have "z @ ?T @ v = ''if '' @ y # x' @ ?T @ v'" using r(3) t' by simp
    moreover have "CHR '' '' \<notin> set z" using x z by simp
    ultimately show False using y
      by (cases z; cases "tl z"; cases "tl (tl z)") auto
  qed
qed

lemma check_found:
  assumes "body = u @ (''if '' @ x @ '' == \"\" {'') @ v" "w \<noteq> []" "list_all is_word w" "x = ''c.'' @ w \<or> x = w"
  shows "[(if x = ''c.'' @ w then 1 else 2, w)] \<in> set (FindAllStringSubmatch reRequiredCheck body)"
proof -
  let ?t = "''if '' @ x @ '' == \"\" {''" and ?m = "[(if x = ''c.'' @ w then 1 else 2::nat, w)]"
  have xw: "''c.'' @ w \<noteq> w" by (metis append_self_conv2 list.distinct(1))
  have m: "matches reRequiredCheck q ?t v [] ?m" for q
    using assms(2-4) xw unfolding check_matches by (intro exI[of _ w]) auto
  have "nonempty_rx reRequiredCheck" by (simp add: reRequiredCheck_def)
  from find_all_complete[OF check_apart this assms(1) m] obtain caps t' v'
    where c: "caps \<in> set (find_all reRequiredCheck None body)" "?t @ v = t' @ v'" "matches reRequiredCheck (last_of None u) t' v' [] caps"
    by blast
  have st: "stops is_word ('' == \"\" {'' @ y)" for y by (simp add: stops_def is_word_def in_range_def is_digit_def)
  have dot: "stops is_word (CHR ''.'' # y)" for y by (simp add: stops_def is_word_def in_range_def is_digit_def)
  have cw: "list_all is_word ''c''" by (simp add: is_word_def in_range_def)
  obtain w' where w': "list_all is_word w'"
    "(t' = ''if c.'' @ w' @ '' == \"\" {'' \<and> caps = [(1, w')]) \<or> (t' = ''if '' @ w' @ '' == \"\" {'' \<and> caps = [(2, w')])"
    using c(3) by (auto simp: check_matches)
  have same: "y = y'" if "y @ '' == \"\" {'' @ v = y' @ '' == \"\" {'' @ v'" "list_all is_word y" "list_all is_word y'" for y y'
    using span_unique[OF that(1) that(2,3) st st] by simp
  have differ: False if "''c'' @ CHR ''.'' # z = y @ '' == \"\" {'' @ z'" "list_all is_word y" for y z z'
    using span_unique[OF that(1) cw that(2) dot st] by simp
  have "caps = ?m"
    using assms(4) w'(2)
  proof (elim disjE conjE)
    assume "x = ''c.'' @ w" "t' = ''if c.'' @ w' @ '' == \"\" {''" "caps = [(1, w')]"
    then show ?thesis using same[of w w'] c(2) assms(3) w'(1) by simp
  next
    assume "x = ''c.'' @ w" "t' = ''if '' @ w' @ '' == \"\" {''" "caps = [(2, w')]"
    then show ?thesis using differ[of _ w'] c(2) w'(1) by simp
  next
    assume "x = w" "t' = ''if c.'' @ w' @ '' == \"\" {''" "caps = [(1, w')]"
    then show ?thesis using differ[of _ w] c(2)[symmetric] assms(3) by simp
  next
    assume "x = w" "t' = ''if '' @ w' @ '' == \"\" {''" "caps = [(2, w')]"
    then show ?thesis using same[of w w'] c(2) assms(3) w'(1) xw by simp
  qed
  with c(1) show ?thesis by (simp add: FindAllStringSubmatch_def)
qed

text \<open>Once a field is marked it stays marked, and the variable of a local stays what it was.\<close>

lemma make_required_simps [simp]: "required (make_required b)" "defValue (make_required b) = []" "envVar (make_required b) = envVar b"
  by (simp_all add: make_required_def)

definition marked :: "(string \<Rightarrow> envBinding \<Rightarrow> bool) \<Rightarrow> bindings \<times> bindings \<Rightarrow> bool" where
  "marked P s \<longleftrightarrow> (\<forall>f b. fst s f = Some b \<and> P f b \<longrightarrow> required b \<and> defValue b = [])"

lemma require_one_marked:
  assumes "marked P s" "\<And>f b. P f (make_required b) = P f b"
  shows "marked P (require_one m s)"
proof -
  obtain bs ls where [simp]: "s = (bs, ls)" by (cases s)
  show ?thesis using assms unfolding marked_def
    by (auto simp: require_one_def Let_def split: option.splits if_splits)
qed

lemma require_one_locals: "map_option envVar (snd (require_one m s) l) = map_option envVar (snd s l)"
  by (cases s) (auto simp: require_one_def make_required_def Let_def split: option.splits)

lemma fold_marked:
  assumes "m \<in> set ms" "\<And>s. map_option envVar (snd s l) = e \<Longrightarrow> marked P (require_one m s)"
    "\<And>f b. P f (make_required b) = P f b" "map_option envVar (snd s l) = e"
  shows "marked P (fold require_one ms s)"
proof -
  obtain xs ys where ms: "ms = xs @ m # ys" using assms(1) by (meson split_list)
  have "map_option envVar (snd (fold require_one xs s) l) = e"
    using assms(4) by (induction xs arbitrary: s) (auto simp: require_one_locals)
  then have "marked P (require_one m (fold require_one xs s))" by (rule assms(2))
  then have "marked P (fold require_one ys (require_one m (fold require_one xs s)))"
    by (induction ys arbitrary: s rule: rev_induct) (auto intro!: require_one_marked assms(3))
  then show ?thesis by (simp add: ms)
qed


text \<open>
  The statement with which the ingestion and the verifier service read their signing key matches none of the
  expressions: the reference shows no variable for the field, although the loader fails without one.
\<close>

lemma signing_source_not_recognized:
  "bindEnvVars ''if c.Signing, err = loadSigningSource(\"SIGNING_KEY_PEM\"); err != nil {'' Map.empty ''Signing'' = None"
  by code_simp

section \<open>The table\<close>

text \<open>The fields of a struct: their order is the position at which they are shown.\<close>

definition ordered :: "structInfo \<Rightarrow> bool" where
  "ordered si \<longleftrightarrow> (\<forall>name i. sorder si name = Some i \<longrightarrow> i < length (sfields si) \<and> fname (sfields si ! i) = name)"

lemma add_field_ordered: "ordered si \<Longrightarrow> ordered (add_field si f)"
  by (auto simp: ordered_def add_field_def Let_def nth_append less_Suc_eq split: list.split)

lemma parseStructs_ordered:
  assumes "parseStructs decls name = Some si"
  shows "ordered si"
proof -
  have fields: "ordered si \<Longrightarrow> ordered (foldl add_field si fs)" for si fs
    by (induction fs arbitrary: si) (auto intro: add_field_ordered)
  have init: "ordered \<lparr>sname = n, sfields = [], sorder = Map.empty\<rparr>" for n by (simp add: ordered_def)
  let ?I = "\<lambda>out. \<forall>name si. out name = Some si \<longrightarrow> ordered si"
  have spec: "?I (add_struct out sp)" if "?I out" for out sp
  proof (cases "\<exists>n fs. sp = TypeSpec n (StructType fs)")
    case True
    then obtain n fs where "sp = TypeSpec n (StructType fs)" by blast
    then show ?thesis using that fields[OF init, of n fs] by (simp add: add_struct_def Let_def)
  qed (use that in \<open>auto simp: add_struct_def split: ast_spec.split ast_type.split\<close>)
  have specs: "?I out \<Longrightarrow> ?I (foldl add_struct out sps)" for out sps
  proof (induction sps arbitrary: out)
    case (Cons sp sps)
    show ?case unfolding foldl_Cons by (rule Cons.IH[OF spec[OF Cons.prems]])
  qed simp
  let ?step = "\<lambda>out d. case d of GenDecl TYPE_TOK sps \<Rightarrow> foldl add_struct out sps | _ \<Rightarrow> out"
  have decl: "?I out \<Longrightarrow> ?I (?step out d)" for out d
    using specs by (cases d) (simp_all split: gen_tok.split)
  have "?I out \<Longrightarrow> ?I (foldl ?step out ds)" for out ds
  proof (induction ds arbitrary: out)
    case (Cons d ds)
    show ?case unfolding foldl_Cons by (rule Cons.IH[OF decl[OF Cons.prems]])
  qed simp
  from this[of Map.empty decls] show ?thesis using assms by (simp add: parseStructs_def)
qed

text \<open>A bar that no backslash escapes ends a cell; a description has none, and no line break either.\<close>

fun bare_pipes :: "char \<Rightarrow> string \<Rightarrow> nat" where
  "bare_pipes p [] = 0"
| "bare_pipes p (c # s) = (if c = CHR ''|'' \<and> p \<noteq> backslash then 1 else 0) + bare_pipes c s"

lemma bare_pipes_append: "bare_pipes p (s @ t) = bare_pipes p s + bare_pipes (last (p # s)) t"
  by (induction s arbitrary: p) auto

lemma bare_pipes_none: "CHR ''|'' \<notin> set s \<Longrightarrow> bare_pipes p s = 0"
  by (induction s arbitrary: p) auto

lemma description_safe: "bare_pipes p (description doc) = 0 \<and> newline \<notin> set (description doc)"
proof -
  have d: "description doc = concat (map (\<lambda>x. if x = CHR ''|'' then [backslash, CHR ''|''] else if x = newline then '' '' else [x]) doc)"
    by (induction doc) (auto simp: description_def ReplaceAll_char_def newline_def backslash_def)
  have "bare_pipes p (description doc) = 0"
    unfolding d by (induction doc arbitrary: p) (auto simp: backslash_def newline_def)
  moreover have "newline \<notin> set (description doc)"
    unfolding d by (auto simp: backslash_def newline_def split: if_splits)
  ultimately show ?thesis by simp
qed

lemma row_has_four_cells:
  assumes "CHR ''|'' \<notin> set (fname f)" "\<And>b. bs (fname f) = Some b \<Longrightarrow> CHR ''|'' \<notin> set (envVar b @ defValue b @ bnote b)"
  shows "bare_pipes (CHR '' '') (table_row bs f) = 5"
proof -
  define env where "env = (case bs (fname f) of None \<Rightarrow> em_dash | Some eb \<Rightarrow> backquoted (envVar eb))"
  define def where "def = (case bs (fname f) of None \<Rightarrow> em_dash | Some eb \<Rightarrow> default_cell eb)"
  have row: "table_row bs f = ''| '' @ backquoted (fname f) @ '' | '' @ env @ '' | '' @ def @ '' | '' @ description (fdoc f) @ '' |'' @ [newline]"
    by (simp add: table_row_def env_def def_def split: option.split)
  have cells: "CHR ''|'' \<notin> set env" "CHR ''|'' \<notin> set def"
    using assms(2) by (auto simp: env_def def_def default_cell_def em_dash_def backquoted_def Let_def split: option.splits)
  have "CHR ''|'' \<notin> set (backquoted (fname f))" using assms(1) by (simp add: backquoted_def)
  then show ?thesis
    unfolding row using cells
    by (simp add: bare_pipes_append bare_pipes_none description_safe newline_def backslash_def)
qed

section \<open>Instances\<close>

text \<open>A loader of one required variable.\<close>

definition demo_loader :: string where
  "demo_loader = ''c.A = os.Getenv(\"V\")'' @ [newline] @ ''if c.A == \"\" {''"

lemma demo_bindings:
  "bindEnvVars demo_loader Map.empty ''A'' = Some \<lparr>envVar = ''V'', defValue = [], required = True, bnote = []\<rparr>"
  by code_simp

lemma documented_bindings_are_in_the_loader_witness:
  "sublist ''(\"V\"'' demo_loader \<and> (key_read demo_loader ''V'' \<or> checked demo_loader ''c.A''
     \<or> (\<exists>l. local_reads demo_loader l ''V'' \<and> checked demo_loader l))"
  using documented_bindings_are_in_the_loader[OF demo_bindings] by simp


end
