(* ===== verification/Fixture.thy ===== *)
theory Fixture
  imports Access_Token
begin

text \<open>
  The fixture generator, \<open>src/tools/gen-fixture/main.go\<close>: it mints one access token with the functions
  the authorization server mints with, under a key fixed in the source, and writes the token, the key
  set and the key. The key, JSON and PEM libraries are an argument; whether the directory can be made
  and a file be written are arguments too, and the result lists the files written, in order, with the
  failure that ended the run, if any.
\<close>

section \<open>Definitions\<close>

definition fixedKeyD :: string where
  "fixedKeyD = ''9c46e9ec5c9fbb9e6f74c8f2e4c0eefcdbb03c5b0d5fbf2b3e4b6c9e5f4d3c2b''"

text \<open>\<open>hex.DecodeString\<close>.\<close>

definition fromHexChar :: "char \<Rightarrow> byte option" where
  "fromHexChar c = (let n = of_char c :: nat in
     if 48 \<le> n \<and> n \<le> 57 then Some (of_nat (n - 48))
     else if 97 \<le> n \<and> n \<le> 102 then Some (of_nat (n - 87))
     else if 65 \<le> n \<and> n \<le> 70 then Some (of_nat (n - 55)) else None)"

fun hex_DecodeString :: "string \<Rightarrow> bytes option" where
  "hex_DecodeString [] = Some []"
| "hex_DecodeString [c] = None"
| "hex_DecodeString (c # d # s) =
     (case (fromHexChar c, fromHexChar d) of
        (Some x, Some y) \<Rightarrow> map_option ((#) (16 * x + y)) (hex_DecodeString s)
      | _ \<Rightarrow> None)"

record fixture_lib =
  fx_access :: access_lib
  fx_ParseRawPrivateKey :: "bytes \<Rightarrow> signer option"
  fx_PublicKey :: "signer \<Rightarrow> pubkey"
  fx_MarshalIndent :: "JSONWebKey list \<Rightarrow> string option"
  fx_MarshalECPrivateKey :: "signer \<Rightarrow> bytes option"
  fx_EncodeToMemory :: "string \<Rightarrow> bytes \<Rightarrow> string"

datatype fixture_error =
    BadHexConstant
  | ParseFixedKey
  | IssueFailed issue_error
  | MarshalJWKS
  | MarshalKey
  | MkdirFailed
  | WriteFailed string

definition outDir :: string where "outDir = ''rust/token-format/testdata''"

definition fixture_params :: IssueParams where
  "fixture_params = \<lparr>ip_Issuer = ''https://as.example.org'', ip_Audience = ''siros-status-service'',
     ip_Subject = ''issuer-abc'', ip_TenantID = ''shard-a'', ip_TAC = ''iwr'', ip_TTL = Hour\<rparr>"

text \<open>The three \<open>writeFile\<close> calls: the first that fails ends the program.\<close>

fun write_files :: "(string \<Rightarrow> bool) \<Rightarrow> (string \<times> string) list \<Rightarrow> (string \<times> string) list \<times> fixture_error option" where
  "write_files writable [] = ([], None)"
| "write_files writable ((path, data) # fs) =
     (if \<not> writable path then ([], Some (WriteFailed path))
      else let (written, e) = write_files writable fs in ((path, data) # written, e))"

definition fixture_files :: "string \<Rightarrow> string \<Rightarrow> string \<Rightarrow> (string \<times> string) list" where
  "fixture_files token jwks keyPEM =
     [(outDir @ ''/token.txt'', token @ [CHR 0x0A]), (outDir @ ''/jwks.json'', jwks @ [CHR 0x0A]),
      (outDir @ ''/signing_key.pem'', keyPEM)]"

definition gen_fixture :: "fixture_lib \<Rightarrow> bool \<Rightarrow> (string \<Rightarrow> bool)
    \<Rightarrow> ('p world, (string \<times> string) list \<times> fixture_error option) state" where
  "gen_fixture lib mkdir_ok writable =
     (case hex_DecodeString fixedKeyD of
        None \<Rightarrow> ret ([], Some BadHexConstant)
      | Some seed \<Rightarrow>
          (case fx_ParseRawPrivateKey lib seed of
             None \<Rightarrow> ret ([], Some ParseFixedKey)
           | Some key \<Rightarrow>
               (let km = NewKeyManager key ''test-key-1''
                in do {
                  r \<leftarrow> Issue (fx_access lib) km fixture_params;
                  ret (case r of
                         Inl e \<Rightarrow> ([], Some (IssueFailed e))
                       | Inr token \<Rightarrow>
                           (case fx_MarshalIndent lib (JWKS (fx_PublicKey lib) km) of
                              None \<Rightarrow> ([], Some MarshalJWKS)
                            | Some jwks \<Rightarrow>
                                (case fx_MarshalECPrivateKey lib key of
                                   None \<Rightarrow> ([], Some MarshalKey)
                                 | Some der \<Rightarrow>
                                     if \<not> mkdir_ok then ([], Some MkdirFailed)
                                     else write_files writable
                                            (fixture_files token jwks (fx_EncodeToMemory lib ''EC PRIVATE KEY'' der)))))
                })))"

section \<open>Properties\<close>

lemma fixed_key_seed: "\<exists>seed. hex_DecodeString fixedKeyD = Some seed \<and> length seed = 32"
  by (simp add: fixedKeyD_def fromHexChar_def)

lemma write_files_done: "write_files writable fs = (ds, None) \<longleftrightarrow> ds = fs \<and> (\<forall>f\<in>set fs. writable (fst f))"
proof (induction fs arbitrary: ds)
  case (Cons f fs)
  obtain path data ws e where "f = (path, data)" "write_files writable fs = (ws, e)" by (metis surj_pair)
  then show ?case using Cons[of ws] Cons[of fs] by auto
qed auto

lemma write_files_prefix: "\<exists>rest. fs = fst (write_files writable fs) @ rest"
  by (induction fs) (auto split: prod.splits)

text \<open>
  What a fixture holds: the token is one that \<open>Issue\<close> minted in this run for the fixed issuer, audience,
  subject, shard and permissions, and the other two files depend on the fixed key alone, so that any two
  complete fixtures have the same key set and the same key, and differ at most in the token.
\<close>

theorem fixture_is_reproducible_up_to_the_token:
  assumes "run_state (gen_fixture lib m1 w1) v1 = ((files1, None), v1')" "run_state (gen_fixture lib m2 w2) v2 = ((files2, None), v2')"
  shows "\<exists>token1 token2 rest. files1 = (outDir @ ''/token.txt'', token1 @ [CHR 0x0A]) # rest
     \<and> files2 = (outDir @ ''/token.txt'', token2 @ [CHR 0x0A]) # rest \<and> map fst rest = [outDir @ ''/jwks.json'', outDir @ ''/signing_key.pem'']
     \<and> (\<exists>key jti now. fx_ParseRawPrivateKey lib (the (hex_DecodeString fixedKeyD)) = Some key \<and> length jti = 32
          \<and> clock (st v1) \<le> now \<and> now \<le> clock (st v1')
          \<and> jose_Serialize (fx_access lib) key ''test-key-1''
              \<lparr>at_ID = jti, at_Issuer = ''https://as.example.org'', at_Subject = ''issuer-abc'', at_Audience = [''siros-status-service''],
               at_IssuedAt = NewNumericDate (fx_access lib) now, at_Expiry = NewNumericDate (fx_access lib) (now + Hour),
               at_TenantID = ''shard-a'', at_TAC = ''iwr''\<rparr> = Some token1)"
proof -
  obtain seed where seed: "hex_DecodeString fixedKeyD = Some seed" using fixed_key_seed by blast
  have run: "\<exists>key token jwks der. fx_ParseRawPrivateKey lib seed = Some key
      \<and> run_state (Issue (fx_access lib) (NewKeyManager key ''test-key-1'') fixture_params) v = (Inr token, v')
      \<and> fx_MarshalIndent lib (JWKS (fx_PublicKey lib) (NewKeyManager key ''test-key-1'')) = Some jwks
      \<and> fx_MarshalECPrivateKey lib key = Some der
      \<and> files = fixture_files token jwks (fx_EncodeToMemory lib ''EC PRIVATE KEY'' der)"
    if "run_state (gen_fixture lib m w) v = ((files, None), v')" for m w v files v'
    using that seed
    by (auto simp: gen_fixture_def Let_def write_files_done split: option.splits sum.splits if_splits prod.splits)
  from run[OF assms(1)] run[OF assms(2)] obtain key token1 token2 jwks der where k: "fx_ParseRawPrivateKey lib seed = Some key"
    and i: "run_state (Issue (fx_access lib) (NewKeyManager key ''test-key-1'') fixture_params) v1 = (Inr token1, v1')"
    and f: "files1 = fixture_files token1 jwks (fx_EncodeToMemory lib ''EC PRIVATE KEY'' der)"
      "files2 = fixture_files token2 jwks (fx_EncodeToMemory lib ''EC PRIVATE KEY'' der)" by auto
  from Issue_claims[OF i] k seed f show ?thesis
    by (auto simp: fixture_files_def fixture_params_def NewKeyManager_def)
qed

end
