(* ===== verification/Loadtest.thy ===== *)
theory Loadtest
  imports Services
begin

text \<open>
  The load-test tool, \<open>src/tools/loadtest\<close>: synthetic issuers that allocate, update and check statuses through
  the public endpoints (\<open>identity.go\<close>, \<open>worker.go\<close>, \<open>lifecycle.go\<close>), the report (\<open>report.go\<close>) and the check of
  the stores after a run (\<open>verify.go\<close>).

  The HTTP client and all that is behind it, the random draws, the clock and the codecs are an environment, an
  argument over a state of its own. \<open>le_Do\<close> answers a call with the status and the body, \<open>None\<close> for a body that
  cannot be read, or fails. The limiter is what it grants: a worker runs as many operations as it was granted
  before the deadline. A panic ends the whole program. Weights and percentiles are exact rationals for
  floating-point numbers.
\<close>

section \<open>Data\<close>

record opWeights =
  ow_allocate :: rat
  ow_status :: rat
  ow_accounting :: rat
  ow_lifecycle :: rat

record allocRecord =
  ld_listID :: string
  ld_index :: u64
  ld_expected :: string

record workerResult =
  wr_issuerID :: string
  wr_latency :: "string \<rightharpoonup> duration list"
  wr_errors :: "string \<rightharpoonup> int"
  wr_skipped :: int
  wr_allocs :: "allocRecord list"
  wr_mismatches :: "string list"

definition newWorkerResult :: "string \<Rightarrow> workerResult" where
  "newWorkerResult issuerID =
     \<lparr>wr_issuerID = issuerID,
      wr_latency = [''allocate'' \<mapsto> [], ''status'' \<mapsto> [], ''accounting'' \<mapsto> [], ''lifecycle'' \<mapsto> []],
      wr_errors = [''allocate'' \<mapsto> 0, ''status'' \<mapsto> 0, ''accounting'' \<mapsto> 0, ''lifecycle'' \<mapsto> 0],
      wr_skipped = 0, wr_allocs = [], wr_mismatches = []\<rparr>"

datatype load_error =
    NothingAllocatedYet
  | BadURL
  | RequestFailed
  | UnexpectedStatus nat
  | BadJSON
  | NoListID string
  | UnreadableBody
  | BadStatusListToken
  | BadLst token_error
  | BadPublishedBitmap bitmap_error
  | DivideByZero
  | StatusMismatch string

record http_call =
  hc_Method :: string
  hc_URL :: string
  hc_Authorization :: string
  hc_Body :: bytes

record http_answer =
  ha_StatusCode :: nat
  ha_Body :: "bytes option"

record 's load_env =
  le_ParseURL :: "string \<Rightarrow> bool"
  le_Do :: "http_call \<Rightarrow> ('s, http_answer option) state"
  le_IntN :: "nat \<Rightarrow> ('s, nat) state"
  le_Float64 :: "('s, rat) state"
  le_Now :: "('s, time) state"
  le_DecodeAllocate :: "bytes \<Rightarrow> (string \<times> u64 \<times> time) option"
  le_MarshalStatus :: "string \<Rightarrow> bytes"
  le_tokens :: token_lib

section \<open>Requests\<close>

definition listIDFromURL :: "string \<Rightarrow> load_error + string" where
  "listIDFromURL listURL =
     (let tail = rev (takeWhile (\<lambda>c. c \<noteq> CHR ''/'') (rev listURL))
      in if CHR ''/'' \<notin> set listURL \<or> tail = [] then Inl (NoListID listURL) else Inr tail)"

text \<open>\<open>http.NewRequest\<close> followed by \<open>client.Do\<close>.\<close>

definition send :: "'s load_env \<Rightarrow> http_call \<Rightarrow> ('s, load_error + http_answer) state" where
  "send env c =
     (if \<not> le_ParseURL env (hc_URL c) then ret (Inl BadURL)
      else do {
        r \<leftarrow> le_Do env c;
        ret (case r of None \<Rightarrow> Inl RequestFailed | Some resp \<Rightarrow> Inr resp)
      })"

definition allocate :: "'s load_env \<Rightarrow> string \<Rightarrow> string \<Rightarrow> ('s, load_error + string \<times> u64 \<times> time) state" where
  "allocate env ingressURL token = do {
     r \<leftarrow> send env \<lparr>hc_Method = ''POST'', hc_URL = ingressURL @ ''/allocate'', hc_Authorization = ''Bearer '' @ token, hc_Body = []\<rparr>;
     ret (case r of
            Inl e \<Rightarrow> Inl e
          | Inr resp \<Rightarrow>
              if ha_StatusCode resp \<noteq> 201 then Inl (UnexpectedStatus (ha_StatusCode resp))
              else (case Option.bind (ha_Body resp) (le_DecodeAllocate env) of None \<Rightarrow> Inl BadJSON | Some ar \<Rightarrow> Inr ar))
   }"

definition doAllocate :: "'s load_env \<Rightarrow> string \<Rightarrow> string \<Rightarrow> workerResult \<Rightarrow> ('s, load_error option \<times> workerResult) state" where
  "doAllocate env ingressURL token res = do {
     ra \<leftarrow> allocate env ingressURL token;
     ret (case ra of
            Inl e \<Rightarrow> (Some e, res)
          | Inr (listURL, index, _) \<Rightarrow>
              (case listIDFromURL listURL of
                 Inl e \<Rightarrow> (Some e, res)
               | Inr listID \<Rightarrow>
                   (None, res\<lparr>wr_allocs := wr_allocs res @ [\<lparr>ld_listID = listID, ld_index = index, ld_expected = ''VALID''\<rparr>]\<rparr>)))
   }"

definition statusChoices :: "string list" where
  "statusChoices = [''VALID'', ''INVALID'', ''SUSPENDED'']"

definition patchStatus :: "'s load_env \<Rightarrow> string \<Rightarrow> string \<Rightarrow> string \<Rightarrow> u64 \<Rightarrow> string \<Rightarrow> ('s, load_error option) state" where
  "patchStatus env ingressURL token listID index status = do {
     r \<leftarrow> send env \<lparr>hc_Method = ''PATCH'', hc_URL = ingressURL @ ''/status/'' @ listID @ ''/'' @ show_nat (unat index),
                    hc_Authorization = ''Bearer '' @ token, hc_Body = le_MarshalStatus env status\<rparr>;
     ret (case r of
            Inl e \<Rightarrow> Some e
          | Inr resp \<Rightarrow> if ha_StatusCode resp \<noteq> 204 then Some (UnexpectedStatus (ha_StatusCode resp)) else None)
   }"

definition doStatus :: "'s load_env \<Rightarrow> string \<Rightarrow> string \<Rightarrow> workerResult \<Rightarrow> ('s, load_error option \<times> workerResult) state" where
  "doStatus env ingressURL token res =
     (if wr_allocs res = [] then ret (Some NothingAllocatedYet, res)
      else do {
        i \<leftarrow> le_IntN env (length (wr_allocs res));
        j \<leftarrow> le_IntN env (length statusChoices);
        let r = wr_allocs res ! i;
        let newStatus = statusChoices ! j;
        rp \<leftarrow> patchStatus env ingressURL token (ld_listID r) (ld_index r) newStatus;
        ret (case rp of
               Some e \<Rightarrow> (Some e, res)
             | None \<Rightarrow> (None, res\<lparr>wr_allocs := (wr_allocs res)[i := r\<lparr>ld_expected := newStatus\<rparr>]\<rparr>))
      })"

definition doAccounting :: "'s load_env \<Rightarrow> string \<Rightarrow> string \<Rightarrow> ('s, load_error option) state" where
  "doAccounting env ingressURL token = do {
     r \<leftarrow> send env \<lparr>hc_Method = ''GET'', hc_URL = ingressURL @ ''/accounting/me'', hc_Authorization = ''Bearer '' @ token, hc_Body = []\<rparr>;
     ret (case r of
            Inl e \<Rightarrow> Some e
          | Inr resp \<Rightarrow> if ha_StatusCode resp \<noteq> 200 then Some (UnexpectedStatus (ha_StatusCode resp)) else None)
   }"

section \<open>The life cycle of a credential\<close>

text \<open>\<open>%#x\<close> of a byte, and the name of a status.\<close>

definition hex_of_byte :: "byte \<Rightarrow> string" where
  "hex_of_byte b = ''0x'' @ (if b < 16 then [hex_digit (unat b)] else [hex_digit (unat b div 16), hex_digit (unat b mod 16)])"

definition statusName :: "byte \<Rightarrow> string" where
  "statusName s =
     (if s = StatusValid then ''VALID'' else if s = StatusInvalid then ''INVALID'' else if s = StatusSuspended then ''SUSPENDED''
      else ''UNKNOWN('' @ hex_of_byte s @ '')'')"

definition bytes_string :: "bytes \<Rightarrow> string" where
  "bytes_string = map (\<lambda>b. char_of (unat b))"

text \<open>What \<open>fetchStatus\<close> makes of a published token; the division panics when the token says zero bits.\<close>

definition statusInToken :: "token_lib \<Rightarrow> string \<Rightarrow> u64 \<Rightarrow> load_error + byte" where
  "statusInToken lib token index =
     (case jwt_Parse lib token of
        None \<Rightarrow> Inl BadStatusListToken
      | Some (_, claims, _, _) \<Rightarrow>
          (case DecodeLst lib (slc_Lst (cl_StatusList claims)) of
             Inl e \<Rightarrow> Inl (BadLst e)
           | Inr raw \<Rightarrow>
               let bits = slc_Bits (cl_StatusList claims)
               in if u64_of_int bits = 0 then Inl DivideByZero
                  else let size = of_nat (length raw) * 8 div u64_of_int bits
                  in case WrapBitmap raw size bits of
                       Inl e \<Rightarrow> Inl (BadPublishedBitmap e)
                     | Inr bm \<Rightarrow> (case Get bm index of Inl e \<Rightarrow> Inl (BadPublishedBitmap e) | Inr s \<Rightarrow> Inr s)))"

definition fetchStatus :: "'s load_env \<Rightarrow> string \<Rightarrow> u64 \<Rightarrow> ('s, load_error + byte) state" where
  "fetchStatus env listURL index = do {
     r \<leftarrow> send env \<lparr>hc_Method = ''GET'', hc_URL = listURL, hc_Authorization = [], hc_Body = []\<rparr>;
     ret (case r of
            Inl e \<Rightarrow> Inl e
          | Inr resp \<Rightarrow>
              (case ha_Body resp of
                 None \<Rightarrow> Inl UnreadableBody
               | Some data \<Rightarrow>
                   if ha_StatusCode resp \<noteq> 200 then Inl (UnexpectedStatus (ha_StatusCode resp))
                   else statusInToken (le_tokens env) (bytes_string data) index))
   }"

definition mismatch_message :: "string \<Rightarrow> string \<Rightarrow> u64 \<Rightarrow> byte \<Rightarrow> byte \<Rightarrow> string" where
  "mismatch_message issuerID listID index wanted actual =
     ''issuer='' @ issuerID @ '' list='' @ listID @ '' index='' @ show_nat (unat index) @ '' expected='' @ statusName wanted
     @ '' actual='' @ statusName actual @ '' (via published list, not backend store)''"

definition checkStatus ::
  "'s load_env \<Rightarrow> workerResult \<Rightarrow> string \<Rightarrow> string \<Rightarrow> u64 \<Rightarrow> byte \<Rightarrow> ('s, load_error option \<times> workerResult) state" where
  "checkStatus env res listID listURL index wanted = do {
     rf \<leftarrow> fetchStatus env listURL index;
     ret (case rf of
            Inl e \<Rightarrow> (Some e, res)
          | Inr actual \<Rightarrow>
              if actual \<noteq> wanted then
                let msg = mismatch_message (wr_issuerID res) listID index wanted actual
                in (Some (StatusMismatch msg), res\<lparr>wr_mismatches := wr_mismatches res @ [msg]\<rparr>)
              else (None, res))
   }"

definition doLifecycle :: "'s load_env \<Rightarrow> string \<Rightarrow> string \<Rightarrow> workerResult \<Rightarrow> ('s, load_error option \<times> workerResult) state" where
  "doLifecycle env ingressURL token res = do {
     ra \<leftarrow> allocate env ingressURL token;
     (case ra of
        Inl e \<Rightarrow> ret (Some e, res)
      | Inr (listURL, index, _) \<Rightarrow>
          (case listIDFromURL listURL of
             Inl e \<Rightarrow> ret (Some e, res)
           | Inr listID \<Rightarrow> do {
               rc \<leftarrow> checkStatus env res listID listURL index StatusValid;
               (case rc of
                  (Some e, res) \<Rightarrow> ret (Some e, res)
                | (None, res) \<Rightarrow> do {
                    rp \<leftarrow> patchStatus env ingressURL token listID index ''INVALID'';
                    (case rp of
                       Some e \<Rightarrow> ret (Some e, res)
                     | None \<Rightarrow>
                         checkStatus env
                           (res\<lparr>wr_allocs := wr_allocs res @ [\<lparr>ld_listID = listID, ld_index = index, ld_expected = ''INVALID''\<rparr>]\<rparr>)
                           listID listURL index StatusInvalid)
                  })
             }))
   }"

section \<open>A worker\<close>

definition pick :: "'s load_env \<Rightarrow> opWeights \<Rightarrow> ('s, string) state" where
  "pick env w = do {
     f \<leftarrow> le_Float64 env;
     let total = ow_allocate w + ow_status w + ow_accounting w + ow_lifecycle w;
     let r = f * total;
     ret (if r < ow_allocate w then ''allocate''
          else if r < ow_allocate w + ow_status w then ''status''
          else if r < ow_allocate w + ow_status w + ow_accounting w then ''accounting''
          else ''lifecycle'')
   }"

definition doOp :: "'s load_env \<Rightarrow> string \<Rightarrow> string \<Rightarrow> string \<Rightarrow> workerResult \<Rightarrow> ('s, load_error option \<times> workerResult) state" where
  "doOp env ingressURL token oper res =
     (if oper = ''allocate'' then doAllocate env ingressURL token res
      else if oper = ''status'' then doStatus env ingressURL token res
      else if oper = ''lifecycle'' then doLifecycle env ingressURL token res
      else do { r \<leftarrow> doAccounting env ingressURL token; ret (r, res) })"

definition panicked :: "load_error option \<Rightarrow> bool" where
  "panicked r \<longleftrightarrow> r = Some DivideByZero \<or> r = Some (BadPublishedBitmap IndexPanic)"

text \<open>\<open>grants\<close> operations, \<open>None\<close> when one of them panicked.\<close>

fun runWorker :: "'s load_env \<Rightarrow> string \<Rightarrow> string \<Rightarrow> opWeights \<Rightarrow> nat \<Rightarrow> workerResult \<Rightarrow> ('s, workerResult option) state" where
  "runWorker env ingressURL token weights 0 res = ret (Some res)"
| "runWorker env ingressURL token weights (Suc grants) res = do {
     oper \<leftarrow> pick env weights;
     start \<leftarrow> le_Now env;
     r \<leftarrow> doOp env ingressURL token oper res;
     (case r of (err, res) \<Rightarrow>
        if panicked err then ret None
        else if oper = ''status'' \<and> err = Some NothingAllocatedYet
             then runWorker env ingressURL token weights grants (res\<lparr>wr_skipped := wr_skipped res + 1\<rparr>)
        else if err \<noteq> None
             then runWorker env ingressURL token weights grants
                    (res\<lparr>wr_errors := (wr_errors res)(oper \<mapsto> (case wr_errors res oper of None \<Rightarrow> 0 | Some n \<Rightarrow> n) + 1)\<rparr>)
        else do {
          now \<leftarrow> le_Now env;
          runWorker env ingressURL token weights grants
            (res\<lparr>wr_latency := (wr_latency res)(oper \<mapsto> (case wr_latency res oper of None \<Rightarrow> [] | Some ls \<Rightarrow> ls) @ [time_Sub now start])\<rparr>)
        })
   }"

section \<open>List identifiers in URLs\<close>

lemma listIDFromURL_InrD:
  assumes "listIDFromURL url = Inr l"
  shows "l \<noteq> []" "CHR ''/'' \<notin> set l" "\<exists>base. url = base @ ''/'' @ l"
proof -
  let ?tail = "takeWhile (\<lambda>c. c \<noteq> CHR ''/'') (rev url)"
  have l: "l = rev ?tail" "CHR ''/'' \<in> set url" "l \<noteq> []" using assms by (auto simp: listIDFromURL_def Let_def split: if_splits)
  then show "l \<noteq> []" by simp
  show "CHR ''/'' \<notin> set l" using l(1) by (auto dest: set_takeWhileD)
  let ?drop = "dropWhile (\<lambda>c. c \<noteq> CHR ''/'') (rev url)"
  have "?drop \<noteq> []" using l(2) by (auto simp: dropWhile_eq_Nil_conv)
  with hd_dropWhile[of "\<lambda>c. c \<noteq> CHR ''/''" "rev url"] obtain rest where "?drop = CHR ''/'' # rest"
    by (cases ?drop) auto
  then have "rev url = ?tail @ CHR ''/'' # rest" using takeWhile_dropWhile_id[of "\<lambda>c. c \<noteq> CHR ''/''" "rev url"] by simp
  then have "rev (rev url) = rev (?tail @ CHR ''/'' # rest)" by (rule arg_cong)
  then have "url = rev rest @ ''/'' @ l" using l(1) by simp
  then show "\<exists>base. url = base @ ''/'' @ l" by blast
qed

lemma listIDFromURL_exact:
  assumes "l \<noteq> []" "CHR ''/'' \<notin> set l"
  shows "listIDFromURL (base @ ''/'' @ l) = Inr l"
proof -
  have "takeWhile (\<lambda>c. c \<noteq> CHR ''/'') (rev (base @ ''/'' @ l)) = rev l"
    using assms(2) takeWhile_append2[of "rev l" "\<lambda>c. c \<noteq> CHR ''/''" "''/'' @ rev base"] by auto
  then show ?thesis using assms by (simp add: listIDFromURL_def Let_def)
qed

section \<open>Panics\<close>

text \<open>Only the reading of a published token can panic.\<close>

lemma allocate_no_panic: "run_state (allocate env ingressURL token) s = (Inl e, s') \<Longrightarrow> \<not> panicked (Some e)"
  by (auto simp: allocate_def send_def panicked_def split: if_splits prod.splits option.splits sum.splits)

lemma patch_no_panic: "run_state (patchStatus env ingressURL token l idx name) s = (r, s') \<Longrightarrow> \<not> panicked r"
  by (auto simp: patchStatus_def send_def panicked_def split: if_splits prod.splits option.splits sum.splits)

lemma accounting_no_panic: "run_state (doAccounting env ingressURL token) s = (r, s') \<Longrightarrow> \<not> panicked r"
  by (auto simp: doAccounting_def send_def panicked_def split: if_splits prod.splits option.splits sum.splits)

lemma list_id_no_panic: "listIDFromURL url = Inl e \<Longrightarrow> \<not> panicked (Some e)"
  by (auto simp: listIDFromURL_def Let_def panicked_def split: if_splits)

lemma no_panic_values: "\<not> panicked None" "\<not> panicked (Some NothingAllocatedYet)" "\<not> panicked (Some (StatusMismatch m))"
  by (simp_all add: panicked_def)

lemmas no_panic = allocate_no_panic patch_no_panic accounting_no_panic list_id_no_panic

section \<open>The contract of the endpoints\<close>

text \<open>
  What must hold of a deployment for a worker to report no mismatch: \<open>good\<close> is an invariant of the state behind the
  environment, \<open>granted\<close> says that an index was handed out under a URL, \<open>holds\<close> that moreover what is published
  next under this URL has the status \<open>v\<close> there.
\<close>

locale status_endpoints =
  fixes env :: "'s load_env" and ingressURL :: string and token :: string
    and good :: "'s \<Rightarrow> bool" and granted :: "'s \<Rightarrow> string \<Rightarrow> u64 \<Rightarrow> bool" and holds :: "'s \<Rightarrow> string \<Rightarrow> u64 \<Rightarrow> byte \<Rightarrow> bool"
  assumes allocate_law: "good s \<Longrightarrow> run_state (allocate env ingressURL token) s = (ra, s')
      \<Longrightarrow> good s' \<and> (\<forall>url idx e. ra = Inr (url, idx, e) \<longrightarrow> holds s' url idx StatusValid)"
    and patch_law: "good s \<Longrightarrow> run_state (patchStatus env ingressURL token l idx name) s = (rp, s')
      \<Longrightarrow> good s' \<and> (\<forall>url. rp = None \<and> name = ''INVALID'' \<and> listIDFromURL url = Inr l \<and> granted s url idx \<longrightarrow> holds s' url idx StatusInvalid)"
    and fetch_law: "good s \<Longrightarrow> holds s url idx v \<Longrightarrow> run_state (fetchStatus env url idx) s = (rf, s')
      \<Longrightarrow> good s' \<and> granted s' url idx \<and> (\<forall>a. rf = Inr a \<longrightarrow> a = v) \<and> (\<forall>e. rf = Inl e \<longrightarrow> \<not> panicked (Some e))"
    and accounting_law: "good s \<Longrightarrow> good (after (doAccounting env ingressURL token) s)"
    and draw_law: "good s \<Longrightarrow> good (after (le_IntN env n) s)" "good s \<Longrightarrow> good (after (le_Float64 env) s)" "good s \<Longrightarrow> good (after (le_Now env) s)"
begin

lemma check_ok:
  assumes "good s" "holds s url idx v" "run_state (checkStatus env res l url idx v) s = ((err, res'), s')"
  shows "good s' \<and> granted s' url idx \<and> wr_mismatches res' = wr_mismatches res \<and> \<not> panicked err"
proof -
  obtain r s1 where f: "run_state (fetchStatus env url idx) s = (r, s1)" by fastforce
  note law = fetch_law[OF assms(1,2) f]
  show ?thesis using assms(3) law by (auto simp: checkStatus_def f no_panic_values split: sum.splits if_splits)
qed

lemma lifecycle_ok:
  assumes "good s" "run_state (doLifecycle env ingressURL token res) s = ((err, res'), s')"
  shows "good s' \<and> wr_mismatches res' = wr_mismatches res \<and> \<not> panicked err"
proof -
  obtain ra s1 where a: "run_state (allocate env ingressURL token) s = (ra, s1)" by fastforce
  note alloc = allocate_law[OF assms(1) a]
  show ?thesis
  proof (cases "\<exists>url idx e l. ra = Inr (url, idx, e) \<and> listIDFromURL url = Inr l")
    case False
    then show ?thesis using assms(2) alloc no_panic(1)[of env ingressURL token s] by (auto simp: doLifecycle_def a dest: no_panic split: sum.splits)
  next
    case True
    then obtain url idx e l where ra: "ra = Inr (url, idx, e)" "listIDFromURL url = Inr l" by blast
    obtain err1 res1 s2 where c: "run_state (checkStatus env res l url idx StatusValid) s1 = ((err1, res1), s2)"
      by (metis prod_cases3 surj_pair)
    have ok: "good s2" "granted s2 url idx" "wr_mismatches res1 = wr_mismatches res" "\<not> panicked err1" using check_ok[OF _ _ c] alloc ra(1) by auto
    obtain rp s3 where p: "run_state (patchStatus env ingressURL token l idx ''INVALID'') s2 = (rp, s3)" by fastforce
    note patch = patch_law[OF ok(1) p]
    show ?thesis
    proof (cases "err1 = None \<and> rp = None")
      case False
      then show ?thesis
        using assms(2) ok patch patch_no_panic[OF p] by (auto simp: doLifecycle_def a ra c p split: option.splits)
    next
      case True
      define res2 where "res2 = res1\<lparr>wr_allocs := wr_allocs res1 @ [\<lparr>ld_listID = l, ld_index = idx, ld_expected = ''INVALID''\<rparr>]\<rparr>"
      have "run_state (checkStatus env res2 l url idx StatusInvalid) s3 = ((err, res'), s')"
        using assms(2) True by (simp add: doLifecycle_def a ra c p res2_def)
      from check_ok[OF _ _ this] patch True ok ra(2) show ?thesis by (auto simp: res2_def)
    qed
  qed
qed

lemma op_ok:
  assumes "good s" "run_state (doOp env ingressURL token oper res) s = ((err, res'), s')"
  shows "good s' \<and> wr_mismatches res' = wr_mismatches res \<and> \<not> panicked err"
proof -
  have st: "good s' \<and> wr_mismatches res' = wr_mismatches res \<and> \<not> panicked err" if "run_state (doStatus env ingressURL token res) s = ((err, res'), s')"
  proof (cases "wr_allocs res = []")
    case False
    obtain i s1 where i: "run_state (le_IntN env (length (wr_allocs res))) s = (i, s1)" by fastforce
    obtain j s2 where j: "run_state (le_IntN env (length statusChoices)) s1 = (j, s2)" by fastforce
    have g: "good s2" using draw_law(1)[OF assms(1), of "length (wr_allocs res)"] draw_law(1)[of s1 "length statusChoices"] i j by simp
    show ?thesis using that False g
      by (auto simp: doStatus_def i j Let_def no_panic_values split: prod.splits option.splits dest: patch_law[OF g] patch_no_panic)
  qed (use that assms(1) in \<open>auto simp: doStatus_def no_panic_values\<close>)
  show ?thesis
  proof (cases "oper = ''status'' \<or> oper = ''lifecycle''")
    case True
    then show ?thesis using assms st lifecycle_ok[OF assms(1)] by (auto simp: doOp_def split: if_splits)
  next
    case False
    then show ?thesis
      using assms accounting_law[OF assms(1)]
      by (auto simp: doOp_def doAllocate_def no_panic_values split: if_splits prod.splits sum.splits
          dest: no_panic allocate_law[OF assms(1)])
  qed
qed

text \<open>However many operations it runs, a worker returns and has recorded no mismatch.\<close>

lemma worker_ok:
  "good s \<Longrightarrow> \<exists>res' s'. run_state (runWorker env ingressURL token weights grants res) s = (Some res', s')
     \<and> good s' \<and> wr_mismatches res' = wr_mismatches res"
proof (induction grants arbitrary: s res)
  case (Suc grants)
  obtain oper s1 where p: "run_state (pick env weights) s = (oper, s1)" by fastforce
  obtain start s2 where n: "run_state (le_Now env) s1 = (start, s2)" by fastforce
  obtain err res1 s3 where d: "run_state (doOp env ingressURL token oper res) s2 = ((err, res1), s3)" by (metis prod_cases3 surj_pair)
  have "good s1" using p draw_law(2)[OF Suc.prems] by (auto simp: pick_def Let_def split: prod.splits)
  then have "good s2" using draw_law(3)[of s1] n by simp
  then have ok: "good s3" "wr_mismatches res1 = wr_mismatches res" "\<not> panicked err" using op_ok[OF _ d] by auto
  obtain now s4 where e: "run_state (le_Now env) s3 = (now, s4)" by fastforce
  have g4: "good s4" using draw_law(3)[OF ok(1)] e by simp
  have ih: "\<exists>res' s'. run_state (runWorker env ingressURL token weights grants res2) s5 = (Some res', s')
      \<and> good s' \<and> wr_mismatches res' = wr_mismatches res" if "good s5" "wr_mismatches res2 = wr_mismatches res" for s5 res2
    using Suc.IH[OF that(1), of res2] that(2) by simp
  show ?case using ok g4 by (cases "err = None") (auto simp: p n d e no_panic_values intro!: ih)
qed simp

end

section \<open>Reading a published list\<close>

lemma bytes_string_bytes: "bytes_string (string_bytes s) = s"
  by (induction s) (simp_all add: bytes_string_def string_bytes_def unat_of_nat)

text \<open>The size recomputed from the number of bytes is one \<open>WrapBitmap\<close> accepts, and no entry is lost.\<close>

lemma recomputed_size:
  assumes "ValidBitWidth bits" "n * nat bits + 7 < 2 ^ 64" "length raw = (n * nat bits + 7) div 8"
  defines "sz \<equiv> of_nat (length raw) * 8 div u64_of_int bits :: u64"
  shows "wf_bitmap \<lparr>bm_bits = bits, bm_size = sz, bm_data = raw\<rparr>" "n \<le> unat sz"
    "WrapBitmap raw sz bits = Inr \<lparr>bm_bits = bits, bm_size = sz, bm_data = raw\<rparr>"
proof -
  let ?b = "nat bits" and ?len = "length raw"
  note b = ValidBitWidth_nat[OF assms(1)]
  have "?len * 8 \<le> n * ?b + 7" unfolding assms(3) by simp
  moreover have "n * ?b \<le> ?len * 8" unfolding assms(3) by presburger
  ultimately have "?len < 2 ^ 61" and len2: "n * ?b \<le> ?len * 8" using assms(2) by simp_all
  then have len: "?len * 8 + 7 < 2 ^ 64" "n * ?b \<le> ?len * 8" by simp_all
  have "(of_nat ?len * 8 :: u64) = of_nat (?len * 8)" by simp
  then have "unat (of_nat ?len * 8 :: u64) = ?len * 8" using len(1) by (simp only: unat_of_nat) simp
  moreover have "unat (of_nat ?b :: u64) = ?b" using assms(1) by (auto simp: ValidBitWidth_def)
  ultimately have sz: "unat sz = ?len * 8 div ?b"
    unfolding sz_def u64_of_int_width[OF assms(1)] by (simp add: unat_div)
  obtain k where k: "8 = ?b * k" using b by blast
  then have whole: "unat sz * ?b = ?len * 8" using b sz by (metis dvd_div_mult_self dvd_mult dvd_triv_left)
  show "n \<le> unat sz" using len(2) b whole by (metis mult_le_cancel2)
  have bl: "unat (byte_len sz bits) = ?len"
    using byte_len_nat[OF assms(1), of sz] whole len(1) by simp
  show "wf_bitmap \<lparr>bm_bits = bits, bm_size = sz, bm_data = raw\<rparr>"
    using assms(1) whole len(1) by (simp add: wf_bitmap_def)
  have "of_nat ?len = byte_len sz bits" by (simp flip: bl)
  then show "WrapBitmap raw sz bits = Inr \<lparr>bm_bits = bits, bm_size = sz, bm_data = raw\<rparr>"
    using assms(1) by (simp add: WrapBitmap_def Let_def)
qed

lemma statusInToken_published:
  assumes "zlib_law lib" "ecdsa_law lib key" "jwt_law lib" "ascii (tp_ListURL p)" "BuildToken lib key p = Inr token"
    "wf_bitmap (tp_Bitmap p)" "index < Size (tp_Bitmap p)"
  shows "statusInToken lib token index = Inr (entry (nat (Bits (tp_Bitmap p))) (Bytes (tp_Bitmap p)) (unat index))"
proof -
  let ?bm = "tp_Bitmap p"
  obtain claims where c: "ParseToken lib token (Public lib key) = Inr claims" "slc_Bits (cl_StatusList claims) = Bits ?bm"
      "DecodeLst lib (slc_Lst (cl_StatusList claims)) = Inr (Bytes ?bm)"
    using jwt_roundtrip[OF assms(1-5)] by blast
  then obtain h ss sig where parse: "jwt_Parse lib token = Some (h, claims, ss, sig)"
    by (auto simp: ParseToken_def split: option.splits prod.splits if_splits)
  have wf: "ValidBitWidth (Bits ?bm)" "unat (Size ?bm) * nat (Bits ?bm) + 7 < 2 ^ 64"
      "length (Bytes ?bm) = (unat (Size ?bm) * nat (Bits ?bm) + 7) div 8"
    using assms(6) by (simp_all add: wf_bitmap_def Bits_def Size_def Bytes_def)
  define sz :: u64 where "sz = of_nat (length (Bytes ?bm)) * 8 div u64_of_int (Bits ?bm)"
  note r = recomputed_size[OF wf, folded sz_def]
  have "index < sz" using r(2) assms(7) by (simp add: word_less_nat_alt)
  then have get: "Get \<lparr>bm_bits = Bits ?bm, bm_size = sz, bm_data = Bytes ?bm\<rparr> index
      = Inr (entry (nat (Bits ?bm)) (Bytes ?bm) (unat index))" using Get_wf[OF r(1), of index] by simp
  have "u64_of_int (Bits ?bm) \<noteq> 0" using wf(1) by (auto simp: ValidBitWidth_def u64_of_int_def)
  then show ?thesis using parse c(2,3) r(3) get by (simp add: statusInToken_def Let_def sz_def)
qed

end
