(* ===== verification/Metrics.thy ===== *)
theory Metrics
  imports Services
begin

text \<open>
  The metrics, \<open>src/internal/metrics/metrics.go\<close>, and where the services report them. The Prometheus client is
  a third-party library: a run yields the sequence of calls on it, each naming its collector and the values of
  its labels. What the library demands of a caller, at the price of a panic, is stated as \<open>accepted\<close> (the number
  of label values) and in \<open>collectors_register\<close> (the uniqueness of the names).
\<close>

section \<open>The collectors\<close>

datatype metric_kind = Counter | Gauge | Histogram

record collector =
  mc_Kind :: metric_kind
  mc_Name :: string
  mc_Labels :: "string list"

definition HTTPRequestsTotal :: collector where
  "HTTPRequestsTotal = \<lparr>mc_Kind = Counter, mc_Name = ''http_requests_total'', mc_Labels = [''route'', ''method'', ''status'']\<rparr>"

definition HTTPRequestDuration :: collector where
  "HTTPRequestDuration = \<lparr>mc_Kind = Histogram, mc_Name = ''http_request_duration_seconds'', mc_Labels = [''route'', ''method'']\<rparr>"

definition ASTokenIssuanceTotal :: collector where
  "ASTokenIssuanceTotal = \<lparr>mc_Kind = Counter, mc_Name = ''as_token_issuance_total'', mc_Labels = [''result'']\<rparr>"

definition ASShardAssignmentsTotal :: collector where
  "ASShardAssignmentsTotal = \<lparr>mc_Kind = Counter, mc_Name = ''as_shard_assignments_total'', mc_Labels = [''shard_id'', ''new'']\<rparr>"

definition IngestionAllocateTotal :: collector where
  "IngestionAllocateTotal = \<lparr>mc_Kind = Counter, mc_Name = ''ingestion_allocate_total'', mc_Labels = [''shard_id'', ''result'']\<rparr>"

definition IngestionPoolActiveLists :: collector where
  "IngestionPoolActiveLists = \<lparr>mc_Kind = Gauge, mc_Name = ''ingestion_pool_active_lists'', mc_Labels = [''shard_id'']\<rparr>"

definition IngestionPoolWidthTarget :: collector where
  "IngestionPoolWidthTarget = \<lparr>mc_Kind = Gauge, mc_Name = ''ingestion_pool_width_target'', mc_Labels = [''shard_id'']\<rparr>"

definition IngestionRotationsTotal :: collector where
  "IngestionRotationsTotal = \<lparr>mc_Kind = Counter, mc_Name = ''ingestion_rotations_total'', mc_Labels = [''shard_id'', ''reason'']\<rparr>"

definition IngestionGCArchivedTotal :: collector where
  "IngestionGCArchivedTotal = \<lparr>mc_Kind = Counter, mc_Name = ''ingestion_gc_archived_total'', mc_Labels = [''shard_id'']\<rparr>"

definition IngestionGCPurgedTotal :: collector where
  "IngestionGCPurgedTotal = \<lparr>mc_Kind = Counter, mc_Name = ''ingestion_gc_purged_total'', mc_Labels = [''shard_id'']\<rparr>"

definition IngestionGCRowsDeletedTotal :: collector where
  "IngestionGCRowsDeletedTotal = \<lparr>mc_Kind = Counter, mc_Name = ''ingestion_gc_rows_deleted_total'', mc_Labels = [''shard_id'']\<rparr>"

definition IngestionDecoyFlipsTotal :: collector where
  "IngestionDecoyFlipsTotal = \<lparr>mc_Kind = Counter, mc_Name = ''ingestion_decoy_flips_total'', mc_Labels = [''shard_id'']\<rparr>"

definition PublisherRebuildsTotal :: collector where
  "PublisherRebuildsTotal = \<lparr>mc_Kind = Counter, mc_Name = ''publisher_rebuilds_total'', mc_Labels = [''result'']\<rparr>"

definition IngressProxyTotal :: collector where
  "IngressProxyTotal = \<lparr>mc_Kind = Counter, mc_Name = ''ingress_proxy_total'', mc_Labels = [''shard_id'', ''result'']\<rparr>"

definition IngressProxyDuration :: collector where
  "IngressProxyDuration = \<lparr>mc_Kind = Histogram, mc_Name = ''ingress_proxy_duration_seconds'', mc_Labels = [''shard_id'']\<rparr>"

definition PostgresPoolAcquiredConns :: collector where
  "PostgresPoolAcquiredConns = \<lparr>mc_Kind = Gauge, mc_Name = ''postgres_pool_acquired_conns'', mc_Labels = []\<rparr>"

definition PostgresPoolIdleConns :: collector where
  "PostgresPoolIdleConns = \<lparr>mc_Kind = Gauge, mc_Name = ''postgres_pool_idle_conns'', mc_Labels = []\<rparr>"

definition PostgresPoolMaxConns :: collector where
  "PostgresPoolMaxConns = \<lparr>mc_Kind = Gauge, mc_Name = ''postgres_pool_max_conns'', mc_Labels = []\<rparr>"

definition RedisPoolTotalConns :: collector where
  "RedisPoolTotalConns = \<lparr>mc_Kind = Gauge, mc_Name = ''redis_pool_total_conns'', mc_Labels = [''shard_id'']\<rparr>"

definition RedisPoolIdleConns :: collector where
  "RedisPoolIdleConns = \<lparr>mc_Kind = Gauge, mc_Name = ''redis_pool_idle_conns'', mc_Labels = [''shard_id'']\<rparr>"

definition RedisPoolStaleConns :: collector where
  "RedisPoolStaleConns = \<lparr>mc_Kind = Gauge, mc_Name = ''redis_pool_stale_conns'', mc_Labels = [''shard_id'']\<rparr>"

definition collectors :: "collector list" where
  "collectors = [HTTPRequestsTotal, HTTPRequestDuration, ASTokenIssuanceTotal,
     ASShardAssignmentsTotal, IngestionAllocateTotal, IngestionPoolActiveLists,
     IngestionPoolWidthTarget, IngestionRotationsTotal, IngestionGCArchivedTotal,
     IngestionGCPurgedTotal, IngestionGCRowsDeletedTotal, IngestionDecoyFlipsTotal,
     PublisherRebuildsTotal, IngressProxyTotal, IngressProxyDuration,
     PostgresPoolAcquiredConns, PostgresPoolIdleConns, PostgresPoolMaxConns,
     RedisPoolTotalConns, RedisPoolIdleConns, RedisPoolStaleConns]"

lemmas collector_defs = HTTPRequestsTotal_def HTTPRequestDuration_def ASTokenIssuanceTotal_def ASShardAssignmentsTotal_def
  IngestionAllocateTotal_def IngestionPoolActiveLists_def IngestionPoolWidthTarget_def IngestionRotationsTotal_def
  IngestionGCArchivedTotal_def IngestionGCPurgedTotal_def IngestionGCRowsDeletedTotal_def IngestionDecoyFlipsTotal_def
  PublisherRebuildsTotal_def IngressProxyTotal_def IngressProxyDuration_def PostgresPoolAcquiredConns_def
  PostgresPoolIdleConns_def PostgresPoolMaxConns_def RedisPoolTotalConns_def RedisPoolIdleConns_def
  RedisPoolStaleConns_def

section \<open>Calls\<close>

text \<open>\<open>WithLabelValues(...)\<close> followed by \<open>Inc\<close>, \<open>Set\<close> or \<open>Observe\<close>; a duration stands for its seconds.\<close>

datatype metric_op =
    Inc collector "string list"
  | SetTo collector "string list" int
  | Observe collector "string list" duration

fun accepted :: "metric_op \<Rightarrow> bool" where
  "accepted (Inc c ls) \<longleftrightarrow> c \<in> set collectors \<and> mc_Kind c = Counter \<and> length ls = length (mc_Labels c)"
| "accepted (SetTo c ls v) \<longleftrightarrow> c \<in> set collectors \<and> mc_Kind c = Gauge \<and> length ls = length (mc_Labels c)"
| "accepted (Observe c ls d) \<longleftrightarrow> c \<in> set collectors \<and> mc_Kind c = Histogram \<and> length ls = length (mc_Labels c)"

text \<open>What a scrape shows: how often a series was incremented, and the last value a gauge was set to.\<close>

definition counted :: "collector \<Rightarrow> string list \<Rightarrow> metric_op list \<Rightarrow> nat" where
  "counted c ls ops = length (filter (\<lambda>op. op = Inc c ls) ops)"

fun gauge_sets :: "collector \<Rightarrow> string list \<Rightarrow> metric_op list \<Rightarrow> int list" where
  "gauge_sets c ls [] = []"
| "gauge_sets c ls (SetTo c' ls' v # ops) =
     (if c' = c \<and> ls' = ls then v # gauge_sets c ls ops else gauge_sets c ls ops)"
| "gauge_sets c ls (_ # ops) = gauge_sets c ls ops"

definition series :: "collector \<Rightarrow> metric_op list \<Rightarrow> string list set" where
  "series c ops = {ls. Inc c ls \<in> set ops}"

section \<open>Requests\<close>

text \<open>
  The middleware around a handler: \<open>None\<close> is a panic of the handler, which unwinds through the middleware up to
  \<open>gin.Recovery\<close>, the middleware registered before it, and becomes a 500 there. \<open>fullPath\<close> is the pattern of
  the matched route, empty when none matched.
\<close>

definition GinMiddleware ::
  "string \<Rightarrow> string \<Rightarrow> ('resp \<Rightarrow> nat) \<Rightarrow> ('p world, 'resp option) state \<Rightarrow> ('p world, 'resp option \<times> metric_op list) state" where
  "GinMiddleware fullPath meth status c_Next = do {
     start \<leftarrow> time_now;
     r \<leftarrow> c_Next;
     (case r of
        None \<Rightarrow> ret (None, [])
      | Some resp \<Rightarrow> do {
          now \<leftarrow> time_now;
          let route = (if fullPath = '''' then ''(no match)'' else fullPath);
          ret (Some resp, [Observe HTTPRequestDuration [route, meth] (time_Sub now start),
                           Inc HTTPRequestsTotal [route, meth, FormatInt (int (status resp))]])
        })
   }"

definition recovered :: "('resp \<Rightarrow> nat) \<Rightarrow> 'resp option \<Rightarrow> nat" where
  "recovered status r = (case r of None \<Rightarrow> 500 | Some resp \<Rightarrow> status resp)"

text \<open>The engine of the ingestion service: its routes, its statuses, and the counter of the allocation endpoint.\<close>

fun ingestion_FullPath :: "request \<Rightarrow> string" where
  "ingestion_FullPath GetHealthz = ''/healthz''"
| "ingestion_FullPath GetMetrics = ''/metrics''"
| "ingestion_FullPath (PostAllocate _ _) = ''/allocate''"
| "ingestion_FullPath (PatchStatus _ _ _ _) = ''/status/:listID/:idx''"
| "ingestion_FullPath (GetAccounting _) = ''/accounting/me''"
| "ingestion_FullPath OtherRequest = ''''"

fun ingestion_status :: "response \<Rightarrow> nat" where
  "ingestion_status (Aborted code) = code"
| "ingestion_status (Error code _) = code"
| "ingestion_status (Allocated _ _ _) = 201"
| "ingestion_status NoContent = 204"
| "ingestion_status (Usage _ _) = 200"
| "ingestion_status (Healthz _) = 200"
| "ingestion_status MetricsPage = 200"
| "ingestion_status NoRoute = 404"

text \<open>
  \<open>handleAllocate\<close> increments its counter before every answer but two: a body that does not bind, and a failed
  reset of the entry. Each return has a text of its own.
\<close>

definition allocate_ops :: "Server \<Rightarrow> response \<Rightarrow> metric_op list" where
  "allocate_ops s resp =
     (case resp of
        Allocated _ _ _ \<Rightarrow> [Inc IngestionAllocateTotal [sv_shard s, ''success'']]
      | Error code text \<Rightarrow>
          if text \<in> {''invalid request'', ''could not initialize allocated index''} then []
          else [Inc IngestionAllocateTotal [sv_shard s, ''error'']]
      | _ \<Rightarrow> [])"

definition counted_allocate ::
  "(bytes \<Rightarrow> bytes \<Rightarrow> bytes) \<Rightarrow> Server \<Rightarrow> auth_result option \<Rightarrow> time body \<Rightarrow> (pub_state world, response \<times> metric_op list) state" where
  "counted_allocate hmac s au body = do { resp \<leftarrow> handleAllocate hmac s au body; ret (resp, allocate_ops s resp) }"

definition counted_ingestion ::
  "tokengin \<Rightarrow> (bytes \<Rightarrow> bytes \<Rightarrow> bytes) \<Rightarrow> Server \<Rightarrow> string \<Rightarrow> request \<Rightarrow> (pub_state world, response option \<times> metric_op list) state" where
  "counted_ingestion tg hmac s meth req =
     GinMiddleware (ingestion_FullPath req) meth ingestion_status
       (do { r \<leftarrow> Ingestion_Router tg hmac s req; ret (Some r) })"

fun serve_all ::
  "tokengin \<Rightarrow> (bytes \<Rightarrow> bytes \<Rightarrow> bytes) \<Rightarrow> Server \<Rightarrow> (string \<times> request) list \<Rightarrow> (pub_state world, metric_op list) state" where
  "serve_all tg hmac s [] = ret []"
| "serve_all tg hmac s ((meth, req) # reqs) = do {
     x \<leftarrow> counted_ingestion tg hmac s meth req;
     ops \<leftarrow> serve_all tg hmac s reqs;
     ret (snd x @ ops)
   }"

text \<open>The counters of the token endpoint and of the router.\<close>

definition counted_token :: "as_lib \<Rightarrow> ASServer \<Rightarrow> token_form \<Rightarrow> ('p world, as_response \<times> metric_op list) state" where
  "counted_token lib s form = do {
     (label, resp) \<leftarrow> handleToken lib s form;
     ret (resp, [Inc ASTokenIssuanceTotal [label]])
   }"

definition counted_proxy :: "'u Router \<Rightarrow> http_request \<Rightarrow> duration \<Rightarrow> 'u ingress_response \<times> metric_op list" where
  "counted_proxy r req elapsed =
     (case ServeHTTP r req of ((shardID, label), resp) \<Rightarrow>
        (resp, (case resp of ProxyTo _ \<Rightarrow> [Observe IngressProxyDuration [shardID] elapsed] | _ \<Rightarrow> [])
               @ [Inc IngressProxyTotal [shardID, label]]))"

section \<open>Connection pools\<close>

record pgx_stat =
  pgx_AcquiredConns :: int
  pgx_IdleConns :: int
  pgx_MaxConns :: int

record redis_stat =
  rds_TotalConns :: "32 word"
  rds_IdleConns :: "32 word"
  rds_StaleConns :: "32 word"

definition UpdatePostgresPoolStats :: "pgx_stat \<Rightarrow> metric_op list" where
  "UpdatePostgresPoolStats stat =
     [SetTo PostgresPoolAcquiredConns [] (pgx_AcquiredConns stat),
      SetTo PostgresPoolIdleConns [] (pgx_IdleConns stat),
      SetTo PostgresPoolMaxConns [] (pgx_MaxConns stat)]"

definition UpdateRedisPoolStats :: "string \<Rightarrow> redis_stat \<Rightarrow> metric_op list" where
  "UpdateRedisPoolStats shardID stat =
     [SetTo RedisPoolTotalConns [shardID] (uint (rds_TotalConns stat)),
      SetTo RedisPoolIdleConns [shardID] (uint (rds_IdleConns stat)),
      SetTo RedisPoolStaleConns [shardID] (uint (rds_StaleConns stat))]"

text \<open>
  The loops: what their \<open>select\<close> yields, one after the other, a tick with the statistics polled then or the end
  of the context. The loop is still running where the list of events ends.
\<close>

datatype 'stat watch_event = Ticked 'stat | Cancelled

fun watch_loop :: "('stat \<Rightarrow> metric_op list) \<Rightarrow> 'stat watch_event list \<Rightarrow> metric_op list" where
  "watch_loop update [] = []"
| "watch_loop update (Cancelled # evs) = []"
| "watch_loop update (Ticked stat # evs) = update stat @ watch_loop update evs"

definition WatchPostgresPool :: "pgx_stat \<Rightarrow> pgx_stat watch_event list \<Rightarrow> metric_op list" where
  "WatchPostgresPool stat evs = UpdatePostgresPoolStats stat @ watch_loop UpdatePostgresPoolStats evs"

definition WatchRedisPool :: "string \<Rightarrow> redis_stat \<Rightarrow> redis_stat watch_event list \<Rightarrow> metric_op list" where
  "WatchRedisPool shardID stat evs = UpdateRedisPoolStats shardID stat @ watch_loop (UpdateRedisPoolStats shardID) evs"

fun polled :: "'stat \<Rightarrow> 'stat watch_event list \<Rightarrow> 'stat list" where
  "polled stat [] = [stat]"
| "polled stat (Cancelled # evs) = [stat]"
| "polled stat (Ticked stat' # evs) = stat # polled stat' evs"

text \<open>Threads of one process calling the library at the same time: an interleaving of their calls.\<close>

inductive interleaving :: "'a list list \<Rightarrow> 'a list \<Rightarrow> bool" where
  done_all: "(\<And>xs. xs \<in> set xss \<Longrightarrow> xs = []) \<Longrightarrow> interleaving xss []"
| advance_one: "i < length xss \<Longrightarrow> xss ! i = x # xs \<Longrightarrow> interleaving (xss[i := xs]) ys \<Longrightarrow> interleaving xss (x # ys)"

section \<open>Gauges\<close>

lemma gauge_sets_append [simp]: "gauge_sets c ls (xs @ ys) = gauge_sets c ls xs @ gauge_sets c ls ys"
  by (induction c ls xs rule: gauge_sets.induct) simp_all

definition sets_gauge :: "collector \<Rightarrow> string list \<Rightarrow> metric_op \<Rightarrow> bool" where
  "sets_gauge c ls op \<longleftrightarrow> (\<exists>v. op = SetTo c ls v)"

lemma gauge_sets_filter: "gauge_sets c ls (filter (sets_gauge c ls) ops) = gauge_sets c ls ops"
  by (induction c ls ops rule: gauge_sets.induct) (auto simp: sets_gauge_def)

lemma gauge_sets_none: "filter (sets_gauge c ls) ops = [] \<Longrightarrow> gauge_sets c ls ops = []"
  using gauge_sets_filter[of c ls ops] by simp

text \<open>Elements that only one thread produces appear in the order of that thread.\<close>

lemma interleaving_filter:
  assumes "interleaving xss ys" "i < length xss" "\<And>j. j < length xss \<Longrightarrow> j \<noteq> i \<Longrightarrow> filter P (xss ! j) = []"
  shows "filter P ys = filter P (xss ! i)"
  using assms
proof (induction rule: interleaving.induct)
  case (done_all xss)
  then show ?case using nth_mem[of i xss] by (metis filter.simps(1))
next
  case (advance_one k xss x xs ys)
  have rest: "filter P (xss[k := xs] ! j) = []" if "j < length xss" "j \<noteq> i" for j
    using advance_one.prems(2)[OF that] advance_one.hyps(2) that(1) by (cases "j = k") (auto split: if_splits)
  have "filter P ys = filter P (xss[k := xs] ! i)"
    using advance_one.IH rest advance_one.prems(1) by simp
  moreover have "\<not> P x" if "k \<noteq> i"
    using advance_one.prems(2)[OF advance_one.hyps(1) that] advance_one.hyps(2) by (auto split: if_splits)
  ultimately show ?case using advance_one.hyps(2) advance_one.prems(1) by (cases "k = i") auto
qed

lemma watch_loop_gauge:
  assumes "\<And>stat. gauge_sets c ls (update stat) = [v stat]"
  shows "gauge_sets c ls (update stat @ watch_loop update evs) = map v (polled stat evs)"
proof (induction stat evs rule: polled.induct)
  case (3 stat stat' evs)
  then show ?case by (simp add: assms)
qed (simp_all add: assms)

lemma collectors_distinct [simp]:
  "RedisPoolTotalConns \<noteq> RedisPoolIdleConns" "RedisPoolTotalConns \<noteq> RedisPoolStaleConns" "RedisPoolIdleConns \<noteq> RedisPoolStaleConns"
  "RedisPoolIdleConns \<noteq> RedisPoolTotalConns" "RedisPoolStaleConns \<noteq> RedisPoolTotalConns" "RedisPoolStaleConns \<noteq> RedisPoolIdleConns"
  by (simp_all add: collector_defs)

lemma redis_update_gauges:
  "gauge_sets RedisPoolTotalConns [sh] (UpdateRedisPoolStats sh stat) = [uint (rds_TotalConns stat)]"
  "gauge_sets RedisPoolIdleConns [sh] (UpdateRedisPoolStats sh stat) = [uint (rds_IdleConns stat)]"
  "gauge_sets RedisPoolStaleConns [sh] (UpdateRedisPoolStats sh stat) = [uint (rds_StaleConns stat)]"
  by (simp_all add: UpdateRedisPoolStats_def)

lemma watch_redis_gauges:
  "gauge_sets RedisPoolTotalConns [sh] (WatchRedisPool sh stat evs) = map (uint \<circ> rds_TotalConns) (polled stat evs)"
  "gauge_sets RedisPoolIdleConns [sh] (WatchRedisPool sh stat evs) = map (uint \<circ> rds_IdleConns) (polled stat evs)"
  "gauge_sets RedisPoolStaleConns [sh] (WatchRedisPool sh stat evs) = map (uint \<circ> rds_StaleConns) (polled stat evs)"
  unfolding WatchRedisPool_def by (rule watch_loop_gauge, simp add: redis_update_gauges)+

lemma watch_other_shard:
  assumes "sh' \<noteq> sh"
  shows "filter (sets_gauge c [sh]) (WatchRedisPool sh' stat evs) = []"
proof -
  have u: "filter (sets_gauge c [sh]) (UpdateRedisPoolStats sh' stat) = []" for stat
    using assms by (simp add: UpdateRedisPoolStats_def sets_gauge_def)
  have "filter (sets_gauge c [sh]) (watch_loop (UpdateRedisPoolStats sh') evs) = []"
    by (induction "UpdateRedisPoolStats sh'" evs rule: watch_loop.induct) (simp_all add: u)
  then show ?thesis by (simp add: WatchRedisPool_def u)
qed

text \<open>
  One process watches many Redis pools without mixing them up: however the polling loops of the shards
  interleave, the values the three gauges of a shard go through are those polled for this shard, in order and
  none missing, beginning with the ones at start-up; after the end of the context there are no more.
\<close>

theorem redis_gauges_per_shard:
  assumes "interleaving (map (\<lambda>(sh, stat, evs). WatchRedisPool sh stat evs) watches) ops"
    "distinct (map fst watches)" "(sh, stat, evs) \<in> set watches"
  shows "gauge_sets RedisPoolTotalConns [sh] ops = map (uint \<circ> rds_TotalConns) (polled stat evs)
    \<and> gauge_sets RedisPoolIdleConns [sh] ops = map (uint \<circ> rds_IdleConns) (polled stat evs)
    \<and> gauge_sets RedisPoolStaleConns [sh] ops = map (uint \<circ> rds_StaleConns) (polled stat evs)"
proof -
  let ?w = "\<lambda>(sh, stat, evs). WatchRedisPool sh stat evs"
  obtain i where i: "i < length watches" "watches ! i = (sh, stat, evs)"
    using assms(3) by (auto simp: in_set_conv_nth)
  have other: "fst (watches ! j) \<noteq> sh" if "j < length watches" "j \<noteq> i" for j
    using nth_eq_iff_index_eq[OF assms(2), of j i] i that by simp
  have quiet: "filter (sets_gauge c [sh]) (map ?w watches ! j) = []" if "j < length (map ?w watches)" "j \<noteq> i" for c j
    using other[of j] that watch_other_shard by (cases "watches ! j") auto
  have "filter (sets_gauge c [sh]) ops = filter (sets_gauge c [sh]) (WatchRedisPool sh stat evs)" for c
    using interleaving_filter[OF assms(1), of i "sets_gauge c [sh]"] quiet i by simp
  then have "gauge_sets c [sh] ops = gauge_sets c [sh] (WatchRedisPool sh stat evs)" for c
    using gauge_sets_filter by metis
  then show ?thesis by (simp add: watch_redis_gauges)
qed

section \<open>Every call is well-formed\<close>

text \<open>Registration at start-up panics on a second collector of the same name: the names are distinct.\<close>

lemma collectors_register: "distinct (map mc_Name collectors)" "distinct collectors" "length collectors = 21"
proof -
  show names: "distinct (map mc_Name collectors)" by code_simp
  then show "distinct collectors" by (simp add: distinct_map)
  show "length collectors = 21" by (simp add: collectors_def)
qed

lemma in_collectors [simp]:
  "HTTPRequestsTotal \<in> set collectors" "HTTPRequestDuration \<in> set collectors" "ASTokenIssuanceTotal \<in> set collectors"
  "IngestionAllocateTotal \<in> set collectors" "IngressProxyTotal \<in> set collectors" "IngressProxyDuration \<in> set collectors"
  "PostgresPoolAcquiredConns \<in> set collectors" "PostgresPoolIdleConns \<in> set collectors" "PostgresPoolMaxConns \<in> set collectors"
  "RedisPoolTotalConns \<in> set collectors" "RedisPoolIdleConns \<in> set collectors" "RedisPoolStaleConns \<in> set collectors"
  by (simp_all add: collectors_def)

lemma collector_selectors [simp]:
  "mc_Kind HTTPRequestsTotal = Counter" "length (mc_Labels HTTPRequestsTotal) = 3"
  "mc_Kind HTTPRequestDuration = Histogram" "length (mc_Labels HTTPRequestDuration) = 2"
  "mc_Kind ASTokenIssuanceTotal = Counter" "length (mc_Labels ASTokenIssuanceTotal) = 1"
  "mc_Kind IngestionAllocateTotal = Counter" "length (mc_Labels IngestionAllocateTotal) = 2"
  "mc_Kind IngressProxyTotal = Counter" "length (mc_Labels IngressProxyTotal) = 2"
  "mc_Kind IngressProxyDuration = Histogram" "length (mc_Labels IngressProxyDuration) = 1"
  "mc_Kind PostgresPoolAcquiredConns = Gauge" "mc_Labels PostgresPoolAcquiredConns = []"
  "mc_Kind PostgresPoolIdleConns = Gauge" "mc_Labels PostgresPoolIdleConns = []"
  "mc_Kind PostgresPoolMaxConns = Gauge" "mc_Labels PostgresPoolMaxConns = []"
  "mc_Kind RedisPoolTotalConns = Gauge" "length (mc_Labels RedisPoolTotalConns) = 1"
  "mc_Kind RedisPoolIdleConns = Gauge" "length (mc_Labels RedisPoolIdleConns) = 1"
  "mc_Kind RedisPoolStaleConns = Gauge" "length (mc_Labels RedisPoolStaleConns) = 1"
  by (simp_all add: collector_defs)

lemma calls_accepted:
  "\<forall>op\<in>set (snd (result (GinMiddleware path meth status m) w)). accepted op"
  "\<forall>op\<in>set (snd (result (counted_token lib srv form) v)). accepted op"
  "\<forall>op\<in>set (allocate_ops s resp). accepted op"
  "\<forall>op\<in>set (snd (counted_proxy r req d)). accepted op"
  "\<forall>op\<in>set (UpdatePostgresPoolStats pst). accepted op"
  "\<forall>op\<in>set (UpdateRedisPoolStats sh rst). accepted op"
  by (simp_all add: GinMiddleware_def counted_token_def allocate_ops_def counted_proxy_def UpdatePostgresPoolStats_def
      UpdateRedisPoolStats_def Let_def split: option.split response.split prod.split ingress_response.split)


section \<open>Requests are counted\<close>

lemma run_GinMiddleware:
  assumes "run_state (GinMiddleware path meth status m) w = ((r, ops), w')"
  shows "case r of None \<Rightarrow> ops = []
    | Some resp \<Rightarrow> (\<exists>d. ops = [Observe HTTPRequestDuration [if path = '''' then ''(no match)'' else path, meth] d,
        Inc HTTPRequestsTotal [if path = '''' then ''(no match)'' else path, meth, FormatInt (int (status resp))]])"
  using assms by (auto simp: GinMiddleware_def Let_def split: prod.splits option.splits)

definition ingestion_routes :: "string set" where
  "ingestion_routes = {''/healthz'', ''/metrics'', ''/allocate'', ''/status/:listID/:idx'', ''/accounting/me'', ''(no match)''}"

lemma route_label: "(if ingestion_FullPath req = '''' then ''(no match)'' else ingestion_FullPath req) \<in> ingestion_routes"
  by (cases req) (simp_all add: ingestion_routes_def)

fun labelled :: "string \<times> request \<Rightarrow> string list \<Rightarrow> bool" where
  "labelled (meth, req) ls \<longleftrightarrow> (\<exists>route code. ls = [route, meth, code] \<and> route \<in> ingestion_routes
     \<and> (ingestion_FullPath req = '''' \<longrightarrow> route = ''(no match)''))"

lemma run_counted_ingestion:
  assumes "run_state (counted_ingestion tg hmac s meth req) w = ((r, ops), w')"
  shows "\<exists>ls ls' d. ops = [Observe HTTPRequestDuration ls' d, Inc HTTPRequestsTotal ls] \<and> labelled (meth, req) ls"
proof -
  have "r \<noteq> None" using assms by (auto simp: counted_ingestion_def GinMiddleware_def Let_def split: prod.splits)
  with run_GinMiddleware[OF assms[unfolded counted_ingestion_def]] route_label[of req] show ?thesis by auto
qed

abbreviation request_incs :: "metric_op list \<Rightarrow> metric_op list" where
  "request_incs ops \<equiv> filter (\<lambda>op. \<exists>ls. op = Inc HTTPRequestsTotal ls) ops"

lemma serve_all_incs:
  assumes "run_state (serve_all tg hmac s reqs) w = (ops, w')"
  shows "\<exists>labels. map (Inc HTTPRequestsTotal) labels = request_incs ops \<and> list_all2 labelled reqs labels"
  using assms
proof (induction reqs arbitrary: w ops w')
  case (Cons mr reqs)
  obtain meth req where mr: "mr = (meth, req)" by fastforce
  obtain r ops1 w1 where 1: "run_state (counted_ingestion tg hmac s meth req) w = ((r, ops1), w1)" by (metis prod_cases3 surj_pair)
  obtain ops2 w2 where 2: "run_state (serve_all tg hmac s reqs) w1 = (ops2, w2)" by fastforce
  have ops: "ops = ops1 @ ops2" using Cons.prems by (simp add: mr 1 2)
  obtain ls ls' d where "ops1 = [Observe HTTPRequestDuration ls' d, Inc HTTPRequestsTotal ls]" "labelled (meth, req) ls"
    using run_counted_ingestion[OF 1] by blast
  moreover obtain labels where "map (Inc HTTPRequestsTotal) labels = request_incs ops2" "list_all2 labelled reqs labels"
    using Cons.IH[OF 2] by blast
  ultimately show ?case by (intro exI[of _ "ls # labels"]) (simp add: mr ops)
qed simp

lemma series_filter:
  assumes "map (Inc c) labels = filter (\<lambda>op. \<exists>ls. op = Inc c ls) ops"
  shows "series c ops = set labels"
proof -
  have "ls \<in> set labels \<longleftrightarrow> Inc c ls \<in> set ops" for ls
    using arg_cong[OF assms, of set] by auto
  then show ?thesis by (auto simp: series_def)
qed

definition odd_methods :: "nat \<Rightarrow> (string \<times> request) list" where
  "odd_methods n = map (\<lambda>k. (replicate (Suc k) (CHR ''X''), OtherRequest)) [0..<n]"

lemma card_no_match:
  assumes "run_state (serve_all tg hmac s (odd_methods n)) w = (ops, w')"
  shows "card {ls \<in> series HTTPRequestsTotal ops. hd ls = ''(no match)''} = n"
proof -
  obtain labels where l: "map (Inc HTTPRequestsTotal) labels = request_incs ops" "list_all2 labelled (odd_methods n) labels"
    using serve_all_incs[OF assms] by blast
  have len: "length labels = n" using l(2) by (auto simp: odd_methods_def dest: list_all2_lengthD)
  have at: "hd (labels ! k) = ''(no match)''" "length (labels ! k ! 1) = Suc k" if "k < n" for k
    using list_all2_nthD2[OF l(2), of k] that len by (auto simp: odd_methods_def)
  have "labels ! i \<noteq> labels ! j" if "i < n" "j < n" "i \<noteq> j" for i j
    using at(2)[OF that(1)] at(2)[OF that(2)] that(3) by auto
  then have "distinct labels" unfolding distinct_conv_nth len by blast
  moreover have "hd ls = ''(no match)''" if ls: "ls \<in> set labels" for ls
  proof -
    obtain k where "k < n" "ls = labels ! k" using ls len by (metis in_set_conv_nth)
    then show ?thesis using at(1) by simp
  qed
  then have "{ls \<in> set labels. hd ls = ''(no match)''} = set labels" by blast
  ultimately show ?thesis using series_filter[OF l(1)] len by (simp add: distinct_card)
qed




theorem redis_gauges_per_shard_witness:
  "\<exists>ops. interleaving [WatchRedisPool ''a'' \<lparr>rds_TotalConns = 1, rds_IdleConns = 1, rds_StaleConns = 0\<rparr> [Cancelled],
                       WatchRedisPool ''b'' \<lparr>rds_TotalConns = 5, rds_IdleConns = 2, rds_StaleConns = 0\<rparr> []] ops
     \<and> gauge_sets RedisPoolTotalConns [''a''] ops = [1]"
proof -
  let ?a = "\<lparr>rds_TotalConns = 1, rds_IdleConns = 1, rds_StaleConns = 0\<rparr> :: redis_stat"
    and ?b = "\<lparr>rds_TotalConns = 5, rds_IdleConns = 2, rds_StaleConns = 0\<rparr> :: redis_stat"
  have nil: "interleaving [[], []] []" by (rule done_all) auto
  have right: "interleaving [[], ys] ys" for ys :: "metric_op list"
    by (induction ys) (auto intro!: nil advance_one[of 1])
  have both: "interleaving [xs, ys] (xs @ ys)" for xs ys :: "metric_op list"
    by (induction xs) (auto intro!: right advance_one[of 0])
  let ?ws = "[(''a'', ?a, [Cancelled]), (''b'', ?b, [])]"
  have i: "interleaving (map (\<lambda>(sh, stat, evs). WatchRedisPool sh stat evs) ?ws) (WatchRedisPool ''a'' ?a [Cancelled] @ WatchRedisPool ''b'' ?b [])"
    using both by simp
  from redis_gauges_per_shard[OF i, of "''a''" ?a "[Cancelled]"] i show ?thesis by (auto simp: comp_def)
qed

section \<open>What the counters miss\<close>

text \<open>
  A request whose handler panics is answered 500 and counted nowhere: the middleware that counts runs inside
  the one that recovers.
\<close>

theorem panic_not_counted:
  assumes "run_state (GinMiddleware path meth status m) w = ((r, ops), w')"
  shows "ops = [] \<longleftrightarrow> r = None" "r = None \<Longrightarrow> recovered status r = 500"
  using run_GinMiddleware[OF assms] by (auto simp: recovered_def split: option.splits)

text \<open>
  The outcome of the allocation endpoint is counted exactly once, as a success exactly for a 201, except after a
  body that does not bind and after a failed reset of the entry, when nothing is counted although the index has
  been consumed.
\<close>

fun allocate_answer :: "response \<Rightarrow> bool" where
  "allocate_answer (Allocated _ _ _) = True"
| "allocate_answer (Error c _) \<longleftrightarrow> 400 \<le> c"
| "allocate_answer _ = False"

lemma allocate_attempts_answers: "allocate_answer (result (allocate_attempts hmac s i e k) w)"
proof (induction k arbitrary: w)
  case (Suc k)
  show ?case by (auto simp: Suc split: prod.split sum.split option.split)
qed simp

lemma handleAllocate_answers: "allocate_answer (result (handleAllocate hmac s au body) w)"
  by (simp add: handleAllocate_def Let_def allocate_attempts_answers split: prod.split)

theorem allocate_counted:
  assumes "run_state (counted_allocate hmac s au body) w = ((resp, ops), w')"
  shows "(\<exists>url idx e. resp = Allocated url idx e \<and> ops = [Inc IngestionAllocateTotal [sv_shard s, ''success'']])
    \<or> (\<exists>code text. resp = Error code text
        \<and> ops = (if text \<in> {''invalid request'', ''could not initialize allocated index''} then []
                 else [Inc IngestionAllocateTotal [sv_shard s, ''error'']]))"
proof -
  have r: "resp = result (handleAllocate hmac s au body) w" "ops = allocate_ops s resp"
    using assms by (simp_all add: counted_allocate_def split: prod.splits)
  then have "allocate_answer resp" by (simp add: handleAllocate_answers)
  then show ?thesis unfolding r(2) by (cases resp) (simp_all add: allocate_ops_def)
qed

text \<open>The outcomes of the token endpoint: one more than the description of the counter lists.\<close>

theorem token_outcomes:
  "\<exists>label. snd (result (counted_token lib s form) w) = [Inc ASTokenIssuanceTotal [label]]
     \<and> label \<in> {''success'', ''invalid_client'', ''invalid_request'', ''unsupported_grant_type'', ''server_error''}
     \<and> (label = ''success'' \<longleftrightarrow> (\<exists>t tt n. fst (result (counted_token lib s form) w) = TokenResponse t tt n))"
  by (auto simp: counted_token_def handleToken_def split: prod.split sum.split option.split)

end
