(* ===== verification/Loadtest_Run.thy ===== *)
theory Loadtest_Run
  imports Loadtest Metrics
begin

text \<open>
  The load-test tool run against the services: its HTTP calls reach the router, the ingestion service of one
  shard behind it and the verifier, as modelled in the other theories, and the contract \<open>status_endpoints\<close> is
  discharged for them. Nothing else acts on the stores meanwhile; any call, between the tool and a service or
  between a service and a store, may fail or lose its answer.
\<close>

section \<open>The transport\<close>

text \<open>
  A URL is the base of a service followed by a path, which the service sees as it is: the tool's paths contain
  no character that a URL escapes. A redirect of the router's multiplexer, which no clean path meets, is taken
  as a failed call. \<open>EncodeAllocate\<close> and the two \<open>Bind\<close> functions are the JSON codec on the side of the services.
\<close>

record 'u target =
  tg_ingressURL :: string
  tg_router :: "'u Router"
  tg_tokengin :: tokengin
  tg_hmac :: "bytes \<Rightarrow> bytes \<Rightarrow> bytes"
  tg_server :: Server
  tg_verifier :: VerifierServer
  tg_lib :: token_lib
  tg_ParseURL :: "string \<Rightarrow> bool"
  tg_EncodeAllocate :: "string \<Rightarrow> u64 \<Rightarrow> time \<Rightarrow> bytes"
  tg_DecodeAllocate :: "bytes \<Rightarrow> (string \<times> u64 \<times> time) option"
  tg_MarshalStatus :: "string \<Rightarrow> bytes"
  tg_BindAllocate :: "bytes \<Rightarrow> time body"
  tg_BindStatus :: "bytes \<Rightarrow> string body"

text \<open>The world with the process of the ingestion service in it, and the process of the verifier.\<close>

record net =
  nt_world :: "pub_state world"
  nt_verifier :: pub_state

definition at_ingestion :: "(pub_state world, 'a) state \<Rightarrow> (net, 'a) state" where
  "at_ingestion m = State (\<lambda>n. let (r, w) = run_state m (nt_world n) in (r, n\<lparr>nt_world := w\<rparr>))"

definition at_verifier :: "(pub_state world, 'a) state \<Rightarrow> (net, 'a) state" where
  "at_verifier m = State (\<lambda>n.
     let (r, w) = run_state m ((nt_world n)\<lparr>proc := nt_verifier n\<rparr>)
     in (r, \<lparr>nt_world = w\<lparr>proc := proc (nt_world n)\<rparr>, nt_verifier = proc w\<rparr>))"

definition ingestion_request :: "'u target \<Rightarrow> http_call \<Rightarrow> string \<Rightarrow> request" where
  "ingestion_request tg c path =
     (if hc_Method c = ''POST'' \<and> path = ''/allocate''
      then PostAllocate (hc_Authorization c) (if hc_Body c = [] then EmptyBody else tg_BindAllocate tg (hc_Body c))
      else if hc_Method c = ''GET'' \<and> path = ''/accounting/me'' then GetAccounting (hc_Authorization c)
      else if hc_Method c = ''PATCH'' then
        (case str_split (CHR ''/'') path of
           [s0, s1, l, i] \<Rightarrow> if s0 = [] \<and> s1 = ''status'' \<and> l \<noteq> [] \<and> i \<noteq> []
                           then PatchStatus (hc_Authorization c) l i (tg_BindStatus tg (hc_Body c)) else OtherRequest
         | _ \<Rightarrow> OtherRequest)
      else OtherRequest)"

definition ingestion_body :: "'u target \<Rightarrow> response \<Rightarrow> bytes" where
  "ingestion_body tg r = (case r of Allocated url idx e \<Rightarrow> tg_EncodeAllocate tg url idx e | _ \<Rightarrow> [])"

definition ingress_call :: "'u target \<Rightarrow> http_call \<Rightarrow> string \<Rightarrow> (net, http_answer option) state" where
  "ingress_call tg c path =
     (case ingress_mux (tg_router tg) path \<lparr>hr_Authorization = hc_Authorization c, hr_Path = path\<rparr> of
        MuxRouter (_, ProxyTo _) \<Rightarrow> do {
          r \<leftarrow> at_ingestion (Ingestion_Router (tg_tokengin tg) (tg_hmac tg) (tg_server tg) (ingestion_request tg c path));
          ret (Some \<lparr>ha_StatusCode = ingestion_status r, ha_Body = Some (ingestion_body tg r)\<rparr>)
        }
      | MuxRouter (_, Unauthorized _ _) \<Rightarrow> ret (Some \<lparr>ha_StatusCode = 401, ha_Body = Some []\<rparr>)
      | MuxRouter (_, BadGateway _) \<Rightarrow> ret (Some \<lparr>ha_StatusCode = 502, ha_Body = Some []\<rparr>)
      | MuxRedirect _ \<Rightarrow> ret None
      | _ \<Rightarrow> ret (Some \<lparr>ha_StatusCode = 200, ha_Body = Some []\<rparr>))"

definition list_request_of :: "http_call \<Rightarrow> string \<Rightarrow> list_request" where
  "list_request_of c path =
     (if hc_Method c \<noteq> ''GET'' then OtherListRequest
      else case str_split (CHR ''/'') path of
             [s0, s1, l] \<Rightarrow> if s0 = [] \<and> s1 = ''lists'' \<and> l \<noteq> [] then GetListRequest l [] [] else OtherListRequest
           | _ \<Rightarrow> OtherListRequest)"

definition verifier_answer :: "list_response \<Rightarrow> http_answer" where
  "verifier_answer r =
     (case r of
        ListError code _ \<Rightarrow> \<lparr>ha_StatusCode = code, ha_Body = Some []\<rparr>
      | NotModified \<Rightarrow> \<lparr>ha_StatusCode = 304, ha_Body = Some []\<rparr>
      | ListToken _ _ _ data \<Rightarrow> \<lparr>ha_StatusCode = 200, ha_Body = Some data\<rparr>
      | VerifierNoRoute \<Rightarrow> \<lparr>ha_StatusCode = 404, ha_Body = Some []\<rparr>
      | _ \<Rightarrow> \<lparr>ha_StatusCode = 200, ha_Body = Some []\<rparr>)"

definition verifier_call :: "'u target \<Rightarrow> http_call \<Rightarrow> string \<Rightarrow> (net, http_answer option) state" where
  "verifier_call tg c path = do {
     r \<leftarrow> at_verifier (Verifier_Router (tg_lib tg) (tg_verifier tg) (list_request_of c path));
     ret (Some (verifier_answer r))
   }"

abbreviation tg_listBase :: "'u target \<Rightarrow> string" where
  "tg_listBase tg \<equiv> ic_BaseURL (sv_cfg (tg_server tg))"

definition deliver :: "'u target \<Rightarrow> http_call \<Rightarrow> (net, http_answer option) state" where
  "deliver tg c =
     (case CutPrefix (hc_URL c) (tg_ingressURL tg) of (path, ok) \<Rightarrow>
        if ok then ingress_call tg c path
        else (case CutPrefix (hc_URL c) (tg_listBase tg) of (path, ok) \<Rightarrow>
           if ok then verifier_call tg c path else ret None))"

text \<open>The fate of the call itself.\<close>

definition net_Do :: "'u target \<Rightarrow> http_call \<Rightarrow> (net, http_answer option) state" where
  "net_Do tg c = do {
     f \<leftarrow> at_ingestion next_fate;
     (case f of
        Ok \<Rightarrow> deliver tg c
      | Fail \<Rightarrow> ret None
      | Lost \<Rightarrow> do { deliver tg c; ret None })
   }"

definition target_env :: "'u target \<Rightarrow> net load_env" where
  "target_env tg =
     \<lparr>le_ParseURL = tg_ParseURL tg, le_Do = net_Do tg, le_IntN = (\<lambda>n. at_ingestion (rand_below n)),
      le_Float64 = at_ingestion rand_Float64, le_Now = at_ingestion time_now,
      le_DecodeAllocate = tg_DecodeAllocate tg, le_MarshalStatus = tg_MarshalStatus tg, le_tokens = tg_lib tg\<rparr>"

section \<open>The stores while only the tool is at work\<close>

definition row_fits :: "list_row \<Rightarrow> bool" where
  "row_fits r \<longleftrightarrow> (ValidBitWidth (lr_bits r) \<longrightarrow> unat (u64_of_int (lr_size r)) * nat (lr_bits r) + 7 < 2 ^ 63)"

definition plain_id :: "string \<Rightarrow> bool" where
  "plain_id l \<longleftrightarrow> l \<noteq> [] \<and> ascii l \<and> CHR ''/'' \<notin> set l"

text \<open>Distinct and plain identifiers, sizes that do not overflow, and versions of a shard that stay above a bound.\<close>

definition calm :: "string \<Rightarrow> (string \<Rightarrow> int) \<Rightarrow> stores \<Rightarrow> bool" where
  "calm S V t \<longleftrightarrow> distinct (map lr_id (lists (pg t))) \<and> (\<forall>r\<in>set (lists (pg t)). row_fits r \<and> plain_id (lr_id r))
     \<and> (\<forall>l. V l \<le> live_version S l t)"

lemma row_fits_update:
  "row_fits (r\<lparr>lr_state := x\<rparr>) = row_fits r" "row_fits (advance r) = row_fits r" "row_fits (r\<lparr>lr_max_exp := e\<rparr>) = row_fits r"
  by (simp_all add: row_fits_def advance_def)

lemma calm_update_lists:
  assumes "calm S V t" "\<And>r. lr_id (f r) = lr_id r" "\<And>r. row_fits (f r) = row_fits r"
  shows "calm S V (t\<lparr>pg := sql_update_lists P f (pg t)\<rparr>)"
proof -
  have "map lr_id (lists (sql_update_lists P f (pg t))) = map lr_id (lists (pg t))"
    using assms(2) by (simp add: sql_update_lists_def)
  moreover have "row_fits r \<and> plain_id (lr_id r)" if "r \<in> set (lists (sql_update_lists P f (pg t)))" for r
    using that assms by (auto simp: sql_update_lists_def calm_def split: if_splits)
  ultimately show ?thesis using assms(1) by (simp add: calm_def live_version_def)
qed

lemma calm_pg_cong: "calm S V t \<Longrightarrow> lists (pg u) = lists (pg t) \<Longrightarrow> kv u S = kv t S \<Longrightarrow> calm S V u"
  by (simp add: calm_def live_version_def)

lemma calm_freeze: "calm S V t \<Longrightarrow> calm S V (exec (PgFreeze l) t)"
  unfolding exec.simps on_pg_def sql_freeze_def by (rule calm_update_lists) (simp_all add: row_fits_update)

lemma calm_create:
  assumes "calm S V t" "ValidBitWidth bits \<longrightarrow> unat sz * nat bits + 7 < 2 ^ 63" "plain_id l"
  shows "calm S V (exec (PgCreateList l bits sz k sh) t)"
proof -
  have "u64_of_int (int64_of_u64 sz) = sz" by (simp add: u64_of_int_def int64_of_u64_def)
  then show ?thesis using assms by (auto simp: calm_def sql_insert_list_def row_fits_def live_version_def split: sum.splits)
qed

lemma lists_count_usage [simp]: "lists (sql_count_usage i sh now db) = lists db"
  by (simp add: sql_count_usage_def)

lemma lists_insert_allocation: "sql_insert_allocation l i iss e now db = Inr db' \<Longrightarrow> lists db' = lists db"
  by (auto simp: sql_insert_allocation_def split: if_splits)

text \<open>What a reservation does to the rows.\<close>

lemma reserve_tx_lists:
  assumes "reserve_tx l i sh e d now db = Inr (idx, db')"
  shows "lists db' = lists (sql_bump_max_exp l e (sql_update_lists (reservable l) advance db))"
  using assms
  by (auto simp: reserve_tx_def sql_reserve_cursor_def dest!: lists_insert_allocation split: option.splits sum.splits)

lemma calm_reserve:
  assumes "calm S V t"
  shows "calm S V (exec (PgReserve l i sh e d) t)"
proof (cases "reserve_tx l i sh e d (clock t) (pg t)")
  case (Inl err)
  then show ?thesis using assms by (simp add: on_pg_def or_same_def)
next
  case (Inr r)
  obtain idx db where r: "r = (idx, db)" by fastforce
  let ?t1 = "t\<lparr>pg := sql_update_lists (reservable l) advance (pg t)\<rparr>"
  have "calm S V ?t1" by (rule calm_update_lists[OF assms]) (simp_all add: row_fits_def advance_def)
  then have "calm S V (?t1\<lparr>pg := sql_bump_max_exp l e (pg ?t1)\<rparr>)"
    unfolding sql_bump_max_exp_def by (rule calm_update_lists) (simp_all add: row_fits_update)
  then show ?thesis
    by (rule calm_pg_cong) (use Inr r in \<open>auto simp: on_pg_def or_same_def dest!: reserve_tx_lists\<close>)
qed

lemma calm_kv:
  assumes "calm S V t"
  shows "calm S V (exec (KvInit sh l d) t)" "calm S V (exec (KvSetByte sh l q off bits v) t)" "calm S V (exec (KvIncr sh l) t)"
proof -
  have "live_version S k (exec (KvInit sh l d) t) = live_version S k t" for k
    by (auto simp: live_version_def on_kv_def or_same_def kv_setnx_def split: option.splits)
  then show "calm S V (exec (KvInit sh l d) t)" using assms by (simp add: calm_def on_kv_def)
  have "live_version S k (exec (KvSetByte sh l q off bits v) t) = live_version S k t" for k
    by (auto simp: live_version_def on_kv_def or_same_def setByteScript_def kv_setrange_def Let_def split: sum.splits if_splits)
  then show "calm S V (exec (KvSetByte sh l q off bits v) t)" using assms by (simp add: calm_def on_kv_def)
  have "live_version S k t \<le> live_version S k (exec (KvIncr sh l) t)" for k
    by (auto simp: live_version_def on_kv_def or_same_def kv_incr_def Let_def split: sum.splits if_splits option.splits)
  then show "calm S V (exec (KvIncr sh l) t)"
    using assms unfolding calm_def by (auto simp: on_kv_def intro: order_trans)
qed

lemma quiet_keep_act: "(\<And>t. P t \<Longrightarrow> P (exec a t)) \<Longrightarrow> quiet P (call_act e a g) (\<lambda>_. P)"
  by (rule quiet_call_act) simp_all

lemma quiet_keep_draw: "quiet P next_draw (\<lambda>_. P)" "quiet P next_fate (\<lambda>_. P)"
  by (rule quiet_next_draw quiet_next_fate, assumption)+

lemma quiet_keep_query: "quiet P (pg_query f) (\<lambda>_. P)"
  unfolding pg_query_def by (rule quiet_read)

lemma quiet_conj: "quiet P m Q \<Longrightarrow> quiet P' m Q' \<Longrightarrow> quiet (\<lambda>s. P s \<and> P' s) m (\<lambda>x s. Q x s \<and> Q' x s)"
  by (simp add: quiet_def)

lemma quiet_exact: "(\<And>t0. P t0 \<Longrightarrow> quiet (\<lambda>t. t = t0) m Q) \<Longrightarrow> quiet P m Q"
  unfolding quiet_def by blast

section \<open>The pool\<close>

definition fits :: "Manager \<Rightarrow> bool" where
  "fits m \<longleftrightarrow> ascii (mg_ShardID m) \<and> CHR ''/'' \<notin> set (mg_ShardID m) \<and> (ValidBitWidth (mg_Bits m) \<longrightarrow> unat (mg_Capacity m) * nat (mg_Bits m) + 7 < 2 ^ 63)"

lemma ascii_hex: "ascii (hex_encode bs)"
proof -
  have "\<forall>c\<in>set ''0123456789abcdef''. of_char c < (128 :: nat)" by simp
  then show ?thesis using hex_encode_chars unfolding ascii_def by blast
qed

lemma ascii_append [simp]: "ascii (x @ y) \<longleftrightarrow> ascii x \<and> ascii y"
  by (auto simp: ascii_def)

lemma quiet_plain_ListID:
  assumes "ascii sh" "CHR ''/'' \<notin> set sh"
  shows "quiet P (ListID_New rand_read sh) (\<lambda>r t. P t \<and> (\<forall>l. r = Inr l \<longrightarrow> plain_id l))"
proof -
  have "ascii (separator # hex_encode b)" "CHR ''/'' \<notin> set (separator # hex_encode b)" for b
    using ascii_hex[of b] hex_encode_chars[of b] by (auto simp: ascii_def)
  then have "plain_id l" if "result (ListID_New rand_read sh) w = Inr l" for l w
    using that assms by (auto simp: ListID_New_def plain_id_def split: if_splits prod.splits sum.splits)
  then show ?thesis using quiet_ListID_New[of P sh] by (auto simp: quiet_def)
qed

lemma quiet_keep_createList:
  assumes "fits m"
  shows "quiet (calm S V) (createList m) (\<lambda>_. calm S V)"
proof -
  have cre: "quiet (calm S V) (CreateList lid (mg_Bits m) (mg_Capacity m) key sh) (\<lambda>_. calm S V)" if "plain_id lid" for lid key sh
    unfolding CreateList_def by (intro quiet_keep quiet_keep_act calm_create) (use assms that in \<open>simp_all add: fits_def\<close>)
  have ini: "quiet (calm S V) (Init sh l n) (\<lambda>_. calm S V)" for sh l n
    unfolding Init_def Let_def by (intro quiet_keep quiet_keep_act calm_kv)
  have bad: "quiet (calm S V) (case e of ShardContainsSeparator s \<Rightarrow> ret (Inl (ErrShardName s))
      | RandomFailed e \<Rightarrow> ret (Inl e)) (\<lambda>_. calm S V)" for e
    by (cases e) (simp_all add: quiet_ret)
  have rest: "quiet (\<lambda>t. plain_id lid \<and> calm S V t) (do {
      rk \<leftarrow> NewKey rand_read;
      (case rk of Inl e \<Rightarrow> ret (Inl e) | Inr key \<Rightarrow> do {
         rl \<leftarrow> CreateList lid (mg_Bits m) (mg_Capacity m) key (mg_ShardID m);
         (case rl of Inl e \<Rightarrow> ret (Inl e) | Inr lm \<Rightarrow> do {
            ri \<leftarrow> Init (mg_ShardID m) (lm_ID lm) (n lm);
            (case ri of Some e \<Rightarrow> ret (Inl e) | None \<Rightarrow> ret (Inr lm)) }) }) }) (\<lambda>_. calm S V)" for lid n
    by (rule quiet_pure, rule quiet_bind[OF quiet_NewKey]) (intro quiet_keep cre ini)
  show ?thesis
    unfolding createList_def
    by (rule quiet_bind[OF quiet_plain_ListID], use assms in \<open>simp add: fits_def\<close>, use assms in \<open>simp add: fits_def\<close>, rule quiet_case_sum, rule quiet_pre[OF bad], simp)
       (rule quiet_pre[OF rest], simp)
qed

lemma quiet_keep_top_up: "fits m \<Longrightarrow> quiet (calm S V) (top_up m k rem) (\<lambda>_. calm S V)"
proof (induction k arbitrary: rem)
  case (Suc k)
  show ?case unfolding top_up.simps by (intro quiet_keep quiet_keep_createList[OF Suc.prems] Suc)
qed (simp add: quiet_ret)

lemma quiet_keep_freeze_aged: "quiet (calm S V) (freeze_aged m rem lms) (\<lambda>_. calm S V)"
proof (induction m rem lms rule: freeze_aged.induct)
  case (2 m rem lm lms)
  have f: "quiet (calm S V) (Freeze l) (\<lambda>_. calm S V)" for l
    unfolding Freeze_def pg_exec_def by (intro quiet_keep quiet_keep_act calm_freeze)
  show ?case unfolding freeze_aged.simps by (intro quiet_keep f 2)
qed (simp add: quiet_ret)

text \<open>A list handed out by the pool is a row of its shard.\<close>

definition picked :: "Manager \<Rightarrow> ListMeta \<Rightarrow> stores \<Rightarrow> bool" where
  "picked m lm t \<longleftrightarrow> (\<exists>r\<in>set (lists (pg t)). lm = scanListMeta r \<and> lr_shard_id r = mg_ShardID m)"

lemma quiet_calm_ActiveLists:
  "quiet (calm S V) (ActiveLists (mg_ShardID m)) (\<lambda>r t. calm S V t \<and> (\<forall>lms. r = Inr lms \<longrightarrow> (\<forall>lm\<in>set lms. picked m lm t)))"
  unfolding ActiveLists_def queryLists_def pg_query_def
  by (rule quiet_remote) (auto simp: picked_def sql_select_lists_def)

lemma quiet_calm_Choose: "quiet P (ChooseByPowerOfTwo cs) (\<lambda>r t. P t \<and> (\<forall>c. r = Some c \<longrightarrow> c \<in> set cs))"
proof -
  have "quiet P (ChooseByPowerOfTwo cs) (\<lambda>_. P)"
    unfolding ChooseByPowerOfTwo_def rand_below_def Let_def
    by (cases cs rule: remdups_adj.cases) (auto intro!: quiet_keep quiet_keep_draw)
  then show ?thesis using Choose_mem by (fastforce simp: quiet_def)
qed

lemma quiet_Pick:
  assumes "fits m"
  shows "quiet (calm S V) (PickForAllocation m) (\<lambda>r t. calm S V t \<and> (\<forall>lm. r = Inr (Some lm) \<longrightarrow> picked m lm t))" (is "quiet _ _ ?Q")
proof -
  have choose: "quiet (\<lambda>t. calm S V t \<and> (\<forall>lm\<in>set lms. picked m lm t)) (do { c \<leftarrow> ChooseByPowerOfTwo lms; ret (Inr c) }) ?Q" for lms
    by (rule quiet_bind[OF quiet_calm_Choose], rule quiet_ret) auto
  have again: "quiet (calm S V) (do { rb \<leftarrow> ActiveLists (mg_ShardID m);
      (case rb of Inl e \<Rightarrow> ret (Inl e) | Inr active' \<Rightarrow> do { c \<leftarrow> ChooseByPowerOfTwo active'; ret (Inr c) }) }) ?Q"
    by (rule quiet_bind[OF quiet_calm_ActiveLists], rule quiet_case_sum, rule quiet_ret, simp, rule quiet_pre[OF choose]) simp
  have healthy: "quiet (calm S V) (EnsureHealthy m) (\<lambda>_. calm S V)"
    unfolding EnsureHealthy_def ActiveLists_def queryLists_def
    by (intro quiet_keep quiet_keep_query quiet_keep_freeze_aged quiet_keep_top_up assms)
  show ?thesis
    unfolding PickForAllocation_def
    by (rule quiet_bind[OF quiet_calm_ActiveLists], rule quiet_case_sum, rule quiet_ret, simp, rule quiet_if,
        rule quiet_pre[OF quiet_bind[OF healthy]], rule quiet_case_option)
       (auto intro!: quiet_ret again quiet_pre[OF choose])
qed

section \<open>Writes and what is read of them\<close>

text \<open>
  The script writes the entry whatever the stored string looked like: missing, cut or of the right length, the
  snapshot then has the new value at the index.
\<close>

lemma script_entry:
  assumes "ValidBitWidth bits" "i * nat bits div 8 < N"
    "setByteScript k (i * nat bits div 8) (int (i * nat bits mod 8)) bits v ks = Inr (b, ks')"
  shows "entry (nat bits) (snapshot_of (ks_strings ks' k) N) i = v AND mask (nat bits)"
proof -
  let ?n = "nat bits" and ?q = "i * nat bits div 8" and ?off = "i * nat bits mod 8"
  have bits: "int ?n = bits" using ValidBitWidth_nat[OF assms(1)] by simp
  have off: "?off + ?n \<le> 8" using assms(1) by (rule field_in_byte)
  obtain c where b: "b = ucast (lua_new_byte c (int ?off) bits v)" "ks' = kv_setrange k ?q b ks"
    using assms(3) by (auto simp: setByteScript_def Let_def split: if_splits)
  have byte: "b = put_field ?off ?n (v AND mask ?n) c"
    unfolding b(1) using lua_new_byte_put_field(2)[OF off, of c v] bits by simp
  obtain d where d: "ks_strings ks' k = Some d" "?q < length d" "d ! ?q = b"
    unfolding b(2) kv_setrange_def by (auto simp: Let_def)
  have "snapshot_of (Some d) N ! ?q = b"
    using d(2,3) assms(2) by (auto simp: snapshot_of_def nth_append)
  moreover have "get_field ?off ?n b = v AND mask ?n"
    unfolding byte by (rule get_put_field_same[OF off]) (simp add: word_and_le1)
  ultimately show ?thesis by (simp add: entry_def d(1))
qed

lemma quiet_SetStatus_ok:
  "quiet (\<lambda>t. t = t0) (SetStatus sh l q off bits v)
     (\<lambda>r t. \<forall>n. r = Inr n \<longrightarrow> (\<exists>b ks. setByteScript (bitmapKey l) (unat q) (uint off) bits v (kv t0 sh) = Inr (b, ks)))"
proof (cases "setByteScript (bitmapKey l) (unat q) (uint off) bits v (kv t0 sh)")
  case (Inl err)
  have stop: "quiet (\<lambda>t. False) m Q" for m :: "('p world, err + int) state" and Q by (simp add: quiet_def)
  show ?thesis
    unfolding SetStatus_def
    by (rule quiet_bind[where Q = "\<lambda>r t. \<exists>e. r = Inl e"], rule quiet_call_act, (simp add: Inl del: exec.simps), simp, simp,
        rule quiet_case_sum, rule quiet_ret, simp) (simp add: stop del: exec.simps)
qed (auto intro: quiet_post[OF quiet_SetStatus])

text \<open>The entry of a list as the next snapshot has it, and the row the list has.\<close>

definition published_entry :: "ListMeta \<Rightarrow> u64 \<Rightarrow> stores \<Rightarrow> byte" where
  "published_entry lm idx t = entry (nat (lm_Bits lm)) (stored_bytes lm t) (unat idx)"

definition row_of :: "string \<Rightarrow> ListMeta \<Rightarrow> stores \<Rightarrow> bool" where
  "row_of S lm t \<longleftrightarrow> (\<exists>r. sql_select_list (lm_ID lm) (pg t) = Some r \<and> describes lm r) \<and> lm_ShardID lm = S"

lemma index_byte:
  assumes "ValidBitWidth bits" "unat sz * nat bits + 7 < 2 ^ 63" "idx < (sz :: u64)"
  shows "unat idx * nat bits div 8 < nat (int64_of_u64 (byte_len sz bits))"
    "unat (fst (ByteOffset idx bits)) = unat idx * nat bits div 8" "uint (snd (ByteOffset idx bits)) = int (unat idx * nat bits mod 8)"
proof -
  have i: "unat idx < unat sz" using assms(3) by (simp add: word_less_nat_alt)
  have le: "unat idx * nat bits \<le> unat sz * nat bits" using i by simp
  have no_wrap: "unat idx * nat bits < 2 ^ 64" by (rule le_less_trans[OF le]) (use assms(2) in simp)
  show "unat (fst (ByteOffset idx bits)) = unat idx * nat bits div 8" "uint (snd (ByteOffset idx bits)) = int (unat idx * nat bits mod 8)"
    using ByteOffset_entry[OF assms(1) no_wrap, of "fst (ByteOffset idx bits)" "snd (ByteOffset idx bits)"] by simp_all
  have len: "unat (byte_len sz bits) = (unat sz * nat bits + 7) div 8" using byte_len_nat[OF assms(1)] assms(2) by simp
  have "int64_of_u64 (byte_len sz bits) = int (unat (byte_len sz bits))"
    using assms(2) len by (simp add: int64_of_u64_def sint_uint uint_nat signed_take_bit_int_eq_self)
  then show "unat idx * nat bits div 8 < nat (int64_of_u64 (byte_len sz bits))"
    using entry_byte_in_range[OF assms(1) i] len by simp
qed

lemma written_entry:
  assumes "ValidBitWidth (lm_Bits lm)" "unat (lm_Size lm) * nat (lm_Bits lm) + 7 < 2 ^ 63" "idx < lm_Size lm" "lm_ShardID lm = sh"
    "setByteScript (bitmapKey (lm_ID lm)) (unat (fst (ByteOffset idx (lm_Bits lm)))) (uint (snd (ByteOffset idx (lm_Bits lm))))
       (lm_Bits lm) v (kv t0 sh) = Inr (b, ks)"
  shows "published_entry lm idx (exec (KvIncr sh (lm_ID lm)) (exec (KvSetByte sh (lm_ID lm) (unat (fst (ByteOffset idx (lm_Bits lm))))
     (uint (snd (ByteOffset idx (lm_Bits lm)))) (lm_Bits lm) v) t0)) = v AND mask (nat (lm_Bits lm))" (is "published_entry _ _ ?t = _")
proof -
  have "ks_strings (kv ?t sh) = ks_strings ks"
    using assms(5) by (simp add: kv_exec_incr(1) on_kv_def or_same_def del: exec.simps(12))
  then show ?thesis
    using script_entry[OF assms(1), of "unat idx"] index_byte[OF assms(1-3)] assms(4,5)
    by (auto simp: published_entry_def stored_bytes_def)
qed

section \<open>An allocation\<close>

text \<open>
  What an acknowledged write leaves: the row, an index within it, a version above the bound, and the new value
  for every width a token can carry.
\<close>

definition fresh_entry :: "string \<Rightarrow> (string \<Rightarrow> int) \<Rightarrow> ListMeta \<Rightarrow> u64 \<Rightarrow> byte \<Rightarrow> stores \<Rightarrow> bool" where
  "fresh_entry S V lm idx v t \<longleftrightarrow> row_of S lm t \<and> idx < lm_Size lm \<and> V (lm_ID lm) < live_version S (lm_ID lm) t
     \<and> (ValidBitWidth (lm_Bits lm) \<longrightarrow> published_entry lm idx t = v AND mask (nat (lm_Bits lm)))"

lemma calm_row_fits:
  assumes "calm S V t" "row_of S lm t" "ValidBitWidth (lm_Bits lm)"
  shows "unat (lm_Size lm) * nat (lm_Bits lm) + 7 < 2 ^ 63"
proof -
  obtain r where r: "sql_select_list (lm_ID lm) (pg t) = Some r" "describes lm r" using assms(2) by (auto simp: row_of_def)
  then have "row_fits r" using assms(1) select_list_mem[OF r(1)] by (auto simp: calm_def)
  then show ?thesis using r(2) assms(3) by (simp add: row_fits_def describes_def)
qed

lemma row_of_pg: "pg u = pg t \<Longrightarrow> row_of S lm u = row_of S lm t"
  by (simp add: row_of_def)

lemma picked_row:
  assumes "calm S V t" "picked m lm t" "mg_ShardID m = S"
  shows "row_of S lm t"
proof -
  obtain r where r: "r \<in> set (lists (pg t))" "lm = scanListMeta r" "lr_shard_id r = S" using assms(2,3) by (auto simp: picked_def)
  then have "sql_select_list (lr_id r) (pg t) = Some r"
    using assms(1) find_id_distinct[of "lists (pg t)" r] by (simp add: calm_def sql_select_list_def)
  then show ?thesis using r by (auto simp: row_of_def describes_def scanListMeta_def)
qed

lemma row_of_update:
  assumes "row_of S lm t" "\<And>r. lr_id (f r) = lr_id r" "\<And>r. describes lm (f r) = describes lm r"
    "lists (pg u) = lists (sql_update_lists P f (pg t))"
  shows "row_of S lm u"
proof -
  obtain r where r: "sql_select_list (lm_ID lm) (pg t) = Some r" "describes lm r" using assms(1) by (auto simp: row_of_def)
  have "find (\<lambda>q. lr_id q = l) (map (\<lambda>r. if P r then f r else r) rs)
      = map_option (\<lambda>r. if P r then f r else r) (find (\<lambda>q. lr_id q = l) rs)" for l rs
    by (induction rs) (simp_all add: assms(2))
  then have "sql_select_list (lm_ID lm) (pg u) = Some (if P r then f r else r)"
    using r(1) by (simp add: sql_select_list_def assms(4) sql_update_lists_def)
  moreover have "describes lm (if P r then f r else r)" using r(2) assms(3) by simp
  ultimately show ?thesis using assms(1) by (auto simp: row_of_def)
qed

lemma row_of_reserve:
  assumes "row_of S lm t"
  shows "row_of S lm (exec (PgReserve l i sh e d) t)"
proof (cases "reserve_tx l i sh e d (clock t) (pg t)")
  case (Inl err)
  then show ?thesis using assms by (simp add: on_pg_def or_same_def)
next
  case (Inr r)
  obtain idx db where r: "r = (idx, db)" by fastforce
  let ?t1 = "t\<lparr>pg := sql_update_lists (reservable l) advance (pg t)\<rparr>"
  have "row_of S lm ?t1" by (rule row_of_update[OF assms, where f = advance and P = "reservable l"]) (simp_all add: advance_def describes_def)
  then show ?thesis
    by (rule row_of_update[where P = "\<lambda>r. lr_id r = l" and f = "\<lambda>r. r\<lparr>lr_max_exp := greatest (lr_max_exp r) (pgtz e)\<rparr>"])
       (use Inr r in \<open>auto simp: describes_def on_pg_def or_same_def sql_bump_max_exp_def dest!: reserve_tx_lists\<close>)
qed

lemma quiet_calm_Reserve:
  "quiet (\<lambda>t. calm S V t \<and> row_of S lm t) (ReserveCursorAndRecord (lm_ID lm) i sh e d)
     (\<lambda>r t. (calm S V t \<and> row_of S lm t) \<and> (\<forall>idx. r = Inr idx \<longrightarrow> (\<exists>c. d c = Inr idx)))"
  unfolding ReserveCursorAndRecord_def
  by (rule quiet_call_act) (auto simp: calm_reserve row_of_reserve dest: reserve_tx_derived split: sum.splits simp del: exec.simps)

text \<open>An acknowledged \<open>SetStatus\<close> of the shard's own list.\<close>

lemma quiet_keep_SetStatus: "quiet (calm S V) (SetStatus sh l q off bits v) (\<lambda>_. calm S V)"
  unfolding SetStatus_def by (intro quiet_keep quiet_keep_act calm_kv)

lemma quiet_fresh_SetStatus:
  assumes "idx < lm_Size lm" "ByteOffset idx (lm_Bits lm) = (q, off)"
  shows "quiet (\<lambda>t. calm S V t \<and> row_of S lm t) (SetStatus S (lm_ID lm) q off (lm_Bits lm) v)
     (\<lambda>r t. calm S V t \<and> (\<forall>n. r = Inr n \<longrightarrow> fresh_entry S V lm idx v t))"
proof (rule quiet_exact)
  fix t0 assume t0: "calm S V t0 \<and> row_of S lm t0"
  let ?w = "exec (KvIncr S (lm_ID lm)) (exec (KvSetByte S (lm_ID lm) (unat q) (uint off) (lm_Bits lm) v) t0)"
  have sh: "lm_ShardID lm = S" using t0 by (simp add: row_of_def)
  have keep: "quiet (\<lambda>t. t = t0) (SetStatus S (lm_ID lm) q off (lm_Bits lm) v) (\<lambda>_. calm S V)"
    by (rule quiet_pre[OF quiet_keep_SetStatus]) (use t0 in simp)
  have "fresh_entry S V lm idx v t"
    if t: "t = ?w" and ver: "live_version S (lm_ID lm) t = live_version S (lm_ID lm) t0 + 1"
      and script: "setByteScript (bitmapKey (lm_ID lm)) (unat q) (uint off) (lm_Bits lm) v (kv t0 S) = Inr (b, ks)" for t b ks
  proof -
    have "pg t = pg t0" unfolding t by (simp add: kv_exec_incr(3) on_kv_def del: exec.simps(12))
    then have "row_of S lm t" using t0 row_of_pg by blast
    moreover have "V (lm_ID lm) < live_version S (lm_ID lm) t" using t0 ver by (simp add: calm_def)
    moreover have "published_entry lm idx t = v AND mask (nat (lm_Bits lm))" if valid: "ValidBitWidth (lm_Bits lm)"
    proof -
      have "unat (lm_Size lm) * nat (lm_Bits lm) + 7 < 2 ^ 63" using calm_row_fits[OF _ _ valid] t0 by blast
      from written_entry[OF valid this assms(1) sh] show ?thesis using script assms(2) unfolding t by simp
    qed
    ultimately show ?thesis using assms(1) by (simp add: fresh_entry_def)
  qed
  then show "quiet (\<lambda>t. t = t0) (SetStatus S (lm_ID lm) q off (lm_Bits lm) v)
     (\<lambda>r t. calm S V t \<and> (\<forall>n. r = Inr n \<longrightarrow> fresh_entry S V lm idx v t))"
    by (intro quiet_post[OF quiet_conj[OF keep quiet_conj[OF quiet_SetStatus quiet_SetStatus_ok]], THEN quiet_pre]) blast+
qed

definition allocated_fresh :: "string \<Rightarrow> (string \<Rightarrow> int) \<Rightarrow> Server \<Rightarrow> response \<Rightarrow> stores \<Rightarrow> bool" where
  "allocated_fresh S V s resp t \<longleftrightarrow> calm S V t \<and> (\<forall>url idx e. resp = Allocated url idx e \<longrightarrow>
     (\<exists>lm. url = ic_BaseURL (sv_cfg s) @ ''/lists/'' @ lm_ID lm \<and> fresh_entry S V lm idx StatusValid t))"

lemma quiet_initialise:
  assumes "idx < lm_Size lm" "S = sv_shard s"
  shows "quiet (\<lambda>t. calm S V t \<and> row_of S lm t)
    (case ByteOffset idx (lm_Bits lm) of (byteIndex, bitOffset) \<Rightarrow> do {
       rs \<leftarrow> SetStatus (sv_shard s) (lm_ID lm) byteIndex bitOffset (lm_Bits lm) StatusValid;
       (case rs of
          Inl _ \<Rightarrow> ret (Error 500 ''could not initialize allocated index'')
        | Inr _ \<Rightarrow> do {
            MarkDirty (lm_ID lm) (ic_DefaultTTLSeconds (sv_cfg s));
            ret (Allocated (ic_BaseURL (sv_cfg s) @ ''/lists/'' @ lm_ID lm) idx e)
          })
     }) (allocated_fresh S V s)"
proof -
  obtain q off where bo: "ByteOffset idx (lm_Bits lm) = (q, off)" by fastforce
  have fin: "quiet (\<lambda>t. calm S V t \<and> fresh_entry S V lm idx StatusValid t)
      (do { MarkDirty (lm_ID lm) ttl; ret (Allocated (ic_BaseURL (sv_cfg s) @ ''/lists/'' @ lm_ID lm) idx e) }) (allocated_fresh S V s)" for ttl
    by (rule quiet_bind[OF quiet_MarkDirty], rule quiet_ret) (auto simp: allocated_fresh_def)
  show ?thesis
    unfolding bo prod.case assms(2)[symmetric]
    by (rule quiet_bind[OF quiet_fresh_SetStatus[OF assms(1) bo]], rule quiet_case_sum, rule quiet_ret, simp add: allocated_fresh_def,
        rule quiet_pre[OF fin]) simp
qed

lemma quiet_allocate_attempts:
  assumes "fits (sv_pool s)" "mg_ShardID (sv_pool s) = S" "S = sv_shard s"
  shows "quiet (calm S V) (allocate_attempts hmac s i e k) (allocated_fresh S V s)"
proof (induction k)
  case 0
  show ?case by (simp add: quiet_ret allocated_fresh_def)
next
  case (Suc k)
  have err: "quiet (calm S V) (ret (Error c m)) (allocated_fresh S V s)" for c m
    by (rule quiet_ret) (simp add: allocated_fresh_def)
  have reserve: "quiet (\<lambda>t. calm S V t \<and> row_of S lm t) (do {
       rr \<leftarrow> ReserveCursorAndRecord (lm_ID lm) i (sv_shard s) e (Index hmac alloc);
       (case rr of
          Inl err \<Rightarrow> if err = ErrListFull then allocate_attempts hmac s i e k
                   else ret (Error 500 ''could not allocate an index'')
        | Inr idx \<Rightarrow>
            (case ByteOffset idx (lm_Bits lm) of (byteIndex, bitOffset) \<Rightarrow> do {
               rs \<leftarrow> SetStatus (sv_shard s) (lm_ID lm) byteIndex bitOffset (lm_Bits lm) StatusValid;
               (case rs of
                  Inl _ \<Rightarrow> ret (Error 500 ''could not initialize allocated index'')
                | Inr _ \<Rightarrow> do {
                    MarkDirty (lm_ID lm) (ic_DefaultTTLSeconds (sv_cfg s));
                    ret (Allocated (ic_BaseURL (sv_cfg s) @ ''/lists/'' @ lm_ID lm) idx e)
                  })
             })) }) (allocated_fresh S V s)" if alloc: "New (lm_FPEKey lm) (lm_Size lm) = Inr alloc" for lm alloc
  proof (rule quiet_bind[OF quiet_calm_Reserve], rule quiet_case_sum, goal_cases)
    case (1 rr err)
    show ?case by (intro quiet_if quiet_pre[OF Suc] quiet_pre[OF err]) auto
  next
    case (2 rr idx)
    show ?case
      by (rule quiet_pre, rule quiet_pure[where c = "idx < lm_Size lm"], rule quiet_initialise[OF _ assms(3)], assumption)
         (use 2 in \<open>auto simp: New_al_n[OF alloc, symmetric] dest: Index_InrD\<close>)
  qed
  have new: "quiet (\<lambda>t. calm S V t \<and> picked (sv_pool s) lm t) (case New (lm_FPEKey lm) (lm_Size lm) of
             Inl _ \<Rightarrow> ret (Error 500 ''internal allocator error'')
           | Inr alloc \<Rightarrow> do {
               rr \<leftarrow> ReserveCursorAndRecord (lm_ID lm) i (sv_shard s) e (Index hmac alloc);
               (case rr of
                  Inl err \<Rightarrow> if err = ErrListFull then allocate_attempts hmac s i e k else ret (Error 500 ''could not allocate an index'')
                | Inr idx \<Rightarrow>
                    (case ByteOffset idx (lm_Bits lm) of (byteIndex, bitOffset) \<Rightarrow> do {
                       rs \<leftarrow> SetStatus (sv_shard s) (lm_ID lm) byteIndex bitOffset (lm_Bits lm) StatusValid;
                       (case rs of
                          Inl _ \<Rightarrow> ret (Error 500 ''could not initialize allocated index'')
                        | Inr _ \<Rightarrow> do {
                            MarkDirty (lm_ID lm) (ic_DefaultTTLSeconds (sv_cfg s));
                            ret (Allocated (ic_BaseURL (sv_cfg s) @ ''/lists/'' @ lm_ID lm) idx e)
                          }) })) }) (allocated_fresh S V s)" for lm
    by (rule quiet_case_sum, rule quiet_pre[OF err], simp, rule quiet_pre[OF reserve]) (use picked_row assms(2) in auto)
  show ?case
    unfolding allocate_attempts.simps
    by (rule quiet_bind[OF quiet_Pick[OF assms(1)]], rule quiet_case_sum, rule quiet_pre[OF err], simp,
        rule quiet_case_option, rule quiet_pre[OF err], simp, rule quiet_pre[OF new]) simp
qed

lemma quiet_calm_handleAllocate:
  assumes "fits (sv_pool s)" "mg_ShardID (sv_pool s) = S" "S = sv_shard s"
  shows "quiet (calm S V) (handleAllocate hmac s au body) (allocated_fresh S V s)"
  unfolding handleAllocate_def Let_def
  by (rule quiet_if, rule quiet_ret, simp add: allocated_fresh_def, rule quiet_bind[OF quiet_keep_time], rule quiet_if,
      rule quiet_allocate_attempts[OF assms], rule quiet_if, rule quiet_ret, simp add: allocated_fresh_def,
      rule quiet_allocate_attempts[OF assms])

section \<open>An update\<close>

lemma quiet_keep_handleSetStatus: "quiet (calm S V) (handleSetStatus s au l ip b) (\<lambda>_. calm S V)"
  unfolding handleSetStatus_def CheckOwnership_def GetList_def
  by (intro quiet_keep quiet_case_body quiet_keep_query) (auto split: prod.split intro!: quiet_keep quiet_keep_SetStatus quiet_MarkDirty)

lemma quiet_row_GetList:
  "quiet (\<lambda>t. calm S V t \<and> row_of S lm t) (GetList (lm_ID lm))
     (\<lambda>r t. (calm S V t \<and> row_of S lm t) \<and> (\<forall>lm'. r = Inr (Some lm') \<longrightarrow> lm_Bits lm' = lm_Bits lm))"
  unfolding GetList_def pg_query_def
  by (rule quiet_remote) (auto simp: row_of_def describes_def scanListMeta_def)

lemma quiet_fresh_update:
  assumes "idx < lm_Size lm" "S = sv_shard s"
  shows "quiet (\<lambda>t. calm S V t \<and> row_of S lm t) (handleSetStatus s au (lm_ID lm) (show_nat (unat idx)) (Json ''INVALID''))
     (\<lambda>r t. calm S V t \<and> (r = NoContent \<longrightarrow> fresh_entry S V lm idx StatusInvalid t))" (is "quiet ?P _ ?Q")
proof -
  obtain q off where bo: "ByteOffset idx (lm_Bits lm) = (q, off)" by fastforce
  have err: "quiet ?P (ret (Error c m)) ?Q" for c m by (rule quiet_ret) simp
  have own: "quiet ?P (CheckOwnership l i iss) (\<lambda>_. ?P)" for l i iss
    unfolding CheckOwnership_def by (intro quiet_keep quiet_keep_query)
  have fin: "quiet (\<lambda>t. calm S V t \<and> fresh_entry S V lm idx StatusInvalid t) (do { MarkDirty (lm_ID lm) ttl; ret NoContent }) ?Q" for ttl
    by (rule quiet_bind[OF quiet_MarkDirty], rule quiet_ret) simp
  have wr: "quiet ?P (case ByteOffset idx (lm_Bits lm') of (byteIndex, bitOffset) \<Rightarrow> do {
       rs \<leftarrow> SetStatus (sv_shard s) (lm_ID lm) byteIndex bitOffset (lm_Bits lm') StatusInvalid;
       (case rs of
          Inl _ \<Rightarrow> ret (Error 500 ''could not update status'')
        | Inr _ \<Rightarrow> do { MarkDirty (lm_ID lm) (ic_DefaultTTLSeconds (sv_cfg s)); ret NoContent }) }) ?Q"
    if bits: "lm_Bits lm' = lm_Bits lm" for lm'
    unfolding bits bo prod.case assms(2)[symmetric]
    by (rule quiet_bind[OF quiet_fresh_SetStatus[OF assms(1) bo]], rule quiet_case_sum, rule quiet_ret, simp, rule quiet_pre[OF fin]) simp
  have upd: "quiet ?P (do {
       rl \<leftarrow> GetList (lm_ID lm);
       (case rl of
          Inr (Some lm') \<Rightarrow>
            if lm_State lm' = ARCHIVED then ret (Error 410 ''this status list has been archived; no further updates are possible'')
            else (case ByteOffset idx (lm_Bits lm') of (byteIndex, bitOffset) \<Rightarrow> do {
              rs \<leftarrow> SetStatus (sv_shard s) (lm_ID lm) byteIndex bitOffset (lm_Bits lm') StatusInvalid;
              (case rs of
                 Inl _ \<Rightarrow> ret (Error 500 ''could not update status'')
               | Inr _ \<Rightarrow> do { MarkDirty (lm_ID lm) (ic_DefaultTTLSeconds (sv_cfg s)); ret NoContent }) })
        | _ \<Rightarrow> ret (Error 404 ''list not found'')) }) ?Q"
  proof (rule quiet_bind[OF quiet_row_GetList], rule quiet_case_sum, rule quiet_pre[OF err], simp, rule quiet_case_option,
      rule quiet_pre[OF err], simp, rule quiet_if, rule quiet_pre[OF err], simp, goal_cases)
    case (1 rl lmo lm')
    show ?case by (rule quiet_pre, rule quiet_pure[where c = "lm_Bits lm' = lm_Bits lm"], erule wr) (use 1 in auto)
  qed
  have "ParseUint (show_nat (unat idx)) = Some idx" "statusNames ''INVALID'' = Some StatusInvalid" "''INVALID'' \<noteq> ''''"
    by (simp_all add: ParseUint_show statusNames_def)
  then show ?thesis
    unfolding handleSetStatus_def option.case body.case if_False
    by (simp add: quiet_bind[OF own] quiet_case_option upd err)
qed

section \<open>A read\<close>

lemma run_read_calm:
  assumes "sched w = []"
  obtains x w1 where "run_state (remote e (\<lambda>s. (Inr (f s), s))) w = (x, w1)" "st w1 = st w" "sched w1 = []" "proc w1 = proc w"
    "x = Inl e \<or> x = Inr (f (st w))"
  using assms that
  by (cases "fates w"; cases "hd (fates w)") (auto simp: remote_def interfere_def next_fate_def apply_store_def)

lemma run_time_calm: "sched w = [] \<Longrightarrow> run_state time_now w = (clock (st w), w)"
  by (simp add: time_now_def interfere_def)

text \<open>\<open>PublishIfStale\<close> with nothing else running, whichever of its calls fail.\<close>

lemma publish_calm:
  fixes w lm
  defines "lv \<equiv> live_version (lm_ShardID lm) (lm_ID lm) (st w)"
  assumes "sched w = []" "run_state (PublishIfStale lib p lm ttl) w = (r, w')"
  shows "st w' = st w \<and> sched w' = [] \<and> (case r of
      Inl _ \<Rightarrow> proc w' = proc w
    | Inr pd \<Rightarrow> pd_Version pd = lv
        \<and> (cache (proc w) (lm_ID lm) = Some pd \<and> proc w' = proc w
           \<or> built_from lib p lm ttl (stored_bytes lm (st w)) pd
             \<and> proc w' = (proc w)\<lparr>cache := (cache (proc w))(lm_ID lm := Some pd)\<rparr>))"
proof (cases "lm_ShardID lm \<in> set (pb_shards p)")
  case False
  then show ?thesis using assms by (auto simp: PublishIfStale_def)
next
  case True
  obtain x w1 where v: "run_state (Version (lm_ShardID lm) (lm_ID lm)) w = (x, w1)" "st w1 = st w" "sched w1 = []" "proc w1 = proc w"
      "x = Inl ErrRedis \<or> x = Inr lv"
    unfolding Version_def lv_def live_version_def by (rule run_read_calm[OF assms(2)])
  let ?n = "int64_of_u64 (byte_len (lm_Size lm) (lm_Bits lm))"
  obtain y w2 where sn: "run_state (remote ErrRedis (\<lambda>s. (Inr (ks_strings (kv s (lm_ShardID lm)) (bitmapKey (lm_ID lm))), s))) w1 = (y, w2)"
      "st w2 = st w1" "sched w2 = []" "proc w2 = proc w1"
      "y = Inl ErrRedis \<or> y = Inr (ks_strings (kv (st w1) (lm_ShardID lm)) (bitmapKey (lm_ID lm)))"
    by (rule run_read_calm[OF v(3)])
  let ?snap = "case y of Inl e \<Rightarrow> Inl e | Inr raw \<Rightarrow> if ?n < 0 then Inl ErrPanic else Inr (snapshot_of raw (nat ?n))"
  have s: "run_state (Snapshot (lm_ShardID lm) (lm_ID lm) ?n) w1 = (?snap, w2)" by (simp add: Snapshot_def sn(1))
  have snap: "d = stored_bytes lm (st w)" if "?snap = Inr d" for d
    using sn(5) that v(2) by (auto simp: stored_bytes_def split: if_splits)
  have t: "run_state time_now w2 = (clock (st w2), w2)" using run_time_calm[OF sn(3)] .
  show ?thesis
  proof (cases "\<exists>d bm token cwt. x = Inr lv \<and> ?snap = Inr d \<and> WrapBitmap d (lm_Size lm) (lm_Bits lm) = Inr bm
      \<and> BuildToken lib (pb_key p) (token_params p lm ttl bm (clock (st w2))) = Inr token
      \<and> BuildCWTToken lib (pb_key p) (token_params p lm ttl bm (clock (st w2))) = Inr cwt")
    case True
    then obtain d bm token cwt where b: "x = Inr lv" "?snap = Inr d" "WrapBitmap d (lm_Size lm) (lm_Bits lm) = Inr bm"
      "BuildToken lib (pb_key p) (token_params p lm ttl bm (clock (st w2))) = Inr token"
      "BuildCWTToken lib (pb_key p) (token_params p lm ttl bm (clock (st w2))) = Inr cwt" by blast
    have "built_from lib p lm ttl (stored_bytes lm (st w)) \<lparr>pd_Token = token, pd_CWT = cwt, pd_Version = lv, pd_Bits = lm_Bits lm, pd_TTL = ttl\<rparr>"
      using b(3,4,5) snap[OF b(2)] by (auto simp: built_from_def)
    then show ?thesis
      using assms(3) True \<open>lm_ShardID lm \<in> set (pb_shards p)\<close> b v sn t s
      by (auto simp: PublishIfStale_def get_proc_def modify_proc_def Let_def split: option.splits if_splits)
  next
    case False
    then show ?thesis
      using assms(3) True v sn t s
      by (auto simp: PublishIfStale_def get_proc_def modify_proc_def Let_def split: option.splits if_splits sum.splits)
  qed
qed

lemma no_accept: "negotiateListFormat [] = jwtMediaType" "jwtMediaType \<noteq> cwtMediaType" "jwtMediaType \<noteq> []"
  by (simp_all add: negotiateListFormat_def TrimSpace_def str_trim_def jwtMediaType_def cwtMediaType_def)

lemma get_list_calm:
  assumes "sched w = []" "run_state (handleGetList lib vs l [] []) w = (resp, w')" "sql_select_list l (pg (st w)) = Some r"
  shows "st w' = st w \<and> sched w' = []
    \<and> (proc w' = proc w \<or> (\<exists>pd. proc w' = (proc w)\<lparr>cache := (cache (proc w))(l := Some pd)\<rparr> \<and> pd_Version pd = live_version (lr_shard_id r) l (st w)))
    \<and> (\<forall>etag cc mt data. resp = ListToken etag cc mt data \<longrightarrow> (\<exists>pd. data = string_bytes (pd_Token pd)
         \<and> pd_Version pd = live_version (lr_shard_id r) l (st w)
         \<and> (cache (proc w) l = Some pd
            \<or> built_from lib (vs_pub vs) (scanListMeta r) (vc_DefaultTTLSeconds (vs_cfg vs)) (stored_bytes (scanListMeta r) (st w)) pd)))"
proof -
  let ?lm = "scanListMeta r" and ?R = "vc_GCRetentionPeriod (vs_cfg vs)" and ?ttl = "vc_DefaultTTLSeconds (vs_cfg vs)"
  have lm: "lm_ID ?lm = l" "lm_ShardID ?lm = lr_shard_id r"
    using select_list_mem[OF assms(3)] by (simp_all add: scanListMeta_def)
  obtain x w1 where g: "run_state (GetList l) w = (x, w1)" "st w1 = st w" "sched w1 = []" "proc w1 = proc w"
      "x = Inl ErrDb \<or> x = Inr (Some ?lm)"
    unfolding GetList_def pg_query_def
    by (rule run_read_calm[OF assms(1), of ErrDb "\<lambda>s. map_option scanListMeta (sql_select_list l (pg s))"]) (use assms(3) in auto)
  obtain gone where go: "run_state (if lm_State ?lm = ARCHIVED
      then (case lm_ArchivedAt ?lm of None \<Rightarrow> ret True | Some t \<Rightarrow> do { now \<leftarrow> time_now; ret (time_Sub now t > ?R) })
      else ret False) w1 = (gone, w1)"
    using run_time_calm[OF g(3)] by (cases "lm_ArchivedAt ?lm"; cases "lm_State ?lm = ARCHIVED") simp_all
  obtain rp w2 where p: "run_state (PublishIfStale lib (vs_pub vs) ?lm ?ttl) w1 = (rp, w2)" by fastforce
  note pub = publish_calm[OF g(3) p, unfolded lm g(2,4)]
  show ?thesis
  proof (cases "x = Inl ErrDb \<or> gone")
    case True
    then have "w' = w1" "\<exists>c m. resp = ListError c m"
      using assms(2) g(1,5) go by (auto simp: handleGetList_def Let_def)
    then show ?thesis using g by auto
  next
    case False
    then have run: "w' = w2" "resp = (case rp of Inl _ \<Rightarrow> ListError 500 ''could not publish list''
        | Inr pub \<Rightarrow> if [] = etag_of pub then NotModified
                   else ListToken (etag_of pub) (cache_control_of pub) jwtMediaType (string_bytes (pd_Token pub)))"
      using assms(2) g(1,5) go p by (auto simp: handleGetList_def Let_def no_accept split: sum.splits if_splits)
    show ?thesis
    proof (cases rp)
      case (Inl e)
      then show ?thesis using run pub by simp
    next
      case (Inr pd)
      then show ?thesis using run pub by auto
    qed
  qed
qed

lemma described_bytes: "describes lm r \<Longrightarrow> lr_id r = lm_ID lm \<Longrightarrow> stored_bytes (scanListMeta r) t = stored_bytes lm t"
  by (simp add: describes_def scanListMeta_def stored_bytes_def)

text \<open>The stored bytes make a bitmap.\<close>

lemma stored_bitmap:
  fixes t :: stores
  assumes "ValidBitWidth (lm_Bits lm)" "unat (lm_Size lm) * nat (lm_Bits lm) + 7 < 2 ^ 63"
  defines "bm \<equiv> \<lparr>bm_bits = lm_Bits lm, bm_size = lm_Size lm, bm_data = stored_bytes lm t\<rparr>"
  shows "wf_bitmap bm" "WrapBitmap (stored_bytes lm t) (lm_Size lm) (lm_Bits lm) = Inr bm"
    "0 \<le> int64_of_u64 (byte_len (lm_Size lm) (lm_Bits lm))"
proof -
  let ?n = "byte_len (lm_Size lm) (lm_Bits lm)"
  have len: "unat ?n = (unat (lm_Size lm) * nat (lm_Bits lm) + 7) div 8"
    using byte_len_nat[OF assms(1)] assms(2) by simp
  have n: "int64_of_u64 ?n = int (unat ?n)"
    using assms(2) len by (simp add: int64_of_u64_def sint_uint uint_nat signed_take_bit_int_eq_self)
  then show "0 \<le> int64_of_u64 ?n" by simp
  have bytes: "length (stored_bytes lm t) = unat ?n" using n by (simp add: stored_bytes_def)
  then show "wf_bitmap bm" using assms(1,2) len by (simp add: wf_bitmap_def bm_def)
  show "WrapBitmap (stored_bytes lm t) (lm_Size lm) (lm_Bits lm) = Inr bm"
    using assms(1) bytes by (simp add: WrapBitmap_def Let_def bm_def)
qed

text \<open>What a token built from the stored bytes says about an index of the list.\<close>

lemma built_status:
  assumes "zlib_law lib" "ecdsa_law lib (pb_key p)" "jwt_law lib" "ascii (pb_baseURL p @ ''/lists/'' @ lm_ID lm)"
    "describes lm r" "lr_id r = lm_ID lm" "built_from lib p (scanListMeta r) ttl (stored_bytes (scanListMeta r) t) pd"
    "idx < lm_Size lm" "ValidBitWidth (lm_Bits lm) \<longrightarrow> unat (lm_Size lm) * nat (lm_Bits lm) + 7 < 2 ^ 63"
  shows "ValidBitWidth (lm_Bits lm)" "statusInToken lib (pd_Token pd) idx = Inr (published_entry lm idx t)"
proof -
  let ?lm = "scanListMeta r"
  have lm: "lm_ID ?lm = lm_ID lm" "lm_Size ?lm = lm_Size lm" "lm_Bits ?lm = lm_Bits lm"
    using assms(5,6) by (simp_all add: describes_def scanListMeta_def)
  obtain bm now where b: "WrapBitmap (stored_bytes lm t) (lm_Size lm) (lm_Bits lm) = Inr bm"
    "BuildToken lib (pb_key p) (token_params p ?lm ttl bm now) = Inr (pd_Token pd)"
    using assms(7) lm described_bytes[OF assms(5,6)] by (auto simp: built_from_def)
  then show valid: "ValidBitWidth (lm_Bits lm)" by (auto simp: WrapBitmap_def split: if_splits)
  note sb = stored_bitmap(1,2)[OF valid, of t]
  have bm: "bm = \<lparr>bm_bits = lm_Bits lm, bm_size = lm_Size lm, bm_data = stored_bytes lm t\<rparr>"
    and wf: "wf_bitmap (tp_Bitmap (token_params p ?lm ttl bm now))"
    using sb(1,2) b(1) assms(9) valid by (simp_all add: token_params_def)
  have url: "ascii (tp_ListURL (token_params p ?lm ttl bm now))" using assms(4) lm by (simp add: token_params_def)
  have "idx < Size (tp_Bitmap (token_params p ?lm ttl bm now))" using assms(8) by (simp add: Size_def bm token_params_def)
  from statusInToken_published[OF assms(1-3) url b(2) wf this] show "statusInToken lib (pd_Token pd) idx = Inr (published_entry lm idx t)"
    by (simp add: published_entry_def bm token_params_def Bits_def Bytes_def)
qed

section \<open>The routes\<close>

fun patch_answer :: "response \<Rightarrow> bool" where
  "patch_answer NoContent = True"
| "patch_answer (Error c _) \<longleftrightarrow> 400 \<le> c"
| "patch_answer _ = False"

fun usage_answer :: "response \<Rightarrow> bool" where
  "usage_answer (Usage _ _) = True"
| "usage_answer (Error c _) \<longleftrightarrow> 400 \<le> c"
| "usage_answer _ = False"

lemma answers: "patch_answer (result (handleSetStatus s au l ip b) w)" "usage_answer (result (handleAccountingMe au) v)"
  by (auto simp: handleSetStatus_def handleAccountingMe_def split: option.split body.split prod.split sum.split if_splits)

text \<open>The token library aborts with a client error.\<close>

definition aborts_law :: "tokengin \<Rightarrow> bool" where
  "aborts_law tg \<longleftrightarrow> (\<forall>a c. TokenAuth tg a = Inl c \<longrightarrow> 400 \<le> c) \<and> (\<forall>t r c. MustHaveTAC tg t r = Some c \<longrightarrow> 400 \<le> c)"

lemma quiet_result: "quiet P m Q \<Longrightarrow> (\<And>w. R (result m w)) \<Longrightarrow> quiet P m (\<lambda>r t. Q r t \<and> R r)"
  by (simp add: quiet_def)

lemma quiet_authed:
  assumes "aborts_law tg" "\<And>r. quiet P (h r) Q" "\<And>c t. P t \<Longrightarrow> 400 \<le> c \<Longrightarrow> Q (Aborted c) t" "\<And>c m t. P t \<Longrightarrow> 400 \<le> c \<Longrightarrow> Q (Error c m) t"
  shows "quiet P (authed tg s a tac h) Q"
proof -
  have shard: "\<exists>c m. resp = Error c m \<and> 400 \<le> c" if "requireShard sh au = Some resp" for sh au resp
    using that by (auto simp: requireShard_def split: option.splits if_splits)
  show ?thesis
    unfolding authed_def
    using assms(1)
    by (intro quiet_case_sum quiet_case_option quiet_ret assms(2)) (auto simp: aborts_law_def intro: assms(3,4) dest!: shard)
qed

lemma quiet_router_201:
  assumes "aborts_law tg" "fits (sv_pool s)" "mg_ShardID (sv_pool s) = S" "S = sv_shard s"
  shows "quiet (calm S V) (Ingestion_Router tg hmac s req) (\<lambda>r t. calm S V t \<and> (ingestion_status r = 201 \<longrightarrow>
     (\<exists>url idx e lm. r = Allocated url idx e \<and> url = ic_BaseURL (sv_cfg s) @ ''/lists/'' @ lm_ID lm \<and> fresh_entry S V lm idx StatusValid t)))"
  (is "quiet _ _ ?Q")
proof -
  have "quiet (calm S V) (handleAllocate hmac s au body) ?Q" for au body
    by (rule quiet_post[OF quiet_result[where R = allocate_answer, OF quiet_calm_handleAllocate[OF assms(2-4)] handleAllocate_answers]])
       (auto simp: allocated_fresh_def elim!: allocate_answer.elims)
  moreover have "quiet (calm S V) (handleSetStatus s au l ip b) ?Q" for au l ip b
    by (rule quiet_post[OF quiet_result[where R = patch_answer, OF quiet_keep_handleSetStatus answers(1)]]) (auto elim!: patch_answer.elims)
  moreover have "quiet (calm S V) (handleAccountingMe au) ?Q" for au
  proof -
    have "quiet (calm S V) (handleAccountingMe au) (\<lambda>_. calm S V)"
      unfolding handleAccountingMe_def GetUsage_def by (intro quiet_keep quiet_keep_query)
    from quiet_result[where R = usage_answer, OF this answers(2)] show ?thesis by (rule quiet_post) (auto elim!: usage_answer.elims)
  qed
  ultimately show ?thesis
    unfolding Ingestion_Router_def
    by (cases req) (auto intro!: quiet_ret quiet_authed[OF assms(1)] simp: handleHealthz_def)
qed

lemma quiet_router_204:
  assumes "aborts_law tg" "idx < lm_Size lm" "S = sv_shard s"
  shows "quiet (\<lambda>t. calm S V t \<and> row_of S lm t)
     (Ingestion_Router tg hmac s (PatchStatus au (lm_ID lm) (show_nat (unat idx)) (Json ''INVALID'')))
     (\<lambda>r t. calm S V t \<and> (ingestion_status r = 204 \<longrightarrow> fresh_entry S V lm idx StatusInvalid t))" (is "quiet ?P _ ?Q")
proof -
  have "quiet ?P (handleSetStatus s r (lm_ID lm) (show_nat (unat idx)) (Json ''INVALID'')) ?Q" for r
    by (rule quiet_post[OF quiet_result[where R = patch_answer, OF quiet_fresh_update[OF assms(2,3)] answers(1)]]) (auto elim!: patch_answer.elims)
  then show ?thesis unfolding Ingestion_Router_def by (auto intro!: quiet_authed[OF assms(1)])
qed

section \<open>The contract of the tool, discharged\<close>

text \<open>What is asked of the deployment the tool is pointed at.\<close>

definition codec_law :: "'u target \<Rightarrow> bool" where
  "codec_law tg \<longleftrightarrow> (\<forall>url idx e. \<exists>e'. tg_DecodeAllocate tg (tg_EncodeAllocate tg url idx e) = Some (url, idx, e'))
     \<and> tg_BindStatus tg (tg_MarshalStatus tg ''INVALID'') = Json ''INVALID''"

abbreviation tg_shard :: "'u target \<Rightarrow> string" where
  "tg_shard tg \<equiv> sv_shard (tg_server tg)"

definition target_ok :: "'u target \<Rightarrow> bool" where
  "target_ok tg \<longleftrightarrow> aborts_law (tg_tokengin tg) \<and> codec_law tg
     \<and> fits (sv_pool (tg_server tg)) \<and> mg_ShardID (sv_pool (tg_server tg)) = tg_shard tg
     \<and> zlib_law (tg_lib tg) \<and> ecdsa_law (tg_lib tg) (pb_key (vs_pub (tg_verifier tg))) \<and> jwt_law (tg_lib tg)
     \<and> ascii (pb_baseURL (vs_pub (tg_verifier tg)))
     \<and> (\<forall>p. \<not> prefix (tg_ingressURL tg) (tg_listBase tg @ ''/lists/'' @ p))"

text \<open>Nothing scheduled, and no token in the verifier's cache newer than the versions in the store.\<close>

definition net_inv :: "'u target \<Rightarrow> (string \<Rightarrow> int) \<Rightarrow> net \<Rightarrow> bool" where
  "net_inv tg V n \<longleftrightarrow> sched (nt_world n) = [] \<and> calm (tg_shard tg) V (st (nt_world n))
     \<and> (\<forall>l pd. cache (nt_verifier n) l = Some pd \<longrightarrow> pd_Version pd \<le> V l)"

definition net_good :: "'u target \<Rightarrow> net \<Rightarrow> bool" where
  "net_good tg n \<longleftrightarrow> (\<exists>V. net_inv tg V n)"

definition net_granted :: "'u target \<Rightarrow> net \<Rightarrow> string \<Rightarrow> u64 \<Rightarrow> bool" where
  "net_granted tg n url idx \<longleftrightarrow> (\<exists>lm. url = tg_listBase tg @ ''/lists/'' @ lm_ID lm
     \<and> row_of (tg_shard tg) lm (st (nt_world n)) \<and> idx < lm_Size lm)"

definition net_holds :: "'u target \<Rightarrow> net \<Rightarrow> string \<Rightarrow> u64 \<Rightarrow> byte \<Rightarrow> bool" where
  "net_holds tg n url idx v \<longleftrightarrow> (\<exists>lm. url = tg_listBase tg @ ''/lists/'' @ lm_ID lm
     \<and> (\<forall>pd. cache (nt_verifier n) (lm_ID lm) = Some pd \<longrightarrow> pd_Version pd < live_version (tg_shard tg) (lm_ID lm) (st (nt_world n)))
     \<and> row_of (tg_shard tg) lm (st (nt_world n)) \<and> idx < lm_Size lm \<and> v \<le> 1
     \<and> (ValidBitWidth (lm_Bits lm) \<longrightarrow> published_entry lm idx (st (nt_world n)) = v AND mask (nat (lm_Bits lm))))"

lemma net_holds_fresh:
  assumes "net_inv tg V n" "fresh_entry (tg_shard tg) V lm idx v (st (nt_world n))" "v \<le> 1"
  shows "net_holds tg n (tg_listBase tg @ ''/lists/'' @ lm_ID lm) idx v"
  unfolding net_holds_def
  by (intro exI[of _ lm]) (use assms in \<open>force simp: net_inv_def fresh_entry_def\<close>)

lemma at_ingestion_quiet:
  assumes "quiet P m Q" "net_inv tg V n" "P (st (nt_world n))" "run_state (at_ingestion m) n = (r, n')"
    "\<And>r t. Q r t \<Longrightarrow> calm (tg_shard tg) V t"
  shows "net_inv tg V n' \<and> Q r (st (nt_world n')) \<and> nt_verifier n' = nt_verifier n"
  using assms by (auto simp: at_ingestion_def net_inv_def quiet_def split: prod.splits)

lemma net_keep:
  assumes "net_inv tg V n" "quiet (calm (tg_shard tg) V) m (\<lambda>_. calm (tg_shard tg) V)"
  shows "net_inv tg V (after (at_ingestion m) n)"
  using at_ingestion_quiet[OF assms(2,1), of "fst (run_state (at_ingestion m) n)" "snd (run_state (at_ingestion m) n)"] assms(1)
  by (simp add: net_inv_def)

lemma net_draws:
  assumes "net_inv tg V n"
  shows "net_inv tg V (after (at_ingestion next_fate) n)" "net_inv tg V (after (at_ingestion (rand_below k)) n)"
    "net_inv tg V (after (at_ingestion rand_Float64) n)" "net_inv tg V (after (at_ingestion time_now) n)"
proof -
  have draw: "quiet P (rand_below j) (\<lambda>_. P)" for P j by (rule quiet_rand_below)
  show "net_inv tg V (after (at_ingestion next_fate) n)" by (rule net_keep[OF assms quiet_keep_draw(2)])
  show "net_inv tg V (after (at_ingestion (rand_below k)) n)" by (rule net_keep[OF assms draw])
  show "net_inv tg V (after (at_ingestion rand_Float64) n)"
    unfolding rand_Float64_def by (rule net_keep[OF assms]) (intro quiet_keep draw)
  show "net_inv tg V (after (at_ingestion time_now) n)" by (rule net_keep[OF assms quiet_keep_time])
qed

lemma CutPrefix_append: "CutPrefix (p @ x) p = (x, True)"
  by (simp add: CutPrefix_def)

lemma ingress_call_inv:
  assumes "target_ok tg" "net_inv tg V n" "run_state (ingress_call tg c path) n = (ans, n')"
  shows "net_inv tg V n' \<and> (\<forall>resp. ans = Some resp \<and> ha_StatusCode resp = 201 \<longrightarrow>
    (\<exists>url idx e. ha_Body resp = Some (tg_EncodeAllocate tg url idx e) \<and> net_holds tg n' url idx StatusValid))"
proof (cases "\<exists>x u. ingress_mux (tg_router tg) path \<lparr>hr_Authorization = hc_Authorization c, hr_Path = path\<rparr> = MuxRouter (x, ProxyTo u)")
  case False
  then show ?thesis
    using assms(2,3) by (auto simp: ingress_call_def split: mux_response.splits prod.splits ingress_response.splits)
next
  case True
  let ?m = "Ingestion_Router (tg_tokengin tg) (tg_hmac tg) (tg_server tg) (ingestion_request tg c path)"
  obtain r where r: "run_state (at_ingestion ?m) n = (r, n')" "ans = Some \<lparr>ha_StatusCode = ingestion_status r, ha_Body = Some (ingestion_body tg r)\<rparr>"
    using assms(3) True by (cases "run_state (at_ingestion ?m) n") (auto simp: ingress_call_def)
  have q: "quiet (calm (tg_shard tg) V) ?m (\<lambda>r t. calm (tg_shard tg) V t \<and> (ingestion_status r = 201 \<longrightarrow>
     (\<exists>url idx e lm. r = Allocated url idx e \<and> url = tg_listBase tg @ ''/lists/'' @ lm_ID lm \<and> fresh_entry (tg_shard tg) V lm idx StatusValid t)))"
    by (rule quiet_router_201) (use assms(1) in \<open>auto simp: target_ok_def\<close>)
  have c: "calm (tg_shard tg) V (st (nt_world n))" using assms(2) by (simp add: net_inv_def)
  have "net_inv tg V n'" and post: "ingestion_status r = 201 \<Longrightarrow>
     \<exists>url idx e lm. r = Allocated url idx e \<and> url = tg_listBase tg @ ''/lists/'' @ lm_ID lm \<and> fresh_entry (tg_shard tg) V lm idx StatusValid (st (nt_world n'))"
    using at_ingestion_quiet[OF q assms(2) c r(1)] by auto
  then show ?thesis using r(2) net_holds_fresh by (fastforce simp: ingestion_body_def)
qed

lemma net_Do_ingress:
  assumes "target_ok tg" "net_inv tg V n" "hc_URL c = tg_ingressURL tg @ path" "run_state (net_Do tg c) n = (ans, n')"
  shows "net_inv tg V n' \<and> (\<forall>resp. ans = Some resp \<and> ha_StatusCode resp = 201 \<longrightarrow>
    (\<exists>url idx e. ha_Body resp = Some (tg_EncodeAllocate tg url idx e) \<and> net_holds tg n' url idx StatusValid))"
proof -
  obtain f n1 where f: "run_state (at_ingestion next_fate) n = (f, n1)" by fastforce
  have n1: "net_inv tg V n1" using net_draws(1)[OF assms(2)] f by simp
  have d: "deliver tg c = ingress_call tg c path" by (simp add: deliver_def assms(3) CutPrefix_append)
  obtain a n2 where a: "run_state (ingress_call tg c path) n1 = (a, n2)" by fastforce
  note inv = ingress_call_inv[OF assms(1) n1 a]
  show ?thesis using assms(4) n1 inv by (cases f) (auto simp: net_Do_def f d a)
qed


lemma allocate_run:
  assumes "target_ok tg" "net_good tg n" "run_state (allocate (target_env tg) (tg_ingressURL tg) token) n = (ra, n')"
  shows "net_good tg n' \<and> (\<forall>url idx e. ra = Inr (url, idx, e) \<longrightarrow> net_holds tg n' url idx StatusValid)"
proof -
  obtain V where V: "net_inv tg V n" using assms(2) by (auto simp: net_good_def)
  let ?c = "\<lparr>hc_Method = ''POST'', hc_URL = tg_ingressURL tg @ ''/allocate'', hc_Authorization = ''Bearer '' @ token, hc_Body = []\<rparr>"
  obtain ans n1 where d: "run_state (net_Do tg ?c) n = (ans, n1)" by fastforce
  have inv: "net_inv tg V n1 \<and> (\<forall>resp. ans = Some resp \<and> ha_StatusCode resp = 201 \<longrightarrow>
    (\<exists>url idx e. ha_Body resp = Some (tg_EncodeAllocate tg url idx e) \<and> net_holds tg n1 url idx StatusValid))"
    by (rule net_Do_ingress[OF assms(1) V _ d]) simp
  have dec: "\<exists>e'. tg_DecodeAllocate tg (tg_EncodeAllocate tg url idx e) = Some (url, idx, e')" for url idx e
    using assms(1) by (simp add: target_ok_def codec_law_def)
  show ?thesis
  proof (cases "tg_ParseURL tg (tg_ingressURL tg @ ''/allocate'')")
    case False
    then show ?thesis using assms(2,3) by (auto simp: allocate_def send_def target_env_def)
  next
    case True
    then have run: "n' = n1" "ra = (case ans of None \<Rightarrow> Inl RequestFailed | Some resp \<Rightarrow>
        if ha_StatusCode resp \<noteq> 201 then Inl (UnexpectedStatus (ha_StatusCode resp))
        else (case Option.bind (ha_Body resp) (tg_DecodeAllocate tg) of None \<Rightarrow> Inl BadJSON | Some ar \<Rightarrow> Inr ar))"
      using assms(3) d by (auto simp: allocate_def send_def target_env_def split: option.splits)
    have "net_holds tg n' url idx StatusValid" if ok: "ra = Inr (url, idx, e)" for url idx e
    proof -
      obtain resp where resp: "ans = Some resp" "ha_StatusCode resp = 201"
        "Option.bind (ha_Body resp) (tg_DecodeAllocate tg) = Some (url, idx, e)"
        using ok run(2) by (auto split: option.splits if_splits)
      then obtain url' idx' e' where "ha_Body resp = Some (tg_EncodeAllocate tg url' idx' e')" "net_holds tg n1 url' idx' StatusValid"
        using inv by blast
      then show ?thesis using resp(3) dec[of url' idx' e'] run(1) by auto
    qed
    then show ?thesis using inv run(1) by (auto simp: net_good_def)
  qed
qed

lemma ingress_send_run:
  assumes "target_ok tg" "net_good tg n" "hc_URL c = tg_ingressURL tg @ path" "run_state (send (target_env tg) c) n = (r, n')"
  shows "net_good tg n'"
proof -
  obtain V where V: "net_inv tg V n" using assms(2) by (auto simp: net_good_def)
  obtain ans n1 where d: "run_state (net_Do tg c) n = (ans, n1)" by fastforce
  have "net_inv tg V n1" using net_Do_ingress[OF assms(1) V assms(3) d] by blast
  then show ?thesis using assms(2,4) d by (auto simp: send_def target_env_def net_good_def split: if_splits)
qed

lemma accounting_run:
  assumes "target_ok tg" "net_good tg n"
  shows "net_good tg (after (doAccounting (target_env tg) (tg_ingressURL tg) token) n)"
proof -
  let ?c = "\<lparr>hc_Method = ''GET'', hc_URL = tg_ingressURL tg @ ''/accounting/me'', hc_Authorization = ''Bearer '' @ token, hc_Body = []\<rparr>"
  have "net_good tg n1" if s: "run_state (send (target_env tg) ?c) n = (r, n1)" for r n1
    by (rule ingress_send_run[OF assms _ s]) simp
  then show ?thesis by (simp add: doAccounting_def split: prod.split)
qed


text \<open>The path of an update, as the router of the ingestion service takes it apart.\<close>

lemma digits_plain: "CHR ''/'' \<notin> set (show_nat n)" "show_nat n \<noteq> []"
  using show_nat_digits[of "CHR ''/''" n] by (auto simp: is_digit_def show_nat_nonempty)

lemma row_id_plain:
  assumes "calm S V t" "row_of S lm t"
  shows "plain_id (lm_ID lm)"
  using assms by (auto simp: calm_def row_of_def dest!: select_list_mem)

lemma split_status_path:
  assumes "CHR ''/'' \<notin> set l" "CHR ''/'' \<notin> set d"
  shows "str_split (CHR ''/'') (''/status/'' @ l @ ''/'' @ d) = [[], ''status'', l, d]"
  using str_split_append[OF assms(1), of d] str_split_no_sep[OF assms(2)] str_split_append[of "CHR ''/''" "''status''" "l @ ''/'' @ d"]
  by simp

lemma split_list_path:
  assumes "CHR ''/'' \<notin> set l"
  shows "str_split (CHR ''/'') (''/lists/'' @ l) = [[], ''lists'', l]"
  using str_split_no_sep[OF assms] str_split_append[of "CHR ''/''" "''lists''" l] by simp

lemma patch_request:
  assumes "codec_law tg" "plain_id l" "hc_Method c = ''PATCH''" "hc_Body c = tg_MarshalStatus tg ''INVALID''"
  shows "ingestion_request tg c (''/status/'' @ l @ ''/'' @ show_nat i) = PatchStatus (hc_Authorization c) l (show_nat i) (Json ''INVALID'')"
proof -
  have "str_split (CHR ''/'') (''/status/'' @ l @ ''/'' @ show_nat i) = [[], ''status'', l, show_nat i]"
    by (rule split_status_path) (use assms(2) digits_plain in \<open>auto simp: plain_id_def\<close>)
  then show ?thesis
    using assms digits_plain(2) by (simp add: ingestion_request_def codec_law_def plain_id_def)
qed

lemma patch_call_fresh:
  assumes "target_ok tg" "net_inv tg V n" "row_of (tg_shard tg) lm (st (nt_world n))" "idx < lm_Size lm"
    "hc_Method c = ''PATCH''" "hc_Body c = tg_MarshalStatus tg ''INVALID''"
    "run_state (ingress_call tg c (''/status/'' @ lm_ID lm @ ''/'' @ show_nat (unat idx))) n = (Some resp, n')" "ha_StatusCode resp = 204"
  shows "net_inv tg V n' \<and> fresh_entry (tg_shard tg) V lm idx StatusInvalid (st (nt_world n'))"
proof -
  let ?path = "''/status/'' @ lm_ID lm @ ''/'' @ show_nat (unat idx)" and ?S = "tg_shard tg"
  let ?m = "Ingestion_Router (tg_tokengin tg) (tg_hmac tg) (tg_server tg) (ingestion_request tg c ?path)"
  have calm: "calm ?S V (st (nt_world n))" using assms(2) by (simp add: net_inv_def)
  have req: "ingestion_request tg c ?path = PatchStatus (hc_Authorization c) (lm_ID lm) (show_nat (unat idx)) (Json ''INVALID'')"
    by (rule patch_request[OF _ row_id_plain[OF calm assms(3)] assms(5,6)]) (use assms(1) in \<open>simp add: target_ok_def\<close>)
  obtain r where r: "run_state (at_ingestion ?m) n = (r, n')" "ingestion_status r = 204"
    using assms(7,8) by (cases "run_state (at_ingestion ?m) n")
      (auto simp: ingress_call_def split: mux_response.splits prod.splits ingress_response.splits)
  have q: "quiet (\<lambda>t. calm ?S V t \<and> row_of ?S lm t) ?m
     (\<lambda>r t. calm ?S V t \<and> (ingestion_status r = 204 \<longrightarrow> fresh_entry ?S V lm idx StatusInvalid t))"
    unfolding req by (rule quiet_router_204) (use assms(1,4) in \<open>auto simp: target_ok_def\<close>)
  show ?thesis using at_ingestion_quiet[OF q assms(2) _ r(1)] calm assms(3) r(2) by auto
qed

lemma fate_run:
  "run_state (at_ingestion next_fate) n = (f, n1) \<Longrightarrow> st (nt_world n1) = st (nt_world n) \<and> nt_verifier n1 = nt_verifier n"
  by (auto simp: at_ingestion_def next_fate_def split: list.splits)

lemma net_Do_SomeD:
  assumes "run_state (net_Do tg c) n = (Some resp, n')"
  obtains n1 where "run_state (at_ingestion next_fate) n = (Ok, n1)" "run_state (deliver tg c) n1 = (Some resp, n')"
proof -
  obtain f n1 where f: "run_state (at_ingestion next_fate) n = (f, n1)" by fastforce
  then show thesis using assms that by (cases f) (auto simp: net_Do_def split: prod.splits)
qed

lemma patch_run:
  assumes "target_ok tg" "net_good tg n" "run_state (patchStatus (target_env tg) (tg_ingressURL tg) token l idx name) n = (rp, n')"
  shows "net_good tg n'" "rp = None \<Longrightarrow> name = ''INVALID'' \<Longrightarrow> listIDFromURL url = Inr l \<Longrightarrow> net_granted tg n url idx
    \<Longrightarrow> net_holds tg n' url idx StatusInvalid"
proof -
  let ?c = "\<lparr>hc_Method = ''PATCH'', hc_URL = tg_ingressURL tg @ ''/status/'' @ l @ ''/'' @ show_nat (unat idx),
      hc_Authorization = ''Bearer '' @ token, hc_Body = tg_MarshalStatus tg name\<rparr>"
  obtain r n1 where s: "run_state (send (target_env tg) ?c) n = (r, n1)" by fastforce
  have env: "le_MarshalStatus (target_env tg) = tg_MarshalStatus tg" by (simp add: target_env_def)
  have run: "n' = n1" "rp = (case r of Inl e \<Rightarrow> Some e
      | Inr resp \<Rightarrow> if ha_StatusCode resp \<noteq> 204 then Some (UnexpectedStatus (ha_StatusCode resp)) else None)"
    using assms(3) s unfolding patchStatus_def env by (simp_all add: run_state_bind s del: append_Cons)
  show "net_good tg n'" unfolding run(1) by (rule ingress_send_run[OF assms(1,2) _ s]) simp
  assume ok: "rp = None" "name = ''INVALID''" "listIDFromURL url = Inr l" "net_granted tg n url idx"
  obtain V where V: "net_inv tg V n" using assms(2) by (auto simp: net_good_def)
  obtain lm where lm: "url = tg_listBase tg @ ''/lists/'' @ lm_ID lm" "row_of (tg_shard tg) lm (st (nt_world n))" "idx < lm_Size lm"
    using ok(4) by (auto simp: net_granted_def)
  have "plain_id (lm_ID lm)" using row_id_plain[OF _ lm(2)] V by (auto simp: net_inv_def)
  then have l: "l = lm_ID lm" using ok(3) listIDFromURL_exact[of "lm_ID lm" "tg_listBase tg @ ''/lists''"] lm(1) by (auto simp: plain_id_def)
  obtain resp where resp: "run_state (net_Do tg ?c) n = (Some resp, n')" "ha_StatusCode resp = 204"
    using ok(1) run s by (auto simp: send_def target_env_def split: if_splits sum.splits option.splits prod.splits)
  obtain n0 where n0: "run_state (at_ingestion next_fate) n = (Ok, n0)" "run_state (deliver tg ?c) n0 = (Some resp, n')"
    using net_Do_SomeD[OF resp(1)] .
  have "net_inv tg V n0" using net_draws(1)[OF V] n0(1) by simp
  moreover have "row_of (tg_shard tg) lm (st (nt_world n0))" using fate_run[OF n0(1)] lm(2) by simp
  moreover have "run_state (ingress_call tg ?c (''/status/'' @ lm_ID lm @ ''/'' @ show_nat (unat idx))) n0 = (Some resp, n')"
    using n0(2) by (simp add: deliver_def CutPrefix_append l)
  ultimately have "net_inv tg V n' \<and> fresh_entry (tg_shard tg) V lm idx StatusInvalid (st (nt_world n'))"
    using patch_call_fresh[OF assms(1) _ _ lm(3), of V n0 ?c resp n'] resp(2) ok(2) by simp
  then show "net_holds tg n' url idx StatusInvalid" unfolding lm(1) using net_holds_fresh[of tg V n' lm idx StatusInvalid] by simp
qed


text \<open>A read: what the answer says of the index, and what the verifier then has cached.\<close>

fun list_answer :: "list_response \<Rightarrow> bool" where
  "list_answer (ListError c _) \<longleftrightarrow> 400 \<le> c"
| "list_answer NotModified = True"
| "list_answer (ListToken _ _ _ _) = True"
| "list_answer _ = False"

lemma get_list_answers: "list_answer (result (handleGetList lib vs l a m) w)"
  by (auto simp: handleGetList_def Let_def split: prod.splits sum.splits option.splits if_splits)

lemma get_list_token:
  assumes "list_answer resp" "verifier_answer resp = ans" "ha_StatusCode ans = 200"
  obtains etag cc mt data where "resp = ListToken etag cc mt data" "ha_Body ans = Some data"
  using assms by (cases resp) (auto simp: verifier_answer_def)

lemma narrow_status:
  assumes "v \<le> (1 :: byte)" "ValidBitWidth bits"
  shows "v AND mask (nat bits) = v"
proof -
  have "unat v \<le> 1" using assms(1) by (simp add: word_le_nat_alt)
  then have "v = 0 \<or> v = 1" by (metis le_Suc_eq le_zero_eq One_nat_def unat_1 unat_eq_zero word_unat_eq_iff)
  then show ?thesis using assms(2) by (auto simp: ValidBitWidth_def mask_eq_decr_exp)
qed

lemma verifier_fetch:
  assumes "target_ok tg" "net_inv tg V n" "net_holds tg n url idx v" "url = tg_listBase tg @ path" "hc_Method c = ''GET''"
    "run_state (verifier_call tg c path) n = (ans, n')"
  shows "net_good tg n' \<and> st (nt_world n') = st (nt_world n) \<and> (\<forall>resp data. ans = Some resp \<and> ha_StatusCode resp = 200 \<and> ha_Body resp = Some data
    \<longrightarrow> statusInToken (tg_lib tg) (bytes_string data) idx = Inr v)"
proof -
  let ?S = "tg_shard tg" and ?w = "(nt_world n)\<lparr>proc := nt_verifier n\<rparr>" and ?t = "st (nt_world n)"
  obtain lm where lm: "url = tg_listBase tg @ ''/lists/'' @ lm_ID lm" "row_of ?S lm ?t" "idx < lm_Size lm" "v \<le> 1"
      "\<And>pd. cache (nt_verifier n) (lm_ID lm) = Some pd \<Longrightarrow> pd_Version pd < live_version ?S (lm_ID lm) ?t"
      "ValidBitWidth (lm_Bits lm) \<Longrightarrow> published_entry lm idx ?t = v AND mask (nat (lm_Bits lm))"
    using assms(3) by (auto simp: net_holds_def)
  obtain r where r: "sql_select_list (lm_ID lm) (pg ?t) = Some r" "describes lm r" "lr_shard_id r = ?S"
    using lm(2) by (auto simp: row_of_def describes_def)
  have calm: "calm ?S V ?t" using assms(2) by (simp add: net_inv_def)
  have plain: "plain_id (lm_ID lm)" by (rule row_id_plain[OF calm lm(2)])
  have "path = ''/lists/'' @ lm_ID lm" using assms(4) lm(1) by simp
  then have req: "list_request_of c path = GetListRequest (lm_ID lm) [] []"
    using plain assms(5) split_list_path[of "lm_ID lm"] by (simp add: list_request_of_def plain_id_def)
  obtain resp w' where h: "run_state (handleGetList (tg_lib tg) (tg_verifier tg) (lm_ID lm) [] []) ?w = (resp, w')" by fastforce
  have run: "ans = Some (verifier_answer resp)" "n' = \<lparr>nt_world = w'\<lparr>proc := proc (nt_world n)\<rparr>, nt_verifier = proc w'\<rparr>"
    using assms(6) h by (auto simp: verifier_call_def at_verifier_def Verifier_Router_def req)
  have "sched ?w = []" "sql_select_list (lm_ID lm) (pg (st ?w)) = Some r" using assms(2) r(1) by (simp_all add: net_inv_def)
  note g = get_list_calm[OF this(1) h this(2), unfolded r(3), simplified]
  let ?V = "V(lm_ID lm := live_version ?S (lm_ID lm) ?t)"
  have "calm ?S ?V ?t" using calm by (simp add: calm_def)
  then have inv: "net_inv tg ?V n'"
    using g assms(2) less_imp_le[OF lm(5)] unfolding run(2) by (auto simp: net_inv_def split: if_splits)
  have "statusInToken (tg_lib tg) (bytes_string data) idx = Inr v"
    if d: "ans = Some a" "ha_StatusCode a = 200" "ha_Body a = Some data" for a data
  proof -
    have "list_answer resp" using get_list_answers[of "tg_lib tg" "tg_verifier tg" "lm_ID lm" "[]" "[]" ?w] h by simp
    moreover have "verifier_answer resp = a" using d(1) run(1) by simp
    ultimately obtain etag cc mt where "resp = ListToken etag cc mt data"
      using get_list_token[OF _ _ d(2)] d(3) by (metis option.inject)
    then obtain pd where pd: "data = string_bytes (pd_Token pd)" "pd_Version pd = live_version ?S (lm_ID lm) ?t"
        "cache (nt_verifier n) (lm_ID lm) = Some pd \<or> built_from (tg_lib tg) (vs_pub (tg_verifier tg)) (scanListMeta r)
            (vc_DefaultTTLSeconds (vs_cfg (tg_verifier tg))) (stored_bytes (scanListMeta r) ?t) pd"
      using g by blast
    then have b: "built_from (tg_lib tg) (vs_pub (tg_verifier tg)) (scanListMeta r)
            (vc_DefaultTTLSeconds (vs_cfg (tg_verifier tg))) (stored_bytes (scanListMeta r) ?t) pd"
      using lm(5) by fastforce
    have "ascii (pb_baseURL (vs_pub (tg_verifier tg)) @ ''/lists/'' @ lm_ID lm)"
      using assms(1) plain by (auto simp: target_ok_def plain_id_def ascii_def)
    moreover have "zlib_law (tg_lib tg)" "ecdsa_law (tg_lib tg) (pb_key (vs_pub (tg_verifier tg)))" "jwt_law (tg_lib tg)"
      using assms(1) by (auto simp: target_ok_def)
    moreover have "lr_id r = lm_ID lm" using select_list_mem[OF r(1)] by simp
    moreover have "ValidBitWidth (lm_Bits lm) \<longrightarrow> unat (lm_Size lm) * nat (lm_Bits lm) + 7 < 2 ^ 63"
      using calm_row_fits[OF calm lm(2)] by blast
    ultimately have valid: "ValidBitWidth (lm_Bits lm)" and s: "statusInToken (tg_lib tg) (pd_Token pd) idx = Inr (published_entry lm idx ?t)"
      using built_status[OF _ _ _ _ r(2) _ b lm(3)] by blast+
    show ?thesis using s lm(6)[OF valid] pd(1) narrow_status[OF lm(4) valid] by (simp add: bytes_string_bytes)
  qed
  then show ?thesis using inv g run(2) by (auto simp: net_good_def)
qed

lemma fetch_run:
  assumes "target_ok tg" "net_good tg n" "net_holds tg n url idx v" "run_state (fetchStatus (target_env tg) url idx) n = (rf, n')"
  shows "net_good tg n' \<and> net_granted tg n' url idx \<and> (\<forall>a. rf = Inr a \<longrightarrow> a = v) \<and> (\<forall>e. rf = Inl e \<longrightarrow> \<not> panicked (Some e))"
proof -
  obtain V where V: "net_inv tg V n" using assms(2) by (auto simp: net_good_def)
  let ?c = "\<lparr>hc_Method = ''GET'', hc_URL = url, hc_Authorization = [], hc_Body = []\<rparr>"
  obtain path where path: "url = tg_listBase tg @ path" "\<exists>l. path = ''/lists/'' @ l" using assms(3) by (auto simp: net_holds_def)
  have gr: "net_granted tg m url idx" if "st (nt_world m) = st (nt_world n)" for m
    using assms(3) that by (auto simp: net_holds_def net_granted_def)
  obtain f n1 where f: "run_state (at_ingestion next_fate) n = (f, n1)" by fastforce
  have n1: "net_inv tg V n1" "st (nt_world n1) = st (nt_world n)" "nt_verifier n1 = nt_verifier n"
    using net_draws(1)[OF V] f fate_run[OF f] by simp_all
  then have h1: "net_holds tg n1 url idx v" using assms(3) by (simp add: net_holds_def)
  have "snd (CutPrefix url (tg_ingressURL tg)) = False"
    using assms(1) path by (auto simp: target_ok_def CutPrefix_def)
  then have d: "deliver tg ?c = verifier_call tg ?c path"
    by (auto simp: deliver_def path(1) CutPrefix_append split: prod.splits)
  obtain ans n2 where a: "run_state (verifier_call tg ?c path) n1 = (ans, n2)" by fastforce
  note v = verifier_fetch[OF assms(1) n1(1) h1 path(1) _ a, simplified]
  have "net_good tg n1" using n1(1) by (auto simp: net_good_def)
  have n1g: "net_good tg n1" "net_granted tg n1 url idx" using n1 gr by (auto simp: net_good_def)
  have n2g: "net_good tg n2" "net_granted tg n2 url idx" using v n1(2) gr by auto
  show ?thesis
  proof (cases "tg_ParseURL tg url")
    case False
    then show ?thesis using assms(2,4) gr by (auto simp: fetchStatus_def send_def target_env_def panicked_def)
  next
    case True
    have "run_state (net_Do tg ?c) n = (case f of Ok \<Rightarrow> (ans, n2) | Fail \<Rightarrow> (None, n1) | Lost \<Rightarrow> (None, n2))"
      by (cases f) (simp_all add: net_Do_def f d a)
    then show ?thesis
      using assms(4) True v n1g n2g
      by (cases f) (auto simp: fetchStatus_def send_def target_env_def panicked_def split: option.splits if_splits)
  qed
qed


text \<open>The contract, for every target: \<open>good\<close> includes that the target is set up as it should be.\<close>

interpretation lt: status_endpoints "target_env tg" "tg_ingressURL tg" token
  "\<lambda>n. target_ok tg \<and> net_good tg n" "net_granted tg" "net_holds tg"
proof (unfold_locales, goal_cases)
  case (1 n ra n')
  then show ?case using allocate_run by blast
next
  case (2 n l idx name rp n')
  then show ?case using patch_run by blast
next
  case (3 n url idx v rf n')
  then show ?case using fetch_run by blast
next
  case (4 n)
  then show ?case using accounting_run by blast
next
  case (5 n k)
  then show ?case using net_draws(2) unfolding net_good_def by (fastforce simp: target_env_def)
next
  case (6 n)
  then show ?case using net_draws(3) by (auto simp: target_env_def net_good_def)
next
  case (7 n)
  then show ?case using net_draws(4) by (auto simp: target_env_def net_good_def)
qed


section \<open>A worker against the services\<close>

text \<open>
  C32. A worker of the load test, pointed at a deployment with well-behaved libraries and nothing else at work, always
  returns and reports no mismatch: whatever operations are drawn, whichever calls fail or lose their answer, in the
  tool or between a service and a store, every status it reads back from a published list is the one it was told
  had been set. What it reports is thus a fault of the deployment and never of its own bookkeeping.
\<close>

theorem load_test_reports_no_mismatch:
  assumes "target_ok tg" "net_good tg n"
  shows "\<exists>wr n'. run_state (runWorker (target_env tg) (tg_ingressURL tg) token weights grants (newWorkerResult issuerID)) n = (Some wr, n')
     \<and> wr_mismatches wr = [] \<and> net_good tg n'"
  using lt.worker_ok[of tg n token weights grants "newWorkerResult issuerID"] assms by (auto simp: newWorkerResult_def)

text \<open>The small deployment of the other witnesses, with an index and a URL in a line of text for the JSON codec.\<close>

definition demo_encode :: "string \<Rightarrow> u64 \<Rightarrow> time \<Rightarrow> bytes" where
  "demo_encode url idx e = string_bytes (show_nat (unat idx) @ '' '' @ url)"

definition demo_decode :: "bytes \<Rightarrow> (string \<times> u64 \<times> time) option" where
  "demo_decode b = (case str_split (CHR '' '') (bytes_string b) of d # us \<Rightarrow>
     map_option (\<lambda>i. (str_join (CHR '' '') us, i, 0)) (ParseUint d) | [] \<Rightarrow> None)"

definition demo_target :: "string target" where
  "demo_target = \<lparr>tg_ingressURL = ''https://i'', tg_router = demo_router\<lparr>rt_validator := (\<lambda>_. Inr (demo_auth ''a''))\<rparr>,
     tg_tokengin = \<lparr>TokenAuth = (\<lambda>_. Inr (Some (demo_auth ''a''))), MustHaveTAC = (\<lambda>_ _. None)\<rparr>, tg_hmac = demo_hmac,
     tg_server = demo_server, tg_verifier = demo_verifier, tg_lib = demo_lib, tg_ParseURL = (\<lambda>_. True),
     tg_EncodeAllocate = demo_encode, tg_DecodeAllocate = demo_decode, tg_MarshalStatus = string_bytes,
     tg_BindAllocate = (\<lambda>_. Malformed), tg_BindStatus = (\<lambda>b. Json (bytes_string b))\<rparr>"

lemma demo_codec: "demo_decode (demo_encode url idx e) = Some (url, idx, 0)"
proof -
  have "CHR '' '' \<notin> set (show_nat (unat idx))" using show_nat_digits[of "CHR '' ''" "unat idx"] by (auto simp: is_digit_def)
  from str_split_append[OF this, of url] show ?thesis
    by (simp add: demo_decode_def demo_encode_def bytes_string_bytes ParseUint_show)
qed

lemma demo_target_ok: "target_ok demo_target"
proof -
  have "codec_law demo_target" by (simp add: codec_law_def demo_target_def demo_codec bytes_string_bytes)
  moreover have "aborts_law (tg_tokengin demo_target)" by (simp add: aborts_law_def demo_target_def)
  moreover have "fits demo_manager" by (auto simp: fits_def demo_manager_def ascii_def ValidBitWidth_def)
  moreover have "mg_ShardID demo_manager = ''a''" by (simp add: demo_manager_def)
  ultimately show ?thesis
    using demo_lib_laws
    by (simp add: target_ok_def demo_target_def demo_server_def demo_cfg_def demo_verifier_def demo_publisher_def ascii_def)
qed

definition demo_net :: net where
  "demo_net = \<lparr>nt_world = demo_world demo_owned, nt_verifier = demo_proc\<rparr>"

lemma demo_net_inv: "net_inv demo_target (\<lambda>_. 0) demo_net"
proof -
  have "calm ''a'' (\<lambda>_. 0) demo_owned"
    by (simp add: calm_def demo_owned_state demo_empty_state reserved_row_def demo_row_def row_fits_def plain_id_def ascii_def
        live_version_def ValidBitWidth_def u64_of_int_def advance_def)
  then show ?thesis
    by (simp add: net_inv_def demo_net_def demo_target_def demo_server_def demo_cfg_def demo_proc_def quiet_world_def)
qed

theorem load_test_reports_no_mismatch_witness:
  "\<exists>wr n'. run_state (runWorker (target_env demo_target) ''https://i'' ''tok-a''
       \<lparr>ow_allocate = 1, ow_status = 1, ow_accounting = 1, ow_lifecycle = 2\<rparr> 25 (newWorkerResult ''alice''))
       demo_net = (Some wr, n') \<and> wr_mismatches wr = []"
proof -
  have "net_good demo_target demo_net" using demo_net_inv by (auto simp: net_good_def)
  moreover have "tg_ingressURL demo_target = ''https://i''" by (simp add: demo_target_def)
  ultimately show ?thesis using load_test_reports_no_mismatch[OF demo_target_ok, of demo_net] by metis
qed

end
