(* ===== verification/Loadtest_Report.thy ===== *)
theory Loadtest_Report
  imports Loadtest_Run
begin

text \<open>
  What the load test makes of a run: the merged latencies and counts of \<open>report.go\<close>, and the pool balance and the
  comparison with the stores of \<open>verify.go\<close>, all in \<open>src/tools/loadtest\<close>. A printed line is a value of the output;
  a padded column keeps its number. Percentages and rates are exact rationals for floating-point numbers, and a rate
  over no time at all, infinite or not a number there, is \<open>None\<close>.
\<close>

section \<open>The report\<close>

record opSummary =
  os_op :: string
  os_ok :: nat
  os_errors :: int
  os_latencies :: "duration list"

definition percentile :: "opSummary \<Rightarrow> rat \<Rightarrow> duration" where
  "percentile s p =
     (if os_latencies s = [] then 0
      else let sorted = sort (os_latencies s) in sorted ! nat \<lfloor>p * of_nat (length sorted - 1)\<rfloor>)"

definition report_ops :: "string list" where
  "report_ops = [''allocate'', ''status'', ''accounting'', ''lifecycle'']"

text \<open>The maps of a worker have these four keys and no other, see \<open>worker_keys\<close> below; each is merged on its own.\<close>

definition merge_one :: "workerResult \<Rightarrow> opSummary \<Rightarrow> opSummary" where
  "merge_one r s =
     (let s = (case wr_latency r (os_op s) of
                 None \<Rightarrow> s
               | Some lat \<Rightarrow> s\<lparr>os_ok := os_ok s + length lat, os_latencies := os_latencies s @ lat\<rparr>)
      in case wr_errors r (os_op s) of None \<Rightarrow> s | Some n \<Rightarrow> s\<lparr>os_errors := os_errors s + n\<rparr>)"

definition mergeResults :: "workerResult list \<Rightarrow> opSummary list" where
  "mergeResults results =
     fold (\<lambda>r. map (merge_one r)) results (map (\<lambda>oper. \<lparr>os_op = oper, os_ok = 0, os_errors = 0, os_latencies = []\<rparr>) report_ops)"

definition Millisecond :: duration where
  "Millisecond = 1000000"

text \<open>\<open>Duration.Round\<close> of a duration that is not negative.\<close>

definition Round :: "duration \<Rightarrow> duration \<Rightarrow> duration" where
  "Round d m = (let r = d mod m in if r + r < m then d - r else d + m - r)"

record report_row =
  rw_op :: string
  rw_ok :: nat
  rw_errors :: int
  rw_rps :: "rat option"
  rw_percentiles :: "duration list"

record report =
  rp_issuers :: nat
  rp_wallClock :: duration
  rp_rows :: "report_row list"
  rp_skipped :: int
  rp_mismatches :: "string list"

definition printLifecycleMismatches :: "workerResult list \<Rightarrow> string list" where
  "printLifecycleMismatches results = concat (map wr_mismatches results)"

definition printReport :: "workerResult list \<Rightarrow> duration \<Rightarrow> report" where
  "printReport results wallClock =
     \<lparr>rp_issuers = length results, rp_wallClock = Round wallClock Millisecond,
      rp_rows = map (\<lambda>s. \<lparr>rw_op = os_op s, rw_ok = os_ok s, rw_errors = os_errors s,
        rw_rps = (if wallClock = 0 then None else Some (of_nat (os_ok s) * of_int Second / of_int wallClock)),
        rw_percentiles = map (\<lambda>p. Round (percentile s p) Millisecond) [1/2, 9/10, 99/100, 1]\<rparr>) (mergeResults results),
      rp_skipped = (\<Sum>r\<leftarrow>results. wr_skipped r),
      rp_mismatches = printLifecycleMismatches results\<rparr>"

section \<open>Pool balance\<close>

record balance_row =
  br_listID :: string
  br_count :: nat
  br_share :: rat
  br_flagged :: bool

text \<open>
  \<open>sort.Slice\<close> leaves the order of equal counts open, and so does the iteration over the map before it; here lists
  of the same count stay in the order in which they were first seen. \<open>None\<close> is the line that there is nothing to check.
\<close>

definition perList :: "workerResult list \<Rightarrow> (string \<times> nat) list" where
  "perList results =
     (let ids = concat (map (\<lambda>r. map ld_listID (wr_allocs r)) results)
      in map (\<lambda>l. (l, count_list ids l)) (rev (remdups (rev ids))))"

definition printPoolBalance :: "workerResult list \<Rightarrow> (nat \<times> rat \<times> balance_row list) option" where
  "printPoolBalance results =
     (let rows = perList results; total = sum_list (map snd rows)
      in if total = 0 \<or> rows = [] then None
         else let mean = of_nat total / of_nat (length rows)
         in Some (total, mean,
              map (\<lambda>(l, c). \<lparr>br_listID = l, br_count = c, br_share = 100 * of_nat c / of_nat total, br_flagged = of_nat c > mean * (3/2)\<rparr>)
                (sort_key (\<lambda>(l, c). - int c) rows)))"

section \<open>Every operation granted is reported\<close>

definition worker_wf :: "workerResult \<Rightarrow> bool" where
  "worker_wf r \<longleftrightarrow> dom (wr_latency r) = set report_ops \<and> dom (wr_errors r) = set report_ops"

definition counted_ops :: "workerResult \<Rightarrow> int" where
  "counted_ops r = (\<Sum>oper\<leftarrow>report_ops. int (length (the (wr_latency r oper))) + the (wr_errors r oper)) + wr_skipped r"

lemma newWorkerResult_wf: "worker_wf (newWorkerResult i)" "counted_ops (newWorkerResult i) = 0"
  by (auto simp: worker_wf_def counted_ops_def newWorkerResult_def report_ops_def)

text \<open>The operations change neither the issuer, nor the latencies, nor the errors, nor what was skipped: the loop does.\<close>

definition same_counts :: "workerResult \<Rightarrow> workerResult \<Rightarrow> bool" where
  "same_counts r r' \<longleftrightarrow> wr_issuerID r' = wr_issuerID r \<and> wr_latency r' = wr_latency r \<and> wr_errors r' = wr_errors r
     \<and> wr_skipped r' = wr_skipped r"

lemma checkStatus_counts: "same_counts res (snd (result (checkStatus env res l url idx v) s))"
  by (auto simp: checkStatus_def same_counts_def Let_def split: sum.splits prod.splits)

lemma doOp_counts: "same_counts res (snd (result (doOp env ingressURL token oper res) s))"
proof -
  have run: "same_counts r r'" if "run_state (checkStatus env r l url idx v) t = ((e, r'), t')" for r l url idx v t e r' t'
    using checkStatus_counts[of r env l url idx v t] that by simp
  have again: "same_counts res (snd (result (checkStatus env (r\<lparr>wr_allocs := a\<rparr>) l url idx v) t))" if "same_counts res r" for r a l url idx v t
    using that checkStatus_counts[of "r\<lparr>wr_allocs := a\<rparr>" env l url idx v t] by (simp add: same_counts_def)
  have refl: "same_counts res res" by (simp add: same_counts_def)
  have l: "same_counts res (snd (result (doLifecycle env ingressURL token res) s))"
    by (auto simp: doLifecycle_def refl intro: again dest: run split: sum.split prod.split option.split)
  show ?thesis
    using l by (auto simp: doOp_def doAllocate_def doStatus_def same_counts_def Let_def split: sum.splits prod.splits option.splits if_splits)
qed

lemma pick_op: "result (pick env w) s \<in> set report_ops"
  by (auto simp: pick_def report_ops_def Let_def split: prod.splits)


lemma sum_one_more:
  assumes "oper \<in> set ops" "distinct ops" "\<And>o'. o' \<noteq> oper \<Longrightarrow> g o' = f o'" "g oper = f oper + (1 :: int)"
  shows "(\<Sum>o'\<leftarrow>ops. g o') = (\<Sum>o'\<leftarrow>ops. f o') + 1"
  using assms(1,2)
proof (induction ops)
  case (Cons a ops)
  show ?case
  proof (cases "a = oper")
    case True
    then have "map g ops = map f ops" using Cons.prems assms(3) by (metis distinct.simps(2) map_eq_conv)
    then have "sum_list (map g ops) = sum_list (map f ops)" by (rule arg_cong)
    then show ?thesis using True assms(4) by simp
  next
    case False
    then show ?thesis using Cons assms(3)[OF False] by auto
  qed
qed simp

lemma ops_distinct: "distinct report_ops"
  by (simp add: report_ops_def)

lemma count_error:
  assumes "worker_wf r" "oper \<in> set report_ops"
  defines "r' \<equiv> r\<lparr>wr_errors := (wr_errors r)(oper \<mapsto> (case wr_errors r oper of None \<Rightarrow> 0 | Some n \<Rightarrow> n) + 1)\<rparr>"
  shows "worker_wf r' \<and> counted_ops r' = counted_ops r + 1"
proof -
  obtain n where "wr_errors r oper = Some n" using assms(1,2) by (auto simp: worker_wf_def)
  then have "counted_ops r' = counted_ops r + 1"
    unfolding counted_ops_def r'_def
    by (subst sum_one_more[OF assms(2) ops_distinct, where f = "\<lambda>oper. int (length (the (wr_latency r oper))) + the (wr_errors r oper)"]) auto
  then show ?thesis using assms(1,2) by (auto simp: worker_wf_def r'_def)
qed

lemma count_latency:
  fixes d :: duration
  assumes "worker_wf r" "oper \<in> set report_ops"
  defines "r' \<equiv> r\<lparr>wr_latency := (wr_latency r)(oper \<mapsto> (case wr_latency r oper of None \<Rightarrow> [] | Some ls \<Rightarrow> ls) @ [d])\<rparr>"
  shows "worker_wf r' \<and> counted_ops r' = counted_ops r + 1"
proof -
  obtain ls where "wr_latency r oper = Some ls" using assms(1,2) by (auto simp: worker_wf_def)
  then have "counted_ops r' = counted_ops r + 1"
    unfolding counted_ops_def r'_def
    by (subst sum_one_more[OF assms(2) ops_distinct, where f = "\<lambda>oper. int (length (the (wr_latency r oper))) + the (wr_errors r oper)"]) auto
  then show ?thesis using assms(1,2) by (auto simp: worker_wf_def r'_def)
qed

lemma count_skipped: "worker_wf r \<Longrightarrow> worker_wf (r\<lparr>wr_skipped := wr_skipped r + 1\<rparr>) \<and> counted_ops (r\<lparr>wr_skipped := wr_skipped r + 1\<rparr>) = counted_ops r + 1"
  by (simp add: worker_wf_def counted_ops_def)

lemma same_counts_wf: "same_counts r r' \<Longrightarrow> worker_wf r \<Longrightarrow> worker_wf r' \<and> counted_ops r' = counted_ops r"
  by (simp add: same_counts_def worker_wf_def counted_ops_def)

lemma worker_keys:
  "worker_wf res \<Longrightarrow> run_state (runWorker env ingressURL token weights grants res) s = (Some res', s')
   \<Longrightarrow> worker_wf res' \<and> counted_ops res' = counted_ops res + int grants"
proof (induction grants arbitrary: res s)
  case (Suc grants)
  obtain oper s1 where p: "run_state (pick env weights) s = (oper, s1)" by fastforce
  obtain start s2 where n: "run_state (le_Now env) s1 = (start, s2)" by fastforce
  obtain err res1 s3 where d: "run_state (doOp env ingressURL token oper res) s2 = ((err, res1), s3)" by (metis prod_cases3 surj_pair)
  obtain now s4 where e: "run_state (le_Now env) s3 = (now, s4)" by fastforce
  have o: "oper \<in> set report_ops" using pick_op[of env weights s] p by simp
  have r1: "worker_wf res1" "counted_ops res1 = counted_ops res"
    using same_counts_wf[OF _ Suc.prems(1)] doOp_counts[of res env ingressURL token oper s2] d by auto
  note counts = count_error[OF r1(1) o] count_latency[OF r1(1) o] count_skipped[OF r1(1)]
  have ih: "worker_wf res' \<and> counted_ops res' = counted_ops res + int (Suc grants)"
    if "run_state (runWorker env ingressURL token weights grants r2) s5 = (Some res', s')" "worker_wf r2 \<and> counted_ops r2 = counted_ops res1 + 1" for r2 s5
    using Suc.IH[OF _ that(1)] that(2) r1(2) by simp
  show ?case
    using Suc.prems(2) ih counts by (auto simp: p n d e split: if_splits)
qed simp


text \<open>The four rows together with the skipped attempts have every operation of every worker.\<close>

definition merged_total :: "opSummary list \<Rightarrow> int" where
  "merged_total ss = (\<Sum>s\<leftarrow>ss. int (os_ok s) + os_errors s)"

lemma merge_one_op [simp]: "os_op (merge_one r s) = os_op s"
  by (simp add: merge_one_def Let_def split: option.split)

lemma merge_one_total:
  assumes "worker_wf r" "os_op s \<in> set report_ops"
  shows "int (os_ok (merge_one r s)) + os_errors (merge_one r s)
    = int (os_ok s) + os_errors s + (int (length (the (wr_latency r (os_op s)))) + the (wr_errors r (os_op s)))"
proof -
  obtain lat n where "wr_latency r (os_op s) = Some lat" "wr_errors r (os_op s) = Some n"
    using assms unfolding worker_wf_def by (metis domD)
  then show ?thesis by (simp add: merge_one_def)
qed

lemma merge_row_total:
  assumes "worker_wf r" "map os_op ss = report_ops"
  shows "merged_total (map (merge_one r) ss) = merged_total ss + (counted_ops r - wr_skipped r)"
proof -
  have "merged_total (map (merge_one r) ss)
      = (\<Sum>s\<leftarrow>ss. int (os_ok s) + os_errors s + (int (length (the (wr_latency r (os_op s)))) + the (wr_errors r (os_op s))))"
    unfolding merged_total_def map_map o_def
    by (rule arg_cong[where f = sum_list], rule map_cong) (use assms in \<open>auto intro!: merge_one_total simp flip: assms(2)\<close>)
  then show ?thesis
    by (simp add: merged_total_def counted_ops_def sum_list_addf o_def flip: assms(2))
qed

lemma merge_totals:
  assumes "\<forall>r\<in>set results. worker_wf r"
  shows "merged_total (mergeResults results) + (\<Sum>r\<leftarrow>results. wr_skipped r) = (\<Sum>r\<leftarrow>results. counted_ops r)"
proof -
  have fold_total: "merged_total (fold (\<lambda>r. map (merge_one r)) rs ss) + (\<Sum>r\<leftarrow>rs. wr_skipped r) = merged_total ss + (\<Sum>r\<leftarrow>rs. counted_ops r)"
    if "\<forall>r\<in>set rs. worker_wf r" "map os_op ss = report_ops" for rs ss
    using that
  proof (induction rs arbitrary: ss)
    case (Cons r rs)
    have "map os_op (map (merge_one r) ss) = report_ops" using Cons.prems(2) by (simp add: o_def)
    then show ?case using Cons.IH[of "map (merge_one r) ss"] Cons.prems merge_row_total[of r ss] by simp
  qed simp
  show ?thesis
    unfolding mergeResults_def by (subst fold_total[OF assms]) (simp_all add: merged_total_def o_def)
qed

text \<open>
  Every operation the limiter granted to a worker appears in the report exactly once, whatever the endpoints
  answered: as a latency of its kind, as an error of its kind, or among the skipped attempts.
\<close>

theorem report_counts_every_operation:
  assumes "list_all2 (\<lambda>res grants. \<exists>env ingressURL token weights issuerID s s'.
      run_state (runWorker env ingressURL token weights grants (newWorkerResult issuerID)) (s :: 's) = (Some res, s')) results grantss"
  shows "(\<Sum>row\<leftarrow>rp_rows (printReport results wallClock). int (rw_ok row) + rw_errors row) + rp_skipped (printReport results wallClock)
     = int (sum_list grantss)"
proof -
  have w: "worker_wf res \<and> counted_ops res = int g" if "run_state (runWorker env u t ws g (newWorkerResult i)) s = (Some res, s')"
    for res g env u t ws i and s s' :: 's
    using worker_keys[OF newWorkerResult_wf(1) that] newWorkerResult_wf(2) by simp
  have "\<forall>r\<in>set results. worker_wf r" "(\<Sum>r\<leftarrow>results. counted_ops r) = int (sum_list grantss)"
    using assms by (induction rule: list_all2_induct) (auto dest: w)
  then show ?thesis
    using merge_totals[of results] by (simp add: printReport_def merged_total_def o_def)
qed

text \<open>The latency a percentile names was measured, and it has its share of the latencies on either side.\<close>

lemma sorted_below: "sorted_wrt (\<le>) (xs :: 'a::linorder list) \<Longrightarrow> i < length xs \<Longrightarrow> Suc i \<le> length (filter (\<lambda>x. x \<le> xs ! i) xs)"
proof -
  assume a: "sorted_wrt (\<le>) xs" "i < length xs"
  have "\<forall>x\<in>set (take (Suc i) xs). x \<le> xs ! i"
    using a by (auto simp: in_set_conv_nth less_Suc_eq_le intro!: sorted_nth_mono[OF a(1)])
  then have "filter (\<lambda>x. x \<le> xs ! i) (take (Suc i) xs) = take (Suc i) xs" by (simp add: filter_id_conv)
  then have "length (filter (\<lambda>x. x \<le> xs ! i) (take (Suc i) xs @ drop (Suc i) xs)) \<ge> Suc i"
    using a(2) by (simp only: filter_append length_append) simp
  then show ?thesis by simp
qed

lemma sorted_above: "sorted_wrt (\<le>) (xs :: 'a::linorder list) \<Longrightarrow> i < length xs \<Longrightarrow> length xs - i \<le> length (filter (\<lambda>x. xs ! i \<le> x) xs)"
proof -
  assume a: "sorted_wrt (\<le>) xs" "i < length xs"
  have "\<forall>x\<in>set (drop i xs). xs ! i \<le> x"
    using a by (auto simp: in_set_conv_nth intro!: sorted_nth_mono[OF a(1)])
  then have "filter (\<lambda>x. xs ! i \<le> x) (drop i xs) = drop i xs" by (simp add: filter_id_conv)
  then have "length (filter (\<lambda>x. xs ! i \<le> x) (take i xs @ drop i xs)) \<ge> length xs - i"
    by (simp only: filter_append length_append) simp
  then show ?thesis by simp
qed

theorem percentile_rank:
  assumes "os_latencies s \<noteq> []" "0 \<le> p" "p \<le> 1"
  defines "n \<equiv> length (os_latencies s)" and "d \<equiv> percentile s p"
  shows "d \<in> set (os_latencies s)"
    "p * of_nat (n - 1) < of_nat (length (filter (\<lambda>x. x \<le> d) (os_latencies s)))"
    "of_nat n - p * of_nat (n - 1) \<le> of_nat (length (filter (\<lambda>x. d \<le> x) (os_latencies s)))"
proof -
  let ?xs = "sort (os_latencies s)"
  define i where "i = nat \<lfloor>p * of_nat (n - 1)\<rfloor>"
  have d: "d = ?xs ! i" using assms(1) by (simp add: d_def percentile_def n_def i_def Let_def)
  have n: "0 < n" "length ?xs = n" using assms(1) by (simp_all add: n_def)
  have "p * of_nat (n - 1) \<le> 1 * of_nat (n - 1)" using assms(3) by (intro mult_right_mono) simp_all
  then have "\<lfloor>p * of_nat (n - 1)\<rfloor> \<le> int (n - 1)" by (simp add: floor_le_iff)
  then have i: "i < n" using n(1) unfolding i_def by linarith
  have flt: "length (filter P (os_latencies s)) = length (filter P ?xs)" for P
    by (metis mset_filter mset_sort size_mset)
  show "d \<in> set (os_latencies s)" unfolding d using nth_mem[of i ?xs] i n(2) by simp
  have "0 \<le> p * of_nat (n - 1)" using assms(2) by simp
  then have fl: "of_nat i \<le> p * of_nat (n - 1)" "p * of_nat (n - 1) < of_nat (Suc i)"
    unfolding i_def by linarith+
  have "Suc i \<le> length (filter (\<lambda>x. x \<le> d) ?xs)" unfolding d using sorted_below[of ?xs i] i n(2) by simp
  then show "p * of_nat (n - 1) < of_nat (length (filter (\<lambda>x. x \<le> d) (os_latencies s)))"
    unfolding flt using fl(2) by (meson le_less_trans less_le_trans of_nat_mono)
  have "n - i \<le> length (filter (\<lambda>x. d \<le> x) ?xs)" unfolding d using sorted_above[of ?xs i] i n(2) by simp
  moreover have "of_nat n - p * of_nat (n - 1) \<le> (of_nat (n - i) :: rat)" using fl(1) i by (simp add: of_nat_diff)
  ultimately show "of_nat n - p * of_nat (n - 1) \<le> of_nat (length (filter (\<lambda>x. d \<le> x) (os_latencies s)))"
    unfolding flt by (meson order_trans of_nat_mono)
qed


section \<open>The comparison with the stores\<close>

datatype verify_error =
    ConnectPostgres
  | BadRedisURL string
  | CouldNotLoad string
  | ShardNotCovered string string "string list"
  | SnapshotFailed string err
  | WrapFailed string bitmap_error
  | ReadFailed u64 string bitmap_error
  | StatusNeverWritten nat

definition shardRedisKeys :: "(string \<times> string) list \<Rightarrow> string list" where
  "shardRedisKeys m = sort (map fst m)"

record verify_out =
  vo_lines :: "string list"
  vo_checked :: nat

definition verify_line :: "string \<Rightarrow> allocRecord \<Rightarrow> byte \<Rightarrow> string" where
  "verify_line issuerID rec actual =
     ''  MISMATCH issuer='' @ issuerID @ '' list='' @ ld_listID rec @ '' index='' @ show_nat (unat (ld_index rec))
     @ '' expected='' @ ld_expected rec @ '' actual='' @ statusName actual"

definition check_record :: "string \<Rightarrow> allocRecord \<Rightarrow> byte \<Rightarrow> verify_out \<Rightarrow> verify_out" where
  "check_record issuerID rec actual out =
     (let out = out\<lparr>vo_checked := vo_checked out + 1\<rparr>
      in if statusName actual \<noteq> ld_expected rec then out\<lparr>vo_lines := vo_lines out @ [verify_line issuerID rec actual]\<rparr> else out)"

text \<open>The loop over the records of all workers, with what was read of a list so far.\<close>

fun verify_allocs ::
  "(string \<times> string) list \<Rightarrow> (string \<times> allocRecord) list \<Rightarrow> (string \<rightharpoonup> ListMeta) \<Rightarrow> (string \<rightharpoonup> bytes) \<Rightarrow> verify_out
   \<Rightarrow> ('p world, verify_error option \<times> verify_out) state" where
  "verify_allocs urls [] listMetaCache snapshotCache out = ret (None, out)"
| "verify_allocs urls ((issuerID, rec) # recs) listMetaCache snapshotCache out = do {
     rl \<leftarrow> (case listMetaCache (ld_listID rec) of
              Some lm \<Rightarrow> ret (Inr (Some lm))
            | None \<Rightarrow> GetList (ld_listID rec));
     (case rl of
        Inl _ \<Rightarrow> ret (Some (CouldNotLoad (ld_listID rec)), out)
      | Inr None \<Rightarrow> ret (Some (CouldNotLoad (ld_listID rec)), out)
      | Inr (Some lm) \<Rightarrow>
          if lm_ShardID lm \<notin> set (map fst urls)
          then ret (Some (ShardNotCovered (ld_listID rec) (lm_ShardID lm) (shardRedisKeys urls)), out)
          else do {
            rs \<leftarrow> (case snapshotCache (ld_listID rec) of
                     Some raw \<Rightarrow> ret (Inr raw)
                   | None \<Rightarrow> Snapshot (lm_ShardID lm) (ld_listID rec) (int64_of_u64 (byte_len (lm_Size lm) (lm_Bits lm))));
            (case rs of
               Inl e \<Rightarrow> ret (Some (SnapshotFailed (ld_listID rec) e), out)
             | Inr raw \<Rightarrow>
                 (case WrapBitmap raw (lm_Size lm) (lm_Bits lm) of
                    Inl e \<Rightarrow> ret (Some (WrapFailed (ld_listID rec) e), out)
                  | Inr bm \<Rightarrow>
                      (case Get bm (ld_index rec) of
                         Inl e \<Rightarrow> ret (Some (ReadFailed (ld_index rec) (ld_listID rec) e), out)
                       | Inr actual \<Rightarrow>
                           verify_allocs urls recs (listMetaCache(ld_listID rec \<mapsto> lm)) (snapshotCache(ld_listID rec \<mapsto> raw))
                             (check_record issuerID rec actual out))))
          })
   }"

definition run_records :: "workerResult list \<Rightarrow> (string \<times> allocRecord) list" where
  "run_records results = concat (map (\<lambda>r. map (Pair (wr_issuerID r)) (wr_allocs r)) results)"

text \<open>\<open>connects\<close> says whether the database answers, \<open>parses\<close> which Redis URLs the client library takes.\<close>

definition verifyDecoySafety ::
  "bool \<Rightarrow> (string \<Rightarrow> bool) \<Rightarrow> (string \<times> string) list \<Rightarrow> workerResult list \<Rightarrow> ('p world, verify_error option \<times> verify_out) state" where
  "verifyDecoySafety connects parses shardRedisURLs results =
     (let none = \<lparr>vo_lines = [], vo_checked = 0\<rparr>
      in if \<not> connects then ret (Some ConnectPostgres, none)
         else case find (\<lambda>(_, url). \<not> parses url) shardRedisURLs of
                Some (shardID, _) \<Rightarrow> ret (Some (BadRedisURL shardID), none)
              | None \<Rightarrow> do {
                  r \<leftarrow> verify_allocs shardRedisURLs (run_records results) Map.empty Map.empty none;
                  ret (case r of
                         (Some e, out) \<Rightarrow> (Some e, out)
                       | (None, out) \<Rightarrow>
                           (if vo_lines out \<noteq> [] then Some (StatusNeverWritten (length (vo_lines out))) else None, out))
                })"

text \<open>The reference: each record read from the stores on its own.\<close>

definition stored_status :: "(string \<times> string) list \<Rightarrow> stores \<Rightarrow> allocRecord \<Rightarrow> verify_error + byte" where
  "stored_status urls t rec =
     (let l = ld_listID rec
      in case sql_select_list l (pg t) of
           None \<Rightarrow> Inl (CouldNotLoad l)
         | Some row \<Rightarrow>
             let lm = scanListMeta row; n = int64_of_u64 (byte_len (lm_Size lm) (lm_Bits lm))
             in if lm_ShardID lm \<notin> set (map fst urls) then Inl (ShardNotCovered l (lm_ShardID lm) (shardRedisKeys urls))
                else if n < 0 then Inl (SnapshotFailed l ErrPanic)
                else case WrapBitmap (stored_bytes lm t) (lm_Size lm) (lm_Bits lm) of
                       Inl e \<Rightarrow> Inl (WrapFailed l e)
                     | Inr bm \<Rightarrow> (case Get bm (ld_index rec) of
                                  Inl e \<Rightarrow> Inl (ReadFailed (ld_index rec) l e)
                                | Inr actual \<Rightarrow> Inr actual))"

fun checked_all :: "(string \<times> string) list \<Rightarrow> stores \<Rightarrow> (string \<times> allocRecord) list \<Rightarrow> verify_out \<Rightarrow> verify_error option \<times> verify_out" where
  "checked_all urls t [] out = (None, out)"
| "checked_all urls t ((issuerID, rec) # recs) out =
     (case stored_status urls t rec of
        Inl e \<Rightarrow> (Some e, out)
      | Inr actual \<Rightarrow> checked_all urls t recs (check_record issuerID rec actual out))"

definition caches_ok :: "stores \<Rightarrow> (string \<rightharpoonup> ListMeta) \<Rightarrow> (string \<rightharpoonup> bytes) \<Rightarrow> bool" where
  "caches_ok t lms snaps \<longleftrightarrow> (\<forall>l lm. lms l = Some lm \<longrightarrow> (\<exists>row. sql_select_list l (pg t) = Some row \<and> lm = scanListMeta row))
     \<and> (\<forall>l raw. snaps l = Some raw \<longrightarrow> (\<exists>row. sql_select_list l (pg t) = Some row
          \<and> 0 \<le> int64_of_u64 (byte_len (lm_Size (scanListMeta row)) (lm_Bits (scanListMeta row))) \<and> raw = stored_bytes (scanListMeta row) t))"

lemma run_healthy:
  assumes "sched w = []" "fates w = []"
  shows "run_state (remote e g) w = (case g (st w) of (r, t) \<Rightarrow> (r, w\<lparr>st := t\<rparr>))"
  using assms by (simp add: remote_def interfere_def next_fate_def apply_store_def split: prod.split)

lemma healthy_reads:
  assumes "sched w = []" "fates w = []"
  shows "run_state (GetList l) w = (Inr (map_option scanListMeta (sql_select_list l (pg (st w)))), w)"
    "run_state (Snapshot sh l n) w = (if n < 0 then Inl ErrPanic else Inr (snapshot_of (ks_strings (kv (st w) sh) (bitmapKey l)) (nat n)), w)"
  using assms by (simp_all add: GetList_def pg_query_def Snapshot_def run_healthy)

lemma verify_allocs_reference:
  assumes "sched w = []" "fates w = []" "caches_ok (st w) lms snaps"
  shows "run_state (verify_allocs urls recs lms snaps out) w = (checked_all urls (st w) recs out, w)"
  using assms(3)
proof (induction recs arbitrary: lms snaps out)
  case (Cons rec' recs)
  obtain issuerID rec where rec: "rec' = (issuerID, rec)" by fastforce
  let ?l = "ld_listID rec" and ?t = "st w"
  have get: "run_state (case lms ?l of Some lm \<Rightarrow> ret (Inr (Some lm)) | None \<Rightarrow> GetList ?l) w
      = (Inr (map_option scanListMeta (sql_select_list ?l (pg ?t))), w)"
    using Cons.prems by (fastforce simp: caches_ok_def healthy_reads[OF assms(1,2)] split: option.split)
  show ?case
  proof (cases "sql_select_list ?l (pg ?t)")
    case None
    then show ?thesis using get by (simp add: rec stored_status_def)
  next
    case (Some row)
    let ?lm = "scanListMeta row"
    let ?n = "int64_of_u64 (byte_len (lm_Size ?lm) (lm_Bits ?lm))"
    have id: "lm_ID ?lm = ?l" using select_list_mem[OF Some] by (simp add: scanListMeta_def)
    have snap: "run_state (case snaps ?l of Some raw \<Rightarrow> ret (Inr raw) | None \<Rightarrow> Snapshot (lm_ShardID ?lm) ?l ?n) w
        = (if ?n < 0 then Inl ErrPanic else Inr (stored_bytes ?lm ?t), w)"
    proof (cases "snaps ?l")
      case None
      then show ?thesis using id by (simp add: healthy_reads[OF assms(1,2)] stored_bytes_def)
    next
      case (Some raw)
      then have "raw = stored_bytes ?lm ?t" "\<not> ?n < 0"
        using Cons.prems \<open>sql_select_list ?l (pg ?t) = Some row\<close> unfolding caches_ok_def by fastforce+
      then show ?thesis using Some by simp
    qed
    have "caches_ok ?t (lms(?l \<mapsto> ?lm)) (snaps(?l \<mapsto> stored_bytes ?lm ?t))" if "\<not> ?n < 0"
      using Cons.prems Some that by (auto simp: caches_ok_def)
    note ih = Cons.IH[OF this]
    show ?thesis
      using get snap Some by (auto simp: rec stored_status_def Let_def intro: ih split: sum.split)
  qed
qed simp


lemma stored_status_valid:
  assumes "sql_select_list (ld_listID rec) (pg t) = Some row" "lr_shard_id row \<in> set (map fst urls)" "ValidBitWidth (lr_bits row)"
    "row_fits row" "ld_index rec < u64_of_int (lr_size row)"
  shows "stored_status urls t rec = Inr (published_entry (scanListMeta row) (ld_index rec) t)"
proof -
  let ?lm = "scanListMeta row"
  have lm: "ValidBitWidth (lm_Bits ?lm)" "unat (lm_Size ?lm) * nat (lm_Bits ?lm) + 7 < 2 ^ 63" "lm_ShardID ?lm = lr_shard_id row"
      "ld_index rec < lm_Size ?lm"
    using assms(3-5) by (simp_all add: scanListMeta_def row_fits_def)
  note b = stored_bitmap(1,2)[OF lm(1,2), of t] stored_bitmap(3)[OF lm(1,2)]
  have "Get \<lparr>bm_bits = lm_Bits ?lm, bm_size = lm_Size ?lm, bm_data = stored_bytes ?lm t\<rparr> (ld_index rec)
      = Inr (published_entry ?lm (ld_index rec) t)"
    using Get_wf[OF b(1), of "ld_index rec"] lm(4) by (simp add: published_entry_def)
  then show ?thesis using assms(1,2) b(2,3) lm(3) by (simp add: stored_status_def Let_def)
qed

text \<open>A record whose list is there, on a shard the tool was told about, of a legal shape and with the index in it.\<close>

definition readable :: "(string \<times> string) list \<Rightarrow> stores \<Rightarrow> allocRecord \<Rightarrow> bool" where
  "readable urls t rec \<longleftrightarrow> (case sql_select_list (ld_listID rec) (pg t) of
     None \<Rightarrow> False
   | Some row \<Rightarrow> lr_shard_id row \<in> set (map fst urls) \<and> ValidBitWidth (lr_bits row) \<and> row_fits row \<and> ld_index rec < u64_of_int (lr_size row))"

definition entry_of :: "stores \<Rightarrow> allocRecord \<Rightarrow> byte" where
  "entry_of t rec = (case sql_select_list (ld_listID rec) (pg t) of None \<Rightarrow> 0 | Some row \<Rightarrow> published_entry (scanListMeta row) (ld_index rec) t)"

lemma stored_status_readable: "readable urls t rec \<Longrightarrow> stored_status urls t rec = Inr (entry_of t rec)"
  by (auto simp: readable_def entry_of_def stored_status_valid split: option.splits)

definition wrong :: "stores \<Rightarrow> string \<times> allocRecord \<Rightarrow> bool" where
  "wrong t x \<longleftrightarrow> statusName (entry_of t (snd x)) \<noteq> ld_expected (snd x)"

lemma checked_all_readable:
  assumes "\<forall>x\<in>set recs. readable urls t (snd x)"
  shows "checked_all urls t recs out = (None,
    \<lparr>vo_lines = vo_lines out @ map (\<lambda>(i, rec). verify_line i rec (entry_of t rec)) (filter (wrong t) recs), vo_checked = vo_checked out + length recs\<rparr>)"
  using assms
proof (induction recs arbitrary: out)
  case (Cons x recs)
  obtain i rec where x: "x = (i, rec)" by fastforce
  then show ?case
    using Cons.IH[of "check_record i rec (entry_of t rec) out"] Cons.prems
    by (simp add: stored_status_readable check_record_def wrong_def Let_def)
qed simp

lemma verify_run:
  assumes "sched w = []" "fates w = []" "\<forall>(_, url)\<in>set urls. parses url"
  shows "run_state (verifyDecoySafety True parses urls results) w
     = (case checked_all urls (st w) (run_records results) \<lparr>vo_lines = [], vo_checked = 0\<rparr> of
          (Some e, out) \<Rightarrow> (Some e, out)
        | (None, out) \<Rightarrow> (if vo_lines out \<noteq> [] then Some (StatusNeverWritten (length (vo_lines out))) else None, out), w)"
proof -
  have "find (\<lambda>(_, url). \<not> parses url) urls = None" using assms(3) by (auto simp: find_None_iff)
  moreover have "caches_ok (st w) Map.empty Map.empty" by (simp add: caches_ok_def)
  ultimately show ?thesis using verify_allocs_reference[OF assms(1,2)] by (simp add: verifyDecoySafety_def)
qed

text \<open>
  The check against the stores, which keeps each list's row and snapshot once read, gives exactly what reading the
  stores anew for every record would give, errors included, when the stores answer and nothing else is at work.
\<close>

theorem verify_caches_are_transparent:
  assumes "sched w = []" "fates w = []" "\<forall>(_, url)\<in>set urls. parses url"
  shows "run_state (verifyDecoySafety True parses urls results) w
     = (case checked_all urls (st w) (run_records results) \<lparr>vo_lines = [], vo_checked = 0\<rparr> of
          (Some e, out) \<Rightarrow> (Some e, out)
        | (None, out) \<Rightarrow> (if vo_lines out \<noteq> [] then Some (StatusNeverWritten (length (vo_lines out))) else None, out), w)"
  using assms by (rule verify_run)

text \<open>
  It then names exactly the records whose stored status is not the expected one, each once and in order, counts
  every record, and fails exactly when there is such a record.
\<close>

lemma verify_names_exactly_the_wrong_ones:
  assumes "sched w = []" "fates w = []" "\<forall>(_, url)\<in>set urls. parses url" "\<forall>(_, rec)\<in>set (run_records results). readable urls (st w) rec"
  defines "bad \<equiv> filter (wrong (st w)) (run_records results)"
  shows "run_state (verifyDecoySafety True parses urls results) w
     = ((if bad = [] then None else Some (StatusNeverWritten (length bad)),
         \<lparr>vo_lines = map (\<lambda>(i, rec). verify_line i rec (entry_of (st w) rec)) bad, vo_checked = length (run_records results)\<rparr>), w)"
proof -
  have "\<forall>x\<in>set (run_records results). readable urls (st w) (snd x)" using assms(4) by auto
  then show ?thesis using verify_run[OF assms(1-3)] checked_all_readable by (simp add: bad_def)
qed

section \<open>A lost answer\<close>

text \<open>One index granted to alice, the draws for an update to INVALID, and an answer that is lost on its way back.\<close>

definition lost_net :: net where
  "lost_net = \<lparr>nt_world = (demo_world demo_owned)\<lparr>fates := [Lost], draws := [0, 1]\<rparr>, nt_verifier = demo_proc\<rparr>"

definition lost_result :: workerResult where
  "lost_result = (newWorkerResult ''alice'')\<lparr>wr_allocs := [\<lparr>ld_listID = ''a.1'', ld_index = 0, ld_expected = ''VALID''\<rparr>]\<rparr>"

lemma lost_draws:
  "run_state (le_IntN (target_env demo_target) (Suc 0)) lost_net = (0, lost_net\<lparr>nt_world := (nt_world lost_net)\<lparr>draws := [1]\<rparr>\<rparr>)"
  "run_state (le_IntN (target_env demo_target) 3) (lost_net\<lparr>nt_world := (nt_world lost_net)\<lparr>draws := [1]\<rparr>\<rparr>)
     = (1, lost_net\<lparr>nt_world := (nt_world lost_net)\<lparr>draws := []\<rparr>\<rparr>)"
  "run_state (at_ingestion next_fate) (lost_net\<lparr>nt_world := (nt_world lost_net)\<lparr>draws := []\<rparr>\<rparr>)
     = (Lost, demo_net)"
  by (simp_all add: target_env_def at_ingestion_def rand_below_def next_draw_def next_fate_def lost_net_def demo_net_def quiet_world_def)


definition lost_call :: http_call where
  "lost_call = \<lparr>hc_Method = ''PATCH'', hc_URL = ''https://i/status/a.1/0'', hc_Authorization = ''Bearer tok'', hc_Body = string_bytes ''INVALID''\<rparr>"

lemma show_zero: "show_nat 0 = ''0''"
  by code_simp

lemma lost_delivery:
  "\<exists>t p. run_state (deliver demo_target lost_call) demo_net = (Some \<lparr>ha_StatusCode = 204, ha_Body = Some []\<rparr>, \<lparr>nt_world = quiet_world t p, nt_verifier = demo_proc\<rparr>)"
  "deliver demo_target lost_call = ingress_call demo_target lost_call ''/status/a.1/0''"
proof -
  obtain t p where patch: "run_state (handleSetStatus demo_server (Some (demo_auth ''a'')) ''a.1'' ''0'' (Json ''INVALID''))
      (demo_world demo_owned) = (NoContent, quiet_world t p)" using demo_patch by blast
  have route: "run_state (Ingestion_Router (tg_tokengin demo_target) (tg_hmac demo_target) (tg_server demo_target)
      (PatchStatus ''Bearer tok'' ''a.1'' ''0'' (Json ''INVALID''))) (demo_world demo_owned) = (NoContent, quiet_world t p)"
    using patch by (simp add: demo_target_def Ingestion_Router_def authed_def requireShard_def demo_auth_def demo_server_def demo_cfg_def)
  have req: "ingestion_request demo_target lost_call ''/status/a.1/0'' = PatchStatus ''Bearer tok'' ''a.1'' ''0'' (Json ''INVALID'')"
    by (simp add: ingestion_request_def lost_call_def demo_target_def bytes_string_bytes)
  have mux: "ingress_mux (tg_router demo_target) ''/status/a.1/0'' \<lparr>hr_Authorization = ''Bearer tok'', hr_Path = ''/status/a.1/0''\<rparr>
      = MuxRouter ((''a'', ''proxied''), ProxyTo ''http://a'')" by code_simp
  have cut: "CutPrefix (hc_URL lost_call) (tg_ingressURL demo_target) = (''/status/a.1/0'', True)" "hc_Authorization lost_call = ''Bearer tok''"
    by (simp_all add: lost_call_def demo_target_def CutPrefix_def)
  show "\<exists>t p. run_state (deliver demo_target lost_call) demo_net
      = (Some \<lparr>ha_StatusCode = 204, ha_Body = Some []\<rparr>, \<lparr>nt_world = quiet_world t p, nt_verifier = demo_proc\<rparr>)"
    unfolding deliver_def cut prod.case if_True ingress_call_def mux req
    by (simp add: at_ingestion_def demo_net_def route ingestion_body_def) blast
  show "deliver demo_target lost_call = ingress_call demo_target lost_call ''/status/a.1/0''"
    unfolding deliver_def cut by simp
qed

lemma lost_update:
  "\<exists>t p row. run_state (doStatus (target_env demo_target) ''https://i'' ''tok'' lost_result) lost_net
     = ((Some RequestFailed, lost_result), \<lparr>nt_world = quiet_world t p, nt_verifier = demo_proc\<rparr>)
   \<and> sql_select_list ''a.1'' (pg t) = Some row \<and> lr_bits row = 2 \<and> u64_of_int (lr_size row) = 2 \<and> lr_shard_id row = ''a''
   \<and> published_entry (scanListMeta row) 0 t = 1"
proof -
  let ?lm = "scanListMeta (reserved_row 5000 demo_row)"
  obtain t p where d: "run_state (deliver demo_target lost_call) demo_net
      = (Some \<lparr>ha_StatusCode = 204, ha_Body = Some []\<rparr>, \<lparr>nt_world = quiet_world t p, nt_verifier = demo_proc\<rparr>)"
    using lost_delivery(1) by blast
  have lm: "lm_ID ?lm = ''a.1''" "lm_Size ?lm = 2" "lm_Bits ?lm = 2" "lm_ShardID ?lm = ''a''"
    by (simp_all add: scanListMeta_def reserved_row_def demo_row_def advance_def u64_of_int_def)
  have tg: "tg_shard demo_target = ''a''" "tg_listBase demo_target = ''https://s''" "tg_MarshalStatus demo_target = string_bytes"
      "tg_ParseURL demo_target u = True" for u by (simp_all add: demo_target_def demo_server_def demo_cfg_def)
  have c: "hc_Method lost_call = ''PATCH''" "hc_Body lost_call = string_bytes ''INVALID''" by (simp_all add: lost_call_def)
  have "sql_select_list ''a.1'' (pg demo_owned) = Some (reserved_row 5000 demo_row)"
    by (simp add: demo_owned_state sql_select_list_def demo_row_def)
  then have r0: "row_of (tg_shard demo_target) ?lm (st (nt_world demo_net))"
    using lm by (simp add: row_of_def tg demo_net_def quiet_world_def describes_def scanListMeta_def)
  have "fresh_entry (tg_shard demo_target) (\<lambda>_. 0) ?lm 0 1 (st (nt_world \<lparr>nt_world = quiet_world t p, nt_verifier = demo_proc\<rparr>))"
    by (rule patch_call_fresh[OF demo_target_ok demo_net_inv r0 _ c(1), of 0 "\<lparr>ha_StatusCode = 204, ha_Body = Some []\<rparr>", THEN conjunct2])
       (use d c in \<open>simp_all add: tg lm show_zero lost_delivery(2)\<close>)
  then obtain row where row: "sql_select_list ''a.1'' (pg t) = Some row" "describes ?lm row" "published_entry ?lm 0 t = 1"
    by (auto simp: fresh_entry_def row_of_def tg lm quiet_world_def ValidBitWidth_def mask_eq_decr_exp)
let ?c = "\<lparr>hc_Method = ''PATCH'', hc_URL = ''https://i'' @ ''/status/'' @ ''a.1'' @ ''/'' @ show_nat (unat (0 :: u64)),
      hc_Authorization = ''Bearer '' @ ''tok'', hc_Body = string_bytes ''INVALID''\<rparr>"
  have call: "?c = lost_call" by (simp add: lost_call_def show_zero)
  have send: "run_state (send (target_env demo_target) lost_call) (lost_net\<lparr>nt_world := (nt_world lost_net)\<lparr>draws := []\<rparr>\<rparr>)
      = (Inl RequestFailed, \<lparr>nt_world = quiet_world t p, nt_verifier = demo_proc\<rparr>)"
    by (simp add: send_def target_env_def tg net_Do_def lost_draws(3) d)
  have "le_MarshalStatus (target_env demo_target) = string_bytes" by (simp add: target_env_def tg)
  then have "run_state (patchStatus (target_env demo_target) ''https://i'' ''tok'' ''a.1'' 0 ''INVALID'')
      (lost_net\<lparr>nt_world := (nt_world lost_net)\<lparr>draws := []\<rparr>\<rparr>) = (Some RequestFailed, \<lparr>nt_world = quiet_world t p, nt_verifier = demo_proc\<rparr>)"
    unfolding patchStatus_def call by (simp only: call) (simp add: send)
  then have run: "run_state (doStatus (target_env demo_target) ''https://i'' ''tok'' lost_result) lost_net
      = ((Some RequestFailed, lost_result), \<lparr>nt_world = quiet_world t p, nt_verifier = demo_proc\<rparr>)"
    using lost_draws(1,2) by (simp add: doStatus_def lost_result_def newWorkerResult_def statusChoices_def Let_def numeral_3_eq_3)
  have fields: "lr_bits row = 2" "u64_of_int (lr_size row) = 2" "lr_shard_id row = ''a''" using row(2) lm by (simp_all add: describes_def)
  moreover have "published_entry (scanListMeta row) 0 t = published_entry ?lm 0 t"
    using described_bytes[OF row(2), of t] select_list_mem[OF row(1)] fields lm
    by (simp add: published_entry_def scanListMeta_def)
  ultimately show ?thesis using run row(1,3) by (intro exI[of _ t] exI[of _ p] exI[of _ row]) simp
qed

text \<open>
  An update whose answer is lost leaves the worker believing in the old status, though the update is in the
  store: the check after the run then reports a status that "this harness never wrote", with no decoy at work.
\<close>

theorem lost_answer_reported_as_mismatch:
  "\<exists>w. (\<exists>n'. run_state (doStatus (target_env demo_target) ''https://i'' ''tok'' lost_result) lost_net = ((Some RequestFailed, lost_result), n')
         \<and> nt_world n' = w)
     \<and> run_state (verifyDecoySafety True (\<lambda>_. True) [(''a'', ''r'')] [lost_result]) w
       = ((Some (StatusNeverWritten 1),
           \<lparr>vo_lines = [''  MISMATCH issuer=alice list=a.1 index=0 expected=VALID actual=INVALID''], vo_checked = 1\<rparr>), w)"
proof -
  obtain t p row where u: "run_state (doStatus (target_env demo_target) ''https://i'' ''tok'' lost_result) lost_net
      = ((Some RequestFailed, lost_result), \<lparr>nt_world = quiet_world t p, nt_verifier = demo_proc\<rparr>)"
    and row: "sql_select_list ''a.1'' (pg t) = Some row" "lr_bits row = 2" "u64_of_int (lr_size row) = 2" "lr_shard_id row = ''a''"
      "published_entry (scanListMeta row) 0 t = 1" using lost_update by blast
  let ?rec = "\<lparr>ld_listID = ''a.1'', ld_index = 0, ld_expected = ''VALID''\<rparr>"
  have r: "run_records [lost_result] = [(''alice'', ?rec)]" by (simp add: run_records_def lost_result_def newWorkerResult_def)
  have w: "sched (quiet_world t p) = []" "fates (quiet_world t p) = []" "st (quiet_world t p) = t" by (simp_all add: quiet_world_def)
  have e: "entry_of t ?rec = 1" using row by (simp add: entry_of_def)
  have "readable [(''a'', ''r'')] t ?rec" using row by (simp add: readable_def row_fits_def ValidBitWidth_def)
  then have "run_state (verifyDecoySafety True (\<lambda>_. True) [(''a'', ''r'')] [lost_result]) (quiet_world t p)
      = ((Some (StatusNeverWritten 1), \<lparr>vo_lines = [verify_line ''alice'' ?rec 1], vo_checked = 1\<rparr>), quiet_world t p)"
    using verify_names_exactly_the_wrong_ones[OF w(1,2), of "[(''a'', ''r'')]" "\<lambda>_. True" "[lost_result]"]
    by (simp add: r w(3) wrong_def e statusName_def)
  moreover have "verify_line ''alice'' ?rec 1 = ''  MISMATCH issuer=alice list=a.1 index=0 expected=VALID actual=INVALID''"
    by (simp add: verify_line_def statusName_def show_zero)
  ultimately show ?thesis using u by auto
qed

theorem verify_caches_are_transparent_witness:
  "run_state (verifyDecoySafety True (\<lambda>_. True) [(''a'', ''r'')] [lost_result, lost_result]) (demo_world demo_owned)
     = ((None, \<lparr>vo_lines = [], vo_checked = 2\<rparr>), demo_world demo_owned)"
proof -
  let ?rec = "\<lparr>ld_listID = ''a.1'', ld_index = 0, ld_expected = ''VALID''\<rparr>"
  have w: "sched (demo_world demo_owned) = []" "fates (demo_world demo_owned) = []" "st (demo_world demo_owned) = demo_owned"
    by (simp_all add: quiet_world_def)
  have row: "sql_select_list ''a.1'' (pg demo_owned) = Some (reserved_row 5000 demo_row)"
    by (simp add: demo_owned_state sql_select_list_def demo_row_def)
  have "readable [(''a'', ''r'')] demo_owned ?rec"
    by (simp add: readable_def row row_fits_def reserved_row_def demo_row_def advance_def ValidBitWidth_def u64_of_int_def)
  moreover have "entry_of demo_owned ?rec = published_entry (scanListMeta (reserved_row 5000 demo_row)) 0 demo_owned"
    by (simp add: entry_of_def row)
  moreover have "published_entry (scanListMeta (reserved_row 5000 demo_row)) 0 demo_owned = 0"
    by (simp add: published_entry_def stored_bytes_def scanListMeta_def reserved_row_def demo_row_def advance_def
        demo_owned_state demo_empty_state byte_len_def u64_of_int_def int64_of_u64_def snapshot_of_def entry_def get_field_def)
  moreover have "run_records [lost_result, lost_result] = [(''alice'', ?rec), (''alice'', ?rec)]"
    by (simp add: run_records_def lost_result_def newWorkerResult_def)
  ultimately show ?thesis
    using verify_caches_are_transparent[OF w(1,2), of "[(''a'', ''r'')]" "\<lambda>_. True" "[lost_result, lost_result]"]
      checked_all_readable[of "run_records [lost_result, lost_result]" "[(''a'', ''r'')]" demo_owned]
    by (simp add: w(3) wrong_def statusName_def)
qed

theorem report_counts_every_operation_witness:
  "\<exists>wr s'. run_state (runWorker (target_env demo_target) (tg_ingressURL demo_target) ''tok''
       \<lparr>ow_allocate = 1, ow_status = 1, ow_accounting = 1, ow_lifecycle = 2\<rparr> 25 (newWorkerResult ''alice'')) demo_net = (Some wr, s')
     \<and> (\<Sum>row\<leftarrow>rp_rows (printReport [wr] Second). int (rw_ok row) + rw_errors row) + rp_skipped (printReport [wr] Second) = 25"
proof -
  have "target_ok demo_target \<and> net_good demo_target demo_net" using demo_target_ok demo_net_inv by (auto simp: net_good_def)
  from lt.worker_ok[OF this] obtain wr s' where r: "run_state (runWorker (target_env demo_target) (tg_ingressURL demo_target) ''tok''
       \<lparr>ow_allocate = 1, ow_status = 1, ow_accounting = 1, ow_lifecycle = 2\<rparr> 25 (newWorkerResult ''alice'')) demo_net = (Some wr, s')" by blast
  have "\<exists>env ingressURL token weights issuerID s s'.
      run_state (runWorker env ingressURL token weights 25 (newWorkerResult issuerID)) (s :: net) = (Some wr, s')"
    by (intro exI, rule r)
  then have "list_all2 (\<lambda>res grants. \<exists>env ingressURL token weights issuerID s s'.
      run_state (runWorker env ingressURL token weights grants (newWorkerResult issuerID)) (s :: net) = (Some res, s')) [wr] [25]"
    by (intro list.rel_intros)
  from report_counts_every_operation[OF this, of Second] r show ?thesis by auto
qed

end
