(* ===== verification/Loadtest_Setup.thy ===== *)
theory Loadtest_Setup
  imports Loadtest_Report Auth_Server
begin

text \<open>
  How the load test gets its access tokens and what it does with a finished run: \<open>identity.go\<close> and \<open>main.go\<close> of
  \<open>src/tools/loadtest\<close>. The key generator, the clock, the HTTP client and the token, key and JSON libraries are an
  environment; the form encoding of a request is taken as the form itself. The client assertion built here is what
  \<open>Client_Assertion\<close> verifies and what \<open>Auth_Server\<close> answers with a token.
\<close>

section \<open>Synthetic issuers\<close>

record issuerIdentity =
  ii_id :: string
  ii_key :: signer

datatype setup_error =
    GenerateKeyFailed string
  | MarshalJWK string
  | UnmarshalJWK string
  | SignAssertion
  | TokenRequest string
  | TokenStatus string nat
  | DecodeToken string
  | NoAccessToken string
  | SetupFailed setup_error

record 's setup_env =
  se_GenerateKey :: "('s, signer option) state"
  se_Now :: "('s, time) state"
  se_Post :: "string \<Rightarrow> token_form \<Rightarrow> ('s, http_answer option) state"
  se_DecodeToken :: "bytes \<Rightarrow> string option"
  se_NewNumericDate :: "time \<Rightarrow> time"
  se_MarshalJWK :: "signer \<Rightarrow> bytes option"
  se_UnmarshalObject :: "bytes \<Rightarrow> jobject option"
  se_SignedString :: "jobject \<Rightarrow> RegisteredClaims \<Rightarrow> signer \<Rightarrow> string option"

definition newIssuerIdentity :: "'s setup_env \<Rightarrow> string \<Rightarrow> ('s, setup_error + issuerIdentity) state" where
  "newIssuerIdentity env i = do {
     r \<leftarrow> se_GenerateKey env;
     ret (case r of None \<Rightarrow> Inl (GenerateKeyFailed i) | Some key \<Rightarrow> Inr \<lparr>ii_id = i, ii_key = key\<rparr>)
   }"

text \<open>The header a new ES256 token has, and the claims of an assertion.\<close>

definition assertion_header :: "jobject \<Rightarrow> jobject" where
  "assertion_header jwkMap = [(''typ'', JString ''JWT''), (''alg'', JString ''ES256''), (''jwk'', JObject jwkMap)]"

definition assertion_claims :: "'s setup_env \<Rightarrow> string \<Rightarrow> string \<Rightarrow> time \<Rightarrow> RegisteredClaims" where
  "assertion_claims env i audience now =
     \<lparr>rc_Issuer = i, rc_Subject = i, rc_Audience = [audience],
      rc_ExpiresAt = Some (se_NewNumericDate env (now + Minute)), rc_IssuedAt = Some (se_NewNumericDate env now)\<rparr>"

definition assertion :: "'s setup_env \<Rightarrow> issuerIdentity \<Rightarrow> string \<Rightarrow> ('s, setup_error + string) state" where
  "assertion env ii audience = do {
     now \<leftarrow> se_Now env;
     ret (case se_MarshalJWK env (ii_key ii) of
            None \<Rightarrow> Inl (MarshalJWK (ii_id ii))
          | Some raw \<Rightarrow>
              (case se_UnmarshalObject env raw of
                 None \<Rightarrow> Inl (UnmarshalJWK (ii_id ii))
               | Some jwkMap \<Rightarrow>
                   (case se_SignedString env (assertion_header jwkMap) (assertion_claims env (ii_id ii) audience now) (ii_key ii) of
                      None \<Rightarrow> Inl SignAssertion
                    | Some token \<Rightarrow> Inr token)))
   }"

definition assertion_form :: "string \<Rightarrow> token_form" where
  "assertion_form asrt =
     \<lparr>fm_grant_type = ''client_credentials'',
      fm_client_assertion_type = ''urn:ietf:params:oauth:client-assertion-type:jwt-bearer'',
      fm_client_assertion = asrt\<rparr>"

text \<open>\<open>se_DecodeToken\<close> yields the field \<open>access_token\<close>, which is empty when the answer has none.\<close>

definition fetchToken :: "'s setup_env \<Rightarrow> string \<Rightarrow> issuerIdentity \<Rightarrow> ('s, setup_error + string) state" where
  "fetchToken env asURL ii = do {
     let tokenURL = asURL @ ''/token'';
     ra \<leftarrow> assertion env ii tokenURL;
     (case ra of
        Inl e \<Rightarrow> ret (Inl e)
      | Inr asrt \<Rightarrow> do {
          r \<leftarrow> se_Post env tokenURL (assertion_form asrt);
          ret (case r of
                 None \<Rightarrow> Inl (TokenRequest (ii_id ii))
               | Some resp \<Rightarrow>
                   if ha_StatusCode resp \<noteq> 200 then Inl (TokenStatus (ii_id ii) (ha_StatusCode resp))
                   else (case Option.bind (ha_Body resp) (se_DecodeToken env) of
                           None \<Rightarrow> Inl (DecodeToken (ii_id ii))
                         | Some token \<Rightarrow> if token = [] then Inl (NoAccessToken (ii_id ii)) else Inr token))
        })
   }"

section \<open>The run\<close>

text \<open>The identities from number \<open>i\<close> on, each with its token; the first failure ends the run.\<close>

definition issuer_name :: "nat \<Rightarrow> string" where
  "issuer_name i = ''loadtest-issuer-'' @ show_nat i"

fun prepare :: "'s setup_env \<Rightarrow> string \<Rightarrow> nat \<Rightarrow> nat \<Rightarrow> ('s, setup_error + (issuerIdentity \<times> string) list) state" where
  "prepare env asURL i 0 = ret (Inr [])"
| "prepare env asURL i (Suc n) = do {
     ri \<leftarrow> newIssuerIdentity env (issuer_name i);
     (case ri of
        Inl e \<Rightarrow> ret (Inl e)
      | Inr ii \<Rightarrow> do {
          rt \<leftarrow> fetchToken env asURL ii;
          (case rt of
             Inl e \<Rightarrow> ret (Inl (SetupFailed e))
           | Inr token \<Rightarrow> do {
               rest \<leftarrow> prepare env asURL (Suc i) n;
               ret (case rest of Inl e \<Rightarrow> Inl e | Inr ps \<Rightarrow> Inr ((ii, token) # ps))
             })
        })
   }"

text \<open>What follows once every worker has returned.\<close>

record run_output =
  ro_report :: report
  ro_balance :: "(nat \<times> rat \<times> balance_row list) option"
  ro_verify :: "verify_out option"

definition conclude ::
  "bool \<Rightarrow> bool \<Rightarrow> (string \<Rightarrow> bool) \<Rightarrow> (string \<times> string) list \<Rightarrow> duration \<Rightarrow> workerResult list
   \<Rightarrow> ('p world, verify_error option \<times> run_output) state" where
  "conclude verify connects parses shardRedisURLs wallClock results =
     (let out = \<lparr>ro_report = printReport results wallClock, ro_balance = printPoolBalance results, ro_verify = None\<rparr>
      in if \<not> verify then ret (None, out)
         else do {
           r \<leftarrow> verifyDecoySafety connects parses shardRedisURLs results;
           ret (fst r, out\<lparr>ro_verify := Some (snd r)\<rparr>)
         })"

section \<open>The assertion is one the server accepts\<close>

text \<open>
  What the libraries document, for a server reading its clock at \<open>now\<close>: dates are cut to whole seconds; an EC key
  survives its JSON form, read as an object and written again; and a signed token parses to its header and, with the key
  of its signature, an audience it names and an expiry still ahead, to its claims.
\<close>

definition identity_law :: "'s setup_env \<Rightarrow> assertion_lib \<Rightarrow> time \<Rightarrow> bool" where
  "identity_law env lib now \<longleftrightarrow>
     (\<forall>t. t - Second < se_NewNumericDate env t \<and> se_NewNumericDate env t \<le> t)
   \<and> (\<forall>k raw m. se_MarshalJWK env k = Some raw \<and> se_UnmarshalObject env raw = Some m \<longrightarrow>
        (\<exists>b c key. json_MarshalObject lib m = Some b \<and> jose_UnmarshalJSON lib b = Some (EcdsaKey c key)
           \<and> (\<forall>h cl tok aud e. se_SignedString env h cl k = Some tok \<and> aud \<in> set (rc_Audience cl) \<and> rc_ExpiresAt cl = Some e \<and> now < e
                \<longrightarrow> jwt_ParseWithClaims lib tok (EcdsaKey c key) [''ES256''] aud True = Some cl)))
   \<and> (\<forall>h cl k tok. se_SignedString env h cl k = Some tok \<longrightarrow> tok \<noteq> [] \<and> jwt_ParseUnverified lib tok = Some h)"

lemma assertion_verifies:
  assumes "identity_law env lib now'" "ii_id ii \<noteq> []" "run_state (se_Now env) s = (now, s')" "now' < now + 59 * Second"
    "run_state (assertion env ii aud) s = (Inr asrt, s')"
  shows "asrt \<noteq> []" "\<exists>m. Verify lib asrt aud = Inr \<lparr>rs_IssuerID = ii_id ii, rs_JWK = Some m, rs_X5C = []\<rparr>"
proof -
  let ?cl = "assertion_claims env (ii_id ii) aud now"
  obtain raw m where a: "se_MarshalJWK env (ii_key ii) = Some raw" "se_UnmarshalObject env raw = Some m"
      "se_SignedString env (assertion_header m) ?cl (ii_key ii) = Some asrt"
    using assms(3,5) by (auto simp: assertion_def split: option.splits)
  have parsed: "asrt \<noteq> [] \<and> jwt_ParseUnverified lib asrt = Some (assertion_header m)"
    using assms(1) a(3) unfolding identity_law_def by blast
  then show "asrt \<noteq> []" by simp
  have "\<exists>b c key. json_MarshalObject lib m = Some b \<and> jose_UnmarshalJSON lib b = Some (EcdsaKey c key)
      \<and> (\<forall>h cl tok aud e. se_SignedString env h cl (ii_key ii) = Some tok \<and> aud \<in> set (rc_Audience cl) \<and> rc_ExpiresAt cl = Some e \<and> now' < e
           \<longrightarrow> jwt_ParseWithClaims lib tok (EcdsaKey c key) [''ES256''] aud True = Some cl)"
    using assms(1) a(1,2) by (simp add: identity_law_def)
  then obtain b c key where k: "json_MarshalObject lib m = Some b" "jose_UnmarshalJSON lib b = Some (EcdsaKey c key)"
      "\<forall>h cl tok aud e. se_SignedString env h cl (ii_key ii) = Some tok \<and> aud \<in> set (rc_Audience cl) \<and> rc_ExpiresAt cl = Some e \<and> now' < e
         \<longrightarrow> jwt_ParseWithClaims lib tok (EcdsaKey c key) [''ES256''] aud True = Some cl" by blast
  have date: "t - Second < se_NewNumericDate env t \<and> se_NewNumericDate env t \<le> t" for t using assms(1) by (simp add: identity_law_def)
  have "now' < se_NewNumericDate env (now + Minute)" using date[of "now + Minute"] assms(4) by (simp add: Minute_def Second_def)
  then have cl: "jwt_ParseWithClaims lib asrt (EcdsaKey c key) [''ES256''] aud True = Some ?cl"
    using k(3) a(3) by (simp add: assertion_claims_def)
  have "resolveProofOfPossession lib (assertion_header m) = Inr (EcdsaKey c key, Some m, [])"
    by (simp add: resolveProofOfPossession_def resolveJWK_def assertion_header_def k)
  moreover have "\<not> time_Sub (se_NewNumericDate env (now + Minute)) (se_NewNumericDate env now) > maxLifetime"
    using date[of now] date[of "now + Minute"] by (simp add: time_Sub_def maxLifetime_def Minute_def Second_def)
  ultimately have "Verify lib asrt aud = Inr \<lparr>rs_IssuerID = ii_id ii, rs_JWK = Some m, rs_X5C = []\<rparr>"
    using parsed cl assms(2) by (simp add: Verify_def assertion_claims_def)
  then show "\<exists>m. Verify lib asrt aud = Inr \<lparr>rs_IssuerID = ii_id ii, rs_JWK = Some m, rs_X5C = []\<rparr>" by blast
qed


text \<open>
  The assertion a synthetic issuer signs is one the authorization server accepts when it looks at it within
  59 seconds: it verifies against the token endpoint it was made for and names the issuer, its key is the
  proof of possession, and with a trusted key the request goes on to the shard assignment and the token.
\<close>

theorem synthetic_issuer_admitted:
  assumes "identity_law env (al_assertion lib) now'" "ii_id ii \<noteq> []" "run_state (se_Now env) st0 = (now, st1)" "now' < now + 59 * Second"
    "run_state (assertion env ii (asURL @ ''/token'')) st0 = (Inr asrt, st1)" "ac_BaseURL (as_cfg s) = asURL"
    "\<And>m. \<exists>d. ev_Evaluate (as_evaluator s) (ii_id ii) (CredentialFromJWK (Some m)) = Inr d \<and> dc_Trusted d"
  shows "\<exists>m. admitted lib s (assertion_form asrt) \<lparr>rs_IssuerID = ii_id ii, rs_JWK = Some m, rs_X5C = []\<rparr> (CredentialFromJWK (Some m))"
  using assertion_verifies[OF assms(1-5)] assms(6,7) by (auto simp: admitted_def assertion_form_def credential_of_def)

text \<open>The first failure in the preparation is the result, and otherwise every issuer has its number and a token.\<close>

lemma fetchToken_nonempty: "run_state (fetchToken env asURL ii) s = (Inr token, s') \<Longrightarrow> token \<noteq> []"
  by (auto simp: fetchToken_def Let_def split: prod.splits sum.splits option.splits if_splits)

lemma prepare_numbers:
  "run_state (prepare env asURL i n) s = (Inr ps, s')
   \<Longrightarrow> map (ii_id \<circ> fst) ps = map issuer_name [i..<i + n] \<and> (\<forall>(_, token)\<in>set ps. token \<noteq> [])"
proof (induction n arbitrary: i s ps)
  case (Suc n)
  obtain ri s1 where ri: "run_state (newIssuerIdentity env (issuer_name i)) s = (ri, s1)" by fastforce
  obtain ii where ii: "ri = Inr ii" using Suc.prems ri by (cases ri) auto
  obtain rt s2 where rt: "run_state (fetchToken env asURL ii) s1 = (rt, s2)" by fastforce
  obtain token where token: "rt = Inr token" using Suc.prems ri ii rt by (cases rt) auto
  obtain rest s3 where rest: "run_state (prepare env asURL (Suc i) n) s2 = (rest, s3)" by fastforce
  obtain ps' where ps: "rest = Inr ps'" "ps = (ii, token) # ps'" "s3 = s'" using Suc.prems ri ii rt token rest by (cases rest) auto
  have id: "ii_id ii = issuer_name i"
    using ri ii by (auto simp: newIssuerIdentity_def split: prod.splits option.splits)
  have "map (ii_id \<circ> fst) ps' = map issuer_name [Suc i..<Suc i + n] \<and> (\<forall>(_, token)\<in>set ps'. token \<noteq> [])"
    by (rule Suc.IH[of "Suc i" s2]) (use rest ps in simp)
  moreover have "[i..<i + Suc n] = i # [Suc i..<Suc i + n]" by (subst upt_conv_Cons) (simp_all del: upt_Suc)
  moreover have "token \<noteq> []" by (rule fetchToken_nonempty[of env asURL ii s1 token s2]) (use rt token in simp)
  ultimately show ?case using ps(2) id by (simp add: o_def del: upt_Suc)
qed simp

section \<open>Witness\<close>

definition demo_jwk :: jobject where
  "demo_jwk = [(''kty'', JString ''EC'')]"

definition demo_setup :: "nat setup_env" where
  "demo_setup = \<lparr>se_GenerateKey = ret (Some 0), se_Now = ret (100 * Second + 5), se_Post = (\<lambda>_ _. ret None), se_DecodeToken = (\<lambda>_. None),
     se_NewNumericDate = (\<lambda>t. t - t mod Second), se_MarshalJWK = (\<lambda>_. Some [1]), se_UnmarshalObject = (\<lambda>_. Some demo_jwk),
     se_SignedString = (\<lambda>h c k. if h = assertion_header demo_jwk \<and> rc_Issuer c = ''alice'' \<and> rc_Subject c = ''alice''
       \<and> rc_Audience c = [''https://as/token''] \<and> rc_ExpiresAt c = Some (160 * Second) \<and> rc_IssuedAt c = Some (100 * Second) then Some ''t'' else None)\<rparr>"

definition demo_setup_lib :: assertion_lib where
  "demo_setup_lib = (demo_assertion_lib (Some (100 * Second)) (160 * Second))\<lparr>jwt_ParseUnverified := (\<lambda>_. Some (assertion_header demo_jwk))\<rparr>"

lemma demo_identity_law: "identity_law demo_setup demo_setup_lib (101 * Second)"
  by (auto simp: identity_law_def demo_setup_def demo_setup_lib_def demo_assertion_lib_def Second_def)

theorem synthetic_issuer_admitted_witness:
  "\<exists>asrt m. result (assertion demo_setup \<lparr>ii_id = ''alice'', ii_key = 0\<rparr> ''https://as/token'') 0 = Inr asrt
     \<and> admitted (demo_as_lib\<lparr>al_assertion := demo_setup_lib\<rparr>) demo_as (assertion_form asrt)
         \<lparr>rs_IssuerID = ''alice'', rs_JWK = Some m, rs_X5C = []\<rparr> (CredentialFromJWK (Some m))"
proof -
  let ?ii = "\<lparr>ii_id = ''alice'', ii_key = 0\<rparr>" and ?lib = "demo_as_lib\<lparr>al_assertion := demo_setup_lib\<rparr>"
  have a: "run_state (assertion demo_setup ?ii (''https://as'' @ ''/token'')) 0 = (Inr ''t'', 0)"
    by (simp add: assertion_def demo_setup_def assertion_claims_def Minute_def Second_def)
  have "\<exists>m. admitted ?lib demo_as (assertion_form ''t'') \<lparr>rs_IssuerID = ii_id ?ii, rs_JWK = Some m, rs_X5C = []\<rparr> (CredentialFromJWK (Some m))"
  proof (rule synthetic_issuer_admitted[OF _ _ _ _ a, where now' = "101 * Second" and now = "100 * Second + 5"])
    show "identity_law demo_setup (al_assertion ?lib) (101 * Second)" using demo_identity_law by simp
    show "ac_BaseURL (as_cfg demo_as) = ''https://as''" by (simp add: demo_as_def demo_as_cfg_def)
    show "\<exists>d. ev_Evaluate (as_evaluator demo_as) (ii_id ?ii) (CredentialFromJWK (Some m)) = Inr d \<and> dc_Trusted d" for m
      by (simp add: demo_as_def NewAuthZENEvaluator_def AuthZEN_Evaluate_def credentialKey_def CredentialFromJWK_def demo_http_def authzen_reason_def)
  qed (simp_all add: demo_setup_def Second_def)
  then show ?thesis using a by auto
qed

end
