(* ===== verification/Entry_Points.thy ===== *)
theory Entry_Points
  imports Loadtest_Setup
begin

text \<open>
  The command lines of the operator's tools: \<open>run\<close> of \<open>src/tools/reassign-shard/main.go\<close>, and \<open>main\<close> and \<open>run\<close> of
  \<open>src/tools/loadtest/main.go\<close>. A tool's flags are a record with the defaults the source gives them; parsing the
  command line itself is the \<open>flag\<close> package's.

  The load test starts one goroutine per issuer and waits for all of them. The goroutines share the HTTP client, the
  limiter and the target, and nothing of their results: each writes only the result made for it. What the others do
  meanwhile reaches a worker only through the answers it gets, and so the run is described by what each worker
  returned in some state of the environment, for any number of grants of the limiter.
\<close>

section \<open>reassign-shard\<close>

record reassign_flags =
  rf_postgresDSN :: string
  rf_issuer :: string
  rf_from :: string
  rf_to :: string
  rf_dryRun :: bool

definition default_reassign_flags :: reassign_flags where
  "default_reassign_flags = \<lparr>rf_postgresDSN = defaultPostgresDSN, rf_issuer = [], rf_from = [], rf_to = [], rf_dryRun = False\<rparr>"

datatype reassign_failure =
    BadArguments flag_error
  | ConnectFailed assigner_error
  | MoveFailed err

text \<open>\<open>connect dsn\<close> and \<open>schema dsn\<close>: whether the connection and the schema can be set up.\<close>

definition reassign_run :: "(string \<Rightarrow> bool) \<Rightarrow> (string \<Rightarrow> bool) \<Rightarrow> reassign_flags
    \<Rightarrow> ('p world, reassign_failure option \<times> progress list) state" where
  "reassign_run connect schema fl =
     (case newConfig (rf_issuer fl) (rf_from fl) (rf_to fl) (rf_dryRun fl) of
        Inl e \<Rightarrow> ret (Some (BadArguments e), [])
      | Inr cfg \<Rightarrow>
          (case NewShardAssigner (connect (rf_postgresDSN fl)) (schema (rf_postgresDSN fl)) (rc_targets cfg) of
             Inl e \<Rightarrow> ret (Some (ConnectFailed e), [])
           | Inr assigner \<Rightarrow> do {
               x \<leftarrow> reassign cfg;
               (case x of (moved, out, e) \<Rightarrow> ret (map_option MoveFailed e, out))
             }))"

section \<open>loadtest\<close>

record load_flags =
  lf_asURL :: string
  lf_ingressURL :: string
  lf_numIssuers :: int
  lf_duration :: duration
  lf_weights :: opWeights
  lf_rps :: rat
  lf_verify :: bool
  lf_postgresDSN :: string
  lf_shardRedisURLs :: string

definition default_load_flags :: load_flags where
  "default_load_flags =
     \<lparr>lf_asURL = ''http://localhost:8090'', lf_ingressURL = ''http://localhost:8094'', lf_numIssuers = 50,
      lf_duration = 30 * Second, lf_weights = \<lparr>ow_allocate = 80, ow_status = 15, ow_accounting = 5, ow_lifecycle = 10\<rparr>,
      lf_rps = 25, lf_verify = False, lf_postgresDSN = defaultPostgresDSN,
      lf_shardRedisURLs = ''{\"default\":\"redis://localhost:6379\"}''\<rparr>"

text \<open>One limiter for all workers; its burst is at least one.\<close>

definition limiter_burst :: "rat \<Rightarrow> int" where
  "limiter_burst rps = max 1 (if 0 \<le> rps then \<lfloor>rps\<rfloor> else \<lceil>rps\<rceil>)"

record ('a, 'b) load_system =
  ls_setup :: "'a setup_env"
  ls_env :: "'b load_env"
  ls_connects :: "string \<Rightarrow> bool"
  ls_parses :: "string \<Rightarrow> bool"
  ls_UnmarshalURLs :: "string \<Rightarrow> (string \<times> string) list option"

datatype load_outcome =
    BadShardRedisURLs
  | SetupError setup_error
  | LoadPanic
  | LoadDone "workerResult list" "verify_error option" run_output

text \<open>What the goroutine of a prepared issuer leaves behind: its result, or nothing when it panicked.\<close>

definition worker_leaves :: "'b load_env \<Rightarrow> load_flags \<Rightarrow> issuerIdentity \<times> string \<Rightarrow> nat \<Rightarrow> workerResult option \<Rightarrow> bool" where
  "worker_leaves env fl p grants r \<longleftrightarrow> (\<exists>s s'.
     run_state (runWorker env (lf_ingressURL fl) (snd p) (lf_weights fl) grants (newWorkerResult (ii_id (fst p)))) s = (r, s'))"

text \<open>A negative number of issuers panics when the slice is made.\<close>

inductive load_run :: "('a, 'b) load_system \<Rightarrow> load_flags \<Rightarrow> load_outcome \<Rightarrow> bool" for sys fl where
  bad_urls: "ls_UnmarshalURLs sys (lf_shardRedisURLs fl) = None \<Longrightarrow> load_run sys fl BadShardRedisURLs"
| negative: "ls_UnmarshalURLs sys (lf_shardRedisURLs fl) = Some urls \<Longrightarrow> lf_numIssuers fl < 0 \<Longrightarrow> load_run sys fl LoadPanic"
| setup_failed: "ls_UnmarshalURLs sys (lf_shardRedisURLs fl) = Some urls \<Longrightarrow> 0 \<le> lf_numIssuers fl \<Longrightarrow>
    run_state (prepare (ls_setup sys) (lf_asURL fl) 0 (nat (lf_numIssuers fl))) s = (Inl e, s') \<Longrightarrow>
    load_run sys fl (SetupError e)"
| worker_panicked: "ls_UnmarshalURLs sys (lf_shardRedisURLs fl) = Some urls \<Longrightarrow> 0 \<le> lf_numIssuers fl \<Longrightarrow>
    run_state (prepare (ls_setup sys) (lf_asURL fl) 0 (nat (lf_numIssuers fl))) s = (Inr ps, s') \<Longrightarrow>
    p \<in> set ps \<Longrightarrow> worker_leaves (ls_env sys) fl p grants None \<Longrightarrow>
    load_run sys fl LoadPanic"
| finished: "ls_UnmarshalURLs sys (lf_shardRedisURLs fl) = Some urls \<Longrightarrow> 0 \<le> lf_numIssuers fl \<Longrightarrow>
    run_state (prepare (ls_setup sys) (lf_asURL fl) 0 (nat (lf_numIssuers fl))) s = (Inr ps, s') \<Longrightarrow>
    list_all2 (\<lambda>p r. \<exists>grants. worker_leaves (ls_env sys) fl p grants (Some r)) ps results \<Longrightarrow>
    run_state (conclude (lf_verify fl) (ls_connects sys (lf_postgresDSN fl)) (ls_parses sys) urls wallClock results) (w :: unit world) = ((e, out), w') \<Longrightarrow>
    load_run sys fl (LoadDone results e out)"

inductive_cases load_run_DoneE: "load_run sys fl (LoadDone results e out)"

section \<open>Properties\<close>

text \<open>A command line that is refused touches nothing.\<close>

lemma reassign_run_refused:
  assumes "newConfig (rf_issuer fl) (rf_from fl) (rf_to fl) (rf_dryRun fl) = Inl e \<or> \<not> connect (rf_postgresDSN fl) \<or> \<not> schema (rf_postgresDSN fl)"
  shows "\<exists>f. run_state (reassign_run connect schema fl) w = ((Some f, []), w)"
  using assms by (auto simp: reassign_run_def NewShardAssigner_def split: sum.splits)

text \<open>The tool moves issuers by permitted actions only.\<close>

lemma moves_reassign_run: "moves world_leads (reassign_run connect schema fl)"
  unfolding reassign_run_def by (intro moves_rules moves_reassign)

text \<open>The result of a worker is the one made for its issuer.\<close>

lemma worker_issuer:
  "run_state (runWorker env ingressURL token weights grants res) s = (Some res', s') \<Longrightarrow> wr_issuerID res' = wr_issuerID res"
proof (induction grants arbitrary: res s)
  case (Suc grants)
  obtain oper s1 where p: "run_state (pick env weights) s = (oper, s1)" by fastforce
  obtain start s2 where n: "run_state (le_Now env) s1 = (start, s2)" by fastforce
  obtain err res1 s3 where d: "run_state (doOp env ingressURL token oper res) s2 = ((err, res1), s3)" by (metis prod_cases3 surj_pair)
  obtain now s4 where e: "run_state (le_Now env) s3 = (now, s4)" by fastforce
  have "wr_issuerID res1 = wr_issuerID res" using doOp_counts[of res env ingressURL token oper s2] d by (simp add: same_counts_def)
  then show ?case using Suc.prems Suc.IH by (auto simp: p n d e split: if_splits)
qed simp

text \<open>
  A run that finishes reports on every issuer it was asked for, in order, and on every operation the limiter granted to
  any of them, and fails only when it was asked to verify.
\<close>

theorem load_run_is_accounted_for:
  assumes "load_run sys fl (LoadDone results e out)"
  shows "map wr_issuerID results = map issuer_name [0..<nat (lf_numIssuers fl)]
    \<and> (\<exists>grants. length grants = nat (lf_numIssuers fl)
         \<and> (\<Sum>row\<leftarrow>rp_rows (ro_report out). int (rw_ok row) + rw_errors row) + rp_skipped (ro_report out) = int (sum_list grants))
    \<and> (\<not> lf_verify fl \<longrightarrow> e = None)"
proof -
  obtain urls s ps s' wallClock and w w' :: "unit world" where
      prep: "run_state (prepare (ls_setup sys) (lf_asURL fl) 0 (nat (lf_numIssuers fl))) s = (Inr ps, s')"
    and left: "list_all2 (\<lambda>p r. \<exists>grants. worker_leaves (ls_env sys) fl p grants (Some r)) ps results"
    and concl: "run_state (conclude (lf_verify fl) (ls_connects sys (lf_postgresDSN fl)) (ls_parses sys) urls wallClock results) w = ((e, out), w')"
    using assms by (rule load_run_DoneE)
  have one: "wr_issuerID r = ii_id (fst p) \<and> worker_wf r \<and> counted_ops r = int g"
    if l: "worker_leaves (ls_env sys) fl p g (Some r)" for p g r
    using l worker_keys[OF newWorkerResult_wf(1)] newWorkerResult_wf(2) worker_issuer
    unfolding worker_leaves_def by (fastforce simp: newWorkerResult_def)
  from left have "map wr_issuerID results = map (ii_id \<circ> fst) ps \<and> (\<forall>r\<in>set results. worker_wf r)
      \<and> (\<exists>grants. length grants = length ps \<and> (\<Sum>r\<leftarrow>results. counted_ops r) = int (sum_list grants))"
  proof (induction rule: list_all2_induct)
    case (Cons p ps r rs)
    then obtain g grants where "worker_leaves (ls_env sys) fl p g (Some r)" "length grants = length ps"
      "(\<Sum>r\<leftarrow>rs. counted_ops r) = int (sum_list grants)" by blast
    with Cons one show ?case by (auto intro!: exI[of _ "g # grants"])
  qed simp
  moreover have "map (ii_id \<circ> fst) ps = map issuer_name [0..<nat (lf_numIssuers fl)]" using prepare_numbers[OF prep] by simp
  moreover from this have "length ps = nat (lf_numIssuers fl)" by (metis diff_zero length_map length_upt)
  moreover have "ro_report out = printReport results wallClock" "\<not> lf_verify fl \<Longrightarrow> e = None"
    using concl by (auto simp: conclude_def Let_def split: if_splits prod.splits)
  ultimately show ?thesis
    using merge_totals[of results] by (auto simp: printReport_def merged_total_def o_def)
qed

end
