(* ===== verification/Test_Support.thy ===== *)
theory Test_Support
  imports Go_Strings
begin

text \<open>
  The integration tests' containers, \<open>src/internal/testsupport/testsupport.go\<close>: code that acquires a
  resource and must give it back on every failure. The Docker client and the container library are an environment over
  a state of its own; a started container is handed out with its cleanup, which terminates it. A test is skipped,
  fails, or goes on.
\<close>

section \<open>Definitions\<close>

record ('s, 'c) container_env =
  ce_LookPath :: "string \<Rightarrow> ('s, string option) state"
  ce_Version :: "string \<Rightarrow> ('s, bool) state"
  ce_Run :: "string \<Rightarrow> ('s, 'c option) state"
  ce_ConnectionString :: "'c \<Rightarrow> string \<Rightarrow> ('s, string option) state"
  ce_Host :: "'c \<Rightarrow> ('s, string option) state"
  ce_MappedPort :: "'c \<Rightarrow> string \<Rightarrow> ('s, string option) state"
  ce_Terminate :: "'c \<Rightarrow> ('s, bool) state"

datatype 'c test_outcome =
    Skipped
  | Fatal string
  | Started string 'c

definition IsDockerAvailable :: "('s, 'c) container_env \<Rightarrow> ('s, bool) state" where
  "IsDockerAvailable env = do {
     p \<leftarrow> ce_LookPath env ''docker'';
     (case p of None \<Rightarrow> ret False | Some dockerPath \<Rightarrow> ce_Version env dockerPath)
   }"

text \<open>The cleanup ignores the error of \<open>Terminate\<close>.\<close>

definition cleanup :: "('s, 'c) container_env \<Rightarrow> 'c \<Rightarrow> ('s, unit) state" where
  "cleanup env ctr = do { _ \<leftarrow> ce_Terminate env ctr; ret () }"

definition StartPostgres :: "('s, 'c) container_env \<Rightarrow> ('s, 'c test_outcome) state" where
  "StartPostgres env = do {
     ok \<leftarrow> IsDockerAvailable env;
     if \<not> ok then ret Skipped
     else do {
       r \<leftarrow> ce_Run env ''postgres:16-alpine'';
       (case r of
          None \<Rightarrow> ret (Fatal ''start postgres container'')
        | Some ctr \<Rightarrow> do {
            c \<leftarrow> ce_ConnectionString env ctr ''sslmode=disable'';
            (case c of
               None \<Rightarrow> do { _ \<leftarrow> cleanup env ctr; ret (Fatal ''postgres connection string'') }
             | Some connStr \<Rightarrow> ret (Started connStr ctr))
          })
     }
   }"

definition StartRedis :: "('s, 'c) container_env \<Rightarrow> ('s, 'c test_outcome) state" where
  "StartRedis env = do {
     ok \<leftarrow> IsDockerAvailable env;
     if \<not> ok then ret Skipped
     else do {
       r \<leftarrow> ce_Run env ''redis:7-alpine'';
       (case r of
          None \<Rightarrow> ret (Fatal ''start redis container'')
        | Some ctr \<Rightarrow> do {
            h \<leftarrow> ce_Host env ctr;
            (case h of
               None \<Rightarrow> do { _ \<leftarrow> cleanup env ctr; ret (Fatal ''redis host'') }
             | Some host \<Rightarrow> do {
                 p \<leftarrow> ce_MappedPort env ctr ''6379/tcp'';
                 (case p of
                    None \<Rightarrow> do { _ \<leftarrow> cleanup env ctr; ret (Fatal ''redis mapped port'') }
                  | Some port \<Rightarrow> ret (Started (host @ '':'' @ port) ctr))
               })
          })
     }
   }"

section \<open>Nothing is left behind\<close>

text \<open>
  What the container library does to the running containers: starting one adds it, terminating one removes it, and
  asking changes none. (Of a start that failed nothing is known.)
\<close>

definition container_law :: "('s, 'c) container_env \<Rightarrow> ('s \<Rightarrow> 'c set) \<Rightarrow> bool" where
  "container_law env running \<longleftrightarrow>
     (\<forall>s x. running (after (ce_LookPath env x) s) = running s) \<and> (\<forall>s x. running (after (ce_Version env x) s) = running s)
   \<and> (\<forall>s img c. result (ce_Run env img) s = Some c \<longrightarrow>
        c \<notin> running s \<and> running (after (ce_Run env img) s) = insert c (running s))
   \<and> (\<forall>s c x. running (after (ce_ConnectionString env c x) s) = running s) \<and> (\<forall>s c. running (after (ce_Host env c) s) = running s)
   \<and> (\<forall>s c x. running (after (ce_MappedPort env c x) s) = running s) \<and> (\<forall>s c. running (after (ce_Terminate env c) s) = running s - {c})"

lemma container_steps:
  assumes "container_law env running"
  shows "run_state (ce_LookPath env x) s = (r1, s') \<Longrightarrow> running s' = running s"
    "run_state (ce_Version env x) s = (r2, s') \<Longrightarrow> running s' = running s"
    "run_state (ce_Run env x) s = (Some c, s') \<Longrightarrow> c \<notin> running s \<and> running s' = insert c (running s)"
    "run_state (ce_ConnectionString env c x) s = (r4, s') \<Longrightarrow> running s' = running s"
    "run_state (ce_Host env c) s = (r5, s') \<Longrightarrow> running s' = running s"
    "run_state (ce_MappedPort env c x) s = (r6, s') \<Longrightarrow> running s' = running s"
    "run_state (ce_Terminate env c) s = (r7, s') \<Longrightarrow> running s' = running s - {c}"
  using assms unfolding container_law_def by (metis fst_conv snd_conv)+

text \<open>
  \<open>balanced\<close>: a test that goes on has exactly the one container more that it was handed, which its cleanup removes; one
  that is skipped, or that fails once the container runs, has none more.
\<close>

definition balanced :: "('s \<Rightarrow> 'c set) \<Rightarrow> ('s, 'c) container_env \<Rightarrow> string \<Rightarrow> ('s, 'c test_outcome) state \<Rightarrow> bool" where
  "balanced running env not_started m \<longleftrightarrow> (\<forall>s. case result m s of
     Started _ c \<Rightarrow> running (after m s) = insert c (running s) \<and> running (after (cleanup env c) (after m s)) = running s
   | Skipped \<Rightarrow> running (after m s) = running s
   | Fatal msg \<Rightarrow> msg \<noteq> not_started \<longrightarrow> running (after m s) = running s)"

theorem no_container_left_behind:
  assumes "container_law env running"
  shows "balanced running env ''start postgres container'' (StartPostgres env)
    \<and> balanced running env ''start redis container'' (StartRedis env)"
proof -
  note steps = container_steps[OF assms]
  show ?thesis
    unfolding balanced_def StartPostgres_def StartRedis_def IsDockerAvailable_def cleanup_def
    by (auto split: prod.split option.split test_outcome.split dest!: steps)
qed

end
