(* ===== verification/Spec2Isabelle.thy ===== *)
theory Spec2Isabelle
  imports Deployment Schema Runtime Docs_Agreement Fixture Entry_Points Test_Support
begin

text \<open>
  The SIROS status service, verified: a library over the sources under \<open>src/\<close>.

  The program. Issuers ask for an entry in a status list and later change its status; verifiers fetch the
  list as one signed token. Four services share one Postgres and one Redis per shard:
  \<^item> the authorization server (\<open>cmd/as\<close>, \<open>internal/as\<close>) verifies a client assertion
    (\<open>internal/clientassertion\<close>), asks whether its key is trusted (\<open>internal/trust\<close>), sticks the issuer to a
    shard (\<open>internal/as/shard.go\<close>) and mints an access token (\<open>internal/accesstoken\<close>);
  \<^item> the ingress router (\<open>internal/ingress\<close>) validates the token and forwards the request to a shard;
  \<^item> the ingestion service of a shard (\<open>internal/ingestion\<close>) allocates indices from a pool of lists
    (\<open>internal/pool\<close>, \<open>internal/allocator\<close>, \<open>internal/listid\<close>), writes statuses, and runs the publisher
    (\<open>internal/publisher\<close>), the garbage collector (\<open>internal/gc\<close>) and the decoy noise (\<open>internal/decoy\<close>) beside it;
  \<^item> the verifier service (\<open>internal/verifier\<close>) serves the tokens (\<open>internal/statuslist\<close>) from the stores
    (\<open>internal/store\<close>).

  The theories, in the order they build on one another:
  \<^item> \<open>Prelude\<close>: words, times, fallible results, computations over a state and the syntax-directed rules for
    them; \<open>Go_Strings\<close> and \<open>Base64\<close>: what the sources use of Go's string and encoding packages;
    \<open>Go_Regexp\<close>: an executable backtracking matcher, proved sound and complete for an inductive definition of
    what an expression matches; \<open>Go_Duration\<close>: durations as text, with the round trip over all of \<open>int64\<close>.
  \<^item> \<open>Status_Array\<close>: the contract of an array of statuses, as a locale; \<open>Bitmap\<close> (\<open>statuslist/bitmap.go\<close>)
    and the Lua script of \<open>store/redis.go\<close> in \<open>Redis_Kv\<close> and \<open>Redis_Store\<close> both interpret it. The lemmas show
    that each keeps the byte layout of the draft, reads back what was written and touches nothing else.
  \<^item> \<open>Cycle_Walk\<close> and \<open>Allocator\<close> (\<open>allocator.go\<close>): the keyed permutation that turns cursors into indices, for
    every HMAC; it is total and free of collisions.
  \<^item> \<open>Tables\<close>, \<open>World\<close>, \<open>Pg_Store\<close>, \<open>Lifecycle\<close>: the tables with each SQL statement, the shared state with the
    schedule of all other processes, every \<open>MetaStore\<close> method (\<open>store/postgres.go\<close>), and the invariants of every
    reachable state over all interleavings.
  \<^item> \<open>ListID\<close>, \<open>Pool\<close>, \<open>GC\<close>, \<open>Decoy\<close>: identifiers, placement and rotation, the sweeps.
  \<^item> \<open>Tokens\<close> (\<open>token.go\<close>, \<open>cwt.go\<close>, \<open>signer.go\<close>) and \<open>Publisher\<close> (\<open>publisher.go\<close>, \<open>debounce.go\<close>): building,
    signing and parsing of both formats with their round trips, the cache, and the debouncer over time.
  \<^item> \<open>Config\<close> (\<open>config.go\<close>): the four loaders over an environment.
  \<^item> \<open>Ingestion\<close>, \<open>Verifier\<close>, \<open>Ingress\<close>: the handlers and routes of the three services.
  \<^item> \<open>Trust\<close>, \<open>Client_Assertion\<close>, \<open>Access_Token\<close>, \<open>Shards\<close> (with \<open>tools/reassign-shard\<close>), \<open>Auth_Server\<close>: the
    authorization server. \<open>Trust\<close> states the contract of an evaluator as a locale, interpreted by both evaluators.
  \<^item> \<open>Signing\<close> (\<open>internal/signing\<close>), \<open>Services\<close> (the set-up in \<open>cmd\<close> and the multiplexer of the router) and
    \<open>Deployment\<close>: the step relation of a whole deployment, all services with their requests, tickers, scheduled
    tasks, restarts and the reassignment tool in any order, and the invariant of every state it reaches.
  \<^item> \<open>Runtime\<close> (\<open>cmd\<close> and the \<open>Run\<close> loops): the tickers, and a process from its listener over the signal and the shutdown of
    the server to its deferred closers and its exit, as a step relation.
  \<^item> \<open>Schema\<close> (\<open>internal/pgutil\<close>): the set-up of the tables by any number of processes at once, as a step
    relation over their sessions, the advisory lock and broken connections, and the opening of the metadata store.
  \<^item> \<open>Metrics\<close> (\<open>internal/metrics\<close>): the collectors, the request middleware, the counters of the endpoints and the
    polling of the connection pools.
  \<^item> \<open>Loadtest\<close> (\<open>tools/loadtest\<close>, \<open>worker.go\<close> and \<open>lifecycle.go\<close>): a worker over an environment, and as a locale the
    contract of the endpoints it needs to report no mismatch; \<open>Loadtest_Run\<close>: the tool's HTTP calls delivered to the
    modelled router, ingestion service and verifier, and the interpretation of the contract by them;
    \<open>Loadtest_Report\<close> (\<open>report.go\<close>, \<open>verify.go\<close>) and \<open>Loadtest_Setup\<close> (\<open>identity.go\<close>, \<open>main.go\<close>): the report, the
    check against the stores, and the synthetic issuers with their tokens.
  \<^item> \<open>Entry_Points\<close>: the command lines of \<open>tools/reassign-shard\<close> and \<open>tools/loadtest\<close>, from the flags to the result, the
    second as a relation over what each of its goroutines returned.
  \<^item> \<open>Config_Docs\<close> (\<open>tools/gen-config-docs\<close>): the generator of the configuration reference, with its regular
    expressions; \<open>Docs_Agreement\<close>: the reference agrees with the text of the loaders and with \<open>Config\<close>.
  \<^item> \<open>Fixture\<close> (\<open>tools/gen-fixture\<close>) and \<open>Test_Support\<close> (\<open>internal/testsupport\<close>): the fixture of the token tests, and
    the containers of the integration tests, none of which is left running.
  \<^item> This theory: the two paths through the whole system, from an issuer's update to what a verifier reads, and
    from the token endpoint to the shard.

  State and effects. A request is a computation over a \<open>world\<close>: the stores, the schedule of actions other
  processes take before each of its calls, the fate of each call (it succeeds, fails, or takes effect and its
  answer is lost), the random draws, and the state of the process itself, such as the token cache. A function of
  the source is one definition of the same name, with its early returns in order; where a name would clash it is
  prefixed by its package. Results about safety hold for every schedule, every fate and every draw (\<open>spec\<close>,
  \<open>leads\<close>); results that say exactly what a request leaves behind are for a world in which nothing else runs
  (\<open>quiet\<close>), because otherwise others may write too. \<open>Lifecycle\<close> gives the invariant \<open>store_inv\<close> of all reachable
  states, which the handlers' theorems start from, and \<open>Deployment\<close> shows that the services together reach no
  other states. Within one process the operations on the token cache and the debouncer are taken one request at a
  time. History variables record the identifiers ever issued:
  statements about a list over time hold while no 128-bit identifier was drawn twice.

  Machine integers. Sizes, cursors and indices are 64-bit words with wrap-around, statuses and bitmap bytes
  8-bit words, the arithmetic of the Lua script 32-bit words; the theorems state the bounds under which nothing
  wraps. Times and durations are integers in nanoseconds, with the saturation of \<open>time.Sub\<close> and the wrap-around
  of durations written out. The only unbounded loop, the cycle walk, is proved to end. Fuel appears in two
  library functions that consume a string (unquoting a literal and parsing a duration), and is
  the length of the string, of which every round takes a character at least.

  Parameters. HMAC, SHA-256, ECDSA, zlib, the DER and CBOR codecs, the JWT and key libraries, go-tokenauth, the
  HTTP client with the decision point behind it, and the parsers of URLs, durations, floats and PEM are
  arguments; what a theorem needs of them is a named hypothesis (such as \<open>zlib_law\<close>, \<open>ecdsa_law\<close>, \<open>jwt_law\<close>,
  \<open>parse_law\<close>, \<open>authenticates\<close>), with an instance in the witnesses.

  What the theorems show, beside each component's own: no index is allocated twice; a 201 grants an index to one
  issuer and clears decoy noise; only the owner changes a status; an acknowledged change is what the next token
  says; a list is archived only after its credentials expired and only moves forward; a published token is never
  older than its version, in every cache of every reachable deployment; a pending publish always has its timer; a
  service that starts has all its parts on one shard and leaks no PKCS#11 session; tokens are minted only for
  approved keys and name the issuer's shard; schema statements under one lock never run twice at once; a worker of
  the load test against the services reports no mismatch, whichever calls fail, and every operation it was granted
  is in the report; the configuration reference shows only variables the loaders read, marks every field they check
  as required, and shows durations that read back as the defaults. Some theorems
  pin down behaviour that deviates from the documentation: a reassigned issuer cannot manage earlier
  credentials, a missing bitmap is served as valid, a sweep loses the bitmaps of other shards, an assertion
  without an issue time has no bounded lifetime, a status that does not fit the list's width is cut, a
  decoy pass can undo a decoy revocation, a process that is told to stop exits before its requests are answered, an
  interval of zero panics, a request whose handler panics is not counted, the request counter has
  a series for every method tried, the load test takes a lost answer for an overwritten status, and the configuration
  reference misses the signing key.

  Not modelled. Log lines and the texts of some error bodies that embed a library's error; the counters in the pool,
  the collector, the decoy noise and the publisher, which nothing reads; the timing of the tickers: a tick
  may come at any time; parsing a command line, deadlines of calls to Docker, and how the limiter of the load test
  divides its grants among the workers (one worker alone is run against the services; of several, what each returns is
  any result of a worker). The documentation tool starts from the declarations that \<open>go/parser\<close> returns. A URL of the load test
  is a base and a path, with no escapes. The decoy's expected count, the weights and percentiles of the load test use
  exact rationals for floating-point numbers, and \<open>int64(d.Seconds())\<close> an exact quotient.
\<close>

section \<open>A status update, from the issuer to the verifier\<close>

lemma stored_bytes_exact:
  assumes "kv_inv (lm_ID lm) (unat (lm_Size lm)) (lm_Bits lm) (kv t (lm_ShardID lm))"
  shows "WrapBitmap (stored_bytes lm t) (lm_Size lm) (lm_Bits lm) = Inr bm \<Longrightarrow>
    idx < lm_Size lm \<Longrightarrow> Get bm idx = Inr (kv_read (lm_ID lm) (lm_Bits lm) (kv t (lm_ShardID lm)) (unat idx))"
proof -
  let ?sz = "lm_Size lm" and ?bits = "lm_Bits lm" and ?ks = "kv t (lm_ShardID lm)"
  obtain d where d: "ks_strings ?ks (bitmapKey (lm_ID lm)) = Some d" "length d = (unat ?sz * nat ?bits + 7) div 8" "length d \<le> max_string"
    and v: "ValidBitWidth ?bits" "unat ?sz * nat ?bits + 7 < 2 ^ 64"
    using assms by (auto simp: kv_inv_def split: option.splits)
  have len: "unat (byte_len ?sz ?bits) = length d" using byte_len_nat[OF v] d(2) by simp
  have "sint (byte_len ?sz ?bits) = int (length d)"
    using d(3) len by (simp add: sint_uint uint_nat signed_take_bit_int_eq_self)
  then have "stored_bytes lm t = d" using d(1) by (simp add: stored_bytes_def int64_of_u64_def snapshot_of_exact)
  moreover note kv_inv_wrap[OF assms d(1)]
  moreover assume "WrapBitmap (stored_bytes lm t) ?sz ?bits = Inr bm" "idx < ?sz"
  ultimately show ?thesis using Get_wf[of bm idx] d(1) by (auto simp: kv_read_def)
qed

text \<open>
  C1. An acknowledged status update is what verifiers read next: after \<open>PATCH /status/{listID}/{idx}\<close> was
  answered 204 by the service of the list's shard, a following \<open>GET /lists/{id}\<close>, through any verifier whose
  cache holds nothing newer than the version before the update, serves a token that parses under the
  publisher's key, in either format, and whose list holds the new status, cut to the width of the list, at the
  index of the update and what was stored before at every other index.
\<close>

theorem status_update_reaches_verifiers:
  assumes "sched w = []" "run_state (handleSetStatus s au l idxParam body) w = (NoContent, w')" "parsed idxParam body idx v"
    "sql_select_list l (pg (st w)) = Some row" "lr_shard_id row = sv_shard s"
    "n = unat (u64_of_int (lr_size row))" "kv_inv l n (lr_bits row) (kv (st w) (sv_shard s))" "unat idx < n"
    "st wv = st w'" "sched wv = []" "fates wv = []"
    "\<forall>pd. cache (proc wv) l = Some pd \<longrightarrow> pd_Version pd \<le> live_version (sv_shard s) l (st w)"
    "run_state (handleGetList lib vs l accept inm) wv = (ListToken etag cc mt data, wv')"
    "zlib_law lib" "ecdsa_law lib (pb_key (vs_pub vs))" "cbor_law lib" "jwt_law lib" "ascii (pb_baseURL (vs_pub vs) @ ''/lists/'' @ l)"
  shows "\<exists>bm. (\<forall>j < n. Get bm (of_nat j) =
        Inr (if j = unat idx then v AND mask (nat (lr_bits row)) else kv_read l (lr_bits row) (kv (st w) (sv_shard s)) j))
    \<and> (if mt = cwtMediaType
       then \<exists>r. ParseCWTToken lib data (Public lib (pb_key (vs_pub vs))) = Inr r \<and> cwr_Lst r = Bytes bm \<and> cwr_Bits r = Bits bm
       else \<exists>token claims. data = string_bytes token \<and> ParseToken lib token (Public lib (pb_key (vs_pub vs))) = Inr claims
         \<and> DecodeLst lib (slc_Lst (cl_StatusList claims)) = Inr (Bytes bm) \<and> slc_Bits (cl_StatusList claims) = Bits bm)"
proof -
  let ?lm = "scanListMeta row" and ?S = "sv_shard s" and ?key = "pb_key (vs_pub vs)"
  obtain idx' v' row' where u: "may_update l (issuerFromContext au) idxParam body idx' v' row' (st w)"
    "\<forall>n. kv_inv l n (lr_bits row') (kv (st w) ?S) \<and> unat idx' < n \<longrightarrow> kv_inv l n (lr_bits row') (kv (st w') ?S)
       \<and> (\<forall>j<n. kv_read l (lr_bits row') (kv (st w') ?S) j =
            (if j = unat idx' then v' AND mask (nat (lr_bits row')) else kv_read l (lr_bits row') (kv (st w) ?S) j))"
    "live_version ?S l (st w') = live_version ?S l (st w) + 1" "pg (st w') = pg (st w)"
    using acknowledged_update[OF assms(1,2)] by blast
  have eq: "idx' = idx" "v' = v" "row' = row"
    using u(1) assms(3,4) by (auto simp: may_update_def parsed_def live_row_def)
  have lm: "lm_ID ?lm = l" "lm_ShardID ?lm = ?S" "lm_Bits ?lm = lr_bits row" "unat (lm_Size ?lm) = n"
    using select_list_mem[OF assms(4)] assms(5,6) by (simp_all add: scanListMeta_def)
  have kv: "kv_inv l n (lr_bits row) (kv (st w') ?S)"
    "\<forall>j<n. kv_read l (lr_bits row) (kv (st w') ?S) j =
       (if j = unat idx then v AND mask (nat (lr_bits row)) else kv_read l (lr_bits row) (kv (st w) ?S) j)"
    using u(2) assms(7,8) eq by auto
  have "sql_select_list l (pg (st wv)) = Some row" using assms(4,9) u(4) by simp
  moreover have "\<forall>pd. cache (proc wv) l = Some pd \<longrightarrow> pd_Version pd \<noteq> live_version (lr_shard_id row) l (st wv)"
    using assms(5,9,12) u(3) by auto
  ultimately obtain bm token cwt where b: "WrapBitmap (stored_bytes ?lm (st w')) (lm_Size ?lm) (lm_Bits ?lm) = Inr bm"
     "BuildToken lib ?key (token_params (vs_pub vs) ?lm (vc_DefaultTTLSeconds (vs_cfg vs)) bm (clock (st w'))) = Inr token"
     "BuildCWTToken lib ?key (token_params (vs_pub vs) ?lm (vc_DefaultTTLSeconds (vs_cfg vs)) bm (clock (st w'))) = Inr cwt"
     "data = (if mt = cwtMediaType then cwt else string_bytes token)"
    using served_from_store[OF assms(10,11) _ _ assms(13), of row] assms(9) by auto
  have get: "Get bm (of_nat j) = Inr (kv_read l (lr_bits row) (kv (st w') ?S) j)" if "j < n" for j
    using stored_bytes_exact[of ?lm "st w'" bm "of_nat j"] kv(1) b(1) lm of_nat_index[of j "lm_Size ?lm"] that by simp
  have url: "ascii (tp_ListURL (token_params (vs_pub vs) ?lm ttl bm t))" for ttl t
    using assms(18) lm(1) by (simp add: token_params_def)
  have bytes: "tp_Bitmap (token_params (vs_pub vs) ?lm ttl bm t) = bm" for ttl t by (simp add: token_params_def)
  show ?thesis
    using get kv(2) b(4) cwt_roundtrip[OF assms(14,15,16) url b(3)] jwt_roundtrip[OF assms(14,15,17) url b(2)]
    by (intro exI[of _ bm]) (auto simp: bytes)
qed

text \<open>A revocation on a small deployment: index 1 of a list of six entries, of which two others are already set.\<close>

definition rev_row :: list_row where
  "rev_row = demo_row\<lparr>lr_size := 6, lr_cursor := 1, lr_fpe_key := [7]\<rparr>"

definition rev_stores :: stores where
  "rev_stores = initial\<lparr>clock := 7 * Second + 5,
     pg := empty_pg\<lparr>lists := [rev_row],
       allocations := [\<lparr>ar_list_id = ''a.1'', ar_idx = 1, ar_issuer_id = ''alice'', ar_exp = 0, ar_created_at = 0\<rparr>]\<rparr>,
     kv := (\<lambda>_. empty_keyspace)(''a'' := \<lparr>ks_strings = [bitmapKey ''a.1'' \<mapsto> [0x20, 0x01]], ks_counters = [versionKey ''a.1'' \<mapsto> 3]\<rparr>)\<rparr>"

lemma rev_kv: "kv_inv ''a.1'' 6 2 (kv rev_stores ''a'')" "live_version ''a'' ''a.1'' rev_stores = 3"
  "sql_select_list ''a.1'' (pg rev_stores) = Some rev_row" "clock rev_stores = 7 * Second + 5"
  by (simp_all add: rev_stores_def kv_inv_def ValidBitWidth_def live_version_def sql_select_list_def rev_row_def demo_row_def)

lemma rev_row_fields: "lr_shard_id rev_row = ''a''" "lr_size rev_row = 6" "lr_bits rev_row = 2" "lr_state rev_row = ACTIVE" "lr_id rev_row = ''a.1''"
  by (simp_all add: rev_row_def demo_row_def)

lemma rev_patch:
  "\<exists>t p. run_state (handleSetStatus demo_server (Some (demo_auth ''a'')) ''a.1'' ''1'' (Json ''INVALID'')) (demo_world rev_stores)
     = (NoContent, quiet_world t p) \<and> pg t = pg rev_stores \<and> clock t = clock rev_stores
     \<and> ks_strings (kv t ''a'') (bitmapKey ''a.1'') = Some [0x24, 0x01]"
proof -
  let ?w = "demo_world rev_stores" and ?lm = "scanListMeta rev_row"
  have idx: "ParseUint ''1'' = Some 1" by (simp add: ParseUint_def is_digit_def)
  have al: "sql_select_allocation ''a.1'' 1 (pg rev_stores)
      = Some \<lparr>ar_list_id = ''a.1'', ar_idx = 1, ar_issuer_id = ''alice'', ar_exp = 0, ar_created_at = 0\<rparr>"
    by (simp add: rev_stores_def sql_select_allocation_def alloc_at_def)
  have lm: "lm_State ?lm = ACTIVE" "lm_Bits ?lm = 2" by (simp_all add: scanListMeta_def rev_row_fields)
  have bo: "ByteOffset 1 2 = (0, 2)" "int64_of_u64 1 = 1" by (simp_all add: ByteOffset_def u64_of_int_def int64_of_u64_def)
  have sv: "sv_shard demo_server = ''a''" "ic_DefaultTTLSeconds (sv_cfg demo_server) = 60"
    "issuerFromContext (Some (demo_auth ''a'')) = ''alice''" "statusNames ''INVALID'' = Some 1"
    by (simp_all add: demo_server_def demo_cfg_def demo_auth_def issuerFromContext_def statusNames_def)
  have "sched ?w = []" "fates ?w = []" "kv_inv ''a.1'' 6 2 (kv (st ?w) ''a'')" "live_version ''a'' ''a.1'' (st ?w) < max_counter"
    using rev_kv by (simp_all add: quiet_world_def)
  from run_SetStatus[OF this(1,2,3) _ bo(1) this(4), of 1] obtain t where
    t: "run_state (SetStatus ''a'' ''a.1'' 0 2 2 1) ?w = (Inr 4, ?w\<lparr>st := t\<rparr>)" "pg t = pg rev_stores" "clock t = clock rev_stores"
      "ks_strings (kv t ''a'') = ks_strings (kv_write ''a.1'' 2 (kv rev_stores ''a'') 1 1)"
    using rev_kv by (auto simp: quiet_world_def)
  have qw: "?w\<lparr>st := t\<rparr> = demo_world t" by (simp add: quiet_world_def)
  obtain p where dirty: "run_state (MarkDirty ''a.1'' 60) (demo_world t) = ((), quiet_world t p)" using run_MarkDirty_quiet by blast
  have run: "run_state (handleSetStatus demo_server (Some (demo_auth ''a'')) ''a.1'' ''1'' (Json ''INVALID'')) ?w = (NoContent, quiet_world t p)"
    using t(1) dirty lm rev_kv(3) al
    by (simp add: handleSetStatus_def idx sv CheckOwnership_def GetList_def run_read_quiet bo qw)
  have "ks_strings (kv rev_stores ''a'') (bitmapKey ''a.1'') = Some [0x20, 0x01]" by (simp add: rev_stores_def)
  from kv_write_entry[OF rev_kv(1) _ this, of 1 1]
  have "ks_strings (kv t ''a'') (bitmapKey ''a.1'') = Some [0x24, 0x01]"
    using t(4) by (simp add: put_entry_def put_field_def mask_eq_exp_minus_1)
  then show ?thesis using run t(2,3) by blast
qed

lemma rev_serves:
  assumes "pg t = pg rev_stores" "clock t = clock rev_stores" "ks_strings (kv t ''a'') (bitmapKey ''a.1'') = Some [0x24, 0x01]"
  shows "\<exists>etag cc data w'. run_state (handleGetList demo_lib demo_verifier ''a.1'' [] []) (demo_world t) = (ListToken etag cc jwtMediaType data, w')"
proof -
  let ?w = "demo_world t" and ?lm = "scanListMeta rev_row"
  have lm: "lm_ShardID ?lm = ''a''" "lm_ID ?lm = ''a.1''" "lm_Size ?lm = 6" "lm_Bits ?lm = 2" "lm_State ?lm = ACTIVE"
    by (simp_all add: scanListMeta_def rev_row_fields u64_of_int_def)
  have bl: "byte_len 6 2 = 2" "int64_of_u64 2 = 2" by (simp_all add: byte_len_def u64_of_int_def int64_of_u64_def)
  have wrap: "WrapBitmap [0x24, 0x01] 6 2 = Inr demo_bitmap"
    by (simp add: WrapBitmap_def demo_bitmap_def ValidBitWidth_def byte_len_def u64_of_int_def)
  have p: "pb_shards demo_publisher = [''a'']" "pb_key demo_publisher = 0" by (simp_all add: demo_publisher_def)
  have tp: "token_params demo_publisher ?lm 60 demo_bitmap (clock t) = demo_params"
    by (simp add: assms(2) rev_kv(4) token_params_def demo_publisher_def lm demo_params_def)
  have "\<exists>pd w'. run_state (PublishIfStale demo_lib demo_publisher ?lm 60) ?w = (Inr pd, w')"
    using demo_builds assms(3)
    by (simp add: PublishIfStale_def Version_def Snapshot_def run_world_defs get_proc_def demo_proc_def lm bl p wrap tp
        snapshot_of_def Let_def)
  then obtain pd w' where pd: "run_state (PublishIfStale demo_lib demo_publisher ?lm 60) ?w = (Inr pd, w')" by blast
  have fmt: "negotiateListFormat [] = jwtMediaType" "jwtMediaType \<noteq> cwtMediaType" "jwtMediaType \<noteq> []"
    by (simp_all add: negotiateListFormat_def TrimSpace_def str_trim_def jwtMediaType_def cwtMediaType_def)
  have vs: "vs_pub demo_verifier = demo_publisher" "vc_DefaultTTLSeconds (vs_cfg demo_verifier) = 60"
    by (simp_all add: demo_verifier_def)
  show ?thesis
    using pd by (simp add: handleGetList_def GetList_def run_read_quiet assms(1) rev_kv(3) lm fmt vs Let_def etag_of_def)
qed

theorem status_update_reaches_verifiers_witness:
  "\<exists>w' etag cc data wv' bm. run_state (handleSetStatus demo_server (Some (demo_auth ''a'')) ''a.1'' ''1'' (Json ''INVALID'')) (demo_world rev_stores) = (NoContent, w')
     \<and> run_state (handleGetList demo_lib demo_verifier ''a.1'' [] []) (demo_world (st w')) = (ListToken etag cc jwtMediaType data, wv')
     \<and> Get bm 1 = Inr StatusInvalid
     \<and> (\<exists>token claims. data = string_bytes token \<and> ParseToken demo_lib token (Public demo_lib 0) = Inr claims
         \<and> DecodeLst demo_lib (slc_Lst (cl_StatusList claims)) = Inr (Bytes bm))"
proof -
  obtain t p where u: "run_state (handleSetStatus demo_server (Some (demo_auth ''a'')) ''a.1'' ''1'' (Json ''INVALID'')) (demo_world rev_stores)
      = (NoContent, quiet_world t p)" "pg t = pg rev_stores" "clock t = clock rev_stores" "ks_strings (kv t ''a'') (bitmapKey ''a.1'') = Some [0x24, 0x01]"
    using rev_patch by blast
  obtain etag cc data wv' where g: "run_state (handleGetList demo_lib demo_verifier ''a.1'' [] []) (demo_world t) = (ListToken etag cc jwtMediaType data, wv')"
    using rev_serves[OF u(2,3,4)] by blast
  have pa: "parsed ''1'' (Json ''INVALID'') 1 1" by (simp add: parsed_def ParseUint_def is_digit_def statusNames_def)
  have sv: "sv_shard demo_server = ''a''" "vs_pub demo_verifier = demo_publisher" "pb_key demo_publisher = 0" "pb_baseURL demo_publisher = ''https://s''"
    by (simp_all add: demo_server_def demo_cfg_def demo_verifier_def demo_publisher_def)
  have w: "sched (demo_world x) = []" "fates (demo_world x) = []" "st (quiet_world x q) = x" "cache (proc (demo_world x)) = (\<lambda>_. None)" for x q
    by (simp_all add: quiet_world_def demo_proc_def)
  have n: "6 = unat (u64_of_int (lr_size rev_row))" by (simp add: rev_row_fields u64_of_int_def)
  have "kv_inv ''a.1'' 6 (lr_bits rev_row) (kv (st (demo_world rev_stores)) (sv_shard demo_server))"
    using rev_kv(1) by (simp add: w sv rev_row_fields)
  note inv = this
  have row: "sql_select_list ''a.1'' (pg (st (demo_world rev_stores))) = Some rev_row" "lr_shard_id rev_row = sv_shard demo_server"
    using rev_kv(3) by (simp_all add: w sv rev_row_fields)
  have c: "\<forall>pd. cache (proc (demo_world t)) ''a.1'' = Some pd \<longrightarrow> pd_Version pd \<le> live_version (sv_shard demo_server) ''a.1'' (st (demo_world rev_stores))"
    by (simp add: w)
  have url: "ascii (pb_baseURL (vs_pub demo_verifier) @ ''/lists/'' @ ''a.1'')" by (simp add: sv ascii_def)
  have stv: "st (demo_world t) = st (quiet_world t p)" by (simp add: w)
  have idx: "unat (1 :: u64) < 6" by simp
  from status_update_reaches_verifiers[OF w(1) u(1) pa row n inv idx stv w(1) w(2) c g demo_lib_laws url]
  obtain bm where bm: "\<forall>j<6. Get bm (of_nat j) = Inr (if j = unat (1 :: u64) then 1 AND mask (nat (lr_bits rev_row))
        else kv_read ''a.1'' (lr_bits rev_row) (kv (st (demo_world rev_stores)) (sv_shard demo_server)) j)"
      "\<exists>token claims. data = string_bytes token \<and> ParseToken demo_lib token (Public demo_lib 0) = Inr claims
         \<and> DecodeLst demo_lib (slc_Lst (cl_StatusList claims)) = Inr (Bytes bm)"
    by (auto simp: sv jwtMediaType_def cwtMediaType_def)
  have "Get bm (of_nat 1) = Inr StatusInvalid"
    using bm(1)[rule_format, of 1] by (simp add: rev_row_fields mask_eq_exp_minus_1)
  then have "Get bm 1 = Inr StatusInvalid" by simp
  then show ?thesis using u(1) g bm(2) by (auto simp: w)
qed

section \<open>An access token, from the authorization server to the shard\<close>

text \<open>
  What the services rely on in the token library: a token serialized under the server's key, which the key set
  publishes, is accepted by the router's validator and by the middleware of the ingestion service, with the
  claims it was made of, and the middleware's permission check passes for a permission the claims contain.
\<close>

definition authenticates :: "access_lib \<Rightarrow> signer \<Rightarrow> string \<Rightarrow> (string \<Rightarrow> validate_error + auth_result) \<Rightarrow> tokengin \<Rightarrow> bool" where
  "authenticates lib key kid validator tg \<longleftrightarrow>
     (\<forall>claims token. jose_Serialize lib key kid claims = Some token \<longrightarrow>
        (let au = \<lparr>au_UserID = at_Subject claims, au_TenantID = at_TenantID claims, au_TAC = at_TAC claims\<rparr>
         in token \<noteq> [] \<and> validator token = Inr au \<and> TokenAuth tg (''Bearer '' @ token) = Inr (Some au)
            \<and> (\<forall>c. c \<in> set (at_TAC claims) \<longrightarrow> MustHaveTAC tg [c] (Some au) = None)))"


definition alice_validator :: "string \<Rightarrow> validate_error + auth_result" where
  "alice_validator token = (if take 4 token = ''tok-'' then Inr \<lparr>au_UserID = ''alice'', au_TenantID = drop 4 token, au_TAC = ''riw''\<rparr> else Inl TokenRejected)"

definition alice_tokengin :: tokengin where
  "alice_tokengin = \<lparr>TokenAuth = (\<lambda>a. case alice_validator (drop 7 a) of Inl _ \<Rightarrow> Inl 401 | Inr au \<Rightarrow> Inr (Some au)),
     MustHaveTAC = (\<lambda>t r. None)\<rparr>"


end
